(* ===== verification/Prelude.thy ===== *)
theory Prelude
  imports Main "HOL-Library.Word" "HOL-Library.Sublist"
begin

text \<open>
  Shared vocabulary of the development: the machine types of the C code, results of calls
  that may end the process (\<open>rbind\<close>, \<open>yields\<close>), and the generic lemmas on
  words and lists that the component theories use.

  A C function that may call \<open>exit\<close> is a function into a sum: \<open>Inl\<close> holds the way the
  process ended, \<open>Inr\<close> the returned value.
\<close>

section \<open>Machine types\<close>

type_synonym size_t = "64 word"
type_synonym byte = "8 word"

text \<open>A NUL-terminated C string is the list of the bytes before its NUL.\<close>

type_synonym cstr = "byte list"

text \<open>Character constants, at any numeric type: the code compares them as \<open>int\<close> and as \<open>char\<close>.\<close>

abbreviation cTAB :: "'a::numeral" where "cTAB \<equiv> 9"
abbreviation cNL :: "'a::numeral" where "cNL \<equiv> 10"
abbreviation cSPACE :: "'a::numeral" where "cSPACE \<equiv> 32"
abbreviation cDQUOTE :: "'a::numeral" where "cDQUOTE \<equiv> 34"
abbreviation cQUOTE :: "'a::numeral" where "cQUOTE \<equiv> 39"
abbreviation cBACKSLASH :: "'a::numeral" where "cBACKSLASH \<equiv> 92"

section \<open>Collections\<close>

named_theorems yields_intro "introduction rules for yields, one per operation"
named_theorems size_simps "unat of the size_t arithmetic that does not wrap"

section \<open>Results that may stop the process\<close>

definition rbind :: "'e + 'a \<Rightarrow> ('a \<Rightarrow> 'e + 'b) \<Rightarrow> 'e + 'b" where
  "rbind m k = (case m of Inl e \<Rightarrow> Inl e | Inr x \<Rightarrow> k x)"

lemma rbind_simps [simp]:
  "rbind (Inl e) k = Inl e"
  "rbind (Inr x) k = k x"
  by (simp_all add: rbind_def)

lemma rbind_Inr_iff: "rbind m k = Inr y \<longleftrightarrow> (\<exists>x. m = Inr x \<and> k x = Inr y)"
  by (cases m) auto

lemma rbind_Inl_iff: "rbind m k = Inl e \<longleftrightarrow> m = Inl e \<or> (\<exists>x. m = Inr x \<and> k x = Inl e)"
  by (cases m) auto

lemma rbind_cong [fundef_cong]:
  "m = m' \<Longrightarrow> (\<And>x. m' = Inr x \<Longrightarrow> k x = k' x) \<Longrightarrow> rbind m k = rbind m' k'"
  by (cases m') auto

lemma rbind_assoc: "rbind (rbind m k) l = rbind m (\<lambda>x. rbind (k x) l)"
  by (cases m) auto

lemma rbind_Inr_right [simp]: "rbind m Inr = m"
  by (cases m) auto

text \<open>
  \<open>yields S m Q\<close>: the call \<open>m\<close> either returns a value satisfying \<open>Q\<close> or ends the process
  in one of the ways \<open>S\<close>. \<open>yields {} m Q\<close> is total correctness.
\<close>

definition yields :: "'e set \<Rightarrow> 'e + 'a \<Rightarrow> ('a \<Rightarrow> bool) \<Rightarrow> bool" where
  "yields S m Q = (case m of Inl e \<Rightarrow> e \<in> S | Inr x \<Rightarrow> Q x)"

lemma yields_Inl [simp]: "yields S (Inl e) Q \<longleftrightarrow> e \<in> S"
  by (simp add: yields_def)

lemma yields_Inr [simp]: "yields S (Inr x) Q \<longleftrightarrow> Q x"
  by (simp add: yields_def)

lemma yields_rbind [simp]: "yields S (rbind m k) Q \<longleftrightarrow> yields S m (\<lambda>x. yields S (k x) Q)"
  by (cases m) simp_all

lemma yields_mono:
  "yields S m P \<Longrightarrow> S \<subseteq> T \<Longrightarrow> (\<And>x. m = Inr x \<Longrightarrow> P x \<Longrightarrow> Q x) \<Longrightarrow> yields T m Q"
  by (cases m) auto

lemma yields_conseq: "yields S m P \<Longrightarrow> (\<And>x. P x \<Longrightarrow> Q x) \<Longrightarrow> yields S m Q"
  by (erule yields_mono) auto

lemma yields_rbindI:
  "yields S m P \<Longrightarrow> (\<And>x. P x \<Longrightarrow> yields S (k x) Q) \<Longrightarrow> yields S (rbind m k) Q"
  unfolding yields_rbind by (rule yields_conseq)

lemma yieldsD: "yields S m Q \<Longrightarrow> m = Inr x \<Longrightarrow> Q x"
  by simp

lemma yields_empty: "yields {} m Q \<longleftrightarrow> (\<exists>x. m = Inr x \<and> Q x)"
  by (cases m) auto

lemma yields_if: "yields S (if b then m else n) Q \<longleftrightarrow>
    (b \<longrightarrow> yields S m Q) \<and> (\<not> b \<longrightarrow> yields S n Q)"
  by simp

section \<open>Lists\<close>

lemma take_eq_map_Some_snoc:
  assumes "take n b = map Some xs" and "n < length b"
  shows "take (Suc n) (b[n := Some x]) = map Some (xs @ [x])"
  using assms by (simp add: take_Suc_conv_app_nth)

lemma map_the_map_Some [simp]: "map (the \<circ> Some) xs = xs"
  by (simp add: comp_def)

lemma takeWhile_snoc_stop:
  "\<not> P x \<Longrightarrow> takeWhile P (xs @ [x]) = takeWhile P xs"
  by (induction xs) auto

section \<open>Words\<close>

definition SIZE_MAX :: size_t where
  "SIZE_MAX = 18446744073709551615"

lemma unat_SIZE_MAX [simp]: "unat SIZE_MAX = 18446744073709551615"
  by (simp add: SIZE_MAX_def)

lemma size_t_bound: "unat (x :: size_t) \<le> 18446744073709551615"
  using unsigned_less [of x, where 'a = nat] by simp

lemma unat_add_size [size_simps]:
  "unat a + unat b < 2 ^ 64 \<Longrightarrow> unat (a + b :: size_t) = unat a + unat b"
  by (simp add: unat_word_ariths)

lemma unat_Suc_size [size_simps]:
  "unat a < 2 ^ 64 - 1 \<Longrightarrow> unat (a + 1 :: size_t) = Suc (unat a)"
  by (simp add: unat_word_ariths)

lemma unat_mult_size [size_simps]:
  "unat a * unat b < 2 ^ 64 \<Longrightarrow> unat (a * b :: size_t) = unat a * unat b"
  by (simp add: unat_word_ariths)

lemma unat_of_nat_size [size_simps]:
  "n < 2 ^ 64 \<Longrightarrow> unat (of_nat n :: size_t) = n"
  by (simp add: unat_of_nat take_bit_nat_eq_self)

lemma size_less_unat: "(a :: size_t) < b \<longleftrightarrow> unat a < unat b"
  by (rule word_less_nat_alt)

lemma size_le_unat: "(a :: size_t) \<le> b \<longleftrightarrow> unat a \<le> unat b"
  by (rule word_le_nat_alt)

lemma size_eq_unat: "(a :: size_t) = b \<longleftrightarrow> unat a = unat b"
  by (simp add: word_unat_eq_iff)

text \<open>The measure of a loop \<open>for (i = ...; i < n; ++i)\<close> over \<open>size_t\<close>.\<close>

lemma size_up_Suc: "i < n \<Longrightarrow> unat (i + 1 :: size_t) = Suc (unat i)"
  using size_t_bound [of n] by (simp add: size_less_unat unat_Suc_size)

lemma size_up_decreases:
  "i < n \<Longrightarrow> unat n - unat (i + 1 :: size_t) < unat n - unat i"
  by (simp add: size_up_Suc size_less_unat)

lemma uint_byte_eq [simp]:
  "uint (c :: byte) = cTAB \<longleftrightarrow> c = cTAB"
  "uint (c :: byte) = cNL \<longleftrightarrow> c = cNL"
  "uint (c :: byte) = cSPACE \<longleftrightarrow> c = cSPACE"
  "uint (c :: byte) = cDQUOTE \<longleftrightarrow> c = cDQUOTE"
  "uint (c :: byte) = cQUOTE \<longleftrightarrow> c = cQUOTE"
  "uint (c :: byte) = cBACKSLASH \<longleftrightarrow> c = cBACKSLASH"
  by (simp_all add: word_uint_eq_iff)

lemma uint_byte_inject [simp]: "uint (c :: byte) = uint d \<longleftrightarrow> c = d"
  by (simp add: word_uint_eq_iff)

lemma sint_byte: "sint (c :: byte) = (if uint c < 128 then uint c else uint c - 256)"
proof -
  have u: "0 \<le> uint c" "uint c < 256" using uint_ge_0 [of c] uint_bounded [of c] by simp_all
  have "sint c = (uint c + 128) mod 256 - 128"
    by (simp add: sint_uint signed_take_bit_eq_take_bit_shift take_bit_eq_mod)
  also have "\<dots> = (if uint c < 128 then uint c else uint c - 256)"
  proof (cases "uint c < 128")
    case False
    have "(uint c + 128) mod 256 = (uint c - 128 + 256) mod 256"
      by (rule arg_cong [where f = "\<lambda>k. k mod 256"]) simp
    also have "\<dots> = uint c - 128" using u False by (simp only: mod_add_self2) simp
    finally show ?thesis using False by simp
  qed (use u in simp)
  finally show ?thesis .
qed

lemma unat_word_of_int_size:
  assumes "0 \<le> v" and "v < 2 ^ 64"
  shows "unat (word_of_int v :: size_t) = nat v"
proof -
  have "(word_of_int v :: size_t) = of_nat (nat v)" using assms(1) by simp
  moreover have "nat v < 2 ^ 64" using assms by simp
  ultimately show ?thesis by (simp only: unat_of_nat_size)
qed

lemma sint_size_small: "unat (x :: size_t) < 2 ^ 63 \<Longrightarrow> sint x = int (unat x)"
proof -
  assume x: "unat x < 2 ^ 63"
  then have "int (unat x) < int (2 ^ 63)" by (simp only: of_nat_less_iff)
  then have "uint x < 2 ^ 63" by simp
  moreover have "- (2 ^ 63) \<le> uint x" by (rule order_trans [OF _ uint_ge_0]) simp
  ultimately have "signed_take_bit 63 (uint x) = uint x"
    by (intro signed_take_bit_int_eq_self)
  then show ?thesis by (simp add: sint_uint)
qed

end
