(* ===== verification/Util.thy ===== *)
theory Util
  imports Prelude
begin

text \<open>
  Models \<^verbatim>\<open>src/util.c\<close> and \<^verbatim>\<open>src/util.h\<close>: the wrappers that end the process when an allocation
  or \<open>sysconf\<close> fails, capacity doubling, and the ways the process can stop. Memory
  is a block of cells, each initialised (\<open>Some\<close>) or indeterminate (\<open>None\<close>); a read
  of an indeterminate cell or an access outside the block is \<open>Undefined\<close>, which the
  safety theorems exclude.
\<close>

section \<open>How the process stops\<close>

text \<open>One constructor per diagnostic the program prints before \<open>exit\<close>.\<close>

datatype diagnostic =
    Perror_calloc | Perror_malloc | Perror_realloc | Perror_sysconf
  | Internal_limit_exceeded
  | Replacement_too_large
  | Number_invalid | Number_too_small | Procs_too_large
  | Invalid_delimiter | Needs_argument byte | Unknown_option byte
  | Prompt_and_procs
  | Command_size_too_small | Command_size_too_large
  | Command_too_long
  | Cannot_open_input
  | Perror_fork | Perror_waitpid
  | Cannot_open_tty | Cannot_reopen_stdin
  | Exec_too_long | Exec_failed
  | Input_error
  | Unreachable

text \<open>
  \<open>Exit\<close> is \<open>exit(status)\<close>, \<open>Abort\<close> a failed \<open>assert\<close>, \<open>Terminated\<close> the default action of a
  signal.
\<close>

datatype stop = Exit int diagnostic | Abort | Terminated int | Undefined

definition EXIT_SUCCESS :: int where "EXIT_SUCCESS = 0"
definition EXIT_FAILURE :: int where "EXIT_FAILURE = 1"

text \<open>The stops that only an exhausted allocator or address space causes.\<close>

definition resource_stops :: "stop set" where
  "resource_stops = {Exit EXIT_FAILURE Perror_calloc, Exit EXIT_FAILURE Perror_malloc,
     Exit EXIT_FAILURE Perror_realloc, Exit EXIT_FAILURE Internal_limit_exceeded}"

section \<open>The platform\<close>

text \<open>
  What the program observes of its host: whether an allocation of so many bytes succeeds,
  the result of \<open>sysconf\<close> (with whether \<open>errno\<close> was set), the environment strings,
  whether plain \<open>char\<close> is signed, and whether \<open>assert\<close> is compiled out.
\<close>

datatype sc_name = SC_ARG_MAX | SC_CHILD_MAX

record platform =
  pf_can_alloc :: "size_t \<Rightarrow> bool"
  pf_sysconf :: "sc_name \<Rightarrow> int \<times> bool"
  pf_environ :: "cstr list"
  pf_char_signed :: bool
  pf_ndebug :: bool

definition ample :: "platform \<Rightarrow> bool" where
  "ample E = (\<forall>n. pf_can_alloc E n)"

text \<open>A host with memory to spare, for concrete runs: x86-64 Linux limits, empty environment.\<close>

definition plain_host :: platform where
  "plain_host = \<lparr>pf_can_alloc = (\<lambda>_. True),
     pf_sysconf = (\<lambda>name. case name of SC_ARG_MAX \<Rightarrow> (2097152, False) | SC_CHILD_MAX \<Rightarrow> (62000, False)),
     pf_environ = [], pf_char_signed = True, pf_ndebug = False\<rparr>"

lemma ample_plain_host [simp]: "ample plain_host"
  by (simp add: ample_def plain_host_def)

section \<open>Blocks of memory\<close>

type_synonym 'a block = "'a option list"

definition blk_load :: "'a block \<Rightarrow> nat \<Rightarrow> stop + 'a" where
  "blk_load b i = (if i < length b then (case b ! i of None \<Rightarrow> Inl Undefined | Some x \<Rightarrow> Inr x)
     else Inl Undefined)"

definition blk_store :: "'a block \<Rightarrow> nat \<Rightarrow> 'a \<Rightarrow> stop + 'a block" where
  "blk_store b i x = (if i < length b then Inr (b[i := Some x]) else Inl Undefined)"

text \<open>\<open>memcpy\<close> of the values \<open>xs\<close> to offset \<open>i\<close>.\<close>

definition blk_copy :: "'a block \<Rightarrow> nat \<Rightarrow> 'a list \<Rightarrow> stop + 'a block" where
  "blk_copy b i xs = (if i + length xs \<le> length b
     then Inr (take i b @ map Some xs @ drop (i + length xs) b) else Inl Undefined)"

text \<open>Reading a C string: the bytes up to the first NUL, which must be in the block.\<close>

fun c_string :: "byte block \<Rightarrow> stop + cstr" where
  "c_string [] = Inl Undefined"
| "c_string (None # b) = Inl Undefined"
| "c_string (Some c # b) = (if c = 0 then Inr [] else rbind (c_string b) (\<lambda>s. Inr (c # s)))"

definition strlen :: "cstr \<Rightarrow> size_t" where
  "strlen s = of_nat (length s)"

section \<open>Operations\<close>

text \<open>\<open>calloc\<close> itself refuses a product that does not fit \<open>size_t\<close>.\<close>

definition phxargs_calloc :: "platform \<Rightarrow> 'a \<Rightarrow> size_t \<Rightarrow> size_t \<Rightarrow> stop + 'a block" where
  "phxargs_calloc E zero count nbytes =
     (if unat count * unat nbytes \<le> unat SIZE_MAX \<and> pf_can_alloc E (count * nbytes)
      then Inr (replicate (unat count) (Some zero))
      else Inl (Exit EXIT_FAILURE Perror_calloc))"

definition phxargs_malloc :: "platform \<Rightarrow> size_t \<Rightarrow> stop + 'a block" where
  "phxargs_malloc E nbytes =
     (if pf_can_alloc E nbytes then Inr (replicate (unat nbytes) None)
      else Inl (Exit EXIT_FAILURE Perror_malloc))"

text \<open>
  \<open>realloc\<close> of a block of elements of \<open>esz\<close> bytes to \<open>nbytes\<close> bytes: the elements that
  still fit keep their value, new ones are indeterminate.
\<close>

definition phxargs_realloc :: "platform \<Rightarrow> nat \<Rightarrow> 'a block \<Rightarrow> size_t \<Rightarrow> stop + 'a block" where
  "phxargs_realloc E esz b nbytes =
     (if pf_can_alloc E nbytes
      then (let n = unat nbytes div esz in Inr (take n b @ replicate (n - length b) None))
      else Inl (Exit EXIT_FAILURE Perror_realloc))"

definition phxargs_strdup :: "platform \<Rightarrow> cstr option \<Rightarrow> stop + cstr option" where
  "phxargs_strdup E s = (case s of
       None \<Rightarrow> Inr None
     | Some s' \<Rightarrow>
         let len = strlen s' + 1 in
         rbind (phxargs_malloc E len :: stop + byte block) (\<lambda>copy.
         rbind (blk_copy copy 0 (s' @ [0])) (\<lambda>copy'.
         rbind (c_string copy') (\<lambda>t. Inr (Some t)))))"

definition phxargs_sysconf :: "platform \<Rightarrow> sc_name \<Rightarrow> stop + int" where
  "phxargs_sysconf E name = (case pf_sysconf E name of (result, errno_set) \<Rightarrow>
     if result = -1 \<and> errno_set then Inl (Exit EXIT_FAILURE Perror_sysconf) else Inr result)"

definition phxargs_double_capacity :: "size_t \<Rightarrow> stop + size_t" where
  "phxargs_double_capacity capacity =
     (if capacity = 0 then Inr 1
      else if capacity > SIZE_MAX div 2 then Inl (Exit EXIT_FAILURE Internal_limit_exceeded)
      else Inr (capacity * 2))"

definition phxargs_min :: "size_t \<Rightarrow> size_t \<Rightarrow> size_t" where
  "phxargs_min a b = (if a < b then a else b)"

section \<open>Lemmas\<close>

text \<open>
  \<open>copes E S n\<close>: the ways to stop in \<open>S\<close> cover the host's shortage of memory, either because
  they list the resource stops or because the host never runs short and the data stay
  below \<open>2 ^ 59\<close> elements. One proof per operation then gives safety on every host
  (\<open>S = resource_stops\<close>) and success on an ample one (\<open>S = {}\<close>).
\<close>

definition copes :: "platform \<Rightarrow> stop set \<Rightarrow> nat \<Rightarrow> bool" where
  "copes E S n \<longleftrightarrow> resource_stops \<subseteq> S \<or> (ample E \<and> n < 2 ^ 59)"

lemma copes_resource [simp]: "resource_stops \<subseteq> S \<Longrightarrow> copes E S n"
  by (simp add: copes_def)

lemma copes_ample: "ample E \<Longrightarrow> n < 2 ^ 59 \<Longrightarrow> copes E S n"
  by (simp add: copes_def)

lemma copes_le: "copes E S n \<Longrightarrow> m \<le> n \<Longrightarrow> copes E S m"
  by (auto simp: copes_def)

lemma Undefined_not_resource [simp]: "Undefined \<notin> resource_stops"
  by (simp add: resource_stops_def)

lemma unat_half_SIZE_MAX: "unat (SIZE_MAX div 2) = 9223372036854775807"
  by (simp add: unat_div SIZE_MAX_def)

lemma double_capacity_Inr:
  "phxargs_double_capacity c = Inr c' \<Longrightarrow>
     unat c' = max 1 (2 * unat c) \<and> unat c < unat c' \<and> unat c' < unat SIZE_MAX"
  by (auto simp: phxargs_double_capacity_def size_less_unat unat_half_SIZE_MAX unat_mult_size
      size_eq_unat split: if_splits)

lemma yields_double_capacity [yields_intro]:
  assumes "copes E S (unat c)"
  shows "yields S (phxargs_double_capacity c)
    (\<lambda>c'. unat c' = max 1 (2 * unat c) \<and> unat c < unat c' \<and> unat c' < unat SIZE_MAX)"
proof (cases "phxargs_double_capacity c")
  case (Inl e)
  then have e: "e = Exit EXIT_FAILURE Internal_limit_exceeded" "\<not> unat c < 2 ^ 59"
    by (auto simp: phxargs_double_capacity_def size_less_unat unat_half_SIZE_MAX split: if_splits)
  with assms have "resource_stops \<subseteq> S" by (simp add: copes_def)
  with e have "e \<in> S" by (auto simp: resource_stops_def)
  with Inl show ?thesis by simp
next
  case (Inr c')
  from double_capacity_Inr [OF Inr] show ?thesis unfolding Inr yields_Inr .
qed

lemma yields_calloc [yields_intro]:
  assumes "copes E S (unat count)" and "unat nbytes \<le> 8"
  shows "yields S (phxargs_calloc E z count nbytes)
    (\<lambda>b. b = replicate (unat count) (Some z) \<and> unat count * unat nbytes < 2 ^ 64)"
proof -
  have le: "unat count * unat nbytes \<le> unat count * 8" using assms(2) by simp
  have "unat count < 2 ^ 59 \<Longrightarrow> unat count * unat nbytes \<le> unat SIZE_MAX"
    by (rule order_trans [OF le]) simp
  then show ?thesis
    using assms(1)
    by (auto simp: phxargs_calloc_def copes_def resource_stops_def ample_def)
qed

lemma yields_malloc [yields_intro]:
  "copes E S n \<Longrightarrow> yields S (phxargs_malloc E nbytes) (\<lambda>b. b = replicate (unat nbytes) None)"
  by (auto simp: phxargs_malloc_def copes_def resource_stops_def ample_def)

lemma yields_realloc [yields_intro]:
  "copes E S n \<Longrightarrow> unat nbytes = k * esz \<Longrightarrow> 0 < esz \<Longrightarrow> length b \<le> k \<Longrightarrow>
   yields S (phxargs_realloc E esz b nbytes) (\<lambda>b'. b' = b @ replicate (k - length b) None)"
  by (auto simp: phxargs_realloc_def copes_def resource_stops_def ample_def Let_def)

lemma c_string_map_Some:
  "0 \<in> set xs \<Longrightarrow> c_string (map Some xs @ r) = Inr (takeWhile (\<lambda>c. c \<noteq> 0) xs)"
  by (induction xs) auto

lemma c_string_append_NUL [simp]:
  "0 \<notin> set s \<Longrightarrow> c_string (map Some s @ Some 0 # r) = Inr s"
  using c_string_map_Some [of "s @ [0]" r]
  by (auto simp: takeWhile_snoc_stop takeWhile_eq_all_conv)

lemma c_string_no_NUL: "c_string b = Inr s \<Longrightarrow> 0 \<notin> set s"
  by (induction b arbitrary: s rule: c_string.induct) (auto simp: rbind_Inr_iff split: if_splits)

lemma unat_strlen: "length s < 2 ^ 64 \<Longrightarrow> unat (strlen s) = length s"
  by (simp add: strlen_def size_simps)

lemma yields_strdup [yields_intro]:
  assumes "copes E S (length s)" and "0 \<notin> set s" and "length s < 2 ^ 64 - 1"
  shows "yields S (phxargs_strdup E (Some s)) (\<lambda>t. t = Some s)"
proof -
  have len: "unat (strlen s + 1) = Suc (length s)"
    using assms(3) by (simp add: size_simps unat_strlen)
  show ?thesis
    using yields_malloc [OF assms(1), of "strlen s + 1", where 'a = byte] assms(2)
    by (auto simp: phxargs_strdup_def Let_def blk_copy_def len elim!: yields_conseq)
qed

lemma strdup_None [simp]: "phxargs_strdup E None = Inr None"
  by (simp add: phxargs_strdup_def)

end
