(* ===== verification/Growable.thy ===== *)
theory Growable
  imports Util
begin

text \<open>
  The contract that the three growable arrays of the program share: the byte buffer of the
  tokenizers (\<^verbatim>\<open>src/buffer.c\<close>), the argument list (\<^verbatim>\<open>src/command_args.c\<close>) and the table of
  child processes (\<^verbatim>\<open>src/process_pool.c\<close>). Each doubles its capacity when it is full and
  stores at the end. The component theories interpret the locale on their own operations.
\<close>

section \<open>Adding a list of elements\<close>

text \<open>The loop \<open>for (...) put(s, x)\<close> over the elements \<open>xs\<close>.\<close>

fun put_all :: "('s \<Rightarrow> 'a \<Rightarrow> 'e + 's) \<Rightarrow> 's \<Rightarrow> 'a list \<Rightarrow> 'e + 's" where
  "put_all put s [] = Inr s"
| "put_all put s (x # xs) = rbind (put s x) (\<lambda>s'. put_all put s' xs)"

section \<open>The contract\<close>

locale growable =
  fixes invar :: "'s \<Rightarrow> bool"
    and contents :: "'s \<Rightarrow> 'a list"
    and admissible :: "'a \<Rightarrow> bool"
    and put :: "platform \<Rightarrow> 's \<Rightarrow> 'a \<Rightarrow> stop + 's"
  assumes put_spec: "invar s \<Longrightarrow> admissible x \<Longrightarrow> length (contents s) < 2 ^ 59 \<Longrightarrow>
    copes E S (length (contents s)) \<Longrightarrow>
    yields S (put E s x) (\<lambda>s'. invar s' \<and> contents s' = contents s @ [x])"
begin

lemma put_all_spec:
  "invar s \<Longrightarrow> \<forall>x \<in> set xs. admissible x \<Longrightarrow> length (contents s) + length xs < 2 ^ 59 \<Longrightarrow>
   copes E S (length (contents s) + length xs) \<Longrightarrow>
   yields S (put_all (put E) s xs) (\<lambda>s'. invar s' \<and> contents s' = contents s @ xs)"
proof (induction xs arbitrary: s)
  case Nil
  then show ?case by simp
next
  case (Cons x xs)
  have "yields S (put E s x) (\<lambda>s'. invar s' \<and> contents s' = contents s @ [x])"
    using Cons.prems by (intro put_spec) (auto elim: copes_le)
  then show ?case
    unfolding put_all.simps yields_rbind
  proof (rule yields_conseq)
    fix s' assume "invar s' \<and> contents s' = contents s @ [x]"
    then show "yields S (put_all (put E) s' xs)
        (\<lambda>s'. invar s' \<and> contents s' = contents s @ x # xs)"
      using Cons.IH [of s'] Cons.prems by simp
  qed
qed

lemma put_never_undefined:
  "invar s \<Longrightarrow> admissible x \<Longrightarrow> length (contents s) < 2 ^ 59 \<Longrightarrow> put E s x \<noteq> Inl Undefined"
  using put_spec [of s x E resource_stops] by (cases "put E s x") auto

lemma put_all_succeeds:
  assumes "ample E" and "invar s" and "\<forall>x \<in> set xs. admissible x"
    and "length (contents s) + length xs < 2 ^ 59"
  shows "\<exists>s'. put_all (put E) s xs = Inr s' \<and> invar s' \<and> contents s' = contents s @ xs"
  using put_all_spec [of s xs E "{}"] assms by (simp add: yields_empty copes_ample)

end

end
