(* ===== verification/Buffer.thy ===== *)
theory Buffer
  imports Growable
begin

text \<open>
  Models \<^verbatim>\<open>src/buffer.c\<close>: the growable byte buffer in which a tokenizer collects a token.
  The abstraction \<open>buffer_contents\<close> is the list of the bytes before \<open>bf_pos\<close>; the bytes
  after it stay in the block until they are overwritten, which is why a token stays
  readable after \<open>buffer_reset\<close>.
\<close>

record buffer =
  bf_buf :: "byte block"
  bf_sz :: size_t
  bf_pos :: size_t

text \<open>\<open>sizeof(buffer)\<close> is 24 on an LP64 platform: a pointer and two \<open>size_t\<close>.\<close>

definition buffer_create :: "platform \<Rightarrow> size_t \<Rightarrow> stop + buffer" where
  "buffer_create E sz =
     rbind (phxargs_malloc E 24 :: stop + byte block) (\<lambda>_.
     rbind (phxargs_calloc E 0 (sz + 1) 1) (\<lambda>b.
     Inr \<lparr>bf_buf = b, bf_sz = sz, bf_pos = 0\<rparr>))"

definition buffer_start :: "buffer \<Rightarrow> byte block" where
  "buffer_start buf = bf_buf buf"

definition buffer_pos :: "buffer \<Rightarrow> size_t" where
  "buffer_pos buf = bf_pos buf"

definition buffer_put :: "platform \<Rightarrow> buffer \<Rightarrow> byte \<Rightarrow> stop + buffer" where
  "buffer_put E buf ch =
     rbind (if bf_pos buf = bf_sz buf
       then rbind (phxargs_double_capacity (bf_sz buf)) (\<lambda>sz.
            rbind (phxargs_realloc E 1 (bf_buf buf) (sz + 1)) (\<lambda>b.
            Inr (buf\<lparr>bf_sz := sz, bf_buf := b\<rparr>)))
       else Inr buf) (\<lambda>buf.
     rbind (blk_store (bf_buf buf) (unat (bf_pos buf)) ch) (\<lambda>b.
     Inr (buf\<lparr>bf_buf := b, bf_pos := bf_pos buf + 1\<rparr>)))"

definition buffer_drop_last :: "buffer \<Rightarrow> buffer" where
  "buffer_drop_last buf = (if bf_pos buf > 0 then buf\<lparr>bf_pos := bf_pos buf - 1\<rparr> else buf)"

definition buffer_reset :: "buffer \<Rightarrow> buffer" where
  "buffer_reset buf = buf\<lparr>bf_pos := 0\<rparr>"

section \<open>Invariant and abstraction\<close>

definition buffer_contents :: "buffer \<Rightarrow> byte list" where
  "buffer_contents buf = map the (take (unat (bf_pos buf)) (bf_buf buf))"

definition buffer_invar :: "buffer \<Rightarrow> bool" where
  "buffer_invar buf \<longleftrightarrow> unat (bf_sz buf) < unat SIZE_MAX
     \<and> length (bf_buf buf) = unat (bf_sz buf) + 1
     \<and> unat (bf_pos buf) \<le> unat (bf_sz buf)
     \<and> None \<notin> set (take (unat (bf_pos buf)) (bf_buf buf))"

lemma take_buf_contents:
  "buffer_invar buf \<Longrightarrow> take (unat (bf_pos buf)) (bf_buf buf) = map Some (buffer_contents buf)"
  by (auto simp: buffer_invar_def buffer_contents_def o_def intro!: map_idI [symmetric])
    (metis option.collapse)

lemma length_buffer_contents:
  "buffer_invar buf \<Longrightarrow> length (buffer_contents buf) = unat (bf_pos buf)"
  by (simp add: buffer_invar_def buffer_contents_def)

text \<open>The block holds the contents first, whatever follows.\<close>

lemma buffer_block_split:
  "buffer_invar buf \<Longrightarrow> \<exists>r. bf_buf buf = map Some (buffer_contents buf) @ r"
  by (metis append_take_drop_id take_buf_contents)

lemma buffer_create_yields [yields_intro]:
  assumes "copes E S (unat sz + 1)" and "unat sz < unat SIZE_MAX"
  shows "yields S (buffer_create E sz) (\<lambda>buf. buffer_invar buf \<and> buffer_contents buf = []
    \<and> bf_sz buf = sz)"
proof -
  have sz: "unat (sz + 1) = unat sz + 1" using assms(2) by (simp add: size_simps)
  have c: "copes E S (unat (sz + 1))" using assms(1) by (simp add: sz)
  show ?thesis
    using yields_malloc [OF assms(1), of 24, where 'a = byte] yields_calloc [OF c, of 1 0] assms(2)
    by (auto simp: buffer_create_def buffer_invar_def buffer_contents_def sz elim!: yields_conseq)
qed

text \<open>Growing keeps the contents and makes room for one byte more.\<close>

lemma buffer_grow_yields:
  assumes "buffer_invar buf" and "copes E S (unat (bf_pos buf))" and "bf_pos buf = bf_sz buf"
  shows "yields S (rbind (phxargs_double_capacity (bf_sz buf)) (\<lambda>sz.
            rbind (phxargs_realloc E 1 (bf_buf buf) (sz + 1)) (\<lambda>b.
            Inr (buf\<lparr>bf_sz := sz, bf_buf := b\<rparr>))))
     (\<lambda>buf'. buffer_invar buf' \<and> unat (bf_pos buf') < unat (bf_sz buf')
        \<and> bf_pos buf' = bf_pos buf \<and> buffer_contents buf' = buffer_contents buf)"
proof -
  have "yields S (phxargs_realloc E 1 (bf_buf buf) (sz + 1)) (\<lambda>b. b = bf_buf buf @
      replicate (unat sz - unat (bf_sz buf)) None)"
    if "unat (bf_sz buf) < unat sz" "unat sz < unat SIZE_MAX" for sz
  proof -
    have "unat (sz + 1) = unat sz + 1" using that by (simp add: size_simps)
    with yields_realloc [OF assms(2), of "sz + 1" "unat sz + 1" 1 "bf_buf buf"] that assms(1)
    show ?thesis by (simp add: buffer_invar_def)
  qed
  with yields_double_capacity [of E S "bf_sz buf"] assms show ?thesis
    by (fastforce simp: buffer_invar_def buffer_contents_def elim!: yields_conseq)
qed

text \<open>
  \<open>buffer_put\<close> refines appending to a list, on every host: no size wraps and no store
  falls outside the block.
\<close>

lemma buffer_put_yields [yields_intro]:
  assumes "buffer_invar buf" and "copes E S (length (buffer_contents buf))"
  shows "yields S (buffer_put E buf ch)
    (\<lambda>buf'. buffer_invar buf' \<and> buffer_contents buf' = buffer_contents buf @ [ch])"
proof -
  have store: "yields S (rbind (blk_store (bf_buf b) (unat (bf_pos b)) ch)
      (\<lambda>blk. Inr (b\<lparr>bf_buf := blk, bf_pos := bf_pos b + 1\<rparr>)))
      (\<lambda>buf'. buffer_invar buf' \<and> buffer_contents buf' = buffer_contents buf @ [ch])"
    if b: "buffer_invar b" "unat (bf_pos b) < unat (bf_sz b)"
      "buffer_contents b = buffer_contents buf" for b
  proof -
    have pos: "unat (bf_pos b + 1) = Suc (unat (bf_pos b))"
      using b by (simp add: buffer_invar_def size_simps)
    have "take (Suc (unat (bf_pos b))) ((bf_buf b)[unat (bf_pos b) := Some ch])
        = map Some (buffer_contents b @ [ch])"
      using b(1,2) by (intro take_eq_map_Some_snoc take_buf_contents) (auto simp: buffer_invar_def)
    then have "take (Suc (unat (bf_pos b))) ((bf_buf b)[unat (bf_pos b) := Some ch])
        = map Some (buffer_contents buf @ [ch])"
      by (simp only: b(3))
    then show ?thesis
      using b pos by (simp add: blk_store_def buffer_invar_def buffer_contents_def image_iff)
  qed
  have copes: "copes E S (unat (bf_pos buf))"
    using assms by (simp add: length_buffer_contents)
  show ?thesis
  proof (cases "bf_pos buf = bf_sz buf")
    case True
    have "yields S (rbind (phxargs_double_capacity (bf_sz buf)) (\<lambda>sz.
            rbind (phxargs_realloc E 1 (bf_buf buf) (sz + 1)) (\<lambda>b.
            Inr (buf\<lparr>bf_sz := sz, bf_buf := b\<rparr>))))
        (\<lambda>b. yields S (rbind (blk_store (bf_buf b) (unat (bf_pos b)) ch)
          (\<lambda>blk. Inr (b\<lparr>bf_buf := blk, bf_pos := bf_pos b + 1\<rparr>)))
          (\<lambda>buf'. buffer_invar buf' \<and> buffer_contents buf' = buffer_contents buf @ [ch]))"
      by (rule yields_conseq [OF buffer_grow_yields [OF assms(1) copes True]])
        (elim conjE, rule store, assumption+)
    with True show ?thesis
      unfolding buffer_put_def yields_rbind [of _ "if _ then _ else _"] by simp
  next
    case False
    with assms(1) have "unat (bf_pos buf) < unat (bf_sz buf)"
      by (simp add: buffer_invar_def size_eq_unat)
    from store [OF assms(1) this refl] False show ?thesis
      by (simp add: buffer_put_def)
  qed
qed

lemma buffer_reset_invar [simp]: "buffer_invar buf \<Longrightarrow> buffer_invar (buffer_reset buf)"
  by (simp add: buffer_reset_def buffer_invar_def)

lemma buffer_reset_contents [simp]: "buffer_contents (buffer_reset buf) = []"
  by (simp add: buffer_reset_def buffer_contents_def)

lemma buffer_drop_last_contents [simp]:
  assumes "buffer_invar buf"
  shows "buffer_contents (buffer_drop_last buf) = butlast (buffer_contents buf)"
  using assms
  by (cases "bf_pos buf = 0")
    (simp_all add: buffer_drop_last_def buffer_contents_def buffer_invar_def map_butlast [symmetric]
        butlast_take unat_minus_one word_gt_0)

lemma buffer_drop_last_invar [simp]:
  assumes "buffer_invar buf"
  shows "buffer_invar (buffer_drop_last buf)"
proof -
  have "set (take (unat (bf_pos buf) - 1) (bf_buf buf)) \<subseteq> set (take (unat (bf_pos buf)) (bf_buf buf))"
    by (simp add: set_take_subset_set_take)
  with assms show ?thesis
    by (cases "bf_pos buf = 0")
      (auto simp: buffer_drop_last_def buffer_invar_def unat_minus_one word_gt_0)
qed

interpretation gb: growable buffer_invar buffer_contents "\<lambda>_. True" buffer_put
  by unfold_locales (auto intro: buffer_put_yields)

end
