(* ===== verification/Tokenizer.thy ===== *)
theory Tokenizer
  imports Buffer
begin

text \<open>
  Models \<^verbatim>\<open>src/tokenizer.c\<close>, the state both tokenizers share, and the part of \<open>stdio\<close> they
  read from. The locale \<open>tokenizing\<close> is the contract of the \<open>next_token\<close> entry of
  the \<open>tokenizer_ops\<close> table: one call behaves as one step of a lexer on byte lists.
\<close>

section \<open>The input stream\<close>

text \<open>
  The bytes not yet read, and whether the stream ends in a read error. \<open>getc\<close> returns
  an \<open>int\<close>, the byte's unsigned value or \<open>EOF\<close>.
\<close>

record infile =
  in_rest :: "byte list"
  in_error :: bool

definition EOF :: int where "EOF = -1"

definition getc :: "infile \<Rightarrow> int \<times> infile" where
  "getc f = (case in_rest f of [] \<Rightarrow> (EOF, f) | c # cs \<Rightarrow> (uint c, f\<lparr>in_rest := cs\<rparr>))"

definition ferror :: "infile \<Rightarrow> bool" where
  "ferror f = (in_rest f = [] \<and> in_error f)"

text \<open>The cast \<open>(char) ch\<close>, and the promotion of a plain \<open>char\<close> to \<open>int\<close>.\<close>

definition to_char :: "int \<Rightarrow> byte" where
  "to_char ch = word_of_int ch"

definition char_promote :: "platform \<Rightarrow> byte \<Rightarrow> int" where
  "char_promote E c = (if pf_char_signed E then sint c else uint c)"

section \<open>The shared tokenizer state\<close>

datatype tokenizer_error =
    TOKENIZER_ERR_NONE
  | TOKENIZER_ERR_IO
  | TOKENIZER_ERR_BACKSLASH_AT_EOF
  | TOKENIZER_ERR_UNTERMINATED_QUOTE

record tokenizer =
  tk_buf :: buffer
  tk_err :: tokenizer_error

text \<open>\<open>sizeof(tokenizer)\<close> is 32: three pointers and an enum.\<close>

definition tokenizer_create :: "platform \<Rightarrow> size_t \<Rightarrow> stop + tokenizer" where
  "tokenizer_create E buffer_size =
     rbind (phxargs_malloc E 32 :: stop + byte block) (\<lambda>_.
     rbind (buffer_create E buffer_size) (\<lambda>b.
     Inr \<lparr>tk_buf = b, tk_err = TOKENIZER_ERR_NONE\<rparr>))"

definition tokenizer_set_error :: "tokenizer \<Rightarrow> tokenizer_error \<Rightarrow> tokenizer" where
  "tokenizer_set_error t err = t\<lparr>tk_err := err\<rparr>"

definition tokenizer_get_error :: "tokenizer \<Rightarrow> tokenizer_error" where
  "tokenizer_get_error t = tk_err t"

definition tokenizer_pos :: "tokenizer \<Rightarrow> size_t" where
  "tokenizer_pos t = buffer_pos (tk_buf t)"

definition tokenizer_add :: "platform \<Rightarrow> tokenizer \<Rightarrow> byte \<Rightarrow> stop + tokenizer" where
  "tokenizer_add E t ch =
     rbind (buffer_put E (tk_buf t) ch) (\<lambda>b. Inr (t\<lparr>tk_buf := b\<rparr>))"

definition tokenizer_drop_last :: "tokenizer \<Rightarrow> tokenizer" where
  "tokenizer_drop_last t = t\<lparr>tk_buf := buffer_drop_last (tk_buf t)\<rparr>"

text \<open>The pointer \<open>buffer_start(t->buf) + pos\<close>, as the block from that offset on.\<close>

definition tokenizer_token :: "tokenizer \<Rightarrow> size_t \<Rightarrow> byte block" where
  "tokenizer_token t pos = drop (unat pos) (buffer_start (tk_buf t))"

definition tokenizer_reset :: "tokenizer \<Rightarrow> tokenizer" where
  "tokenizer_reset t = t\<lparr>tk_buf := buffer_reset (tk_buf t)\<rparr>"

section \<open>Lemmas\<close>

definition tk_text :: "tokenizer \<Rightarrow> byte list" where
  "tk_text t = buffer_contents (tk_buf t)"

definition tk_invar :: "tokenizer \<Rightarrow> bool" where
  "tk_invar t \<longleftrightarrow> buffer_invar (tk_buf t)"

lemma tokenizer_create_yields [yields_intro]:
  "copes E S (unat sz + 1) \<Longrightarrow> unat sz < unat SIZE_MAX \<Longrightarrow>
   yields S (tokenizer_create E sz)
     (\<lambda>t. tk_invar t \<and> tk_text t = [] \<and> tk_err t = TOKENIZER_ERR_NONE)"
  using yields_malloc [of E S "unat sz + 1" 32, where 'a = byte] buffer_create_yields [of E S sz]
  by (auto simp: tokenizer_create_def tk_invar_def tk_text_def elim!: yields_conseq)

lemma tokenizer_add_yields [yields_intro]:
  "tk_invar t \<Longrightarrow> copes E S (length (tk_text t)) \<Longrightarrow>
   yields S (tokenizer_add E t ch)
     (\<lambda>t'. tk_invar t' \<and> tk_text t' = tk_text t @ [ch] \<and> tk_err t' = tk_err t)"
  using buffer_put_yields [of "tk_buf t" E S ch]
  by (auto simp: tokenizer_add_def tk_invar_def tk_text_def elim!: yields_conseq)

lemma tokenizer_reset_simps [simp]:
  "tk_invar t \<Longrightarrow> tk_invar (tokenizer_reset t)"
  "tk_text (tokenizer_reset t) = []"
  "tk_err (tokenizer_reset t) = tk_err t"
  "tokenizer_token (tokenizer_reset t) = tokenizer_token t"
  "tokenizer_pos (tokenizer_reset t) = 0"
  by (simp_all add: tokenizer_reset_def tk_invar_def tk_text_def tokenizer_token_def fun_eq_iff
      buffer_start_def tokenizer_pos_def buffer_pos_def)
    (simp_all add: buffer_reset_def)

lemma tokenizer_set_error_simps [simp]:
  "tk_invar (tokenizer_set_error t e) = tk_invar t"
  "tk_text (tokenizer_set_error t e) = tk_text t"
  "tk_err (tokenizer_set_error t e) = e"
  by (simp_all add: tokenizer_set_error_def tk_invar_def tk_text_def)

lemma tokenizer_drop_last_simps [simp]:
  "tk_invar t \<Longrightarrow> tk_invar (tokenizer_drop_last t)"
  "tk_invar t \<Longrightarrow> tk_text (tokenizer_drop_last t) = butlast (tk_text t)"
  "tk_err (tokenizer_drop_last t) = tk_err t"
  by (simp_all add: tokenizer_drop_last_def tk_invar_def tk_text_def)

lemma unat_tokenizer_pos: "tk_invar t \<Longrightarrow> unat (tokenizer_pos t) = length (tk_text t)"
  by (simp add: tk_invar_def tk_text_def tokenizer_pos_def buffer_pos_def length_buffer_contents)

lemma tokenizer_pos_0: "tk_invar t \<Longrightarrow> tokenizer_pos t = 0 \<longleftrightarrow> tk_text t = []"
  using unat_tokenizer_pos [of t] by (auto simp: size_eq_unat)

text \<open>A terminated token reads back as the bytes before its first NUL.\<close>

definition c_truncate :: "byte list \<Rightarrow> cstr" where
  "c_truncate w = takeWhile (\<lambda>c. c \<noteq> 0) w"

lemma c_truncate_id [simp]: "0 \<notin> set w \<Longrightarrow> c_truncate w = w"
  by (auto simp: c_truncate_def takeWhile_eq_all_conv)

lemma c_truncate_no_NUL [simp]: "0 \<notin> set (c_truncate w)"
  unfolding c_truncate_def by (metis (mono_tags) set_takeWhileD)

lemma length_c_truncate: "length (c_truncate w) \<le> length w"
  by (simp add: c_truncate_def length_takeWhile_le)

lemma tokenizer_token_string:
  assumes "tk_invar t" and "tk_text t = w @ [0]"
  shows "c_string (tokenizer_token t 0) = Inr (c_truncate w)"
proof -
  obtain r where r: "bf_buf (tk_buf t) = map Some (w @ [0]) @ r"
    using buffer_block_split [of "tk_buf t"] assms by (auto simp: tk_invar_def tk_text_def)
  show ?thesis
    using c_string_map_Some [of "w @ [0]" r]
    by (simp add: tokenizer_token_def buffer_start_def r c_truncate_def takeWhile_snoc_stop)
qed

lemma tokenizer_token_load:
  assumes "tk_invar t" and "unat pos < length (tk_text t)"
  shows "blk_load (tokenizer_token t pos) 0 = Inr (tk_text t ! unat pos)"
proof -
  obtain r where r: "bf_buf (tk_buf t) = map Some (tk_text t) @ r"
    using buffer_block_split [of "tk_buf t"] assms by (auto simp: tk_invar_def tk_text_def)
  show ?thesis
    using assms(2) by (simp add: tokenizer_token_def buffer_start_def r blk_load_def nth_append)
qed

lemma to_char_uint [simp]: "to_char (uint c) = c"
  by (simp add: to_char_def)

lemma to_char_numeral [simp]: "to_char (numeral k) = numeral k"
  by (simp add: to_char_def)

lemma getc_simps:
  "in_rest f = [] \<Longrightarrow> getc f = (EOF, f)"
  "in_rest f = c # cs \<Longrightarrow> getc f = (uint c, f\<lparr>in_rest := cs\<rparr>)"
  by (simp_all add: getc_def)

lemma uint_neq_EOF [simp]: "uint (c :: byte) \<noteq> EOF"
  using uint_ge_0 [of c] unfolding EOF_def by linarith

section \<open>The contract of a tokenizer\<close>

text \<open>
  One step of a lexer: a token, whether an input boundary (a line end) was reached with
  it, and the rest of the input; or the end of the tokens, with the error if any.
\<close>

datatype lexed =
    Token cstr bool "byte list"
  | Stop tokenizer_error bool "byte list"

text \<open>All the tokens of an input, by repeated steps; the first argument bounds the steps.\<close>

fun lex_steps :: "nat \<Rightarrow> (byte list \<Rightarrow> lexed) \<Rightarrow> byte list
    \<Rightarrow> (cstr \<times> bool) list \<times> tokenizer_error" where
  "lex_steps 0 lx bs = ([], TOKENIZER_ERR_NONE)"
| "lex_steps (Suc n) lx bs = (case lx bs of
      Token w b rest \<Rightarrow> (case lex_steps n lx rest of (ts, e) \<Rightarrow> ((w, b) # ts, e))
    | Stop e b rest \<Rightarrow> ([], e))"

definition lex_all :: "(byte list \<Rightarrow> lexed) \<Rightarrow> byte list \<Rightarrow> (cstr \<times> bool) list \<times> tokenizer_error" where
  "lex_all lx bs = lex_steps (Suc (length bs)) lx bs"

definition consumes :: "(byte list \<Rightarrow> lexed) \<Rightarrow> bool" where
  "consumes lx \<longleftrightarrow> (\<forall>bs w b rest. lx bs = Token w b rest \<longrightarrow> length rest < length bs)"

text \<open>A token is a C string, and its bytes come from the input it consumed.\<close>

definition fits :: "(byte list \<Rightarrow> lexed) \<Rightarrow> bool" where
  "fits lx \<longleftrightarrow> (\<forall>bs w b rest. lx bs = Token w b rest \<longrightarrow>
     0 \<notin> set w \<and> length w + length rest \<le> length bs)"

text \<open>A lexer that consumes input needs no more steps than there are bytes.\<close>

lemma lex_steps_enough:
  "consumes lx \<Longrightarrow> length bs < n \<Longrightarrow> length bs < m \<Longrightarrow> lex_steps n lx bs = lex_steps m lx bs"
proof (induction n arbitrary: m bs)
  case 0
  then show ?case by simp
next
  case (Suc n)
  then obtain m' where m: "m = Suc m'" by (cases m) auto
  have "lex_steps n lx rest = lex_steps m' lx rest" if "lx bs = Token w b rest" for w b rest
    using Suc.prems that m by (intro Suc.IH) (fastforce simp: consumes_def)+
  then show ?case by (simp add: m split: lexed.split)
qed

lemma lex_all_unfold:
  assumes "consumes lx"
  shows "lex_all lx bs = (case lx bs of
      Token w b rest \<Rightarrow> (case lex_all lx rest of (ts, e) \<Rightarrow> ((w, b) # ts, e))
    | Stop e b rest \<Rightarrow> ([], e))"
proof (cases "lx bs")
  case (Token w b rest)
  then have "length rest < length bs" using assms by (auto simp: consumes_def)
  then have "lex_steps (length bs) lx rest = lex_steps (Suc (length rest)) lx rest"
    using assms by (intro lex_steps_enough) auto
  then show ?thesis by (simp add: lex_all_def Token)
qed (simp add: lex_all_def)

text \<open>
  The contract: between calls the tokenizer is \<open>ready\<close>; a call returns what the lexer
  says, fires the callback exactly when a boundary was reached, leaves the rest of the
  stream, and stays ready with the same lexer while there are tokens.
\<close>

locale tokenizing =
  fixes ready :: "'t \<Rightarrow> bool"
    and error_of :: "'t \<Rightarrow> tokenizer_error"
    and lexer :: "platform \<Rightarrow> 't \<Rightarrow> bool \<Rightarrow> byte list \<Rightarrow> lexed"
    and next_token :: "platform \<Rightarrow> ('c \<Rightarrow> 'c) \<Rightarrow> 't \<Rightarrow> 'c \<Rightarrow> infile
      \<Rightarrow> stop + cstr option \<times> 't \<times> 'c \<times> infile"
  assumes lexer_consumes: "consumes (lexer E t io)"
    and lexer_fits: "fits (lexer E t io)"
    and next_token_spec: "ready t \<Longrightarrow> copes E S (length (in_rest f) + 1) \<Longrightarrow>
      yields S (next_token E cb t ctx f) (\<lambda>(out, t', ctx', f').
        case lexer E t (in_error f) (in_rest f) of
          Token w b rest \<Rightarrow> out = Some w \<and> ready t' \<and> error_of t' = TOKENIZER_ERR_NONE
            \<and> lexer E t' = lexer E t \<and> ctx' = (if b then cb ctx else ctx)
            \<and> f' = f\<lparr>in_rest := rest\<rparr>
        | Stop e b rest \<Rightarrow> out = None \<and> error_of t' = e \<and> ctx' = (if b then cb ctx else ctx)
            \<and> f' = f\<lparr>in_rest := rest\<rparr>)"
begin

lemma next_token_succeeds:
  assumes "ample E" and "ready t" and "length (in_rest f) + 1 < 2 ^ 59"
  shows "\<exists>out t' ctx' f'. next_token E cb t ctx f = Inr (out, t', ctx', f')"
  using next_token_spec [of t E "{}" f cb ctx] assms
  by (auto simp: yields_empty copes_ample)

lemma next_token_consumes:
  assumes "ready t" and "next_token E cb t ctx f = Inr (Some w, t', ctx', f')"
  shows "length (in_rest f') < length (in_rest f)"
proof -
  have "copes E UNIV (length (in_rest f) + 1)" by simp
  from next_token_spec [OF assms(1) this, of cb ctx] assms(2) lexer_consumes [of E t "in_error f"]
  show ?thesis
    by (cases "lexer E t (in_error f) (in_rest f)") (auto simp: consumes_def)
qed

end

end
