(* ===== verification/Space_Tokenizer.thy ===== *)
theory Space_Tokenizer
  imports Tokenizer
begin

text \<open>
  Models \<^verbatim>\<open>src/space_tokenizer.c\<close>: the default tokenizer, a six-state machine over the input
  bytes that splits at blanks and newlines, and understands quotes and backslashes. The
  reference is \<open>space_lex\<close>, a recursive-descent lexer with one function per context.
\<close>

section \<open>The state machine of the code\<close>

datatype space_tokenizer_state =
    NO_TOKEN
  | NO_TOKEN_ESCAPE
  | IN_TOKEN
  | IN_QUOTED_TOKEN
  | IN_TOKEN_QUOTED
  | IN_TOKEN_ESCAPE

record space_tokenizer =
  st_base :: tokenizer
  st_state :: space_tokenizer_state
  st_quote_char :: int
  st_token_start :: size_t
  st_logical_end_of_input_marker :: "cstr option"

definition space_tokenizer_no_token :: "space_tokenizer \<Rightarrow> space_tokenizer" where
  "space_tokenizer_no_token t = t\<lparr>st_base := tokenizer_reset (st_base t),
     st_state := NO_TOKEN, st_quote_char := 0, st_token_start := 0\<rparr>"

definition space_tokenizer_start_quoted_token :: "space_tokenizer \<Rightarrow> int \<Rightarrow> space_tokenizer" where
  "space_tokenizer_start_quoted_token t quote_char = t\<lparr>st_state := IN_QUOTED_TOKEN,
     st_quote_char := quote_char, st_token_start := tokenizer_pos (st_base t)\<rparr>"

definition space_tokenizer_start_no_token_escape :: "space_tokenizer \<Rightarrow> space_tokenizer" where
  "space_tokenizer_start_no_token_escape t = t\<lparr>st_state := NO_TOKEN_ESCAPE,
     st_token_start := tokenizer_pos (st_base t)\<rparr>"

definition space_tokenizer_start_in_token_escape :: "space_tokenizer \<Rightarrow> space_tokenizer" where
  "space_tokenizer_start_in_token_escape t = t\<lparr>st_state := IN_TOKEN_ESCAPE\<rparr>"

definition space_tokenizer_append_to_token ::
    "platform \<Rightarrow> space_tokenizer \<Rightarrow> int \<Rightarrow> stop + space_tokenizer" where
  "space_tokenizer_append_to_token E t ch =
     rbind (tokenizer_add E (st_base t) (to_char ch)) (\<lambda>b. Inr (t\<lparr>st_base := b\<rparr>))"

definition space_tokenizer_end_escape ::
    "platform \<Rightarrow> space_tokenizer \<Rightarrow> int \<Rightarrow> stop + space_tokenizer" where
  "space_tokenizer_end_escape E t ch =
     rbind (tokenizer_add E (st_base t) (to_char ch))
       (\<lambda>b. Inr (t\<lparr>st_state := IN_TOKEN, st_base := b\<rparr>))"

definition space_tokenizer_start_token ::
    "platform \<Rightarrow> space_tokenizer \<Rightarrow> int \<Rightarrow> stop + space_tokenizer" where
  "space_tokenizer_start_token E t ch =
     rbind (tokenizer_add E (st_base t) (to_char ch))
       (\<lambda>b. Inr (t\<lparr>st_state := IN_TOKEN, st_token_start := tokenizer_pos (st_base t), st_base := b\<rparr>))"

text \<open>
  The token is a pointer into the buffer, taken before the buffer is reset and read
  (by \<open>strcmp\<close> and by the caller) after it.
\<close>

definition space_tokenizer_end_token ::
    "platform \<Rightarrow> space_tokenizer \<Rightarrow> stop + cstr option \<times> space_tokenizer" where
  "space_tokenizer_end_token E t =
     rbind (tokenizer_add E (st_base t) 0) (\<lambda>b.
     let start = st_token_start t;
         t' = space_tokenizer_no_token (t\<lparr>st_base := b\<rparr>)
     in rbind (c_string (tokenizer_token (st_base t') start)) (\<lambda>token.
        Inr (if st_logical_end_of_input_marker t' \<noteq> None
               \<and> the (st_logical_end_of_input_marker t') = token
             then None else Some token, t')))"

definition handle_no_token_char ::
    "platform \<Rightarrow> space_tokenizer \<Rightarrow> int \<Rightarrow> bool \<Rightarrow> stop + space_tokenizer \<times> bool" where
  "handle_no_token_char E t ch line_has_token =
     (if ch = cSPACE \<or> ch = cTAB then Inr (t, line_has_token)
      else if ch = cNL then Inr (t, line_has_token)
      else rbind
        (if ch = cQUOTE \<or> ch = cDQUOTE then Inr (space_tokenizer_start_quoted_token t ch)
         else if ch = cBACKSLASH then Inr (space_tokenizer_start_no_token_escape t)
         else space_tokenizer_start_token E t ch) (\<lambda>t. Inr (t, True)))"

text \<open>
  The handlers that may finish a call return \<open>Some out\<close> where the code returns true and
  sets \<open>*out\<close>, and \<open>None\<close> where it returns false.
\<close>

definition handle_in_token_char ::
    "platform \<Rightarrow> ('c \<Rightarrow> 'c) \<Rightarrow> space_tokenizer \<Rightarrow> 'c \<Rightarrow> int \<Rightarrow> bool
     \<Rightarrow> stop + cstr option option \<times> space_tokenizer \<times> 'c" where
  "handle_in_token_char E on_input_boundary t ctx ch line_has_token =
     (if ch = cSPACE \<or> ch = cTAB then
        rbind (space_tokenizer_end_token E t) (\<lambda>(out, t). Inr (Some out, t, ctx))
      else if ch = cNL then
        let ctx = (if line_has_token then on_input_boundary ctx else ctx) in
        rbind (space_tokenizer_end_token E t) (\<lambda>(out, t). Inr (Some out, t, ctx))
      else rbind
        (if ch = cQUOTE \<or> ch = cDQUOTE
           then Inr (t\<lparr>st_state := IN_TOKEN_QUOTED, st_quote_char := ch\<rparr>)
         else if ch = cBACKSLASH then Inr (space_tokenizer_start_in_token_escape t)
         else space_tokenizer_append_to_token E t ch) (\<lambda>t. Inr (None, t, ctx)))"

definition handle_quoted_char ::
    "platform \<Rightarrow> space_tokenizer \<Rightarrow> int \<Rightarrow> stop + cstr option option \<times> space_tokenizer" where
  "handle_quoted_char E t ch =
     (if ch = st_quote_char t then Inr (None, t\<lparr>st_state := IN_TOKEN\<rparr>)
      else if ch = cNL then
        Inr (Some None, t\<lparr>st_base :=
          tokenizer_set_error (st_base t) TOKENIZER_ERR_UNTERMINATED_QUOTE\<rparr>)
      else rbind (space_tokenizer_append_to_token E t ch) (\<lambda>t. Inr (None, t)))"

definition handle_eof ::
    "platform \<Rightarrow> ('c \<Rightarrow> 'c) \<Rightarrow> space_tokenizer \<Rightarrow> 'c \<Rightarrow> infile \<Rightarrow> bool
     \<Rightarrow> stop + cstr option \<times> space_tokenizer \<times> 'c" where
  "handle_eof E on_input_boundary t ctx token_source line_has_token =
     (if ferror token_source then
        Inr (None, t\<lparr>st_base := tokenizer_set_error (st_base t) TOKENIZER_ERR_IO\<rparr>, ctx)
      else if st_state t = IN_TOKEN_ESCAPE \<or> st_state t = NO_TOKEN_ESCAPE then
        Inr (None, t\<lparr>st_base :=
          tokenizer_set_error (st_base t) TOKENIZER_ERR_BACKSLASH_AT_EOF\<rparr>, ctx)
      else if st_state t = IN_QUOTED_TOKEN \<or> st_state t = IN_TOKEN_QUOTED then
        Inr (None, t\<lparr>st_base :=
          tokenizer_set_error (st_base t) TOKENIZER_ERR_UNTERMINATED_QUOTE\<rparr>, ctx)
      else if line_has_token then
        let ctx = on_input_boundary ctx in
        rbind (space_tokenizer_end_token E t) (\<lambda>(out, t). Inr (out, t, ctx))
      else Inr (None, t, ctx))"

text \<open>The \<open>while ((ch = getc(token_source)) != EOF)\<close> loop and the return after it.\<close>

function next_space_loop ::
    "platform \<Rightarrow> ('c \<Rightarrow> 'c) \<Rightarrow> space_tokenizer \<Rightarrow> 'c \<Rightarrow> bool \<Rightarrow> infile
     \<Rightarrow> stop + cstr option \<times> space_tokenizer \<times> 'c \<times> infile" where
  "next_space_loop E cb t ctx line_has_token f =
     (case getc f of (ch, f') \<Rightarrow>
      if ch = EOF then
        rbind (handle_eof E cb t ctx f' line_has_token) (\<lambda>(out, t, ctx). Inr (out, t, ctx, f'))
      else case st_state t of
        NO_TOKEN \<Rightarrow>
          rbind (handle_no_token_char E t ch line_has_token) (\<lambda>(t, line_has_token).
          next_space_loop E cb t ctx line_has_token f')
      | NO_TOKEN_ESCAPE \<Rightarrow>
          rbind (space_tokenizer_end_escape E t ch) (\<lambda>t.
          next_space_loop E cb t ctx line_has_token f')
      | IN_TOKEN \<Rightarrow>
          rbind (handle_in_token_char E cb t ctx ch line_has_token) (\<lambda>(done, t, ctx).
          case done of Some out \<Rightarrow> Inr (out, t, ctx, f')
          | None \<Rightarrow> next_space_loop E cb t ctx line_has_token f')
      | IN_QUOTED_TOKEN \<Rightarrow>
          rbind (handle_quoted_char E t ch) (\<lambda>(done, t).
          case done of Some out \<Rightarrow> Inr (out, t, ctx, f')
          | None \<Rightarrow> next_space_loop E cb t ctx line_has_token f')
      | IN_TOKEN_QUOTED \<Rightarrow>
          rbind (handle_quoted_char E t ch) (\<lambda>(done, t).
          case done of Some out \<Rightarrow> Inr (out, t, ctx, f')
          | None \<Rightarrow> next_space_loop E cb t ctx line_has_token f')
      | IN_TOKEN_ESCAPE \<Rightarrow>
          rbind (space_tokenizer_end_escape E t ch) (\<lambda>t.
          next_space_loop E cb t ctx line_has_token f'))"
  by pat_completeness auto
termination
  by (relation "measure (\<lambda>(E, cb, t, ctx, line_has_token, f). length (in_rest f))")
    (auto simp: getc_def split: list.splits)

declare next_space_loop.simps [simp del]

definition next_space_token ::
    "platform \<Rightarrow> ('c \<Rightarrow> 'c) \<Rightarrow> space_tokenizer \<Rightarrow> 'c \<Rightarrow> infile
     \<Rightarrow> stop + cstr option \<times> space_tokenizer \<times> 'c \<times> infile" where
  "next_space_token E on_input_boundary self ctx token_source =
     next_space_loop E on_input_boundary self ctx False token_source"

text \<open>\<open>sizeof(space_tokenizer)\<close> is 48. The callback and its context are passed per call.\<close>

definition space_tokenizer_create ::
    "platform \<Rightarrow> size_t \<Rightarrow> cstr option \<Rightarrow> stop + space_tokenizer" where
  "space_tokenizer_create E buffer_size logical_end_of_input_marker =
     rbind (phxargs_malloc E 48 :: stop + byte block) (\<lambda>_.
     rbind (phxargs_strdup E logical_end_of_input_marker) (\<lambda>marker.
     rbind (tokenizer_create E buffer_size) (\<lambda>b.
     Inr (space_tokenizer_no_token
       \<lparr>st_base = b, st_state = NO_TOKEN, st_quote_char = 0, st_token_start = 0,
        st_logical_end_of_input_marker = marker\<rparr>))))"

section \<open>The reference lexer\<close>

datatype word_lexed =
    Word "byte list" bool "byte list"
  | Bad tokenizer_error "byte list"

fun prepend :: "byte list \<Rightarrow> word_lexed \<Rightarrow> word_lexed" where
  "prepend u (Word w b rest) = Word (u @ w) b rest"
| "prepend u (Bad e rest) = Bad e rest"

definition blank :: "byte \<Rightarrow> bool" where
  "blank c \<longleftrightarrow> c = cSPACE \<or> c = cTAB"

definition at_end :: "bool \<Rightarrow> word_lexed \<Rightarrow> word_lexed" where
  "at_end io r = (if io then Bad TOKENIZER_ERR_IO [] else r)"

text \<open>
  Inside a word, inside a quotation opened by \<open>q\<close>, and after a backslash. The flag of
  \<open>Word\<close> says that the word ended its line.
\<close>

fun lex_word :: "bool \<Rightarrow> byte list \<Rightarrow> word_lexed"
  and lex_quoted :: "bool \<Rightarrow> byte \<Rightarrow> byte list \<Rightarrow> word_lexed"
  and lex_escaped :: "bool \<Rightarrow> byte list \<Rightarrow> word_lexed" where
  "lex_word io [] = at_end io (Word [] True [])"
| "lex_word io (c # cs) =
     (if blank c then Word [] False cs
      else if c = cNL then Word [] True cs
      else if c = cQUOTE \<or> c = cDQUOTE then lex_quoted io c cs
      else if c = cBACKSLASH then lex_escaped io cs
      else prepend [c] (lex_word io cs))"
| "lex_quoted io q [] = at_end io (Bad TOKENIZER_ERR_UNTERMINATED_QUOTE [])"
| "lex_quoted io q (c # cs) =
     (if c = q then lex_word io cs
      else if c = cNL then Bad TOKENIZER_ERR_UNTERMINATED_QUOTE cs
      else prepend [c] (lex_quoted io q cs))"
| "lex_escaped io [] = at_end io (Bad TOKENIZER_ERR_BACKSLASH_AT_EOF [])"
| "lex_escaped io (c # cs) = prepend [c] (lex_word io cs)"

definition finish :: "cstr option \<Rightarrow> word_lexed \<Rightarrow> lexed" where
  "finish marker r = (case r of
      Word w b rest \<Rightarrow> if marker = Some (c_truncate w) then Stop TOKENIZER_ERR_NONE b rest
        else Token (c_truncate w) b rest
    | Bad e rest \<Rightarrow> Stop e False rest)"

definition space_lex :: "cstr option \<Rightarrow> bool \<Rightarrow> byte list \<Rightarrow> lexed" where
  "space_lex marker io bs = (case dropWhile (\<lambda>c. blank c \<or> c = cNL) bs of
      [] \<Rightarrow> Stop (if io then TOKENIZER_ERR_IO else TOKENIZER_ERR_NONE) False []
    | c # cs \<Rightarrow> finish marker (lex_word io (c # cs)))"

lemma prepend_prepend [simp]: "prepend u (prepend v r) = prepend (u @ v) r"
  by (cases r) auto

lemma prepend_Nil [simp]: "prepend [] r = r"
  by (cases r) auto

lemma prepend_at_end [simp]:
  "prepend u (at_end io (Word w b r)) = at_end io (Word (u @ w) b r)"
  "prepend u (at_end io (Bad e r)) = at_end io (Bad e r)"
  by (simp_all add: at_end_def)

definition shorter :: "nat \<Rightarrow> word_lexed \<Rightarrow> bool" where
  "shorter n r = (case r of Word w b rest \<Rightarrow> length rest < n | Bad e rest \<Rightarrow> True)"

lemma shorter_simps [simp]:
  "shorter n (Word w b rest) \<longleftrightarrow> length rest < n"
  "shorter n (Bad e rest)"
  "shorter n (prepend u r) = shorter n r"
  by (simp_all add: shorter_def) (cases r; simp)

lemma shorter_mono: "shorter n r \<Longrightarrow> n \<le> m \<Longrightarrow> shorter m r"
  by (auto simp: shorter_def split: word_lexed.splits)

lemma shorter_Suc: "shorter (max (Suc 0) n) r \<Longrightarrow> shorter (Suc n) r"
  by (erule shorter_mono) simp

lemma lex_shorter:
  "shorter (max 1 (length bs)) (lex_word io bs)"
  "shorter (max 1 (length bs)) (lex_quoted io q bs)"
  "shorter (max 1 (length bs)) (lex_escaped io bs)"
  by (induction io bs and io q bs and io bs rule: lex_word_lex_quoted_lex_escaped.induct)
    (auto simp: at_end_def intro: shorter_Suc)

lemma space_lex_consumes: "consumes (space_lex marker io)"
  unfolding consumes_def
proof (intro allI impI)
  fix bs w b rest
  assume "space_lex marker io bs = Token w b rest"
  then obtain c cs where d: "dropWhile (\<lambda>c. blank c \<or> c = cNL) bs = c # cs"
    and fin: "finish marker (lex_word io (c # cs)) = Token w b rest"
    by (auto simp: space_lex_def split: list.splits)
  have "length (c # cs) \<le> length bs"
    unfolding d [symmetric] by (rule length_dropWhile_le)
  moreover have "shorter (length (c # cs)) (lex_word io (c # cs))"
    using lex_shorter(1) [where bs = "c # cs"] by simp
  with fin have "length rest < length (c # cs)"
    by (auto simp: finish_def split: word_lexed.splits if_splits)
  ultimately show "length rest < length bs" by simp
qed

definition within :: "nat \<Rightarrow> word_lexed \<Rightarrow> bool" where
  "within n r = (case r of Word w b rest \<Rightarrow> length w + length rest \<le> n | Bad e rest \<Rightarrow> True)"

lemma within_simps [simp]:
  "within n (Word w b rest) \<longleftrightarrow> length w + length rest \<le> n"
  "within n (Bad e rest)"
  "within (Suc n) (prepend [c] r) = within n r"
  by (simp_all add: within_def) (cases r; simp)

lemma within_Suc: "within n r \<Longrightarrow> within (Suc n) r"
  by (auto simp: within_def split: word_lexed.splits)

lemma lex_within:
  "within (length bs) (lex_word io bs)"
  "within (length bs) (lex_quoted io q bs)"
  "within (length bs) (lex_escaped io bs)"
  by (induction io bs and io q bs and io bs rule: lex_word_lex_quoted_lex_escaped.induct)
    (auto simp: at_end_def intro: within_Suc)

lemma space_lex_fits: "fits (space_lex marker io)"
  unfolding fits_def
proof (intro allI impI)
  fix bs w b rest
  assume "space_lex marker io bs = Token w b rest"
  then obtain c cs u where d: "dropWhile (\<lambda>c. blank c \<or> c = cNL) bs = c # cs"
    and u: "lex_word io (c # cs) = Word u b rest" "w = c_truncate u"
    by (auto simp: space_lex_def finish_def split: list.splits word_lexed.splits if_splits)
  have "length (c # cs) \<le> length bs"
    unfolding d [symmetric] by (rule length_dropWhile_le)
  moreover have "length u + length rest \<le> length (c # cs)"
    using lex_within(1) [of "c # cs" io] unfolding u(1) by simp
  moreover have "length w \<le> length u" by (simp add: u(2) length_c_truncate)
  ultimately show "0 \<notin> set w \<and> length w + length rest \<le> length bs"
    by (simp add: u(2))
qed

section \<open>The state machine implements the reference\<close>

definition st_text :: "space_tokenizer \<Rightarrow> byte list" where
  "st_text t = tk_text (st_base t)"

definition st_invar :: "space_tokenizer \<Rightarrow> bool" where
  "st_invar t \<longleftrightarrow> tk_invar (st_base t) \<and> tk_err (st_base t) = TOKENIZER_ERR_NONE
     \<and> st_token_start t = 0
     \<and> (st_state t \<in> {NO_TOKEN, NO_TOKEN_ESCAPE} \<longrightarrow> st_text t = [])
     \<and> (st_state t \<in> {IN_QUOTED_TOKEN, IN_TOKEN_QUOTED} \<longrightarrow>
          st_quote_char t = cQUOTE \<or> st_quote_char t = cDQUOTE)"

definition space_ready :: "space_tokenizer \<Rightarrow> bool" where
  "space_ready t \<longleftrightarrow> st_invar t \<and> st_state t = NO_TOKEN"

definition space_error :: "space_tokenizer \<Rightarrow> tokenizer_error" where
  "space_error t = tokenizer_get_error (st_base t)"

definition space_lexer :: "platform \<Rightarrow> space_tokenizer \<Rightarrow> bool \<Rightarrow> byte list \<Rightarrow> lexed" where
  "space_lexer E t = space_lex (st_logical_end_of_input_marker t)"

text \<open>What the rest of the input means in each state of the machine.\<close>

definition resume :: "space_tokenizer \<Rightarrow> bool \<Rightarrow> byte list \<Rightarrow> lexed" where
  "resume t io bs = (case st_state t of
      NO_TOKEN \<Rightarrow> space_lex (st_logical_end_of_input_marker t) io bs
    | IN_TOKEN \<Rightarrow>
        finish (st_logical_end_of_input_marker t) (prepend (st_text t) (lex_word io bs))
    | IN_QUOTED_TOKEN \<Rightarrow>
        finish (st_logical_end_of_input_marker t)
          (prepend (st_text t) (lex_quoted io (to_char (st_quote_char t)) bs))
    | IN_TOKEN_QUOTED \<Rightarrow>
        finish (st_logical_end_of_input_marker t)
          (prepend (st_text t) (lex_quoted io (to_char (st_quote_char t)) bs))
    | _ \<Rightarrow>
        finish (st_logical_end_of_input_marker t) (prepend (st_text t) (lex_escaped io bs)))"

text \<open>The outcome of a call, as the contract asks for it.\<close>

definition space_outcome ::
    "lexed \<Rightarrow> cstr option \<Rightarrow> 'c \<Rightarrow> 'c \<Rightarrow> infile
     \<Rightarrow> cstr option \<times> space_tokenizer \<times> 'c \<times> infile \<Rightarrow> bool" where
  "space_outcome l marker ctx0 ctx1 f = (\<lambda>(out, t', ctx', f'). case l of
      Token w b rest \<Rightarrow> out = Some w \<and> space_ready t' \<and> space_error t' = TOKENIZER_ERR_NONE
        \<and> st_logical_end_of_input_marker t' = marker \<and> ctx' = (if b then ctx1 else ctx0)
        \<and> f' = f\<lparr>in_rest := rest\<rparr>
    | Stop e b rest \<Rightarrow> out = None \<and> space_error t' = e \<and> ctx' = (if b then ctx1 else ctx0)
        \<and> f' = f\<lparr>in_rest := rest\<rparr>)"

lemma space_outcome_file [simp]:
  "space_outcome l m ctx0 ctx1 (f\<lparr>in_rest := cs\<rparr>) = space_outcome l m ctx0 ctx1 f"
  by (simp add: space_outcome_def fun_eq_iff split: lexed.splits)

lemma end_token_yields:
  assumes "st_invar t" and "copes E S (length (st_text t))"
  shows "yields S (space_tokenizer_end_token E t) (\<lambda>(out, t').
      out = (if st_logical_end_of_input_marker t = Some (c_truncate (st_text t))
             then None else Some (c_truncate (st_text t)))
      \<and> space_ready t' \<and> st_logical_end_of_input_marker t' = st_logical_end_of_input_marker t)"
proof -
  have start: "st_token_start t = 0" using assms(1) by (simp add: st_invar_def)
  have "yields S (tokenizer_add E (st_base t) 0) (\<lambda>b. tk_invar b
      \<and> tk_text b = st_text t @ [0] \<and> tk_err b = TOKENIZER_ERR_NONE)"
    using tokenizer_add_yields [of "st_base t" E S 0] assms
    by (auto simp: st_invar_def st_text_def elim!: yields_conseq)
  then show ?thesis
    unfolding space_tokenizer_end_token_def yields_rbind
    by (rule yields_conseq)
      (auto simp: space_tokenizer_no_token_def Let_def start tokenizer_token_string
        space_ready_def st_invar_def st_text_def)
qed

text \<open>One character that does not end the call.\<close>

definition st_continues ::
    "space_tokenizer \<Rightarrow> bool \<Rightarrow> byte \<Rightarrow> byte list \<Rightarrow> space_tokenizer \<Rightarrow> bool" where
  "st_continues t io c cs t' \<longleftrightarrow> st_invar t' \<and> length (st_text t') \<le> Suc (length (st_text t))
     \<and> st_logical_end_of_input_marker t' = st_logical_end_of_input_marker t
     \<and> resume t' io cs = resume t io (c # cs)"

lemma append_yields:
  assumes "st_invar t" and "copes E S (length (st_text t))"
  shows "yields S (space_tokenizer_append_to_token E t (uint c)) (\<lambda>t'.
    \<exists>b. t' = t\<lparr>st_base := b\<rparr> \<and> tk_invar b \<and> tk_text b = st_text t @ [c]
      \<and> tk_err b = TOKENIZER_ERR_NONE)"
  using tokenizer_add_yields [of "st_base t" E S c] assms
  by (auto simp: space_tokenizer_append_to_token_def st_invar_def st_text_def
      elim!: yields_conseq)

lemma end_escape_eq:
  "space_tokenizer_end_escape E t ch =
     rbind (space_tokenizer_append_to_token E t ch) (\<lambda>t. Inr (t\<lparr>st_state := IN_TOKEN\<rparr>))"
  by (cases "tokenizer_add E (st_base t) (to_char ch)")
    (simp_all add: space_tokenizer_end_escape_def space_tokenizer_append_to_token_def)

lemma start_token_eq:
  "space_tokenizer_start_token E t ch =
     rbind (space_tokenizer_append_to_token E t ch)
       (\<lambda>t'. Inr (t'\<lparr>st_state := IN_TOKEN, st_token_start := tokenizer_pos (st_base t)\<rparr>))"
  by (cases "tokenizer_add E (st_base t) (to_char ch)")
    (simp_all add: space_tokenizer_start_token_def space_tokenizer_append_to_token_def)

lemma no_token_pos:
  "st_invar t \<Longrightarrow> st_text t = [] \<Longrightarrow> tokenizer_pos (st_base t) = 0"
  by (simp add: st_invar_def st_text_def tokenizer_pos_0)

lemma escape_yields:
  assumes "st_invar t" and "st_state t \<in> {NO_TOKEN_ESCAPE, IN_TOKEN_ESCAPE}"
    and "copes E S (length (st_text t))"
  shows "yields S (space_tokenizer_end_escape E t (uint c))
    (\<lambda>t'. st_continues t io c cs t' \<and> st_state t' = IN_TOKEN)"
  unfolding end_escape_eq yields_rbind
  using assms(1,2)
  by (intro yields_conseq [OF append_yields [OF assms(1,3)]])
    (auto simp: st_continues_def st_invar_def resume_def st_text_def)

lemma no_token_yields:
  assumes "st_invar t" and "st_state t = NO_TOKEN" and "copes E S (length (st_text t))"
  shows "yields S (handle_no_token_char E t (uint c) False)
    (\<lambda>(t', lht). st_continues t io c cs t' \<and> lht = (st_state t' \<noteq> NO_TOKEN))"
proof (cases "blank c \<or> c = cNL \<or> c = cQUOTE \<or> c = cDQUOTE \<or> c = cBACKSLASH")
  case True
  have nil: "st_text t = []" using assms(1,2) by (simp add: st_invar_def)
  from True show ?thesis
    using assms(1,2) nil no_token_pos [OF assms(1) nil]
    by (auto simp: handle_no_token_char_def blank_def st_continues_def st_invar_def st_text_def
        space_tokenizer_start_quoted_token_def space_tokenizer_start_no_token_escape_def
        resume_def space_lex_def)
next
  case False
  have nil: "st_text t = []" using assms(1,2) by (simp add: st_invar_def)
  have step: "yields S (space_tokenizer_start_token E t (uint c))
      (\<lambda>t'. st_continues t io c cs t' \<and> st_state t' = IN_TOKEN)"
    unfolding start_token_eq yields_rbind
    using False assms(1,2) nil no_token_pos [OF assms(1) nil]
    by (intro yields_conseq [OF append_yields [OF assms(1,3)]])
      (auto simp: st_continues_def st_invar_def resume_def st_text_def space_lex_def)
  from False have "handle_no_token_char E t (uint c) False
      = rbind (space_tokenizer_start_token E t (uint c)) (\<lambda>t. Inr (t, True))"
    by (auto simp: handle_no_token_char_def blank_def)
  with step show ?thesis by (auto elim!: yields_conseq)
qed

lemma quoted_yields:
  assumes "st_invar t" and "st_state t \<in> {IN_QUOTED_TOKEN, IN_TOKEN_QUOTED}"
    and "copes E S (length (st_text t))"
  shows "yields S (handle_quoted_char E t (uint c)) (\<lambda>(done, t'). case done of
      None \<Rightarrow> st_continues t io c cs t' \<and> st_state t' \<noteq> NO_TOKEN
    | Some out \<Rightarrow> out = None \<and> resume t io (c # cs) = Stop (space_error t') False cs)"
proof -
  obtain q where q: "st_quote_char t = uint (q :: byte)" "q = cQUOTE \<or> q = cDQUOTE"
    using assms(1,2) by (auto simp: st_invar_def)
  consider "c = q" | "c \<noteq> q" "c = cNL" | "c \<noteq> q" "c \<noteq> cNL" by blast
  then show ?thesis
  proof cases
    case 1
    with assms(1,2) q show ?thesis
      by (auto simp: handle_quoted_char_def st_continues_def st_invar_def st_text_def resume_def)
  next
    case 2
    with assms(1,2) q show ?thesis
      by (auto simp: handle_quoted_char_def resume_def finish_def space_error_def
          tokenizer_get_error_def)
  next
    case 3
    have "yields S (space_tokenizer_append_to_token E t (uint c))
        (\<lambda>t'. st_continues t io c cs t' \<and> st_state t' \<noteq> NO_TOKEN)"
      using 3 assms(1,2) q
      by (intro yields_conseq [OF append_yields [OF assms(1,3)]])
        (auto simp: st_continues_def st_invar_def resume_def st_text_def)
    moreover have "handle_quoted_char E t (uint c)
        = rbind (space_tokenizer_append_to_token E t (uint c)) (\<lambda>t. Inr (None, t))"
      using 3 q by (simp add: handle_quoted_char_def)
    ultimately show ?thesis by (auto elim!: yields_conseq)
  qed
qed

text \<open>A character inside a token, and the end of the stream.\<close>

lemma in_token_yields:
  assumes "st_invar t" and "st_state t = IN_TOKEN" and "copes E S (length (st_text t))"
  shows "yields S (handle_in_token_char E cb t ctx (uint c) True) (\<lambda>(done, t', ctx'). case done of
      None \<Rightarrow> st_continues t io c cs t' \<and> st_state t' \<noteq> NO_TOKEN \<and> ctx' = ctx
    | Some out \<Rightarrow> space_outcome (resume t io (c # cs)) (st_logical_end_of_input_marker t)
        ctx (cb ctx) f (out, t', ctx', f\<lparr>in_rest := cs\<rparr>))"
proof -
  note fin = end_token_yields [OF assms(1,3)]
  consider "blank c" | "c = cNL" | "c = cQUOTE \<or> c = cDQUOTE \<or> c = cBACKSLASH"
    | "\<not> blank c" "c \<noteq> cNL" "c \<noteq> cQUOTE" "c \<noteq> cDQUOTE" "c \<noteq> cBACKSLASH" by blast
  then show ?thesis
  proof cases
    case 1
    then show ?thesis
      using fin assms(2)
      by (auto simp: handle_in_token_char_def blank_def resume_def space_outcome_def finish_def
          space_ready_def st_invar_def space_error_def tokenizer_get_error_def
          elim!: yields_conseq)
  next
    case 2
    then show ?thesis
      using fin assms(2)
      by (auto simp: handle_in_token_char_def blank_def resume_def space_outcome_def finish_def
          space_ready_def st_invar_def space_error_def tokenizer_get_error_def Let_def
          elim!: yields_conseq)
  next
    case 3
    then show ?thesis
      using assms(1,2)
      by (auto simp: handle_in_token_char_def blank_def st_continues_def st_invar_def resume_def
          st_text_def space_tokenizer_start_in_token_escape_def)
  next
    case 4
    have "yields S (space_tokenizer_append_to_token E t (uint c))
        (\<lambda>t'. st_continues t io c cs t' \<and> st_state t' \<noteq> NO_TOKEN)"
      using 4 assms(1,2)
      by (intro yields_conseq [OF append_yields [OF assms(1,3)]])
        (auto simp: st_continues_def st_invar_def resume_def st_text_def)
    moreover have "handle_in_token_char E cb t ctx (uint c) True
        = rbind (space_tokenizer_append_to_token E t (uint c)) (\<lambda>t. Inr (None, t, ctx))"
      using 4 by (simp add: handle_in_token_char_def blank_def)
    ultimately show ?thesis by (auto elim!: yields_conseq)
  qed
qed

lemma eof_yields:
  assumes "st_invar t" and "copes E S (length (st_text t))" and "in_rest f = []"
  shows "yields S (handle_eof E cb t ctx f (st_state t \<noteq> NO_TOKEN)) (\<lambda>(out, t', ctx').
    space_outcome (resume t (in_error f) []) (st_logical_end_of_input_marker t) ctx (cb ctx) f
      (out, t', ctx', f))"
proof -
  have f: "f\<lparr>in_rest := []\<rparr> = f" using assms(3) by (cases f) simp
  show ?thesis
  proof (cases "st_state t = IN_TOKEN \<and> \<not> in_error f")
    case True
    then show ?thesis
      using end_token_yields [OF assms(1,2)] assms(3)
      by (auto simp: handle_eof_def ferror_def resume_def at_end_def space_outcome_def
          finish_def Let_def f space_ready_def st_invar_def space_error_def
          tokenizer_get_error_def elim!: yields_conseq)
  next
    case False
    then show ?thesis
      using assms(1,3)
      by (cases "st_state t")
        (auto simp: handle_eof_def ferror_def resume_def at_end_def space_outcome_def
          finish_def space_lex_def f space_error_def tokenizer_get_error_def st_invar_def)
  qed
qed

lemma next_space_loop_yields:
  assumes "st_invar t" and "copes E S (length (st_text t) + length (in_rest f))"
  shows "yields S (next_space_loop E cb t ctx (st_state t \<noteq> NO_TOKEN) f)
    (space_outcome (resume t (in_error f) (in_rest f)) (st_logical_end_of_input_marker t)
      ctx (cb ctx) f)"
  using assms
proof (induction "in_rest f" arbitrary: t f)
  case Nil
  then show ?case
    using eof_yields [of t E S f cb ctx]
    by (auto simp: next_space_loop.simps [of _ _ _ _ _ f] getc_simps(1) elim!: yields_conseq)
next
  case (Cons c cs)
  note inv = Cons.prems(1)
  have f: "in_rest f = c # cs" using Cons.hyps(2) by simp
  have copes: "copes E S (length (st_text t))"
    using Cons.prems(2) by (rule copes_le) simp
  let ?f = "f\<lparr>in_rest := cs\<rparr>"
  let ?post = "space_outcome (resume t (in_error f) (c # cs)) (st_logical_end_of_input_marker t)
      ctx (cb ctx) f"
  have go: "yields S (next_space_loop E cb t' ctx (st_state t' \<noteq> NO_TOKEN) ?f) ?post"
    if "st_continues t (in_error f) c cs t'" for t'
  proof -
    have "copes E S (length (st_text t') + length cs)"
      using Cons.prems(2) that f by (auto simp: st_continues_def elim: copes_le)
    then have "yields S (next_space_loop E cb t' ctx (st_state t' \<noteq> NO_TOKEN) ?f)
        (space_outcome (resume t' (in_error ?f) (in_rest ?f)) (st_logical_end_of_input_marker t')
          ctx (cb ctx) ?f)"
      using that by (intro Cons.hyps(1)) (simp_all add: st_continues_def)
    then show ?thesis
      using that by (simp add: st_continues_def)
  qed
  have post: "?post = space_outcome (resume t (in_error f) (in_rest f))
      (st_logical_end_of_input_marker t) ctx (cb ctx) f"
    by (simp add: f)
  note unfold = next_space_loop.simps [of _ _ _ _ _ f] getc_simps(2) [OF f] post [symmetric]
  have quoted: "yields S (handle_quoted_char E t (uint c)) (\<lambda>(done, t'). yields S
      (case done of Some out \<Rightarrow> Inr (out, t', ctx, ?f) | None \<Rightarrow> next_space_loop E cb t' ctx True ?f)
      ?post)" if "st_state t \<in> {IN_QUOTED_TOKEN, IN_TOKEN_QUOTED}"
  proof (rule yields_conseq [OF quoted_yields [OF inv that copes, of c "in_error f" cs]], clarify)
    fix done' :: "cstr option option" and t'
    assume "case done' of
        None \<Rightarrow> st_continues t (in_error f) c cs t' \<and> st_state t' \<noteq> NO_TOKEN
      | Some out \<Rightarrow> out = None \<and> resume t (in_error f) (c # cs) = Stop (space_error t') False cs"
    then show "yields S (case done' of Some out \<Rightarrow> Inr (out, t', ctx, ?f)
        | None \<Rightarrow> next_space_loop E cb t' ctx True ?f) ?post"
      using go [of t'] by (cases done') (auto simp: space_outcome_def)
  qed
  show ?case
  proof (cases "st_state t")
    case NO_TOKEN
    with no_token_yields [OF inv NO_TOKEN copes, of c "in_error f" cs] go show ?thesis
      by (auto simp: unfold elim!: yields_conseq)
  next
    case NO_TOKEN_ESCAPE
    with escape_yields [OF inv _ copes, of c "in_error f" cs] go show ?thesis
      by (fastforce simp: unfold elim!: yields_conseq)
  next
    case IN_TOKEN
    with in_token_yields [OF inv IN_TOKEN copes, of cb ctx c "in_error f" cs f] go show ?thesis
      by (fastforce simp: unfold elim!: yields_conseq split: option.splits)
  next
    case IN_QUOTED_TOKEN
    with quoted show ?thesis by (auto simp: unfold elim!: yields_conseq)
  next
    case IN_TOKEN_QUOTED
    with quoted show ?thesis by (auto simp: unfold elim!: yields_conseq)
  next
    case IN_TOKEN_ESCAPE
    with escape_yields [OF inv _ copes, of c "in_error f" cs] go show ?thesis
      by (fastforce simp: unfold elim!: yields_conseq)
  qed
qed

lemma next_space_token_yields:
  assumes "space_ready t" and "copes E S (length (in_rest f) + 1)"
  shows "yields S (next_space_token E cb t ctx f)
    (space_outcome (space_lexer E t (in_error f) (in_rest f)) (st_logical_end_of_input_marker t)
      ctx (cb ctx) f)"
proof -
  have t: "st_invar t" "st_state t = NO_TOKEN" "st_text t = []"
    using assms(1) by (auto simp: space_ready_def st_invar_def)
  have "copes E S (length (st_text t) + length (in_rest f))"
    using assms(2) by (rule copes_le) (simp add: t)
  from next_space_loop_yields [OF t(1) this, of cb ctx] show ?thesis
    by (simp add: t(2) next_space_token_def resume_def space_lexer_def)
qed

interpretation space: tokenizing space_ready space_error space_lexer next_space_token
proof
  show "consumes (space_lexer E t io)" for E t io
    by (simp add: space_lexer_def space_lex_consumes)
  show "fits (space_lexer E t io)" for E t io
    by (simp add: space_lexer_def space_lex_fits)
next
  fix t E S and f :: infile and cb :: "'c \<Rightarrow> 'c" and ctx
  assume "space_ready t" and "copes E S (length (in_rest f) + 1)"
  from next_space_token_yields [OF this, of cb ctx]
  show "yields S (next_space_token E cb t ctx f) (\<lambda>(out, t', ctx', f').
      case space_lexer E t (in_error f) (in_rest f) of
        Token w b rest \<Rightarrow> out = Some w \<and> space_ready t' \<and> space_error t' = TOKENIZER_ERR_NONE
          \<and> space_lexer E t' = space_lexer E t \<and> ctx' = (if b then cb ctx else ctx)
          \<and> f' = f\<lparr>in_rest := rest\<rparr>
      | Stop e b rest \<Rightarrow> out = None \<and> space_error t' = e \<and> ctx' = (if b then cb ctx else ctx)
          \<and> f' = f\<lparr>in_rest := rest\<rparr>)"
    by (rule yields_conseq) (auto simp: space_outcome_def space_lexer_def split: lexed.splits)
qed

lemma space_tokenizer_create_yields [yields_intro]:
  assumes "copes E S (unat sz + 1)" and "unat sz < unat SIZE_MAX"
    and "\<forall>m. marker = Some m \<longrightarrow> 0 \<notin> set m \<and> length m < 2 ^ 59"
  shows "yields S (space_tokenizer_create E sz marker)
    (\<lambda>t. space_ready t \<and> st_logical_end_of_input_marker t = marker)"
proof -
  have c: "copes E S 0" using assms(1) by (rule copes_le) simp
  have "yields S (phxargs_strdup E marker) (\<lambda>m. m = marker)"
  proof (cases marker)
    case (Some m)
    with assms(3) have "copes E S (length m)" using c by (auto simp: copes_def)
    with Some assms(3) show ?thesis using yields_strdup [of E S m] by simp
  qed simp
  then show ?thesis
    using tokenizer_create_yields [OF assms(1,2)] yields_malloc [OF c, of 48, where 'a = byte]
    by (auto simp: space_tokenizer_create_def space_tokenizer_no_token_def space_ready_def
        st_invar_def st_text_def elim!: yields_conseq)
qed

section \<open>Quoting\<close>

text \<open>An argument written so that the tokenizer reads it back: every byte escaped.\<close>

definition quote_arg :: "cstr \<Rightarrow> byte list" where
  "quote_arg w = (if w = [] then [cQUOTE, cQUOTE] else concat (map (\<lambda>c. [cBACKSLASH, c]) w))"

lemma lex_word_escapes:
  "lex_word io (concat (map (\<lambda>c. [cBACKSLASH, c]) w) @ cs) = prepend w (lex_word io cs)"
  by (induction w) (simp_all add: blank_def)

lemma space_lex_quote_arg:
  assumes "0 \<notin> set w" and "marker \<noteq> Some w" and "c = cNL \<or> blank c"
  shows "space_lex marker io (quote_arg w @ c # rest) = Token w (c = cNL) rest"
proof (cases w)
  case Nil
  with assms(2,3) show ?thesis
    by (auto simp: quote_arg_def space_lex_def blank_def finish_def c_truncate_def)
next
  case (Cons a v)
  have "quote_arg w @ c # rest = cBACKSLASH # a # (concat (map (\<lambda>c. [cBACKSLASH, c]) v) @ c # rest)"
    by (simp add: quote_arg_def Cons)
  moreover have "lex_word io (quote_arg w @ c # rest) = Word w (c = cNL) rest"
    using assms(3) lex_word_escapes [of io w "c # rest"]
    by (auto simp: quote_arg_def Cons blank_def)
  ultimately have "space_lex marker io (quote_arg w @ c # rest)
      = finish marker (Word w (c = cNL) rest)"
    by (simp add: space_lex_def blank_def)
  with assms(1,2) show ?thesis by (auto simp: finish_def)
qed

lemma lex_quoted_unterminated:
  assumes "q \<notin> set w" and "cNL \<notin> set w" and "q \<noteq> cNL"
  shows "lex_quoted False q w = Bad TOKENIZER_ERR_UNTERMINATED_QUOTE []"
    and "lex_quoted io q (w @ cNL # rest) = Bad TOKENIZER_ERR_UNTERMINATED_QUOTE rest"
  using assms by (induction w) (auto simp: at_end_def)

definition plain :: "byte \<Rightarrow> bool" where
  "plain c \<longleftrightarrow> \<not> blank c \<and> c \<notin> {cNL, cQUOTE, cDQUOTE, cBACKSLASH}"

lemma lex_word_plain:
  "\<forall>c \<in> set w. plain c \<Longrightarrow> lex_word io (w @ cs) = prepend w (lex_word io cs)"
  by (induction w) (auto simp: plain_def)

lemma space_lex_plain_start:
  assumes "\<forall>c \<in> set w. plain c" and "d \<notin> {cSPACE, cTAB, cNL}"
  shows "space_lex marker io (w @ d # cs) = finish marker (prepend w (lex_word io (d # cs)))"
proof (cases w)
  case Nil
  with assms(2) show ?thesis by (simp add: space_lex_def blank_def)
next
  case (Cons a v)
  with assms(1) have "\<not> (blank a \<or> a = cNL)" by (auto simp: plain_def)
  with Cons show ?thesis
    using lex_word_plain [OF assms(1), of io "d # cs"]
    by (simp add: space_lex_def)
qed

section \<open>Properties\<close>

lemmas space_outcome_simps = space_outcome_def space_lexer_def

text \<open>
  C7. One call of the state machine computes one step of the recursive-descent lexer: the
  token or the end of the tokens, the callback exactly when the token ended its line, the
  rest of the stream, the error kind; and the tokenizer is ready for the next call.
\<close>

theorem next_space_token_refines:
  assumes "space_ready t" and "ample E" and "length (in_rest f) < 2 ^ 58"
  shows "\<exists>out t' ctx' f'. next_space_token E cb t ctx f = Inr (out, t', ctx', f')
    \<and> (case space_lex (st_logical_end_of_input_marker t) (in_error f) (in_rest f) of
        Token w b rest \<Rightarrow> out = Some w \<and> space_ready t' \<and> space_error t' = TOKENIZER_ERR_NONE
          \<and> st_logical_end_of_input_marker t' = st_logical_end_of_input_marker t
          \<and> ctx' = (if b then cb ctx else ctx) \<and> f' = f\<lparr>in_rest := rest\<rparr>
      | Stop e b rest \<Rightarrow> out = None \<and> space_error t' = e
          \<and> ctx' = (if b then cb ctx else ctx) \<and> f' = f\<lparr>in_rest := rest\<rparr>)"
  using next_space_token_yields [OF assms(1), of E "{}" f cb ctx] assms(2,3)
  by (fastforce simp: yields_empty copes_ample space_outcome_simps)

definition demo_space_tokenizer :: space_tokenizer where
  "demo_space_tokenizer = \<lparr>
     st_base = \<lparr>tk_buf = \<lparr>bf_buf = [Some 0, Some 0], bf_sz = 1, bf_pos = 0\<rparr>,
                tk_err = TOKENIZER_ERR_NONE\<rparr>,
     st_state = NO_TOKEN, st_quote_char = 0, st_token_start = 0,
     st_logical_end_of_input_marker = None\<rparr>"

lemma demo_space_ready [simp]: "space_ready demo_space_tokenizer"
  by (simp add: demo_space_tokenizer_def space_ready_def st_invar_def st_text_def tk_text_def
      tk_invar_def buffer_invar_def buffer_contents_def)

text \<open>A two-token input \<open>a\<close>, blank, \<open>b\<close>, newline for the concrete runs.\<close>

definition demo_input :: infile where
  "demo_input = \<lparr>in_rest = [97, cSPACE, 98, cNL], in_error = False\<rparr>"

theorem next_space_token_refines_witness:
  "\<exists>out t' ctx' f'. next_space_token plain_host Suc demo_space_tokenizer 0 demo_input
      = Inr (out, t', ctx', f') \<and> out = Some [97] \<and> space_ready t' \<and> ctx' = 0
      \<and> in_rest f' = [98, cNL]"
proof -
  have lx: "space_lex (st_logical_end_of_input_marker demo_space_tokenizer)
      (in_error demo_input) (in_rest demo_input) = Token [97] False [98, cNL]"
    by (simp add: demo_space_tokenizer_def demo_input_def space_lex_def blank_def finish_def)
  have h: "length (in_rest demo_input) < 2 ^ 58" by (simp add: demo_input_def)
  from next_space_token_refines [OF demo_space_ready ample_plain_host h, of Suc 0]
  show ?thesis by (auto simp: lx)
qed

text \<open>
  On every host, whatever the allocator refuses, a call never reads or writes outside
  the token buffer, never reads an indeterminate byte and never runs off the end of a
  string: if it does not return, the process exited for want of memory.
\<close>

theorem next_space_token_memory_safe:
  assumes "space_ready t"
  shows "case next_space_token E cb t ctx f of
      Inl s \<Rightarrow> s \<in> resource_stops
    | Inr (out, t', ctx', f') \<Rightarrow> out \<noteq> None \<longrightarrow> space_ready t' \<and> 0 \<notin> set (the out)"
proof -
  have "0 \<notin> set w" if "finish m r = Token w b rest" for m r w b rest
    using that by (auto simp: finish_def split: word_lexed.splits if_splits)
  then have nul: "0 \<notin> set w" if "space_lex m io bs = Token w b rest" for m io bs w b rest
    using that by (auto simp: space_lex_def split: list.splits)
  show ?thesis
    using next_space_token_yields [OF assms, of E resource_stops f cb ctx]
    by (cases "next_space_token E cb t ctx f";
        cases "space_lex (st_logical_end_of_input_marker t) (in_error f) (in_rest f)")
      (auto simp: space_outcome_simps dest: nul)
qed

theorem next_space_token_memory_safe_witness:
  "case next_space_token (plain_host\<lparr>pf_can_alloc := \<lambda>n. n < 3\<rparr>) Suc demo_space_tokenizer 0 demo_input of
      Inl s \<Rightarrow> s \<in> resource_stops
    | Inr (out, t', ctx', f') \<Rightarrow> out \<noteq> None \<longrightarrow> space_ready t' \<and> 0 \<notin> set (the out)"
  by (rule next_space_token_memory_safe [OF demo_space_ready])

text \<open>
  C18. Round trip: any argument without NUL bytes, spaces, newlines, quotes and backslashes
  included and the empty one too, can be written in the input (every byte escaped, the
  empty argument as two quotes, then a newline) so that the tokenizer returns exactly it,
  counts one line and stops right behind it, unless it is the \<open>-E\<close> marker itself.
\<close>

theorem quoted_argument_roundtrip:
  assumes "space_ready t" and "ample E" and "0 \<notin> set w"
    and "st_logical_end_of_input_marker t \<noteq> Some w"
    and "length (quote_arg w @ cNL # rest) < 2 ^ 58"
  shows "\<exists>t'. next_space_token E cb t ctx \<lparr>in_rest = quote_arg w @ cNL # rest, in_error = io\<rparr>
      = Inr (Some w, t', cb ctx, \<lparr>in_rest = rest, in_error = io\<rparr>) \<and> space_ready t'
      \<and> st_logical_end_of_input_marker t' = st_logical_end_of_input_marker t"
proof -
  let ?f = "\<lparr>in_rest = quote_arg w @ cNL # rest, in_error = io\<rparr>"
  have "copes E {} (length (in_rest ?f) + 1)"
    using assms(2,5) by (simp add: copes_ample)
  from next_space_token_yields [OF assms(1) this, of cb ctx]
  show ?thesis
    using space_lex_quote_arg [OF assms(3,4), of cNL io rest]
    by (auto simp: yields_empty space_outcome_simps)
qed

theorem quoted_argument_roundtrip_witness:
  "\<exists>t'. next_space_token plain_host Suc demo_space_tokenizer 0
      \<lparr>in_rest = quote_arg [97, cSPACE, cNL, cQUOTE] @ cNL # [98], in_error = False\<rparr>
      = Inr (Some [97, cSPACE, cNL, cQUOTE], t', 1, \<lparr>in_rest = [98], in_error = False\<rparr>)
      \<and> space_ready t'"
  using quoted_argument_roundtrip [OF demo_space_ready ample_plain_host,
      of "[97, cSPACE, cNL, cQUOTE]" "[98]" Suc 0 False]
  by (auto simp: demo_space_tokenizer_def quote_arg_def)

text \<open>
  C35. A quotation that is still open at a newline or at the end of the input is reported as
  an unterminated quote, and no token is returned, whatever plain text precedes it in the
  word.
\<close>

theorem unterminated_quote_detected:
  assumes "space_ready t" and "ample E" and "length bs < 2 ^ 58"
    and "bs = u @ q # w \<or> bs = u @ q # w @ cNL # rest"
    and "\<forall>c \<in> set u. plain c" and "q = cQUOTE \<or> q = cDQUOTE"
    and "q \<notin> set w" and "cNL \<notin> set w"
  shows "\<exists>t' f'. next_space_token E cb t ctx \<lparr>in_rest = bs, in_error = False\<rparr>
      = Inr (None, t', ctx, f') \<and> space_error t' = TOKENIZER_ERR_UNTERMINATED_QUOTE"
proof -
  have q: "q \<noteq> cNL" "q \<notin> {cSPACE, cTAB, cNL}" "\<not> blank q"
    using assms(6) by (auto simp: blank_def)
  have "\<exists>r. space_lex m False bs = Stop TOKENIZER_ERR_UNTERMINATED_QUOTE False r" for m
    using assms(4,6) q lex_quoted_unterminated [OF assms(7,8) q(1)]
      space_lex_plain_start [OF assms(5) q(2), of m False]
    by (auto simp: finish_def)
  then obtain r where "space_lex (st_logical_end_of_input_marker t) False bs
      = Stop TOKENIZER_ERR_UNTERMINATED_QUOTE False r" by blast
  moreover have "copes E {} (length bs + 1)" using assms(2,3) by (simp add: copes_ample)
  ultimately show ?thesis
    using next_space_token_yields [OF assms(1), of E "{}" "\<lparr>in_rest = bs, in_error = False\<rparr>" cb ctx]
    by (auto simp: yields_empty space_outcome_simps)
qed

theorem unterminated_quote_detected_witness:
  "\<exists>t' f'. next_space_token plain_host Suc demo_space_tokenizer 0
      \<lparr>in_rest = [97, cQUOTE, 98, cSPACE], in_error = False\<rparr> = Inr (None, t', 0, f')
      \<and> space_error t' = TOKENIZER_ERR_UNTERMINATED_QUOTE"
  by (rule unterminated_quote_detected [OF demo_space_ready ample_plain_host,
        where u = "[97]" and q = cQUOTE and w = "[98, cSPACE]"])
    (simp_all add: plain_def blank_def)

end
