(* ===== verification/Delim_Tokenizer.thy ===== *)
theory Delim_Tokenizer
  imports Tokenizer
begin

text \<open>
  Models \<^verbatim>\<open>src/delim_tokenizer.c\<close>, the tokenizer of \<open>-d\<close> and \<open>-0\<close>: bytes up to a
  delimiter, and a trailing newline stripped from the last item at end of file. The loop
  compares the \<open>int\<close> of \<open>getc\<close> with a plain \<open>char\<close>; the promotion of the latter depends
  on the platform, and the reference \<open>delim_lex\<close> takes the promoted value.
\<close>

section \<open>The code\<close>

record delim_tokenizer =
  dt_base :: tokenizer
  dt_token_start :: size_t
  dt_delim :: byte

definition delim_tokenizer_start_token :: "delim_tokenizer \<Rightarrow> delim_tokenizer" where
  "delim_tokenizer_start_token t = t\<lparr>dt_token_start := tokenizer_pos (dt_base t)\<rparr>"

definition delim_tokenizer_append_to_token ::
    "platform \<Rightarrow> delim_tokenizer \<Rightarrow> int \<Rightarrow> stop + delim_tokenizer" where
  "delim_tokenizer_append_to_token E t ch =
     rbind (tokenizer_add E (dt_base t) (to_char ch)) (\<lambda>b. Inr (t\<lparr>dt_base := b\<rparr>))"

text \<open>The returned pointer is read as a C string by the caller.\<close>

definition delim_tokenizer_end_token ::
    "platform \<Rightarrow> delim_tokenizer \<Rightarrow> stop + cstr \<times> delim_tokenizer" where
  "delim_tokenizer_end_token E t =
     rbind (tokenizer_add E (dt_base t) 0) (\<lambda>b.
     rbind (c_string (tokenizer_token b (dt_token_start t))) (\<lambda>token.
     Inr (token, t\<lparr>dt_base := b\<rparr>)))"

text \<open>The code after the loop, when \<open>getc\<close> has returned \<open>EOF\<close>.\<close>

definition delim_at_eof ::
    "platform \<Rightarrow> delim_tokenizer \<Rightarrow> infile \<Rightarrow> stop + cstr option \<times> delim_tokenizer" where
  "delim_at_eof E self token_source =
     (if ferror token_source then
        Inr (None, self\<lparr>dt_base := tokenizer_set_error (dt_base self) TOKENIZER_ERR_IO\<rparr>)
      else if dt_token_start self = tokenizer_pos (dt_base self) then Inr (None, self)
      else rbind
        (if dt_delim self \<noteq> cNL then
           let pos = tokenizer_pos (dt_base self) in
           rbind (blk_load (tokenizer_token (dt_base self) (pos - 1)) 0) (\<lambda>c.
           Inr (if c = cNL then self\<lparr>dt_base := tokenizer_drop_last (dt_base self)\<rparr> else self))
         else Inr self) (\<lambda>self.
        rbind (delim_tokenizer_end_token E self) (\<lambda>(token, self). Inr (Some token, self))))"

function next_delim_loop ::
    "platform \<Rightarrow> ('c \<Rightarrow> 'c) \<Rightarrow> delim_tokenizer \<Rightarrow> 'c \<Rightarrow> infile
     \<Rightarrow> stop + cstr option \<times> delim_tokenizer \<times> 'c \<times> infile" where
  "next_delim_loop E cb self ctx f =
     (case getc f of (ch, f') \<Rightarrow>
      if ch = EOF then rbind (delim_at_eof E self f') (\<lambda>(out, self). Inr (out, self, ctx, f'))
      else if ch \<noteq> char_promote E (dt_delim self) then
        rbind (delim_tokenizer_append_to_token E self ch) (\<lambda>self.
        next_delim_loop E cb self ctx f')
      else
        let ctx = cb ctx in
        rbind (delim_tokenizer_end_token E self) (\<lambda>(token, self). Inr (Some token, self, ctx, f')))"
  by pat_completeness auto
termination
  by (relation "measure (\<lambda>(E, cb, self, ctx, f). length (in_rest f))")
    (auto simp: getc_def split: list.splits)

declare next_delim_loop.simps [simp del]

definition next_delim_token ::
    "platform \<Rightarrow> ('c \<Rightarrow> 'c) \<Rightarrow> delim_tokenizer \<Rightarrow> 'c \<Rightarrow> infile
     \<Rightarrow> stop + cstr option \<times> delim_tokenizer \<times> 'c \<times> infile" where
  "next_delim_token E on_input_boundary self ctx token_source =
     next_delim_loop E on_input_boundary
       (delim_tokenizer_start_token (self\<lparr>dt_base := tokenizer_reset (dt_base self)\<rparr>))
       ctx token_source"

text \<open>\<open>sizeof(delim_tokenizer)\<close> is 40.\<close>

definition delim_tokenizer_create ::
    "platform \<Rightarrow> size_t \<Rightarrow> byte \<Rightarrow> stop + delim_tokenizer" where
  "delim_tokenizer_create E buffer_size arg_delimiter =
     rbind (phxargs_malloc E 40 :: stop + byte block) (\<lambda>_.
     rbind (tokenizer_create E buffer_size) (\<lambda>b.
     Inr \<lparr>dt_base = b, dt_token_start = 0, dt_delim = arg_delimiter\<rparr>))"

section \<open>The reference lexer\<close>

definition strip_newline :: "byte \<Rightarrow> byte list \<Rightarrow> byte list" where
  "strip_newline d w = (if d \<noteq> cNL \<and> last w = cNL then butlast w else w)"

definition delim_lex :: "byte \<Rightarrow> int \<Rightarrow> bool \<Rightarrow> byte list \<Rightarrow> lexed" where
  "delim_lex d dlm io bs =
     (let w = takeWhile (\<lambda>c. uint c \<noteq> dlm) bs in
      case dropWhile (\<lambda>c. uint c \<noteq> dlm) bs of
        c # rest \<Rightarrow> Token (c_truncate w) True rest
      | [] \<Rightarrow> if io then Stop TOKENIZER_ERR_IO False []
              else if w = [] then Stop TOKENIZER_ERR_NONE False []
              else Token (c_truncate (strip_newline d w)) False [])"

lemma delim_lex_consumes: "consumes (delim_lex d dlm io)"
  unfolding consumes_def
proof (intro allI impI)
  fix bs w b rest
  assume "delim_lex d dlm io bs = Token w b rest"
  moreover have "length (dropWhile (\<lambda>c. uint c \<noteq> dlm) bs) \<le> length bs"
    by (rule length_dropWhile_le)
  ultimately show "length rest < length bs"
    by (auto simp: delim_lex_def Let_def split: list.splits if_splits)
qed

lemma delim_lex_fits: "fits (delim_lex d dlm io)"
  unfolding fits_def
proof (intro allI impI)
  fix bs w b rest
  assume eq: "delim_lex d dlm io bs = Token w b rest"
  let ?P = "\<lambda>c :: byte. uint c \<noteq> dlm"
  have n: "length (takeWhile ?P bs) + length (dropWhile ?P bs) = length bs"
    by (metis length_append takeWhile_dropWhile_id)
  have s: "length (strip_newline d u) \<le> length u" for u by (simp add: strip_newline_def)
  obtain u where "w = c_truncate u" "length u + length rest \<le> length bs"
    using eq n s [of "takeWhile ?P bs"]
    by (auto simp: delim_lex_def Let_def split: list.splits if_splits)
  then show "0 \<notin> set w \<and> length w + length rest \<le> length bs"
    using length_c_truncate [of u] by simp
qed

lemma delim_lex_no_NUL: "delim_lex d dlm io bs = Token w b r \<Longrightarrow> 0 \<notin> set w"
  using delim_lex_fits by (auto simp: fits_def)

section \<open>The code implements the reference\<close>

definition delim_ready :: "delim_tokenizer \<Rightarrow> bool" where
  "delim_ready t \<longleftrightarrow> tk_invar (dt_base t) \<and> tk_err (dt_base t) = TOKENIZER_ERR_NONE"

definition delim_error :: "delim_tokenizer \<Rightarrow> tokenizer_error" where
  "delim_error t = tokenizer_get_error (dt_base t)"

definition delim_lexer :: "platform \<Rightarrow> delim_tokenizer \<Rightarrow> bool \<Rightarrow> byte list \<Rightarrow> lexed" where
  "delim_lexer E t = delim_lex (dt_delim t) (char_promote E (dt_delim t))"

text \<open>What the rest of the input means after the bytes \<open>u\<close> of the current item.\<close>

definition delim_resume :: "byte \<Rightarrow> int \<Rightarrow> byte list \<Rightarrow> bool \<Rightarrow> byte list \<Rightarrow> lexed" where
  "delim_resume d dlm u io bs =
     (let w = u @ takeWhile (\<lambda>c. uint c \<noteq> dlm) bs in
      case dropWhile (\<lambda>c. uint c \<noteq> dlm) bs of
        c # rest \<Rightarrow> Token (c_truncate w) True rest
      | [] \<Rightarrow> if io then Stop TOKENIZER_ERR_IO False []
              else if w = [] then Stop TOKENIZER_ERR_NONE False []
              else Token (c_truncate (strip_newline d w)) False [])"

definition delim_outcome ::
    "lexed \<Rightarrow> byte \<Rightarrow> 'c \<Rightarrow> 'c \<Rightarrow> infile \<Rightarrow> cstr option \<times> delim_tokenizer \<times> 'c \<times> infile \<Rightarrow> bool" where
  "delim_outcome l d ctx0 ctx1 f = (\<lambda>(out, t', ctx', f'). case l of
      Token w b rest \<Rightarrow> out = Some w \<and> delim_ready t' \<and> dt_delim t' = d
        \<and> ctx' = (if b then ctx1 else ctx0) \<and> f' = f\<lparr>in_rest := rest\<rparr>
    | Stop e b rest \<Rightarrow> out = None \<and> delim_error t' = e \<and> ctx' = (if b then ctx1 else ctx0)
        \<and> f' = f\<lparr>in_rest := rest\<rparr>)"

definition dt_invar :: "delim_tokenizer \<Rightarrow> bool" where
  "dt_invar t \<longleftrightarrow> delim_ready t \<and> dt_token_start t = 0"

lemma delim_end_token_yields:
  assumes "dt_invar t" and "copes E S (length (tk_text (dt_base t)))"
  shows "yields S (delim_tokenizer_end_token E t) (\<lambda>(w, t').
    w = c_truncate (tk_text (dt_base t)) \<and> delim_ready t' \<and> dt_delim t' = dt_delim t)"
  using tokenizer_add_yields [of "dt_base t" E S 0] assms
  by (auto simp: delim_tokenizer_end_token_def dt_invar_def delim_ready_def
      tokenizer_token_string elim!: yields_conseq)

lemma delim_append_yields:
  assumes "dt_invar t" and "copes E S (length (tk_text (dt_base t)))"
  shows "yields S (delim_tokenizer_append_to_token E t (uint c)) (\<lambda>t'.
    dt_invar t' \<and> tk_text (dt_base t') = tk_text (dt_base t) @ [c] \<and> dt_delim t' = dt_delim t)"
  using tokenizer_add_yields [of "dt_base t" E S c] assms
  by (auto simp: delim_tokenizer_append_to_token_def dt_invar_def delim_ready_def
      elim!: yields_conseq)

lemma delim_at_eof_yields:
  assumes "dt_invar t" and "copes E S (length (tk_text (dt_base t)))" and "in_rest f = []"
  shows "yields S (delim_at_eof E t f) (\<lambda>(out, t').
    delim_outcome (delim_resume (dt_delim t) dlm (tk_text (dt_base t)) (in_error f) [])
      (dt_delim t) ctx0 ctx1 f (out, t', ctx0, f))"
proof (cases "in_error f \<or> tk_text (dt_base t) = []")
  case True
  moreover have "f\<lparr>in_rest := []\<rparr> = f" using assms(3) by (cases f) simp
  moreover have "tk_text (dt_base t) = [] \<longleftrightarrow> dt_token_start t = tokenizer_pos (dt_base t)"
    using assms(1) tokenizer_pos_0 [of "dt_base t"] by (auto simp: dt_invar_def delim_ready_def)
  ultimately show ?thesis
    using assms(1,3)
    by (auto simp: delim_at_eof_def ferror_def delim_outcome_def delim_resume_def delim_error_def
        tokenizer_get_error_def dt_invar_def delim_ready_def)
next
  case False
  let ?b = "dt_base t" and ?d = "t\<lparr>dt_base := tokenizer_drop_last (dt_base t)\<rparr>"
  have f: "f\<lparr>in_rest := []\<rparr> = f" using assms(3) by (cases f) simp
  have inv: "tk_invar ?b" using assms(1) by (simp add: dt_invar_def delim_ready_def)
  have pos: "tokenizer_pos ?b \<noteq> 0" using False inv by (simp add: tokenizer_pos_0)
  have load: "blk_load (tokenizer_token ?b (tokenizer_pos ?b - 1)) 0 = Inr (last (tk_text ?b))"
    using False inv pos
    by (subst tokenizer_token_load)
      (simp_all add: unat_minus_one unat_tokenizer_pos last_conv_nth)
  have d: "dt_invar ?d" "tk_text (dt_base ?d) = butlast (tk_text ?b)" "dt_delim ?d = dt_delim t"
    using assms(1) by (simp_all add: dt_invar_def delim_ready_def)
  have cd: "copes E S (length (tk_text (dt_base ?d)))"
    using assms(2) by (rule copes_le) (simp only: d(2) length_butlast diff_le_self)
  show ?thesis
    using False assms(1,3) pos load
      delim_end_token_yields [OF assms(1,2)] delim_end_token_yields [OF d(1) cd]
    by (auto simp: delim_at_eof_def ferror_def dt_invar_def Let_def delim_outcome_def
        delim_resume_def strip_newline_def f
        tokenizer_drop_last_simps(2) [OF inv] elim!: yields_conseq)
qed

lemma delim_outcome_file [simp]:
  "delim_outcome l d ctx0 ctx1 (f\<lparr>in_rest := cs\<rparr>) = delim_outcome l d ctx0 ctx1 f"
  by (simp add: delim_outcome_def fun_eq_iff split: lexed.splits)

lemma next_delim_loop_yields:
  assumes "dt_invar t" and "copes E S (length (tk_text (dt_base t)) + length (in_rest f))"
  shows "yields S (next_delim_loop E cb t ctx f)
    (delim_outcome (delim_resume (dt_delim t) (char_promote E (dt_delim t)) (tk_text (dt_base t))
        (in_error f) (in_rest f)) (dt_delim t) ctx (cb ctx) f)"
  using assms
proof (induction "in_rest f" arbitrary: t f)
  case Nil
  then show ?case
    using delim_at_eof_yields [of t E S f "char_promote E (dt_delim t)" ctx "cb ctx"]
    by (auto simp: next_delim_loop.simps [of _ _ _ _ f] getc_simps(1) elim!: yields_conseq)
next
  case (Cons c cs)
  have f: "in_rest f = c # cs" using Cons.hyps(2) by simp
  have copes: "copes E S (length (tk_text (dt_base t)))"
    using Cons.prems(2) by (rule copes_le) simp
  note unfold = next_delim_loop.simps [of _ _ _ _ f] getc_simps(2) [OF f] f
  show ?case
  proof (cases "uint c = char_promote E (dt_delim t)")
    case True
    then show ?thesis
      using delim_end_token_yields [OF Cons.prems(1) copes]
      by (auto simp: unfold Let_def delim_outcome_def delim_resume_def elim!: yields_conseq)
  next
    case False
    have "yields S (next_delim_loop E cb t' ctx (f\<lparr>in_rest := cs\<rparr>))
        (delim_outcome (delim_resume (dt_delim t) (char_promote E (dt_delim t))
          (tk_text (dt_base t)) (in_error f) (c # cs)) (dt_delim t) ctx (cb ctx) f)"
      if t': "dt_invar t'" "tk_text (dt_base t') = tk_text (dt_base t) @ [c]"
        "dt_delim t' = dt_delim t" for t'
      using Cons.hyps(1) [of "f\<lparr>in_rest := cs\<rparr>" t'] Cons.prems(2) False f that
      by (simp add: delim_resume_def)
    then show ?thesis
      using False delim_append_yields [OF Cons.prems(1) copes, of c]
      by (auto simp: unfold elim!: yields_conseq)
  qed
qed

lemma next_delim_token_yields:
  assumes "delim_ready t" and "copes E S (length (in_rest f) + 1)"
  shows "yields S (next_delim_token E cb t ctx f)
    (delim_outcome (delim_lexer E t (in_error f) (in_rest f)) (dt_delim t) ctx (cb ctx) f)"
proof -
  let ?t = "delim_tokenizer_start_token (t\<lparr>dt_base := tokenizer_reset (dt_base t)\<rparr>)"
  have t: "dt_invar ?t" "tk_text (dt_base ?t) = []" "dt_delim ?t = dt_delim t"
    using assms(1) by (simp_all add: delim_tokenizer_start_token_def dt_invar_def delim_ready_def)
  have "copes E S (length (tk_text (dt_base ?t)) + length (in_rest f))"
    using assms(2) by (rule copes_le) (simp add: t(2))
  from next_delim_loop_yields [OF t(1) this, of cb ctx] show ?thesis
    by (simp add: t(2,3) next_delim_token_def delim_lexer_def delim_lex_def delim_resume_def)
qed

lemma delim_tokenizer_create_yields [yields_intro]:
  assumes "copes E S (unat sz + 1)" and "unat sz < unat SIZE_MAX"
  shows "yields S (delim_tokenizer_create E sz d) (\<lambda>t. delim_ready t \<and> dt_delim t = d)"
  using tokenizer_create_yields [OF assms] yields_malloc [OF assms(1), of 40, where 'a = byte]
  by (auto simp: delim_tokenizer_create_def delim_ready_def elim!: yields_conseq)

lemmas delim_outcome_simps = delim_outcome_def delim_lexer_def

interpretation delim: tokenizing delim_ready delim_error delim_lexer next_delim_token
proof
  show "consumes (delim_lexer E t io)" for E t io
    by (simp add: delim_lexer_def delim_lex_consumes)
  show "fits (delim_lexer E t io)" for E t io
    by (simp add: delim_lexer_def delim_lex_fits)
next
  fix t E S and f :: infile and cb :: "'c \<Rightarrow> 'c" and ctx
  assume "delim_ready t" and "copes E S (length (in_rest f) + 1)"
  from next_delim_token_yields [OF this, of cb ctx]
  show "yields S (next_delim_token E cb t ctx f) (\<lambda>(out, t', ctx', f').
      case delim_lexer E t (in_error f) (in_rest f) of
        Token w b rest \<Rightarrow> out = Some w \<and> delim_ready t' \<and> delim_error t' = TOKENIZER_ERR_NONE
          \<and> delim_lexer E t' = delim_lexer E t \<and> ctx' = (if b then cb ctx else ctx)
          \<and> f' = f\<lparr>in_rest := rest\<rparr>
      | Stop e b rest \<Rightarrow> out = None \<and> delim_error t' = e \<and> ctx' = (if b then cb ctx else ctx)
          \<and> f' = f\<lparr>in_rest := rest\<rparr>)"
    by (rule yields_conseq)
      (auto simp: delim_outcome_simps delim_ready_def delim_error_def tokenizer_get_error_def
        split: lexed.splits)
qed

section \<open>Properties\<close>

definition demo_delim_tokenizer :: "byte \<Rightarrow> delim_tokenizer" where
  "demo_delim_tokenizer d = \<lparr>
     dt_base = \<lparr>tk_buf = \<lparr>bf_buf = [Some 0, Some 0], bf_sz = 1, bf_pos = 0\<rparr>,
                tk_err = TOKENIZER_ERR_NONE\<rparr>,
     dt_token_start = 0, dt_delim = d\<rparr>"

lemma demo_delim_ready [simp]: "delim_ready (demo_delim_tokenizer d)"
  by (simp add: demo_delim_tokenizer_def delim_ready_def tk_invar_def buffer_invar_def)

lemma demo_delim_delim [simp]: "dt_delim (demo_delim_tokenizer d) = d"
  by (simp add: demo_delim_tokenizer_def)

text \<open>
  C15. One call of the delimiter tokenizer takes the input up to the first byte that equals
  the promoted delimiter, fires the boundary callback for it, and at the end of the file
  returns what is left, without a final newline unless newline is the delimiter.
\<close>

theorem next_delim_token_refines:
  assumes "delim_ready t" and "ample E" and "length (in_rest f) < 2 ^ 58"
  shows "\<exists>out t' ctx' f'. next_delim_token E cb t ctx f = Inr (out, t', ctx', f')
    \<and> (case delim_lex (dt_delim t) (char_promote E (dt_delim t)) (in_error f) (in_rest f) of
        Token w b rest \<Rightarrow> out = Some w \<and> delim_ready t' \<and> dt_delim t' = dt_delim t
          \<and> ctx' = (if b then cb ctx else ctx) \<and> f' = f\<lparr>in_rest := rest\<rparr>
      | Stop e b rest \<Rightarrow> out = None \<and> delim_error t' = e
          \<and> ctx' = (if b then cb ctx else ctx) \<and> f' = f\<lparr>in_rest := rest\<rparr>)"
  using next_delim_token_yields [OF assms(1), of E "{}" f cb ctx] assms(2,3)
  by (fastforce simp: yields_empty copes_ample delim_outcome_simps)

theorem next_delim_token_refines_witness:
  "\<exists>t'. next_delim_token plain_host Suc (demo_delim_tokenizer 44) 0
      \<lparr>in_rest = [97, 98, cNL], in_error = False\<rparr>
      = Inr (Some [97, 98], t', 0, \<lparr>in_rest = [], in_error = False\<rparr>) \<and> delim_ready t'"
  using next_delim_token_refines [OF demo_delim_ready ample_plain_host,
      of "\<lparr>in_rest = [97, 98, cNL], in_error = False\<rparr>" Suc 44 0]
  by (auto simp: delim_lex_def strip_newline_def char_promote_def plain_host_def)

text \<open>
  On every host, a call of the delimiter tokenizer stays within its buffer and reads
  only initialised bytes, the look at the byte before the end included.
\<close>

theorem next_delim_token_memory_safe:
  assumes "delim_ready t"
  shows "case next_delim_token E cb t ctx f of
      Inl s \<Rightarrow> s \<in> resource_stops
    | Inr (out, t', ctx', f') \<Rightarrow> out \<noteq> None \<longrightarrow> delim_ready t' \<and> 0 \<notin> set (the out)"
  using next_delim_token_yields [OF assms, of E resource_stops f cb ctx]
  by (cases "next_delim_token E cb t ctx f";
      cases "delim_lex (dt_delim t) (char_promote E (dt_delim t)) (in_error f) (in_rest f)")
    (auto simp: delim_outcome_simps dest: delim_lex_no_NUL)

theorem next_delim_token_memory_safe_witness:
  "case next_delim_token (plain_host\<lparr>pf_can_alloc := \<lambda>n. n < 3\<rparr>) Suc (demo_delim_tokenizer 44) 0
        \<lparr>in_rest = [97, 98, cNL], in_error = True\<rparr> of
      Inl s \<Rightarrow> s \<in> resource_stops
    | Inr (out, t', ctx', f') \<Rightarrow> out \<noteq> None \<longrightarrow> delim_ready t' \<and> 0 \<notin> set (the out)"
  by (rule next_delim_token_memory_safe [OF demo_delim_ready])

lemma delim_lex_item:
  assumes "uint d = dlm" and "d \<notin> set w"
  shows "delim_lex d dlm io (w @ d # rest) = Token (c_truncate w) True rest"
proof -
  have "\<forall>c \<in> set w. uint c \<noteq> dlm" using assms by auto
  with assms(1) show ?thesis
    by (simp add: delim_lex_def Let_def dropWhile_append2)
qed

lemma char_promote_small: "\<not> pf_char_signed E \<or> d < 128 \<Longrightarrow> char_promote E d = uint d"
  by (auto simp: char_promote_def sint_byte word_less_def)

text \<open>
  C34. Round trip of delimited input (as \<open>find -print0\<close> writes it): an item followed by the
  delimiter is returned unchanged, spaces, quotes and newlines included, and the stream is
  left right behind the delimiter. Stated for the delimiters that keep their value when
  promoted, in particular the NUL of \<open>-0\<close>.
\<close>

theorem delimited_item_roundtrip:
  assumes "delim_ready t" and "ample E" and "length (w @ dt_delim t # rest) < 2 ^ 58"
    and "\<not> pf_char_signed E \<or> dt_delim t < 128"
    and "dt_delim t \<notin> set w" and "0 \<notin> set w"
  shows "\<exists>t'. next_delim_token E cb t ctx \<lparr>in_rest = w @ dt_delim t # rest, in_error = io\<rparr>
      = Inr (Some w, t', cb ctx, \<lparr>in_rest = rest, in_error = io\<rparr>)
      \<and> delim_ready t' \<and> dt_delim t' = dt_delim t"
proof -
  have "copes E {} (length (w @ dt_delim t # rest) + 1)"
    using assms(2,3) by (simp add: copes_ample)
  then show ?thesis
    using next_delim_token_yields [OF assms(1),
        of E "{}" "\<lparr>in_rest = w @ dt_delim t # rest, in_error = io\<rparr>" cb ctx]
      delim_lex_item [OF char_promote_small [OF assms(4), symmetric] assms(5), of io rest] assms(6)
    by (auto simp: yields_empty delim_outcome_simps)
qed

theorem delimited_item_roundtrip_witness:
  "\<exists>t'. next_delim_token plain_host Suc (demo_delim_tokenizer 0) 0
      \<lparr>in_rest = [97, cSPACE, cNL] @ 0 # [98], in_error = False\<rparr>
      = Inr (Some [97, cSPACE, cNL], t', 1, \<lparr>in_rest = [98], in_error = False\<rparr>)"
  using delimited_item_roundtrip [OF demo_delim_ready ample_plain_host,
      of "[97, cSPACE, cNL]" 0 "[98]" Suc 0 False]
  by auto

text \<open>
  C40. Where plain \<open>char\<close> is signed, a delimiter byte of 128 or more is promoted to a negative
  \<open>int\<close> that \<open>getc\<close> never returns: the delimiter is never found, no boundary is counted and
  the whole input is a single item.
\<close>

theorem high_delimiter_never_splits:
  assumes "delim_ready t" and "ample E" and "length bs < 2 ^ 58" and "bs \<noteq> []"
    and "pf_char_signed E" and "128 \<le> dt_delim t"
  shows "\<exists>t'. next_delim_token E cb t ctx \<lparr>in_rest = bs, in_error = False\<rparr>
      = Inr (Some (c_truncate (strip_newline (dt_delim t) bs)), t', ctx,
             \<lparr>in_rest = [], in_error = False\<rparr>)"
proof -
  let ?d = "dt_delim t"
  have "sint ?d < 0"
    using assms(6) uint_bounded [of ?d] by (simp add: word_le_def sint_byte)
  then have "sint ?d < uint c" for c :: byte
    using uint_ge_0 [of c] by (rule less_le_trans)
  then have "uint c \<noteq> char_promote E ?d" for c :: byte
    using assms(5) by (simp add: char_promote_def less_imp_neq [THEN not_sym])
  then have "delim_lex ?d (char_promote E ?d) False bs
      = Token (c_truncate (strip_newline ?d bs)) False []"
    using assms(4) by (simp add: delim_lex_def Let_def takeWhile_eq_all_conv [THEN iffD2]
        dropWhile_eq_Nil_conv [THEN iffD2])
  moreover have "copes E {} (length bs + 1)" using assms(2,3) by (simp add: copes_ample)
  ultimately show ?thesis
    using next_delim_token_yields [OF assms(1),
        of E "{}" "\<lparr>in_rest = bs, in_error = False\<rparr>" cb ctx]
    by (auto simp: yields_empty delim_outcome_simps)
qed

theorem high_delimiter_never_splits_witness:
  "\<exists>t'. next_delim_token plain_host Suc (demo_delim_tokenizer 255) 0
      \<lparr>in_rest = [97, 255, 98], in_error = False\<rparr>
      = Inr (Some [97, 255, 98], t', 0, \<lparr>in_rest = [], in_error = False\<rparr>)"
  using high_delimiter_never_splits [OF demo_delim_ready ample_plain_host,
      of "[97, 255, 98]" 255 Suc 0]
  by (simp add: plain_host_def strip_newline_def)

end
