(* ===== verification/Command_Args.thy ===== *)
theory Command_Args
  imports Growable
begin

text \<open>
  Models \<^verbatim>\<open>src/command_args.c\<close>: a growable array of owned strings that also keeps the number
  of bytes the strings take with their terminating NULs. A slot holds a pointer, \<open>None\<close>
  inside for \<open>NULL\<close>; slots beyond \<open>ca_count\<close> may be indeterminate.
\<close>

record command_args =
  ca_count :: size_t
  ca_capacity :: size_t
  ca_args :: "cstr option block"
  ca_length :: size_t

text \<open>\<open>sizeof(char*)\<close> is 8; the size in bytes is computed in \<open>size_t\<close> and may wrap.\<close>

definition reallocate_if_needed :: "platform \<Rightarrow> command_args \<Rightarrow> stop + command_args" where
  "reallocate_if_needed E args =
     (if ca_count args \<ge> ca_capacity args
      then rbind (phxargs_double_capacity (ca_capacity args)) (\<lambda>capacity.
           rbind (phxargs_realloc E 8 (ca_args args) (capacity * 8)) (\<lambda>b.
           Inr (args\<lparr>ca_capacity := capacity, ca_args := b\<rparr>)))
      else Inr args)"

text \<open>\<open>sizeof(command_args)\<close> is 32.\<close>

definition command_args_create_with_capacity :: "platform \<Rightarrow> size_t \<Rightarrow> stop + command_args" where
  "command_args_create_with_capacity E capacity =
     rbind (phxargs_malloc E 32 :: stop + byte block) (\<lambda>_.
     rbind (phxargs_calloc E None capacity 8) (\<lambda>b.
     Inr \<lparr>ca_count = 0, ca_capacity = capacity, ca_args = b, ca_length = 0\<rparr>))"

definition command_args_create :: "platform \<Rightarrow> stop + command_args" where
  "command_args_create E = command_args_create_with_capacity E 10"

definition command_args_add :: "platform \<Rightarrow> command_args \<Rightarrow> cstr \<Rightarrow> stop + command_args" where
  "command_args_add E args new_arg =
     rbind (reallocate_if_needed E args) (\<lambda>args.
     rbind (phxargs_strdup E (Some new_arg)) (\<lambda>copy.
     rbind (blk_store (ca_args args) (unat (ca_count args)) copy) (\<lambda>b.
     Inr (args\<lparr>ca_args := b, ca_count := ca_count args + 1,
       ca_length := ca_length args + (strlen new_arg + 1)\<rparr>))))"

definition command_args_count :: "command_args \<Rightarrow> size_t" where
  "command_args_count args = ca_count args"

definition command_args_length :: "command_args \<Rightarrow> size_t" where
  "command_args_length args = ca_length args"

definition command_args_at :: "command_args \<Rightarrow> size_t \<Rightarrow> stop + cstr option" where
  "command_args_at args i = blk_load (ca_args args) (unat i)"

section \<open>Invariant and abstraction\<close>

definition args_list :: "command_args \<Rightarrow> cstr list" where
  "args_list args = map (the \<circ> the) (take (unat (ca_count args)) (ca_args args))"

text \<open>The bytes a list of arguments takes in an argument vector.\<close>

definition args_bytes :: "cstr list \<Rightarrow> nat" where
  "args_bytes ws = (\<Sum>w \<leftarrow> ws. length w + 1)"

definition arg_ok :: "cstr \<Rightarrow> bool" where
  "arg_ok w \<longleftrightarrow> 0 \<notin> set w \<and> length w < 2 ^ 58"

definition args_invar :: "command_args \<Rightarrow> bool" where
  "args_invar args \<longleftrightarrow>
     length (ca_args args) = unat (ca_capacity args) \<and> unat (ca_capacity args) < 2 ^ 61
     \<and> unat (ca_count args) \<le> unat (ca_capacity args)
     \<and> take (unat (ca_count args)) (ca_args args) = map (Some \<circ> Some) (args_list args)
     \<and> (\<forall>w \<in> set (args_list args). arg_ok w)
     \<and> ca_length args = of_nat (args_bytes (args_list args))"

lemma args_bytes_simps [simp]:
  "args_bytes [] = 0"
  "args_bytes (w # ws) = length w + 1 + args_bytes ws"
  "args_bytes (us @ ws) = args_bytes us + args_bytes ws"
  by (simp_all add: args_bytes_def)

lemma args_bytes_length: "length ws \<le> args_bytes ws"
  by (induction ws) auto

lemma unat_args_count:
  "args_invar args \<Longrightarrow> unat (command_args_count args) = length (args_list args)"
  by (simp add: args_invar_def args_list_def command_args_count_def)

lemma command_args_length_eq:
  "args_invar args \<Longrightarrow> command_args_length args = of_nat (args_bytes (args_list args))"
  by (simp add: args_invar_def command_args_length_def)

lemma command_args_at_eq:
  assumes "args_invar args" and "unat i < length (args_list args)"
  shows "command_args_at args i = Inr (Some (args_list args ! unat i))"
proof -
  have n: "length (args_list args) = unat (ca_count args)"
    using unat_args_count [OF assms(1)] by (simp add: command_args_count_def)
  have "take (unat (ca_count args)) (ca_args args) ! unat i = Some (Some (args_list args ! unat i))"
    using assms by (simp add: args_invar_def)
  then have "ca_args args ! unat i = Some (Some (args_list args ! unat i))"
    using assms(2) by (simp add: n)
  then show ?thesis
    using assms by (simp add: command_args_at_def blk_load_def args_invar_def n)
qed

lemma create_with_capacity_yields [yields_intro]:
  assumes "copes E S (unat capacity)" and "unat capacity < 2 ^ 61 \<or> resource_stops \<subseteq> S"
  shows "yields S (command_args_create_with_capacity E capacity)
    (\<lambda>args. args_invar args \<and> args_list args = [] \<and> ca_capacity args = capacity)"
  using yields_malloc [OF assms(1), of 32, where 'a = byte]
    yields_calloc [OF assms(1), of 8 "None :: cstr option"]
  by (auto simp: command_args_create_with_capacity_def args_invar_def args_list_def
      elim!: yields_conseq)

lemma command_args_create_yields [yields_intro]:
  "copes E S 10 \<Longrightarrow> yields S (command_args_create E)
    (\<lambda>args. args_invar args \<and> args_list args = [])"
  using create_with_capacity_yields [of E S 10]
  by (auto simp: command_args_create_def elim: yields_conseq)

text \<open>
  A capacity of \<open>2 ^ 61\<close> slots or more is refused on every host: its size in bytes does
  not fit \<open>size_t\<close>.
\<close>

lemma create_huge_capacity:
  assumes "2 ^ 61 \<le> unat capacity"
  shows "\<exists>e \<in> {Perror_malloc, Perror_calloc}.
    command_args_create_with_capacity E capacity = Inl (Exit EXIT_FAILURE e)"
  using assms
  by (auto simp: command_args_create_with_capacity_def phxargs_calloc_def phxargs_malloc_def
      rbind_def)

lemma reallocate_yields:
  assumes "args_invar args" and "length (args_list args) < 2 ^ 59"
    and "copes E S (length (args_list args))"
  shows "yields S (reallocate_if_needed E args) (\<lambda>args'. args_invar args'
    \<and> unat (ca_count args') < unat (ca_capacity args') \<and> ca_count args' = ca_count args
    \<and> ca_length args' = ca_length args \<and> args_list args' = args_list args)"
proof (cases "ca_count args \<ge> ca_capacity args")
  case False
  with assms(1) show ?thesis
    by (simp add: reallocate_if_needed_def size_le_unat)
next
  case True
  have cnt: "unat (ca_count args) = length (args_list args)"
    using unat_args_count [OF assms(1)] by (simp add: command_args_count_def)
  have full: "unat (ca_capacity args) = length (args_list args)"
    using True assms(1) cnt by (simp add: args_invar_def size_le_unat)
  have "yields S (phxargs_realloc E 8 (ca_args args) (c * 8))
      (\<lambda>b. b = ca_args args @ replicate (unat c - unat (ca_capacity args)) None)"
    if "unat c = max 1 (2 * unat (ca_capacity args))" for c
  proof -
    have "unat (c * 8) = unat c * 8"
      using that full assms(2) by (subst unat_mult_size) (simp_all add: max_def)
    then show ?thesis
      using yields_realloc [OF assms(3), of "c * 8" "unat c" 8 "ca_args args"] that assms(1)
      by (simp add: args_invar_def)
  qed
  note realloc = this
  have double: "yields S (phxargs_double_capacity (ca_capacity args)) (\<lambda>c.
      unat c = max 1 (2 * unat (ca_capacity args)) \<and> unat (ca_capacity args) < unat c
      \<and> unat c < unat SIZE_MAX)"
    using assms(3) by (intro yields_double_capacity) (simp add: full)
  have inv: "args_invar (args\<lparr>ca_capacity := c, ca_args := b\<rparr>)
      \<and> args_list (args\<lparr>ca_capacity := c, ca_args := b\<rparr>) = args_list args"
    if "unat c = max 1 (2 * unat (ca_capacity args))" "unat (ca_capacity args) < unat c"
      "b = ca_args args @ replicate (unat c - unat (ca_capacity args)) None" for c b
  proof -
    have "take (unat (ca_count args)) b = take (unat (ca_count args)) (ca_args args)"
      using that assms(1) by (simp add: args_invar_def)
    moreover from this
    have "args_list (args\<lparr>ca_capacity := c, ca_args := b\<rparr>) = args_list args"
      by (simp add: args_list_def)
    ultimately show ?thesis
      using that assms(1,2) full by (simp add: args_invar_def max_def)
  qed
  have "yields S (rbind (phxargs_realloc E 8 (ca_args args) (c * 8)) (\<lambda>b.
        Inr (args\<lparr>ca_capacity := c, ca_args := b\<rparr>))) (\<lambda>args'. args_invar args'
      \<and> unat (ca_count args') < unat (ca_capacity args') \<and> ca_count args' = ca_count args
      \<and> ca_length args' = ca_length args \<and> args_list args' = args_list args)"
    if "unat c = max 1 (2 * unat (ca_capacity args)) \<and> unat (ca_capacity args) < unat c
      \<and> unat c < unat SIZE_MAX" for c
    using that inv [of c] cnt full
    by (simp, intro yields_conseq [OF realloc]) auto
  from yields_rbindI [OF double this] True show ?thesis
    by (simp add: reallocate_if_needed_def)
qed

text \<open>Adding an argument refines appending to a list, and keeps the byte count.\<close>

lemma command_args_add_yields [yields_intro]:
  assumes "args_invar args" and "arg_ok w" and "length (args_list args) < 2 ^ 59"
    and "copes E S (length (args_list args))"
  shows "yields S (command_args_add E args w)
    (\<lambda>args'. args_invar args' \<and> args_list args' = args_list args @ [w])"
proof -
  have dup: "yields S (phxargs_strdup E (Some w)) (\<lambda>t. t = Some w)"
    using assms(2,4) by (intro yields_strdup) (auto simp: arg_ok_def copes_def)
  have store: "yields S (rbind (blk_store (ca_args a) (unat (ca_count a)) (Some w)) (\<lambda>b.
      Inr (a\<lparr>ca_args := b, ca_count := ca_count a + 1,
        ca_length := ca_length a + (strlen w + 1)\<rparr>)))
      (\<lambda>args'. args_invar args' \<and> args_list args' = args_list args @ [w])"
    if a: "args_invar a" "unat (ca_count a) < unat (ca_capacity a)" "args_list a = args_list args"
    for a
  proof -
    let ?n = "unat (ca_count a)"
    have "unat (ca_count a + 1) = Suc ?n"
      using a by (simp add: args_invar_def size_simps)
    moreover have "take (Suc ?n) ((ca_args a)[?n := Some (Some w)])
        = map (Some \<circ> Some) (args_list args @ [w])"
      using a take_eq_map_Some_snoc [of ?n "ca_args a" "map Some (args_list args)" "Some w"]
      by (simp add: args_invar_def)
    moreover from calculation have "args_list (a\<lparr>ca_args := (ca_args a)[?n := Some (Some w)],
        ca_count := ca_count a + 1, ca_length := l\<rparr>) = args_list args @ [w]" for l
      by (subst args_list_def) (simp add: o_def)
    ultimately show ?thesis
      using a assms(2) by (simp add: blk_store_def args_invar_def strlen_def add.commute)
  qed
  show ?thesis
    unfolding command_args_add_def
    by (intro yields_rbindI [OF reallocate_yields [OF assms(1,3,4)]] yields_rbindI [OF dup])
      (hypsubst, elim conjE, rule store)
qed

interpretation ga: growable args_invar args_list arg_ok command_args_add
  by unfold_locales (rule command_args_add_yields)

end
