(* ===== verification/Str.thy ===== *)
theory Str
  imports Util
begin

text \<open>
  Models \<^verbatim>\<open>src/str.c\<close>, the placeholder substitution of the \<open>-I\<close> mode. The code makes two
  passes: it counts the occurrences to size the result, then fills the result with
  \<open>memcpy\<close>. The reference is \<open>replace_all\<close>, a one-pass leftmost substitution.
\<close>

section \<open>The code\<close>

text \<open>\<open>strstr\<close> of the C library: the offset of the first occurrence.\<close>

fun strstr :: "cstr \<Rightarrow> cstr \<Rightarrow> nat option" where
  "strstr [] n = (if n = [] then Some 0 else None)"
| "strstr (c # cs) n = (if prefix n (c # cs) then Some 0 else map_option Suc (strstr cs n))"

definition checked_mul :: "size_t \<Rightarrow> size_t \<Rightarrow> stop + size_t" where
  "checked_mul a b = (if a \<noteq> 0 \<and> b > SIZE_MAX div a
     then Inl (Exit EXIT_FAILURE Replacement_too_large) else Inr (a * b))"

definition checked_add :: "size_t \<Rightarrow> size_t \<Rightarrow> stop + size_t" where
  "checked_add a b = (if a > SIZE_MAX - b
     then Inl (Exit EXIT_FAILURE Replacement_too_large) else Inr (a + b))"

lemma strstr_Some:
  "strstr s p = Some i \<Longrightarrow> i + length p \<le> length s \<and> prefix p (drop i s)"
proof (induction s p arbitrary: i rule: strstr.induct)
  case (2 c cs n)
  then show ?case
    by (auto split: if_splits dest: prefix_length_le)
qed (auto split: if_splits)

lemma strstr_shrinks:
  "strstr s p = Some i \<Longrightarrow> p \<noteq> [] \<Longrightarrow> length s - (i + length p) < length s"
  using strstr_Some [of s p i] by (cases p) auto

text \<open>
  The two loops advance a pointer into the NUL-terminated string; it is modelled by the
  suffix it points to. Both run only on a non-empty placeholder (the code returned
  earlier otherwise); the test \<open>p = []\<close> makes the recursion total.
\<close>

function count_occurrences :: "cstr \<Rightarrow> cstr \<Rightarrow> size_t \<Rightarrow> size_t" where
  "count_occurrences tmp p n =
     (if p = [] then n
      else case strstr tmp p of
        None \<Rightarrow> n
      | Some i \<Rightarrow> count_occurrences (drop (i + length p) tmp) p (n + 1))"
  by pat_completeness auto

termination
  by (relation "measure (\<lambda>(tmp, p, n). length tmp)") (auto intro: strstr_shrinks)

function fill_replaced :: "cstr \<Rightarrow> cstr \<Rightarrow> cstr \<Rightarrow> nat \<Rightarrow> byte block
    \<Rightarrow> stop + cstr \<times> nat \<times> byte block" where
  "fill_replaced pos p repl new_pos result =
     (if p = [] then Inr (pos, new_pos, result)
      else case strstr pos p of
        None \<Rightarrow> Inr (pos, new_pos, result)
      | Some prefix_len \<Rightarrow>
          rbind (blk_copy result new_pos (take prefix_len pos)) (\<lambda>result.
          rbind (blk_copy result (new_pos + prefix_len) repl) (\<lambda>result.
          fill_replaced (drop (prefix_len + length p) pos) p repl
            (new_pos + prefix_len + length repl) result)))"
  by pat_completeness auto
termination
  by (relation "measure (\<lambda>(pos, p, repl, new_pos, result). length pos)")
    (auto intro: strstr_shrinks)

declare count_occurrences.simps [simp del] fill_replaced.simps [simp del]

definition str_replace ::
    "platform \<Rightarrow> cstr option \<Rightarrow> cstr option \<Rightarrow> cstr option \<Rightarrow> stop + cstr option" where
  "str_replace E s placeholder replacement = (case s of
       None \<Rightarrow> Inr None
     | Some s \<Rightarrow>
         if placeholder = None \<or> strlen (the placeholder) = 0 then phxargs_strdup E (Some s)
         else
           let p = the placeholder;
               repl = (case replacement of None \<Rightarrow> [] | Some r \<Rightarrow> r);
               target_len = strlen s;
               placeholder_len = strlen p;
               replacement_len = strlen repl;
               occurrence_count = count_occurrences s p 0
           in rbind (checked_mul occurrence_count placeholder_len) (\<lambda>removed.
              rbind (checked_mul occurrence_count replacement_len) (\<lambda>added.
              rbind (checked_add (target_len - removed) added) (\<lambda>new_len.
              rbind (phxargs_calloc E 0 (new_len + 1) 1) (\<lambda>result.
              rbind (fill_replaced s p repl 0 result) (\<lambda>(pos, new_pos, result).
              rbind (blk_copy result new_pos (pos @ [0])) (\<lambda>result.
              rbind (c_string result) (\<lambda>t. Inr (Some t)))))))))"

section \<open>The reference\<close>

function replace_all :: "cstr \<Rightarrow> cstr \<Rightarrow> cstr \<Rightarrow> cstr" where
  "replace_all p r [] = []"
| "replace_all p r (c # cs) =
     (if p \<noteq> [] \<and> prefix p (c # cs) then r @ replace_all p r (drop (length p) (c # cs))
      else c # replace_all p r cs)"
  by pat_completeness auto
termination
  by (relation "measure (\<lambda>(p, r, s). length s)") (auto simp: drop_Cons')

function occurrences :: "cstr \<Rightarrow> cstr \<Rightarrow> nat" where
  "occurrences p [] = 0"
| "occurrences p (c # cs) =
     (if p \<noteq> [] \<and> prefix p (c # cs) then Suc (occurrences p (drop (length p) (c # cs)))
      else occurrences p cs)"
  by pat_completeness auto
termination
  by (relation "measure (\<lambda>(p, s). length s)") (auto simp: drop_Cons')

lemma replace_all_strstr:
  assumes "p \<noteq> []"
  shows "strstr s p = None \<Longrightarrow> replace_all p r s = s"
    and "strstr s p = Some i \<Longrightarrow>
      replace_all p r s = take i s @ r @ replace_all p r (drop (i + length p) s)"
    and "strstr s p = None \<Longrightarrow> occurrences p s = 0"
    and "strstr s p = Some i \<Longrightarrow> occurrences p s = Suc (occurrences p (drop (i + length p) s))"
  using assms by (induction s arbitrary: i) (auto split: if_splits)

lemma length_replace_all:
  "length (replace_all p r s) + occurrences p s * length p
     = length s + occurrences p s * length r"
proof (induction p r s rule: replace_all.induct)
  case (2 p r c cs)
  then show ?case
    using prefix_length_le [of p "c # cs"] by (cases "p \<noteq> [] \<and> prefix p (c # cs)") auto
qed simp

lemma occurrences_le: "occurrences p s * length p \<le> length s"
proof (induction p s rule: occurrences.induct)
  case (2 p c cs)
  then show ?case
    using prefix_length_le [of p "c # cs"] by (cases "p \<noteq> [] \<and> prefix p (c # cs)") auto
qed simp

lemma set_replace_all: "set (replace_all p r s) \<subseteq> set s \<union> set r"
proof (induction p r s rule: replace_all.induct)
  case (2 p r c cs)
  then show ?case
    using set_drop_subset [of "length p" "c # cs"] by auto
qed simp

lemma count_occurrences_eq:
  "p \<noteq> [] \<Longrightarrow> count_occurrences s p n = n + of_nat (occurrences p s)"
proof (induction s p n rule: count_occurrences.induct)
  case (1 s p n)
  then show ?case
    by (cases "strstr s p")
      (simp_all add: count_occurrences.simps [of s] replace_all_strstr algebra_simps)
qed

lemma fill_replaced_spec:
  "p \<noteq> [] \<Longrightarrow> np + length (replace_all p r pos) + 1 \<le> length blk \<Longrightarrow>
   rbind (fill_replaced pos p r np blk) (\<lambda>(pos, np, blk). blk_copy blk np (pos @ [0]))
     = Inr (take np blk @ map Some (replace_all p r pos @ [0])
         @ drop (np + length (replace_all p r pos) + 1) blk)"
proof (induction pos p r np blk rule: fill_replaced.induct)
  case (1 pos p r np blk)
  show ?case
  proof (cases "strstr pos p")
    case None
    with 1 show ?thesis
      by (simp add: fill_replaced.simps [of pos] replace_all_strstr(1) blk_copy_def)
  next
    case (Some i)
    note le = strstr_Some [OF Some]
    note eq = replace_all_strstr(2) [OF "1.prems"(1) Some, of r]
    let ?b1 = "take np blk @ map Some (take i pos) @ drop (np + i) blk"
    let ?b2 = "take (np + i) ?b1 @ map Some r @ drop (np + i + length r) ?b1"
    have len: "length ?b1 = length blk" "length ?b2 = length blk"
      using "1.prems"(2) le by (simp_all add: eq)
    have b1: "blk_copy blk np (take i pos) = Inr ?b1"
      using "1.prems"(2) le by (simp add: eq blk_copy_def)
    have b2: "blk_copy ?b1 (np + i) r = Inr ?b2"
      unfolding blk_copy_def len(1) using "1.prems"(2) le by (simp add: eq)
    have "rbind (fill_replaced (drop (i + length p) pos) p r (np + i + length r) ?b2)
        (\<lambda>(pos, np, blk). blk_copy blk np (pos @ [0]))
        = Inr (take (np + i + length r) ?b2
           @ map Some (replace_all p r (drop (i + length p) pos) @ [0])
           @ drop (np + i + length r + length (replace_all p r (drop (i + length p) pos)) + 1) ?b2)"
      using "1.IH" [OF "1.prems"(1) Some b1 b2] "1.prems" le len(2) by (simp add: eq)
    then show ?thesis
      using "1.prems" Some b1 b2 le
      by (simp add: fill_replaced.simps [of pos] eq algebra_simps)
  qed
qed

lemma checked_mul_eq:
  "checked_mul a b = (if unat a * unat b < 2 ^ 64 then Inr (a * b)
     else Inl (Exit EXIT_FAILURE Replacement_too_large))"
proof (cases "a = 0")
  case True
  then show ?thesis by (simp add: checked_mul_def)
next
  case False
  then have "0 < unat a" by (simp add: unat_gt_0)
  then have "unat (SIZE_MAX div a) < unat b \<longleftrightarrow> \<not> unat a * unat b < 2 ^ 64"
    by (simp add: unat_div div_less_iff_less_mult mult.commute) linarith
  with False show ?thesis by (simp add: checked_mul_def size_less_unat)
qed

lemma checked_add_eq:
  "checked_add a b = (if unat a + unat b < 2 ^ 64 then Inr (a + b)
     else Inl (Exit EXIT_FAILURE Replacement_too_large))"
proof -
  have "unat (SIZE_MAX - b) = unat SIZE_MAX - unat b"
    using size_t_bound [of b] by (simp add: unat_sub size_le_unat)
  then show ?thesis
    using size_t_bound [of b] by (auto simp: checked_add_def size_less_unat)
qed

section \<open>Correctness\<close>

text \<open>The three checked steps compute the length of the result, or refuse it.\<close>

lemma replaced_length_checked:
  assumes "p \<noteq> []" and "length s < 2 ^ 64" and "length p < 2 ^ 64" and "length r < 2 ^ 64"
  defines "k \<equiv> of_nat (occurrences p s) :: size_t"
  shows "rbind (checked_mul k (strlen p)) (\<lambda>removed.
           rbind (checked_mul k (strlen r)) (\<lambda>added.
           rbind (checked_add (strlen s - removed) added) f))
     = (if length (replace_all p r s) < 2 ^ 64 then f (of_nat (length (replace_all p r s)))
        else Inl (Exit EXIT_FAILURE Replacement_too_large))"
proof -
  let ?o = "occurrences p s" and ?L = "length (replace_all p r s)"
  have le: "?o * length p \<le> length s" by (rule occurrences_le)
  have sum: "?L + ?o * length p = length s + ?o * length r" by (rule length_replace_all)
  have "?o \<le> ?o * length p" using assms(1) by (cases p) auto
  then have "?o < 2 ^ 64" using le assms(2) by linarith
  then have k: "unat k = ?o" by (simp add: k_def size_simps)
  have m: "unat (k * strlen p) = ?o * length p"
    using k le assms(2,3) by (simp add: size_simps unat_strlen)
  have d: "unat (strlen s - k * strlen p) = length s - ?o * length p"
    using m le assms(2) by (simp add: unat_sub size_le_unat unat_strlen)
  show ?thesis
  proof (cases "?o * length r < 2 ^ 64")
    case True
    then have a: "unat (k * strlen r) = ?o * length r"
      using k assms(4) by (simp add: size_simps unat_strlen)
    have "unat (strlen s - k * strlen p) + unat (k * strlen r) = ?L"
      using sum le by (simp add: d a)
    moreover from this have "?L < 2 ^ 64 \<Longrightarrow>
        strlen s - k * strlen p + k * strlen r = of_nat ?L"
      by (simp add: size_eq_unat size_simps)
    ultimately show ?thesis
      using k le True assms(2-4) by (simp add: checked_mul_eq checked_add_eq unat_strlen)
  next
    case False
    moreover have "?o * length r \<le> ?L" using sum le by linarith
    ultimately show ?thesis
      using k le assms(2-4) by (simp add: checked_mul_eq unat_strlen)
  qed
qed

text \<open>
  The substitution is the reference, on any host that copes with the size of the result:
  no \<open>memcpy\<close> leaves the buffer and the buffer is filled to its last byte.
\<close>

lemma str_replace_yields [yields_intro]:
  assumes "p \<noteq> []" and "0 \<notin> set s" and "0 \<notin> set r"
    and "length s < 2 ^ 64" and "length p < 2 ^ 64" and "length r < 2 ^ 64"
    and "length (replace_all p r s) < 2 ^ 64 - 1"
    and "copes E S (length (replace_all p r s) + 1)"
  shows "yields S (str_replace E (Some s) (Some p) (Some r)) (\<lambda>t. t = Some (replace_all p r s))"
proof -
  let ?L = "length (replace_all p r s)"
  have n1: "unat (of_nat ?L + 1 :: size_t) = ?L + 1"
    using assms(7) by (simp add: size_simps)
  have p0: "strlen p \<noteq> 0"
    using assms(1,5) by (simp add: size_eq_unat unat_strlen)
  have NUL: "0 \<notin> set (replace_all p r s)"
    using set_replace_all [of p r s] assms(2,3) by auto
  have fill: "rbind (fill_replaced s p r 0 (replicate (?L + 1) (Some 0)))
      (\<lambda>(pos, np, blk). blk_copy blk np (pos @ [0])) = Inr (map Some (replace_all p r s @ [0]))"
    by (subst fill_replaced_spec) (simp_all add: assms(1))
  then obtain pos np blk where
    fill': "fill_replaced s p r 0 (replicate (?L + 1) (Some 0)) = Inr (pos, np, blk)"
      "blk_copy blk np (pos @ [0]) = Inr (map Some (replace_all p r s @ [0]))"
    by (auto simp: rbind_Inr_iff)
  have "yields S (phxargs_calloc E (0 :: byte) (of_nat ?L + 1) 1)
      (\<lambda>b. b = replicate (?L + 1) (Some 0))"
    using yields_calloc [of E S "of_nat ?L + 1" 1 "0 :: byte"] assms(8) n1
    by (auto elim: yields_conseq)
  then show ?thesis
    using assms(7) p0 fill' NUL
    unfolding str_replace_def Let_def option.case option.sel
    by (auto simp: count_occurrences_eq [OF assms(1)]
        replaced_length_checked [OF assms(1,4-6)] elim!: yields_conseq)
qed

lemma replace_all_self: "replace_all p p s = s"
proof (induction s rule: length_induct)
  case (1 s)
  then show ?case
    by (cases s) (auto simp: prefix_def length_append [symmetric] simp del: length_append)
qed

text \<open>Substituting in a text built from placeholder-free pieces.\<close>

lemma replace_all_no_occurrence: "\<not> sublist p s \<Longrightarrow> replace_all p r s = s"
  by (induction s) (auto simp: sublist_Cons_right)

text \<open>Each byte of the text makes room for at most one replacement.\<close>

lemma length_replace_all_le: "length (replace_all p r s) \<le> length s * (length r + 1)"
proof -
  have "occurrences p s \<le> length s"
  proof (cases p)
    case (Cons a q)
    have "occurrences p s \<le> occurrences p s * length p" by (simp add: Cons)
    with occurrences_le [of p s] show ?thesis by linarith
  qed (induction s, simp_all)
  then have "occurrences p s * length r \<le> length s * length r" by (rule mult_le_mono1)
  moreover have "length s * (length r + 1) = length s + length s * length r" by simp
  ultimately show ?thesis using length_replace_all [of p r s] by linarith
qed

lemma replace_all_empty [simp]: "replace_all [] r s = s"
  by (induction s) simp_all

text \<open>The same for every placeholder: an empty one is never found, here and in the reference.\<close>

lemma str_replace_any_yields:
  assumes "0 \<notin> set s" and "0 \<notin> set r" and "length s < 2 ^ 58" and "length p < 2 ^ 58"
    and "length r < 2 ^ 58" and "length (replace_all p r s) < 2 ^ 58"
    and "copes E S (length (replace_all p r s) + 1)"
  shows "yields S (str_replace E (Some s) (Some p) (Some r)) (\<lambda>t. t = Some (replace_all p r s))"
proof (cases "p = []")
  case True
  then have "copes E S (length s)" using assms(7) by (auto intro: copes_le)
  with True assms show ?thesis
    using yields_strdup [of E S s] by (simp add: str_replace_def strlen_def)
next
  case False
  with assms show ?thesis by (intro str_replace_yields) auto
qed

section \<open>Properties\<close>

text \<open>
  C17. Substitution is exact: on a host with memory to spare \<open>str_replace\<close> returns the text with
  every occurrence of the placeholder, searched from the left and not inside what was put
  in, exchanged for the replacement; an empty placeholder is never found. No copy leaves
  the buffer, whose size was computed before.
\<close>

theorem str_replace_is_leftmost_substitution:
  assumes "0 \<notin> set s" and "0 \<notin> set r" and "length s < 2 ^ 58" and "length p < 2 ^ 58"
    and "length r < 2 ^ 58" and "length (replace_all p r s) < 2 ^ 58" and "ample E"
  shows "str_replace E (Some s) (Some p) (Some r) = Inr (Some (replace_all p r s))"
proof -
  have "copes E {} (length (replace_all p r s) + 1)" using assms(6,7) by (simp add: copes_ample)
  from str_replace_any_yields [OF assms(1-6) this] show ?thesis by (auto simp: yields_empty)
qed

theorem str_replace_is_leftmost_substitution_witness:
  "str_replace plain_host (Some [1, 1, 1, 2]) (Some [1, 1]) (Some [1, 3])
     = Inr (Some [1, 3, 1, 2])"
  using str_replace_is_leftmost_substitution [of "[1, 1, 1, 2]" "[1, 3]" "[1, 1]" plain_host] by simp

text \<open>
  A substitution whose result would not fit \<open>size_t\<close> is refused on every host, before any
  memory is requested: the checked multiplications and additions miss no overflow.
\<close>

theorem str_replace_refuses_overflow:
  assumes "p \<noteq> []" and "length s < 2 ^ 64" and "length p < 2 ^ 64" and "length r < 2 ^ 64"
    and "2 ^ 64 \<le> length (replace_all p r s)"
  shows "str_replace E (Some s) (Some p) (Some r) = Inl (Exit EXIT_FAILURE Replacement_too_large)"
proof -
  have "strlen p \<noteq> 0" using assms(1,3) by (simp add: size_eq_unat unat_strlen)
  then show ?thesis
    using assms(5)
    by (simp add: str_replace_def Let_def count_occurrences_eq [OF assms(1)]
        replaced_length_checked [OF assms(1-4)])
qed

lemma length_replace_all_replicate: "length (replace_all [c] r (replicate n c)) = n * length r"
  by (induction n) simp_all

theorem str_replace_refuses_overflow_witness:
  "str_replace plain_host (Some (replicate 8589934592 1)) (Some [1]) (Some (replicate 8589934592 2))
     = Inl (Exit EXIT_FAILURE Replacement_too_large)"
  by (rule str_replace_refuses_overflow) (simp_all add: length_replace_all_replicate)

text \<open>
  One size slips through: a result of exactly \<open>SIZE_MAX\<close> bytes passes the checks, and the
  byte for its NUL wraps the size of the allocation to zero, so that the first copy leaves
  the buffer.
\<close>

lemma replace_all_one_byte_short:
  assumes "p \<noteq> []" and "length s < 2 ^ 64 - 1" and "length p < 2 ^ 64" and "length r < 2 ^ 64"
    and "length (replace_all p r s) = 2 ^ 64 - 1" and "pf_can_alloc E 0"
  shows "str_replace E (Some s) (Some p) (Some r) = Inl Undefined"
proof -
  have p0: "strlen p \<noteq> 0" using assms(1,3) by (simp add: size_eq_unat unat_strlen)
  have s: "length s < 2 ^ 64" using assms(2) by simp
  have "replace_all p r s \<noteq> s" using assms(2,5) by auto
  then obtain i where i: "strstr s p = Some i"
    using replace_all_strstr(1) [OF assms(1), of s r] by (cases "strstr s p") auto
  have "r \<noteq> []"
  proof
    assume "r = []"
    then have "length (replace_all p r s) \<le> length s" using length_replace_all [of p r s] by simp
    with assms(2,5) show False by simp
  qed
  then have "fill_replaced s p r 0 [] = Inl Undefined"
    using assms(1) strstr_Some [OF i]
    by (cases "i = 0") (simp_all add: fill_replaced.simps [of s p r 0 "[]"] i blk_copy_def)
  moreover have "phxargs_calloc E (0 :: byte) (of_nat (length (replace_all p r s)) + 1) 1 = Inr []"
  proof -
    have w: "of_nat (length (replace_all p r s)) + 1 = (0 :: size_t)" unfolding assms(5) by simp
    show ?thesis unfolding phxargs_calloc_def w using assms(6) by simp
  qed
  moreover have "length (replace_all p r s) < 2 ^ 64" using assms(5) by simp
  ultimately show ?thesis
    using p0
    by (simp add: str_replace_def Let_def count_occurrences_eq [OF assms(1)]
        replaced_length_checked [OF assms(1) s assms(3,4)])
qed

end
