(* ===== verification/Getopt.thy ===== *)
theory Getopt
  imports Util
begin

text \<open>
  The two functions of the C library that \<^verbatim>\<open>src/options.c\<close> relies on: POSIX \<open>getopt\<close> (the
  build defines \<open>_POSIX_C_SOURCE\<close>, so arguments are not permuted) and \<open>strtol\<close> in base ten.
\<close>

section \<open>String constants\<close>

definition bytes :: "string \<Rightarrow> cstr" where
  "bytes s = map of_char s"

section \<open>getopt\<close>

text \<open>
  The static state of \<open>getopt\<close>: the index of the next element of \<open>argv\<close> and, inside a group
  of options, the characters not yet read. A result is the option character, \<open>?\<close>, \<open>:\<close> or
  \<open>-1\<close>, with \<open>optarg\<close> and \<open>optopt\<close>.
\<close>

record getopt_state =
  go_optind :: nat
  go_nextchar :: cstr

definition getopt_init :: getopt_state where
  "getopt_init = \<lparr>go_optind = 1, go_nextchar = []\<rparr>"

text \<open>Whether an option string knows a character, and whether it takes an argument.\<close>

fun takes_argument :: "cstr \<Rightarrow> byte \<Rightarrow> bool option" where
  "takes_argument [] c = None"
| "takes_argument (o' # os) c =
     (if c = of_char CHR '':'' then None
      else if o' = c then Some (os \<noteq> [] \<and> hd os = of_char CHR '':'')
      else takes_argument os c)"

record getopt_result =
  gr_opt :: int
  gr_optarg :: "cstr option"
  gr_optopt :: byte

definition getopt_scan :: "cstr list \<Rightarrow> cstr \<Rightarrow> nat \<Rightarrow> byte \<Rightarrow> cstr \<Rightarrow> getopt_result \<times> getopt_state" where
  "getopt_scan argv optstring i c rest =
     (let step = (if rest = [] then \<lparr>go_optind = i + 1, go_nextchar = []\<rparr>
                  else \<lparr>go_optind = i, go_nextchar = rest\<rparr>) in
      case takes_argument optstring c of
        None \<Rightarrow> (\<lparr>gr_opt = uint (of_char CHR ''?'' :: byte), gr_optarg = None, gr_optopt = c\<rparr>, step)
      | Some False \<Rightarrow> (\<lparr>gr_opt = uint c, gr_optarg = None, gr_optopt = 0\<rparr>, step)
      | Some True \<Rightarrow>
          if rest \<noteq> [] then
            (\<lparr>gr_opt = uint c, gr_optarg = Some rest, gr_optopt = 0\<rparr>,
             \<lparr>go_optind = i + 1, go_nextchar = []\<rparr>)
          else if i + 1 < length argv then
            (\<lparr>gr_opt = uint c, gr_optarg = Some (argv ! (i + 1)), gr_optopt = 0\<rparr>,
             \<lparr>go_optind = i + 2, go_nextchar = []\<rparr>)
          else
            (\<lparr>gr_opt = uint (of_char CHR '':'' :: byte), gr_optarg = None, gr_optopt = c\<rparr>,
             \<lparr>go_optind = i + 1, go_nextchar = []\<rparr>))"

definition getopt :: "cstr list \<Rightarrow> cstr \<Rightarrow> getopt_state \<Rightarrow> getopt_result \<times> getopt_state" where
  "getopt argv optstring g =
     (let i = go_optind g; done' = \<lparr>gr_opt = -1, gr_optarg = None, gr_optopt = 0\<rparr> in
      case go_nextchar g of
        c # rest \<Rightarrow> getopt_scan argv optstring i c rest
      | [] \<Rightarrow>
          if i \<ge> length argv then (done', g)
          else (case argv ! i of
              [] \<Rightarrow> (done', g)
            | d # cs \<Rightarrow>
                if d \<noteq> of_char CHR ''-'' \<or> cs = [] then (done', g)
                else if cs = [of_char CHR ''-''] then (done', g\<lparr>go_optind := i + 1\<rparr>)
                else getopt_scan argv optstring i (hd cs) (tl cs)))"

text \<open>Every call that returns an option consumes characters of \<open>argv\<close>.\<close>

definition getopt_left :: "cstr list \<Rightarrow> getopt_state \<Rightarrow> nat" where
  "getopt_left argv g =
     (if go_nextchar g = [] then sum_list (map (\<lambda>e. length e + 1) (drop (go_optind g) argv))
      else length (go_nextchar g) + sum_list (map (\<lambda>e. length e + 1) (drop (go_optind g + 1) argv)))"

lemma sum_list_drop_Suc: "sum_list (map f (drop (Suc i) xs)) \<le> sum_list (map f (drop i xs))"
  for f :: "'a \<Rightarrow> nat"
  by (cases "i < length xs") (simp_all add: Cons_nth_drop_Suc [symmetric])

lemma getopt_scan_decreases:
  "getopt_left argv (snd (getopt_scan argv os i c rest))
     < length rest + 1 + sum_list (map (\<lambda>e. length e + 1) (drop (Suc i) argv))"
  using sum_list_drop_Suc [of "\<lambda>e. length e + 1" "Suc i" argv]
  by (auto simp: getopt_scan_def getopt_left_def Let_def numeral_2_eq_2 split: option.split bool.split)

lemma getopt_decreases:
  assumes "getopt argv os g = (r, g')" and "gr_opt r \<noteq> -1"
  shows "getopt_left argv g' < getopt_left argv g"
proof (cases "go_nextchar g")
  case (Cons c rest)
  then show ?thesis
    using assms(1) getopt_scan_decreases [of argv os "go_optind g" c rest]
    by (simp add: getopt_def getopt_left_def [of _ g])
next
  case Nil
  let ?i = "go_optind g"
  from Nil assms obtain d cs where i: "?i < length argv" and e: "argv ! ?i = d # cs" "cs \<noteq> []"
    and scan: "getopt_scan argv os ?i (hd cs) (tl cs) = (r, g')"
    by (auto simp: getopt_def Let_def split: if_splits list.splits)
  have "getopt_left argv g = length cs + 2 + sum_list (map (\<lambda>e. length e + 1) (drop (Suc ?i) argv))"
    using Nil i e by (simp add: getopt_left_def Cons_nth_drop_Suc [symmetric])
  then show ?thesis
    using getopt_scan_decreases [of argv os ?i "hd cs" "tl cs"] e(2) by (simp add: scan)
qed

section \<open>strtol\<close>

definition is_space :: "byte \<Rightarrow> bool" where
  "is_space c \<longleftrightarrow> c = 32 \<or> (9 \<le> c \<and> c \<le> 13)"

definition is_digit :: "byte \<Rightarrow> bool" where
  "is_digit c \<longleftrightarrow> 48 \<le> c \<and> c \<le> 57"

definition digits_value :: "cstr \<Rightarrow> int" where
  "digits_value ds = foldl (\<lambda>v d. 10 * v + (uint d - 48)) 0 ds"

definition LONG_MAX :: int where "LONG_MAX = 2 ^ 63 - 1"
definition LONG_MIN :: int where "LONG_MIN = - (2 ^ 63)"

text \<open>The value, the unread suffix (\<open>endptr\<close>) and whether \<open>errno\<close> became \<open>ERANGE\<close>.\<close>

definition strtol :: "cstr \<Rightarrow> int \<times> cstr \<times> bool" where
  "strtol s =
     (let t = dropWhile is_space s;
          neg = (t \<noteq> [] \<and> hd t = of_char CHR ''-'');
          u = (if t \<noteq> [] \<and> hd t \<in> {of_char CHR ''-'', of_char CHR ''+''} then tl t else t);
          ds = takeWhile is_digit u;
          v = (if neg then - digits_value ds else digits_value ds)
      in if ds = [] then (0, s, False)
         else (max LONG_MIN (min LONG_MAX v), dropWhile is_digit u, v < LONG_MIN \<or> v > LONG_MAX))"

section \<open>Decimal numerals\<close>

fun decimal :: "nat \<Rightarrow> cstr" where
  "decimal n = (if n < 10 then [of_nat (48 + n)] else decimal (n div 10) @ [of_nat (48 + n mod 10)])"

declare decimal.simps [simp del]

lemma uint_digit: "k < 10 \<Longrightarrow> uint (of_nat (48 + k) :: byte) = 48 + int k"
  by (simp only: unsigned_of_nat) (simp add: take_bit_nat_eq_self)

lemma is_digit_digit: "k < 10 \<Longrightarrow> is_digit (of_nat (48 + k))"
  using uint_digit [of k] by (simp add: is_digit_def word_le_def)

lemma decimal_digits: "decimal n \<noteq> [] \<and> (\<forall>d \<in> set (decimal n). is_digit d)"
proof (induction n rule: decimal.induct)
  case (1 n)
  then show ?case
    by (cases "n < 10")
      (simp_all add: decimal.simps [of n] is_digit_digit del: of_nat_add)
qed

lemma digits_value_decimal: "digits_value (decimal n) = int n"
proof (induction n rule: decimal.induct)
  case (1 n)
  then show ?case
    by (cases "n < 10")
      (simp_all add: decimal.simps [of n] digits_value_def uint_digit zdiv_int zmod_int
        del: of_nat_add)
qed

lemma strtol_decimal:
  assumes "int n \<le> LONG_MAX"
  shows "strtol (decimal n) = (int n, [], False)"
proof -
  obtain d ds where d: "decimal n = d # ds" "is_digit d"
    using decimal_digits [of n] by (cases "decimal n") auto
  then have "\<not> is_space d" "d \<noteq> of_char CHR ''-''" "d \<noteq> of_char CHR ''+''"
    by (auto simp: is_digit_def is_space_def word_le_def)
  moreover have tw: "takeWhile is_digit ds = ds" "dropWhile is_digit ds = []"
    using decimal_digits [of n] d by (simp_all add: takeWhile_eq_all_conv dropWhile_eq_Nil_conv)
  ultimately show ?thesis
    using d assms digits_value_decimal [of n]
    by (simp add: strtol_def Let_def LONG_MAX_def LONG_MIN_def tw)
qed

end
