(* ===== verification/Options.thy ===== *)
theory Options
  imports Getopt
begin

text \<open>
  Models \<^verbatim>\<open>src/options.c\<close>: the option record, the setters with the mutual resets between
  \<open>-I\<close>, \<open>-L\<close> and \<open>-n\<close> and between \<open>-0\<close> and \<open>-d\<close>, the parse loop over \<open>getopt\<close>, and the
  implications applied afterwards. The \<open>uint8_t\<close> flags are \<open>bool\<close>.
\<close>

section \<open>The code\<close>

record options =
  op_optind_val :: nat
  op_use_nul_char_as_arg_delimiter :: bool
  op_arg_file_path :: "cstr option"
  op_arg_delimiter :: byte
  op_logical_end_of_input_marker :: "cstr option"
  op_arg_placeholder :: "cstr option"
  op_max_lines_per_command :: size_t
  op_line_mode_specified :: bool
  op_max_args_per_command :: size_t
  op_open_tty :: bool
  op_prompt :: bool
  op_suppress_execution_on_empty_input :: bool
  op_max_command_length :: size_t
  op_max_command_length_specified :: bool
  op_trace :: bool
  op_terminate_on_too_large_command :: bool
  op_max_procs :: size_t

definition parse_number_arg_with_min :: "cstr \<Rightarrow> int \<Rightarrow> stop + int" where
  "parse_number_arg_with_min arg min_val = (case strtol arg of (parsed, endptr, erange) \<Rightarrow>
     if length endptr = length arg \<or> erange \<or> endptr \<noteq> []
     then Inl (Exit EXIT_FAILURE Number_invalid)
     else if parsed < min_val then Inl (Exit EXIT_FAILURE Number_too_small)
     else Inr parsed)"

definition parse_number_arg :: "cstr \<Rightarrow> stop + size_t" where
  "parse_number_arg arg =
     rbind (parse_number_arg_with_min arg 1) (\<lambda>parsed. Inr (word_of_int parsed))"

definition disable_nul_char_as_arg_delimiter :: "options \<Rightarrow> options" where
  "disable_nul_char_as_arg_delimiter opts = opts\<lparr>op_use_nul_char_as_arg_delimiter := False\<rparr>"

definition reset_arg_delimiter :: "options \<Rightarrow> options" where
  "reset_arg_delimiter opts = opts\<lparr>op_arg_delimiter := 0\<rparr>"

definition enable_nul_char_as_arg_delimiter :: "options \<Rightarrow> options" where
  "enable_nul_char_as_arg_delimiter opts =
     reset_arg_delimiter (opts\<lparr>op_use_nul_char_as_arg_delimiter := True\<rparr>)"

definition set_arg_delimiter :: "options \<Rightarrow> byte \<Rightarrow> options" where
  "set_arg_delimiter opts ch =
     disable_nul_char_as_arg_delimiter (opts\<lparr>op_arg_delimiter := ch\<rparr>)"

definition set_arg_file_path :: "options \<Rightarrow> cstr option \<Rightarrow> options" where
  "set_arg_file_path opts path = opts\<lparr>op_arg_file_path := path\<rparr>"

definition set_logical_end_of_input_marker :: "options \<Rightarrow> cstr option \<Rightarrow> options" where
  "set_logical_end_of_input_marker opts marker = opts\<lparr>op_logical_end_of_input_marker := marker\<rparr>"

definition reset_logical_end_of_input_marker :: "options \<Rightarrow> options" where
  "reset_logical_end_of_input_marker opts = opts\<lparr>op_logical_end_of_input_marker := None\<rparr>"

definition reset_arg_placeholder :: "options \<Rightarrow> options" where
  "reset_arg_placeholder opts = opts\<lparr>op_arg_placeholder := None\<rparr>"

definition reset_max_lines_per_command :: "options \<Rightarrow> options" where
  "reset_max_lines_per_command opts =
     opts\<lparr>op_max_lines_per_command := 0, op_line_mode_specified := False\<rparr>"

definition reset_max_args_per_command :: "options \<Rightarrow> options" where
  "reset_max_args_per_command opts = opts\<lparr>op_max_args_per_command := 0\<rparr>"

definition set_max_lines_per_command :: "options \<Rightarrow> cstr \<Rightarrow> stop + options" where
  "set_max_lines_per_command opts new_val =
     rbind (parse_number_arg new_val) (\<lambda>n.
     Inr (reset_max_args_per_command (reset_arg_placeholder
       (opts\<lparr>op_max_lines_per_command := n, op_line_mode_specified := True\<rparr>))))"

definition set_max_args_per_command :: "options \<Rightarrow> cstr \<Rightarrow> stop + options" where
  "set_max_args_per_command opts new_val =
     rbind (parse_number_arg new_val) (\<lambda>n.
     Inr (reset_max_lines_per_command (reset_arg_placeholder
       (opts\<lparr>op_max_args_per_command := n\<rparr>))))"

definition set_max_command_length :: "options \<Rightarrow> cstr \<Rightarrow> stop + options" where
  "set_max_command_length opts new_val =
     rbind (parse_number_arg new_val) (\<lambda>n.
     Inr (opts\<lparr>op_max_command_length := n, op_max_command_length_specified := True\<rparr>))"

definition set_max_procs :: "platform \<Rightarrow> options \<Rightarrow> cstr \<Rightarrow> stop + options" where
  "set_max_procs E opts new_val =
     rbind (parse_number_arg_with_min new_val 0) (\<lambda>parsed.
     rbind (if parsed > 0
         then rbind (phxargs_sysconf E SC_CHILD_MAX) (\<lambda>child_max.
              if child_max > 0 \<and> parsed > child_max
              then Inl (Exit EXIT_FAILURE Procs_too_large) else Inr ())
         else Inr ()) (\<lambda>_.
     Inr (opts\<lparr>op_max_procs := word_of_int parsed\<rparr>)))"

definition set_arg_placeholder :: "options \<Rightarrow> cstr option \<Rightarrow> options" where
  "set_arg_placeholder opts placeholder =
     reset_max_args_per_command (reset_max_lines_per_command
       (opts\<lparr>op_arg_placeholder := placeholder\<rparr>))"

definition set_open_tty :: "options \<Rightarrow> options" where
  "set_open_tty opts = opts\<lparr>op_open_tty := True\<rparr>"

definition enable_trace :: "options \<Rightarrow> options" where
  "enable_trace opts = opts\<lparr>op_trace := True\<rparr>"

definition enable_prompt :: "options \<Rightarrow> options" where
  "enable_prompt opts = enable_trace (opts\<lparr>op_prompt := True\<rparr>)"

definition enable_suppress_execution_on_empty_input :: "options \<Rightarrow> options" where
  "enable_suppress_execution_on_empty_input opts =
     opts\<lparr>op_suppress_execution_on_empty_input := True\<rparr>"

definition enable_terminate_on_too_large_command :: "options \<Rightarrow> options" where
  "enable_terminate_on_too_large_command opts =
     opts\<lparr>op_terminate_on_too_large_command := True\<rparr>"

text \<open>\<open>init_options\<close> sets every field; \<open>malloc\<close> leaves none of the old values visible.\<close>

definition init_options :: options where
  "init_options = \<lparr>op_optind_val = 0, op_use_nul_char_as_arg_delimiter = False,
     op_arg_file_path = None, op_arg_delimiter = 0, op_logical_end_of_input_marker = None,
     op_arg_placeholder = None, op_max_lines_per_command = 0, op_line_mode_specified = False,
     op_max_args_per_command = 0, op_open_tty = False, op_prompt = False,
     op_suppress_execution_on_empty_input = False, op_max_command_length = 0,
     op_max_command_length_specified = False, op_trace = False,
     op_terminate_on_too_large_command = False, op_max_procs = 1\<rparr>"

definition phxargs_opts :: cstr where
  "phxargs_opts = bytes '':0a:d:E:I:L:n:opP:rs:tx''"

text \<open>
  The \<open>switch\<close> on the character \<open>getopt\<close> returned. Reading a missing \<open>optarg\<close> would be a
  read through a null pointer.
\<close>

abbreviation opt_char :: "char \<Rightarrow> int" where
  "opt_char c \<equiv> uint (of_char c :: byte)"

definition with_arg :: "cstr option \<Rightarrow> (cstr \<Rightarrow> stop + 'a) \<Rightarrow> stop + 'a" where
  "with_arg arg k = (case arg of None \<Rightarrow> Inl Undefined | Some a \<Rightarrow> k a)"

definition handle_option :: "platform \<Rightarrow> options \<Rightarrow> getopt_result \<Rightarrow> stop + options" where
  "handle_option E opts r =
     (let opt = gr_opt r; optarg = gr_optarg r in
      if opt = opt_char CHR ''0'' then Inr (enable_nul_char_as_arg_delimiter opts)
      else if opt = opt_char CHR ''a'' then Inr (set_arg_file_path opts optarg)
      else if opt = opt_char CHR ''d'' then
        with_arg optarg (\<lambda>a. if strlen a \<noteq> 1 then Inl (Exit EXIT_FAILURE Invalid_delimiter)
          else Inr (set_arg_delimiter opts (hd a)))
      else if opt = opt_char CHR ''E'' then Inr (set_logical_end_of_input_marker opts optarg)
      else if opt = opt_char CHR ''I'' then Inr (set_arg_placeholder opts optarg)
      else if opt = opt_char CHR ''L'' then with_arg optarg (set_max_lines_per_command opts)
      else if opt = opt_char CHR ''n'' then with_arg optarg (set_max_args_per_command opts)
      else if opt = opt_char CHR ''o'' then Inr (set_open_tty opts)
      else if opt = opt_char CHR ''p'' then Inr (enable_prompt opts)
      else if opt = opt_char CHR ''P'' then with_arg optarg (set_max_procs E opts)
      else if opt = opt_char CHR ''r'' then Inr (enable_suppress_execution_on_empty_input opts)
      else if opt = opt_char CHR ''s'' then with_arg optarg (set_max_command_length opts)
      else if opt = opt_char CHR ''t'' then Inr (enable_trace opts)
      else if opt = opt_char CHR ''x'' then Inr (enable_terminate_on_too_large_command opts)
      else if opt = opt_char CHR '':'' then Inl (Exit EXIT_FAILURE (Needs_argument (gr_optopt r)))
      else if opt = opt_char CHR ''?'' then Inl (Exit EXIT_FAILURE (Unknown_option (gr_optopt r)))
      else if pf_ndebug E then Inl (Exit EXIT_FAILURE Unreachable) else Inl Abort)"

function parse_options ::
    "platform \<Rightarrow> options \<Rightarrow> cstr list \<Rightarrow> getopt_state \<Rightarrow> stop + options \<times> getopt_state" where
  "parse_options E opts argv g =
     (case getopt argv phxargs_opts g of (r, g') \<Rightarrow>
      if gr_opt r = -1 then Inr (opts, g')
      else rbind (handle_option E opts r) (\<lambda>opts. parse_options E opts argv g'))"
  by pat_completeness auto
termination
  by (relation "measure (\<lambda>(E, opts, argv, g). getopt_left argv g)") (auto intro: getopt_decreases [OF sym])

declare parse_options.simps [simp del]

section \<open>Accessors\<close>

definition options_index_of_first_arg :: "options \<Rightarrow> nat" where
  "options_index_of_first_arg opts = op_optind_val opts"
definition options_use_nul_char_as_arg_delimiter :: "options \<Rightarrow> bool" where
  "options_use_nul_char_as_arg_delimiter opts = op_use_nul_char_as_arg_delimiter opts"
definition options_arg_file_path :: "options \<Rightarrow> cstr option" where
  "options_arg_file_path opts = op_arg_file_path opts"
definition options_arg_delimiter :: "options \<Rightarrow> byte" where
  "options_arg_delimiter opts = op_arg_delimiter opts"
definition options_logical_end_of_input_marker :: "options \<Rightarrow> cstr option" where
  "options_logical_end_of_input_marker opts = op_logical_end_of_input_marker opts"
definition options_arg_placeholder :: "options \<Rightarrow> cstr option" where
  "options_arg_placeholder opts = op_arg_placeholder opts"
definition options_max_lines_per_command :: "options \<Rightarrow> size_t" where
  "options_max_lines_per_command opts = op_max_lines_per_command opts"
definition options_max_args_per_command :: "options \<Rightarrow> size_t" where
  "options_max_args_per_command opts = op_max_args_per_command opts"
definition options_open_tty :: "options \<Rightarrow> bool" where
  "options_open_tty opts = op_open_tty opts"
definition options_prompt :: "options \<Rightarrow> bool" where
  "options_prompt opts = op_prompt opts"
definition options_max_procs :: "options \<Rightarrow> size_t" where
  "options_max_procs opts = op_max_procs opts"
definition options_suppress_execution_on_empty_input :: "options \<Rightarrow> bool" where
  "options_suppress_execution_on_empty_input opts = op_suppress_execution_on_empty_input opts"
definition options_max_command_length :: "options \<Rightarrow> size_t" where
  "options_max_command_length opts = op_max_command_length opts"
definition options_trace :: "options \<Rightarrow> bool" where
  "options_trace opts = op_trace opts"
definition options_terminate_on_too_large_command :: "options \<Rightarrow> bool" where
  "options_terminate_on_too_large_command opts = op_terminate_on_too_large_command opts"
definition options_line_mode :: "options \<Rightarrow> bool" where
  "options_line_mode opts = op_line_mode_specified opts"
definition options_max_command_length_specified :: "options \<Rightarrow> bool" where
  "options_max_command_length_specified opts = op_max_command_length_specified opts"

lemmas options_accessors = options_index_of_first_arg_def
  options_use_nul_char_as_arg_delimiter_def options_arg_file_path_def options_arg_delimiter_def
  options_logical_end_of_input_marker_def options_arg_placeholder_def
  options_max_lines_per_command_def options_max_args_per_command_def options_open_tty_def
  options_prompt_def options_max_procs_def options_suppress_execution_on_empty_input_def
  options_max_command_length_def options_trace_def options_terminate_on_too_large_command_def
  options_line_mode_def options_max_command_length_specified_def

section \<open>Implications between options\<close>

definition configure_options :: "platform \<Rightarrow> options \<Rightarrow> cstr list \<Rightarrow> stop + options" where
  "configure_options E opts argv =
     rbind (parse_options E opts argv getopt_init) (\<lambda>(opts, g).
     let opts = (if options_line_mode opts then enable_terminate_on_too_large_command opts
                 else opts);
         opts = (if op_arg_placeholder opts \<noteq> None then
             let opts = (reset_logical_end_of_input_marker
                   (enable_terminate_on_too_large_command opts))\<lparr>op_max_lines_per_command := 1\<rparr>
             in if \<not> op_use_nul_char_as_arg_delimiter opts \<and> op_arg_delimiter opts = 0
                then set_arg_delimiter opts cNL else opts
           else opts)
     in if op_prompt opts \<and> op_max_procs opts > 1
        then Inl (Exit EXIT_FAILURE Prompt_and_procs)
        else Inr (opts\<lparr>op_optind_val := go_optind g\<rparr>))"

text \<open>\<open>sizeof(options)\<close> is 96 with the padding of LP64.\<close>

definition options_create :: "platform \<Rightarrow> cstr list \<Rightarrow> stop + options" where
  "options_create E argv =
     rbind (phxargs_malloc E 96 :: stop + byte block) (\<lambda>_.
     configure_options E init_options argv)"

end
