(* ===== verification/Host.thy ===== *)
theory Host
  imports Util
begin

text \<open>
  The process control of the host as the program uses it: \<open>fork\<close>, \<open>execvp\<close>, \<open>waitpid(-1)\<close>,
  the terminal, the dispositions of signals and the delivery of \<open>SIGUSR1\<close> and \<open>SIGUSR2\<close>. The choices the host makes
  (which fork fails, how each command ends, which child a wait returns, when a wait is
  interrupted, when signals arrive) are the fields \<open>w_fork_fails\<close>, \<open>w_exec\<close>, \<open>w_sched\<close> and
  \<open>w_signals\<close> of the world, and the theorems hold for all of them. Every command is taken
  to end eventually; a wait on one that never ends would not return.
\<close>

section \<open>The world\<close>

datatype errno = ENOENT | E2BIG | EOTHER int

text \<open>A status as \<open>WIFEXITED\<close> and \<open>WIFSIGNALED\<close> see it; \<open>waitpid\<close> without flags reports no other.\<close>

datatype wstatus = Exited int | Signaled int

datatype exec_outcome = Exec_fails errno | Runs wstatus

text \<open>The signals the program deals with, and the functions it may have installed for them.\<close>

datatype os_signal = SIGCHLD | SIGUSR1 | SIGUSR2

datatype handler = SIG_DFL | SIG_IGN | On_sigusr1 | On_sigusr2

datatype wait_event = Interrupted | Deliver nat

text \<open>
  What the children do, in the order of the forks. \<open>Spawned\<close> records the argument vector
  a child assembled, \<open>Trace\<close> what it wrote to standard error, \<open>Asked\<close> a prompt, \<open>Execvp\<close>
  a call of \<open>execvp\<close> and whether standard input was reopened before, \<open>Forked\<close> a new child
  with the status it will end with, \<open>Reaped\<close> a child that \<open>waitpid\<close> returned.
\<close>

datatype event =
    Spawned "cstr list"
  | Trace "byte list"
  | Asked
  | Execvp "cstr list" bool
  | Forked int wstatus
  | Reaped int wstatus

record world =
  w_exec :: "nat \<Rightarrow> cstr list \<Rightarrow> exec_outcome"
  w_fork_fails :: "nat \<Rightarrow> bool"
  w_forks :: nat
  w_children :: "(int \<times> wstatus) list"
  w_sched :: "wait_event list"
  w_signals :: "((nat \<times> nat) \<times> nat \<times> nat) list"
  w_handlers :: "os_signal \<Rightarrow> handler"
  w_tty :: "cstr option"
  w_log :: "event list"

definition log_event :: "event \<Rightarrow> world \<Rightarrow> world" where
  "log_event e w = w\<lparr>w_log := w_log w @ [e]\<rparr>"

section \<open>System calls\<close>

text \<open>The process ids of unreaped children are distinct; they are numbered by fork.\<close>

definition os_fork :: "world \<Rightarrow> int \<times> world" where
  "os_fork w = (if w_fork_fails w (w_forks w) then (-1, w\<lparr>w_forks := w_forks w + 1\<rparr>)
     else (int (w_forks w) + 2, w\<lparr>w_forks := w_forks w + 1\<rparr>))"

definition add_child :: "int \<Rightarrow> wstatus \<Rightarrow> world \<Rightarrow> world" where
  "add_child pid st w =
     log_event (Forked pid st) (w\<lparr>w_children := w_children w @ [(pid, st)]\<rparr>)"

datatype wait_result = Waited int wstatus | Wait_EINTR | Wait_error

definition take_child :: "nat \<Rightarrow> world \<Rightarrow> wait_result \<times> world" where
  "take_child k w =
     (let i = k mod length (w_children w); (pid, st) = w_children w ! i in
      (Waited pid st, log_event (Reaped pid st)
         (w\<lparr>w_children := take i (w_children w) @ drop (i + 1) (w_children w)\<rparr>)))"

text \<open>
  While \<open>SIGCHLD\<close> is ignored, the host keeps no status: a wait lasts until all children have
  ended and then fails.
\<close>

definition collect_child :: "nat \<Rightarrow> world \<Rightarrow> wait_result \<times> world" where
  "collect_child k w = (if w_handlers w SIGCHLD = SIG_IGN then (Wait_error, w\<lparr>w_children := []\<rparr>)
     else take_child k w)"

definition os_waitpid :: "world \<Rightarrow> wait_result \<times> world" where
  "os_waitpid w =
     (if w_children w = [] then (Wait_error, w)
      else case w_sched w of
        [] \<Rightarrow> collect_child 0 w
      | Interrupted # s \<Rightarrow> (Wait_EINTR, w\<lparr>w_sched := s\<rparr>)
      | Deliver k # s \<Rightarrow> collect_child k (w\<lparr>w_sched := s\<rparr>))"

text \<open>\<open>signal\<close> and \<open>sigaction\<close>, as far as the disposition is concerned.\<close>

definition os_sigaction :: "os_signal \<Rightarrow> handler \<Rightarrow> world \<Rightarrow> world" where
  "os_sigaction sig h w = w\<lparr>w_handlers := (w_handlers w)(sig := h)\<rparr>"

text \<open>
  The signals that arrive around one check of the counters: how many \<open>SIGUSR1\<close> and
  \<open>SIGUSR2\<close> before it reads them, and how many between its two reads.
\<close>

definition next_signals :: "world \<Rightarrow> ((nat \<times> nat) \<times> nat \<times> nat) \<times> world" where
  "next_signals w = (case w_signals w of
     [] \<Rightarrow> (((0, 0), 0, 0), w) | s # ss \<Rightarrow> (s, w\<lparr>w_signals := ss\<rparr>))"

text \<open>The arguments \<open>execvp\<close> reads: up to the null pointer that must end them.\<close>

fun argv_of :: "cstr option block \<Rightarrow> stop + cstr list" where
  "argv_of [] = Inl Undefined"
| "argv_of (None # b) = Inl Undefined"
| "argv_of (Some None # b) = Inr []"
| "argv_of (Some (Some a) # b) = rbind (argv_of b) (\<lambda>as. Inr (a # as))"

text \<open>A failure that keeps the world it happened in.\<close>

definition lift :: "world \<Rightarrow> stop + 'a \<Rightarrow> (stop \<times> world) + 'a" where
  "lift w m = (case m of Inl s \<Rightarrow> Inl (s, w) | Inr x \<Rightarrow> Inr x)"

lemma lift_simps [simp]:
  "lift w (Inl s) = Inl (s, w)"
  "lift w (Inr x) = Inr x"
  by (simp_all add: lift_def)

lemma lift_Inr_iff [simp]: "lift w m = Inr x \<longleftrightarrow> m = Inr x"
  by (cases m) simp_all

lemma yields_lift: "yields S m Q \<Longrightarrow> yields (S \<times> UNIV) (lift w m) Q"
  by (cases m) simp_all

lemma argv_of_map [simp]: "argv_of (map (Some \<circ> Some) as @ Some None # b) = Inr as"
  by (induction as) simp_all

lemma log_event_simps [simp]:
  "w_exec (log_event e w) = w_exec w" "w_fork_fails (log_event e w) = w_fork_fails w"
  "w_forks (log_event e w) = w_forks w" "w_children (log_event e w) = w_children w"
  "w_sched (log_event e w) = w_sched w" "w_signals (log_event e w) = w_signals w"
  "w_tty (log_event e w) = w_tty w" "w_handlers (log_event e w) = w_handlers w" "w_log (log_event e w) = w_log w @ [e]"
  by (simp_all add: log_event_def)

section \<open>What a log tells\<close>

definition spawned :: "event list \<Rightarrow> cstr list list" where
  "spawned es = concat (map (\<lambda>e. case e of Spawned as \<Rightarrow> [as] | _ \<Rightarrow> []) es)"

definition forked :: "event list \<Rightarrow> (int \<times> wstatus) list" where
  "forked es = concat (map (\<lambda>e. case e of Forked pid st \<Rightarrow> [(pid, st)] | _ \<Rightarrow> []) es)"

definition reaped :: "event list \<Rightarrow> (int \<times> wstatus) list" where
  "reaped es = concat (map (\<lambda>e. case e of Reaped pid st \<Rightarrow> [(pid, st)] | _ \<Rightarrow> []) es)"

definition execs :: "event list \<Rightarrow> (cstr list \<times> bool) list" where
  "execs es = concat (map (\<lambda>e. case e of Execvp as b \<Rightarrow> [(as, b)] | _ \<Rightarrow> []) es)"

definition traced :: "event list \<Rightarrow> byte list list" where
  "traced es = concat (map (\<lambda>e. case e of Trace t \<Rightarrow> [t] | _ \<Rightarrow> []) es)"

lemma log_append [simp]:
  "spawned (es @ fs) = spawned es @ spawned fs"
  "forked (es @ fs) = forked es @ forked fs"
  "reaped (es @ fs) = reaped es @ reaped fs"
  "traced (es @ fs) = traced es @ traced fs" "execs (es @ fs) = execs es @ execs fs"
  by (simp_all add: spawned_def forked_def reaped_def traced_def execs_def)

lemma log_Nil [simp]: "spawned [] = []" "forked [] = []" "reaped [] = []" "traced [] = []" "execs [] = []"
  by (simp_all add: spawned_def forked_def reaped_def traced_def execs_def)

lemma log_single [simp]:
  "spawned (e # es) = (case e of Spawned as \<Rightarrow> [as] | _ \<Rightarrow> []) @ spawned es"
  "forked (e # es) = (case e of Forked pid st \<Rightarrow> [(pid, st)] | _ \<Rightarrow> []) @ forked es"
  "reaped (e # es) = (case e of Reaped pid st \<Rightarrow> [(pid, st)] | _ \<Rightarrow> []) @ reaped es"
  "traced (e # es) = (case e of Trace t \<Rightarrow> [t] | _ \<Rightarrow> []) @ traced es"
  "execs (e # es) = (case e of Execvp as b \<Rightarrow> [(as, b)] | _ \<Rightarrow> []) @ execs es"
  by (simp_all add: spawned_def forked_def reaped_def traced_def execs_def)

end
