(* ===== verification/Command.thy ===== *)
theory Command
  imports Command_Args Str Options Host
begin

text \<open>
  Models \<^verbatim>\<open>src/command.c\<close>: the command line under construction, its limits and length
  accounting, the argument vector of a child, tracing, prompting, and \<open>fork\<close>/\<open>execvp\<close>.
\<close>

section \<open>Exit statuses (exit_codes.h)\<close>

definition PHXARGS_STATUS_CHILD_FAILED :: int where "PHXARGS_STATUS_CHILD_FAILED = 123"
definition PHXARGS_STATUS_HALT :: int where "PHXARGS_STATUS_HALT = 124"
definition PHXARGS_STATUS_SIGNALLED :: int where "PHXARGS_STATUS_SIGNALLED = 125"
definition PHXARGS_STATUS_INTERNAL_ERROR :: int where "PHXARGS_STATUS_INTERNAL_ERROR = 125"
definition PHXARGS_STATUS_NOT_EXECUTABLE :: int where "PHXARGS_STATUS_NOT_EXECUTABLE = 126"
definition PHXARGS_STATUS_NOT_FOUND :: int where "PHXARGS_STATUS_NOT_FOUND = 127"

lemmas exit_codes = PHXARGS_STATUS_CHILD_FAILED_def PHXARGS_STATUS_HALT_def
  PHXARGS_STATUS_SIGNALLED_def PHXARGS_STATUS_INTERNAL_ERROR_def
  PHXARGS_STATUS_NOT_EXECUTABLE_def PHXARGS_STATUS_NOT_FOUND_def

section \<open>The command under construction\<close>

record command =
  cm_max_lines :: size_t
  cm_max_args :: size_t
  cm_max_length :: size_t
  cm_arg_placeholder :: "cstr option"
  cm_open_tty :: bool
  cm_prompt :: bool
  cm_trace :: bool
  cm_terminate_on_too_large_command :: bool
  cm_line_mode :: bool
  cm_line_count :: size_t
  cm_env_length :: size_t
  cm_fixed_args :: command_args
  cm_input_args :: command_args
  cm_replaced_fixed_args :: command_args

definition DEFAULT_CMD :: cstr where
  "DEFAULT_CMD = bytes ''/bin/echo''"

definition calc_env_length :: "platform \<Rightarrow> size_t" where
  "calc_env_length E = foldl (\<lambda>sz e. sz + (strlen e + 1)) 0 (pf_environ E)"

definition command_max_args_specified :: "command \<Rightarrow> bool" where
  "command_max_args_specified cmd = (cm_max_args cmd > 0)"

definition add_fixed_argument :: "platform \<Rightarrow> command \<Rightarrow> cstr \<Rightarrow> stop + command" where
  "add_fixed_argument E cmd new_arg =
     rbind (command_args_add E (cm_fixed_args cmd) new_arg) (\<lambda>a.
     Inr (cmd\<lparr>cm_fixed_args := a\<rparr>))"

definition command_length :: "command \<Rightarrow> size_t" where
  "command_length cmd = cm_env_length cmd
     + command_args_length (cm_fixed_args cmd) + command_args_length (cm_input_args cmd)"

definition decide_max_length :: "platform \<Rightarrow> command \<Rightarrow> options \<Rightarrow> stop + size_t" where
  "decide_max_length E cmd opts =
     rbind (phxargs_sysconf E SC_ARG_MAX) (\<lambda>sc_arg_max.
     let max_length =
           (if sc_arg_max > 0 then
              let margin = 2 * cm_env_length cmd + 2048 in
              if word_of_int sc_arg_max > margin then word_of_int sc_arg_max - margin else 0
            else 128 * 1024)
     in if \<not> options_max_command_length_specified opts
        then Inr (phxargs_min (128 * 1024) max_length)
        else
          let min_length = command_length cmd;
              specified = options_max_command_length opts
          in if specified < min_length then Inl (Exit EXIT_FAILURE Command_size_too_small)
             else if specified > max_length then Inl (Exit EXIT_FAILURE Command_size_too_large)
             else Inr specified)"

definition new_input_args :: "platform \<Rightarrow> command \<Rightarrow> stop + command_args" where
  "new_input_args E cmd =
     (if command_max_args_specified cmd
      then command_args_create_with_capacity E (cm_max_args cmd)
      else command_args_create E)"

text \<open>
  The field initialisation of \<open>command_create\<close>, with the three argument lists still
  absent: here they start out as empty lists without storage and are replaced below.
\<close>

definition no_args :: command_args where
  "no_args = \<lparr>ca_count = 0, ca_capacity = 0, ca_args = [], ca_length = 0\<rparr>"

text \<open>\<open>sizeof(command)\<close> is 80. \<open>argc - arg_index\<close> is an \<open>int\<close> converted to \<open>size_t\<close>.\<close>

definition command_create ::
    "platform \<Rightarrow> options \<Rightarrow> nat \<Rightarrow> cstr list \<Rightarrow> stop + command" where
  "command_create E opts arg_index argv =
     rbind (phxargs_malloc E 80 :: stop + byte block) (\<lambda>_.
     rbind (phxargs_strdup E (options_arg_placeholder opts)) (\<lambda>placeholder.
     let cmd = \<lparr>cm_max_lines = options_max_lines_per_command opts,
           cm_max_args = options_max_args_per_command opts,
           cm_max_length = 0,
           cm_arg_placeholder = placeholder,
           cm_open_tty = options_open_tty opts,
           cm_prompt = options_prompt opts,
           cm_trace = options_trace opts,
           cm_terminate_on_too_large_command = options_terminate_on_too_large_command opts,
           cm_line_mode = options_line_mode opts,
           cm_line_count = 0,
           cm_env_length = calc_env_length E,
           cm_fixed_args = no_args, cm_input_args = no_args, cm_replaced_fixed_args = no_args\<rparr>
     in rbind
       (if arg_index = length argv then
          rbind (command_args_create_with_capacity E 1) (\<lambda>a.
          add_fixed_argument E (cmd\<lparr>cm_fixed_args := a\<rparr>) DEFAULT_CMD)
        else
          rbind (command_args_create_with_capacity E
              (word_of_int (int (length argv) - int arg_index))) (\<lambda>a.
          put_all (add_fixed_argument E) (cmd\<lparr>cm_fixed_args := a\<rparr>) (drop arg_index argv)))
       (\<lambda>cmd.
     rbind (new_input_args E cmd) (\<lambda>a.
     let cmd = cmd\<lparr>cm_input_args := a\<rparr> in
     rbind (decide_max_length E cmd opts) (\<lambda>n.
     let cmd = cmd\<lparr>cm_max_length := n\<rparr> in
     rbind (command_args_create_with_capacity E (command_args_count (cm_fixed_args cmd))) (\<lambda>r.
     Inr (cmd\<lparr>cm_replaced_fixed_args := r\<rparr>)))))))"

section \<open>Limits\<close>

definition command_ensure_length_not_exceeded :: "command \<Rightarrow> cstr \<Rightarrow> stop + unit" where
  "command_ensure_length_not_exceeded cmd new_arg =
     (if cm_arg_placeholder cmd \<noteq> None \<or> command_args_count (cm_input_args cmd) = 0 then
        let new_length = command_length cmd + strlen new_arg + 1 in
        if new_length > cm_max_length cmd then Inl (Exit EXIT_FAILURE Command_too_long)
        else Inr ()
      else Inr ())"

definition command_arg_would_exceed_limits :: "command \<Rightarrow> cstr \<Rightarrow> stop + bool" where
  "command_arg_would_exceed_limits cmd new_arg =
     rbind (command_ensure_length_not_exceeded cmd new_arg) (\<lambda>_.
     let new_length = command_length cmd + strlen new_arg + 1;
         would_exceed_size = (\<not> cm_line_mode cmd \<and> new_length > cm_max_length cmd)
     in if command_max_args_specified cmd then
          let at_max_args = (command_args_count (cm_input_args cmd) = cm_max_args cmd) in
          if cm_terminate_on_too_large_command cmd then Inr at_max_args
          else Inr (at_max_args \<or> would_exceed_size)
        else Inr would_exceed_size)"

definition command_should_execute_after_arg_added :: "command \<Rightarrow> int" where
  "command_should_execute_after_arg_added cmd =
     (if cm_terminate_on_too_large_command cmd \<and> command_length cmd > cm_max_length cmd then -1
      else if cm_line_mode cmd then (if cm_line_count cmd = cm_max_lines cmd then 1 else 0)
      else 0)"

section \<open>Arguments\<close>

definition command_add_input_argument :: "platform \<Rightarrow> command \<Rightarrow> cstr \<Rightarrow> stop + command" where
  "command_add_input_argument E cmd new_arg =
     rbind (command_args_add E (cm_input_args cmd) new_arg) (\<lambda>a.
     Inr (cmd\<lparr>cm_input_args := a\<rparr>))"

definition command_input_args_remain :: "command \<Rightarrow> bool" where
  "command_input_args_remain cmd = (command_args_count (cm_input_args cmd) > 0)"

definition command_increment_line_count :: "command \<Rightarrow> command" where
  "command_increment_line_count cmd = cmd\<lparr>cm_line_count := cm_line_count cmd + 1\<rparr>"

text \<open>A string argument of \<open>command_args_add\<close>; a null pointer would be dereferenced.\<close>

definition deref :: "cstr option \<Rightarrow> stop + cstr" where
  "deref s = (case s of None \<Rightarrow> Inl Undefined | Some s \<Rightarrow> Inr s)"

function replace_from :: "platform \<Rightarrow> command \<Rightarrow> cstr \<Rightarrow> size_t \<Rightarrow> stop + command" where
  "replace_from E cmd new_arg i =
     (if i < command_args_count (cm_fixed_args cmd) then
        rbind (command_args_at (cm_fixed_args cmd) i) (\<lambda>arg.
        rbind (str_replace E arg (cm_arg_placeholder cmd) (Some new_arg)) (\<lambda>replaced.
        rbind (deref replaced) (\<lambda>replaced.
        rbind (command_args_add E (cm_replaced_fixed_args cmd) replaced) (\<lambda>a.
        replace_from E (cmd\<lparr>cm_replaced_fixed_args := a\<rparr>) new_arg (i + 1)))))
      else Inr cmd)"
  by pat_completeness auto
termination
  by (relation "measure (\<lambda>(E, cmd, new_arg, i).
      unat (command_args_count (cm_fixed_args cmd)) - unat i)")
    (simp_all add: size_up_decreases)

declare replace_from.simps [simp del]

definition command_replace_args :: "platform \<Rightarrow> command \<Rightarrow> cstr \<Rightarrow> stop + command" where
  "command_replace_args E cmd new_arg =
     rbind (command_args_at (cm_fixed_args cmd) 0) (\<lambda>word.
     rbind (deref word) (\<lambda>word.
     rbind (command_args_add E (cm_replaced_fixed_args cmd) word) (\<lambda>a.
     replace_from E (cmd\<lparr>cm_replaced_fixed_args := a\<rparr>) new_arg 1)))"

definition recycle_command :: "platform \<Rightarrow> command \<Rightarrow> stop + command" where
  "recycle_command E cmd =
     (let cmd = cmd\<lparr>cm_line_count := 0\<rparr> in
      rbind (if cm_arg_placeholder cmd \<noteq> None
          then rbind (command_args_create_with_capacity E (command_args_count (cm_fixed_args cmd)))
             (\<lambda>r. Inr (cmd\<lparr>cm_replaced_fixed_args := r\<rparr>))
          else Inr cmd) (\<lambda>cmd.
      rbind (new_input_args E cmd) (\<lambda>a. Inr (cmd\<lparr>cm_input_args := a\<rparr>))))"

section \<open>The child\<close>

text \<open>The copy loops of \<open>build_exec_args\<close>: slots \<open>off + i\<close> get copies of the arguments.\<close>

function copy_exec_args :: "platform \<Rightarrow> command_args \<Rightarrow> size_t \<Rightarrow> size_t
    \<Rightarrow> cstr option block \<Rightarrow> stop + cstr option block" where
  "copy_exec_args E args off i exec_args =
     (if i < command_args_count args then
        rbind (command_args_at args i) (\<lambda>arg.
        rbind (phxargs_strdup E arg) (\<lambda>copy.
        rbind (blk_store exec_args (unat (off + i)) copy) (\<lambda>exec_args.
        copy_exec_args E args off (i + 1) exec_args)))
      else Inr exec_args)"
  by pat_completeness auto
termination
  by (relation "measure (\<lambda>(E, args, off, i, b). unat (command_args_count args) - unat i)")
    (simp_all add: size_up_decreases)

declare copy_exec_args.simps [simp del]

definition fixed_args_in_play :: "command \<Rightarrow> command_args" where
  "fixed_args_in_play cmd = (if cm_arg_placeholder cmd \<noteq> None
     then cm_replaced_fixed_args cmd else cm_fixed_args cmd)"

definition build_exec_args :: "platform \<Rightarrow> command \<Rightarrow> stop + cstr option block \<times> size_t" where
  "build_exec_args E cmd =
     (let fixed = fixed_args_in_play cmd;
          exec_args_count = command_args_count fixed + command_args_count (cm_input_args cmd)
      in rbind (phxargs_calloc E None (exec_args_count + 1) 8) (\<lambda>exec_args.
         rbind (copy_exec_args E fixed 0 0 exec_args) (\<lambda>exec_args.
         rbind (copy_exec_args E (cm_input_args cmd) (command_args_count fixed) 0 exec_args)
           (\<lambda>exec_args.
         rbind (blk_store exec_args (unat exec_args_count) None) (\<lambda>exec_args.
         Inr (exec_args, exec_args_count))))))"

definition exec_arg :: "cstr option block \<Rightarrow> size_t \<Rightarrow> stop + cstr" where
  "exec_arg exec_args i = rbind (blk_load exec_args (unat i)) deref"

function trace_length :: "cstr option block \<Rightarrow> size_t \<Rightarrow> size_t \<Rightarrow> size_t \<Rightarrow> stop + size_t" where
  "trace_length exec_args exec_args_count i trace_len =
     (if i < exec_args_count then
        rbind (exec_arg exec_args i) (\<lambda>a.
        let trace_len = trace_len + strlen a;
            trace_len = (if i < exec_args_count - 1 then trace_len + 1 else trace_len)
        in trace_length exec_args exec_args_count (i + 1) trace_len)
      else Inr trace_len)"
  by pat_completeness auto
termination
  by (relation "measure (\<lambda>(b, n, i, l). unat n - unat i)") (simp_all add: size_up_decreases)

declare trace_length.simps [simp del]

text \<open>The pointer \<open>p\<close> is an offset into \<open>trace_buf\<close>.\<close>

function trace_fill :: "cstr option block \<Rightarrow> size_t \<Rightarrow> size_t \<Rightarrow> byte block \<Rightarrow> nat
    \<Rightarrow> stop + byte block \<times> nat" where
  "trace_fill exec_args exec_args_count i trace_buf p =
     (if i < exec_args_count then
        rbind (exec_arg exec_args i) (\<lambda>a.
        rbind (blk_copy trace_buf p a) (\<lambda>trace_buf.
        let p = p + unat (strlen a) in
        rbind (if i < exec_args_count - 1
            then rbind (blk_store trace_buf p cSPACE) (\<lambda>b. Inr (b, p + 1))
            else Inr (trace_buf, p)) (\<lambda>(trace_buf, p).
        trace_fill exec_args exec_args_count (i + 1) trace_buf p)))
      else Inr (trace_buf, p))"
  by pat_completeness auto
termination
  by (relation "measure (\<lambda>(b, n, i, t, p). unat n - unat i)") (simp_all add: size_up_decreases)

declare trace_fill.simps [simp del]

text \<open>\<open>write\<close> of \<open>n\<close> bytes of a block, which must be there and initialised.\<close>

definition write_out :: "byte block \<Rightarrow> size_t \<Rightarrow> stop + byte list" where
  "write_out b n = (if unat n \<le> length b \<and> None \<notin> set (take (unat n) b)
     then Inr (map the (take (unat n) b)) else Inl Undefined)"

definition write_trace :: "platform \<Rightarrow> cstr option block \<Rightarrow> size_t \<Rightarrow> bool \<Rightarrow> stop + byte list" where
  "write_trace E exec_args exec_args_count with_newline =
     rbind (trace_length exec_args exec_args_count 0 0) (\<lambda>trace_len.
     let trace_len = (if with_newline then trace_len + 1 else trace_len) in
     rbind (phxargs_malloc E (trace_len + 1)) (\<lambda>trace_buf.
     rbind (trace_fill exec_args exec_args_count 0 trace_buf 0) (\<lambda>(trace_buf, p).
     rbind (if with_newline then blk_store trace_buf p cNL else Inr trace_buf) (\<lambda>trace_buf.
     write_out trace_buf trace_len))))"

text \<open>The loop that discards the rest of an answer, and the value of \<open>first\<close>.\<close>

fun skip_answer :: "byte list \<Rightarrow> byte list" where
  "skip_answer [] = []"
| "skip_answer (ch # rest) = (if ch = cNL then rest else skip_answer rest)"

definition confirm_execution :: "world \<Rightarrow> (stop \<times> world) + bool \<times> world" where
  "confirm_execution w = (case w_tty w of
       None \<Rightarrow> Inl (Exit EXIT_FAILURE Cannot_open_tty, w)
     | Some [] \<Rightarrow> Inr (False, w)
     | Some (first # rest) \<Rightarrow>
         Inr (first = of_char CHR ''y'' \<or> first = of_char CHR ''Y'',
              w\<lparr>w_tty := Some (skip_answer rest)\<rparr>))"

text \<open>\<open>n\<close> is the number of the fork, which identifies the child to the host.\<close>

definition phxargs_exec :: "nat \<Rightarrow> cstr option block \<Rightarrow> bool \<Rightarrow> world
    \<Rightarrow> (stop \<times> world) + wstatus \<times> world" where
  "phxargs_exec n exec_args open_tty w =
     (if open_tty \<and> w_tty w = None then Inl (Exit EXIT_FAILURE Cannot_reopen_stdin, w)
      else rbind (lift w (argv_of exec_args)) (\<lambda>argv.
        let w = log_event (Execvp argv open_tty) w in
        case w_exec w n argv of
          Runs st \<Rightarrow> Inr (st, w)
        | Exec_fails failed_result \<Rightarrow>
            if failed_result = E2BIG
            then Inl (Exit PHXARGS_STATUS_INTERNAL_ERROR Exec_too_long, w)
            else Inl (Exit (if failed_result = ENOENT then PHXARGS_STATUS_NOT_FOUND
                            else PHXARGS_STATUS_NOT_EXECUTABLE) Exec_failed, w)))"

text \<open>The record of the spawned command is kept for the theorems; the code does not read it.\<close>

definition note_spawn :: "cstr option block \<Rightarrow> world \<Rightarrow> world" where
  "note_spawn exec_args w = (case argv_of exec_args of
     Inl _ \<Rightarrow> w | Inr argv \<Rightarrow> log_event (Spawned argv) w)"

definition exec_child :: "platform \<Rightarrow> nat \<Rightarrow> command \<Rightarrow> world
    \<Rightarrow> (stop \<times> world) + wstatus \<times> world" where
  "exec_child E n cmd w =
     rbind (lift w (build_exec_args E cmd)) (\<lambda>(exec_args, exec_args_count).
     let w = note_spawn exec_args w in
     rbind (if cm_trace cmd
         then rbind (lift w (write_trace E exec_args exec_args_count (\<not> cm_prompt cmd)))
           (\<lambda>t. Inr (log_event (Trace t) w))
         else Inr w) (\<lambda>w.
     rbind (if cm_prompt cmd then confirm_execution (log_event Asked w) else Inr (True, w))
       (\<lambda>(execute, w).
     if execute then phxargs_exec n exec_args (cm_open_tty cmd) w
     else Inr (Exited EXIT_SUCCESS, w))))"

text \<open>How the parent sees a child that stopped by itself; \<open>SIGABRT\<close> is 6.\<close>

definition stop_status :: "stop \<Rightarrow> wstatus" where
  "stop_status s = (case s of Exit n _ \<Rightarrow> Exited n | Abort \<Rightarrow> Signaled 6
     | Terminated n \<Rightarrow> Signaled n | Undefined \<Rightarrow> Signaled 11)"

text \<open>
  The child's run is taken at its fork: the children share only the terminal, and its
  outcome is what a later \<open>waitpid\<close> reports. Undefined behaviour in a child is kept as such.
\<close>

definition run_child :: "platform \<Rightarrow> int \<Rightarrow> nat \<Rightarrow> command \<Rightarrow> world \<Rightarrow> (stop \<times> world) + world" where
  "run_child E pid n cmd w = (case exec_child E n cmd w of
       Inl (s, w) \<Rightarrow> if s = Undefined then Inl (Undefined, w)
         else Inr (add_child pid (stop_status s) w)
     | Inr (st, w) \<Rightarrow> Inr (add_child pid st w))"

definition phxargs_fork :: "world \<Rightarrow> (stop \<times> world) + int \<times> world" where
  "phxargs_fork w = (case os_fork w of (pid, w) \<Rightarrow>
     if pid < 0 then Inl (Exit EXIT_FAILURE Perror_fork, w) else Inr (pid, w))"

definition command_execute_async :: "platform \<Rightarrow> command \<Rightarrow> world
    \<Rightarrow> (stop \<times> world) + int \<times> command \<times> world" where
  "command_execute_async E cmd w =
     rbind (phxargs_fork w) (\<lambda>(pid, w').
     rbind (run_child E pid (w_forks w) cmd w') (\<lambda>w'.
     rbind (lift w' (recycle_command E cmd)) (\<lambda>cmd.
     Inr (pid, cmd, w'))))"

definition command_max_length :: "command \<Rightarrow> size_t" where
  "command_max_length cmd = cm_max_length cmd"

end
