(* ===== verification/Command_Correct.thy ===== *)
theory Command_Correct
  imports Command
begin

text \<open>
  Correctness of \<^verbatim>\<open>src/command.c\<close>: the length accounting is exact, the child's vector is the
  command line, the trace is that line with blanks, and \<open>command_execute_async\<close> starts
  the command once and leaves an empty one.
\<close>

section \<open>Invariant and abstraction\<close>

abbreviation cm_fixed :: "command \<Rightarrow> cstr list" where
  "cm_fixed cmd \<equiv> args_list (cm_fixed_args cmd)"
abbreviation cm_input :: "command \<Rightarrow> cstr list" where
  "cm_input cmd \<equiv> args_list (cm_input_args cmd)"
abbreviation cm_replaced :: "command \<Rightarrow> cstr list" where
  "cm_replaced cmd \<equiv> args_list (cm_replaced_fixed_args cmd)"

definition cmd_invar :: "command \<Rightarrow> bool" where
  "cmd_invar cmd \<longleftrightarrow> args_invar (cm_fixed_args cmd) \<and> args_invar (cm_input_args cmd)
     \<and> args_invar (cm_replaced_fixed_args cmd)
     \<and> cm_fixed cmd \<noteq> [] \<and> length (cm_fixed cmd) < 2 ^ 57
     \<and> unat (cm_env_length cmd) + args_bytes (cm_fixed cmd) < 2 ^ 61
     \<and> unat (cm_max_args cmd) < 2 ^ 57
     \<and> (\<forall>p. cm_arg_placeholder cmd = Some p \<longrightarrow> length p < 2 ^ 58)"

definition cmd_base :: "command \<Rightarrow> nat" where
  "cmd_base cmd = unat (cm_env_length cmd) + args_bytes (cm_fixed cmd)"

text \<open>The argument vector the child would get now.\<close>

definition cmd_argv :: "command \<Rightarrow> cstr list" where
  "cmd_argv cmd = args_list (fixed_args_in_play cmd) @ cm_input cmd"

text \<open>Two commands with the same limits and fixed arguments.\<close>

definition cleared :: "command \<Rightarrow> command" where
  "cleared cmd = cmd\<lparr>cm_line_count := 0, cm_input_args := no_args,
     cm_replaced_fixed_args := no_args\<rparr>"

definition same_command :: "command \<Rightarrow> command \<Rightarrow> bool" where
  "same_command cmd cmd' \<longleftrightarrow> cleared cmd = cleared cmd'"

lemma same_command_refl [simp]: "same_command cmd cmd"
  by (simp add: same_command_def)

lemma same_command_trans: "same_command a b \<Longrightarrow> same_command b c \<Longrightarrow> same_command a c"
  by (simp add: same_command_def)

lemma same_command_updates [simp]:
  "same_command cmd (cmd'\<lparr>cm_line_count := l\<rparr>) = same_command cmd cmd'"
  "same_command cmd (cmd'\<lparr>cm_input_args := a\<rparr>) = same_command cmd cmd'"
  "same_command cmd (cmd'\<lparr>cm_replaced_fixed_args := a\<rparr>) = same_command cmd cmd'"
  "same_command (cmd\<lparr>cm_line_count := l\<rparr>) cmd' = same_command cmd cmd'"
  "same_command (cmd\<lparr>cm_input_args := a\<rparr>) cmd' = same_command cmd cmd'"
  "same_command (cmd\<lparr>cm_replaced_fixed_args := a\<rparr>) cmd' = same_command cmd cmd'"
  by (simp_all add: same_command_def cleared_def)

lemma same_command_fields:
  "same_command cmd cmd' \<Longrightarrow> cm_max_lines cmd' = cm_max_lines cmd
     \<and> cm_max_args cmd' = cm_max_args cmd \<and> cm_max_length cmd' = cm_max_length cmd
     \<and> cm_arg_placeholder cmd' = cm_arg_placeholder cmd \<and> cm_open_tty cmd' = cm_open_tty cmd
     \<and> cm_prompt cmd' = cm_prompt cmd \<and> cm_trace cmd' = cm_trace cmd
     \<and> cm_terminate_on_too_large_command cmd' = cm_terminate_on_too_large_command cmd
     \<and> cm_line_mode cmd' = cm_line_mode cmd \<and> cm_env_length cmd' = cm_env_length cmd
     \<and> cm_fixed_args cmd' = cm_fixed_args cmd"
  by (cases cmd; cases cmd') (simp add: same_command_def cleared_def)

text \<open>The length the code keeps is the number of bytes, as long as they fit.\<close>

lemma unat_command_length:
  assumes "cmd_invar cmd" and "args_bytes (cm_input cmd) < 2 ^ 62"
  shows "unat (command_length cmd) = cmd_base cmd + args_bytes (cm_input cmd)"
proof -
  have f: "unat (command_args_length (cm_fixed_args cmd)) = args_bytes (cm_fixed cmd)"
    and i: "unat (command_args_length (cm_input_args cmd)) = args_bytes (cm_input cmd)"
    using assms by (simp_all add: cmd_invar_def command_args_length_eq unat_of_nat_size)
  show ?thesis
    using assms by (simp add: command_length_def cmd_invar_def cmd_base_def size_simps f i)
qed

section \<open>Creating and recycling\<close>

lemma new_input_args_yields:
  assumes "unat (cm_max_args cmd) < 2 ^ 57" and "copes E S (unat (cm_max_args cmd))"
    and "copes E S 10"
  shows "yields S (new_input_args E cmd) (\<lambda>a. args_invar a \<and> args_list a = [])"
  using assms create_with_capacity_yields [of E S "cm_max_args cmd"]
    command_args_create_yields [of E S]
  by (auto simp: new_input_args_def elim: yields_conseq)

lemma recycle_command_yields:
  assumes inv: "cmd_invar cmd" and c: "copes E S (2 ^ 57)"
  shows "yields S (recycle_command E cmd) (\<lambda>cmd'. cmd_invar cmd' \<and> same_command cmd cmd'
    \<and> cm_input cmd' = [] \<and> cm_line_count cmd' = 0
    \<and> (if cm_arg_placeholder cmd = None
       then cm_replaced_fixed_args cmd' = cm_replaced_fixed_args cmd else cm_replaced cmd' = []))"
proof -
  have n: "unat (command_args_count (cm_fixed_args cmd)) < 2 ^ 57"
    using inv by (simp add: cmd_invar_def unat_args_count)
  have r: "yields S (command_args_create_with_capacity E (command_args_count (cm_fixed_args cmd)))
      (\<lambda>r. args_invar r \<and> args_list r = [])"
    by (rule yields_conseq [OF create_with_capacity_yields])
      (use n in \<open>auto intro: copes_le [OF c]\<close>)
  have i: "yields S (new_input_args E cmd') (\<lambda>a. args_invar a \<and> args_list a = [])"
    if "cm_max_args cmd' = cm_max_args cmd" for cmd'
    using inv that by (intro new_input_args_yields) (auto simp: cmd_invar_def intro: copes_le [OF c])
  show ?thesis
    unfolding recycle_command_def Let_def
  proof (rule yields_rbindI [where P = "\<lambda>cmd'. \<exists>r. args_invar r
      \<and> cmd' = cmd\<lparr>cm_line_count := 0, cm_replaced_fixed_args := r\<rparr>
      \<and> (if cm_arg_placeholder cmd = None then r = cm_replaced_fixed_args cmd
         else args_list r = [])"], goal_cases)
    case 1
    show ?case
    proof (cases "cm_arg_placeholder cmd")
      case None
      then show ?thesis
        using inv by (simp add: cmd_invar_def)
    next
      case (Some p)
      then show ?thesis by (auto intro!: yields_conseq [OF r])
    qed
  next
    case (2 cmd')
    then obtain r where r: "args_invar r" "cmd' = cmd\<lparr>cm_line_count := 0, cm_replaced_fixed_args := r\<rparr>"
      "if cm_arg_placeholder cmd = None then r = cm_replaced_fixed_args cmd else args_list r = []"
      by blast
    show ?case
      by (rule yields_rbindI [OF i]) (use inv r in \<open>auto simp: cmd_invar_def split: if_splits\<close>)
  qed
qed

section \<open>Substitution\<close>

lemma replace_from_yields:
  assumes "cmd_invar cmd" and "cm_arg_placeholder cmd = Some p"
    and "arg_ok r" and "unat i \<le> length (cm_fixed cmd)"
    and "length (cm_replaced cmd) = unat i"
    and "\<forall>a \<in> set (cm_fixed cmd). length (replace_all p r a) < 2 ^ 58"
    and "copes E S (2 ^ 58)"
  shows "yields S (replace_from E cmd r i) (\<lambda>cmd'. cmd_invar cmd'
    \<and> same_command cmd cmd' \<and> cm_input_args cmd' = cm_input_args cmd
    \<and> cm_line_count cmd' = cm_line_count cmd
    \<and> cm_replaced cmd' = cm_replaced cmd @ map (replace_all p r) (drop (unat i) (cm_fixed cmd)))"
  using assms
proof (induction E cmd r i rule: replace_from.induct)
  case (1 E cmd r i)
  let ?n = "command_args_count (cm_fixed_args cmd)"
  have n: "unat ?n = length (cm_fixed cmd)"
    using "1.prems"(1) by (simp add: cmd_invar_def unat_args_count)
  show ?case
  proof (cases "i < ?n")
    case False
    then show ?thesis
      using "1.prems" n by (simp add: replace_from.simps [of E cmd] size_less_unat)
  next
    case True
    have lt: "unat i < length (cm_fixed cmd)" using True n by (simp add: size_less_unat)
    let ?a = "cm_fixed cmd ! unat i"
    have ok: "arg_ok ?a" using "1.prems"(1) lt by (auto simp: cmd_invar_def args_invar_def)
    have a: "?a \<in> set (cm_fixed cmd)" using lt by simp
    have NUL: "0 \<notin> set (replace_all p r ?a)"
      using set_replace_all [of p r ?a] ok "1.prems"(3) by (auto simp: arg_ok_def)
    have len: "length (replace_all p r ?a) < 2 ^ 58" using "1.prems"(6) a by blast
    have at: "command_args_at (cm_fixed_args cmd) i = Inr (Some ?a)"
      using "1.prems"(1) lt by (intro command_args_at_eq) (auto simp: cmd_invar_def)
    have repl: "yields S (str_replace E (Some ?a) (cm_arg_placeholder cmd) (Some r))
        (\<lambda>t. t = Some (replace_all p r ?a))"
      unfolding "1.prems"(2)
      using ok "1.prems"(1,2,3) len
      by (intro str_replace_any_yields) (auto simp: arg_ok_def cmd_invar_def intro: copes_le [OF "1.prems"(7)])
    have add: "yields S (command_args_add E (cm_replaced_fixed_args cmd) (replace_all p r ?a))
        (\<lambda>b. args_invar b \<and> args_list b = cm_replaced cmd @ [replace_all p r ?a])"
      using "1.prems" NUL len lt
      by (intro command_args_add_yields)
        (auto simp: arg_ok_def cmd_invar_def intro: copes_le [OF "1.prems"(7)])
    have "yields S (replace_from E (cmd\<lparr>cm_replaced_fixed_args := b\<rparr>) r (i + 1)) (\<lambda>cmd'. cmd_invar cmd'
        \<and> same_command cmd cmd' \<and> cm_input_args cmd' = cm_input_args cmd
        \<and> cm_line_count cmd' = cm_line_count cmd
        \<and> cm_replaced cmd' = cm_replaced cmd @ map (replace_all p r) (drop (unat i) (cm_fixed cmd)))"
      if b: "args_invar b \<and> args_list b = cm_replaced cmd @ [replace_all p r ?a]"
        and rs: "str_replace E (Some ?a) (cm_arg_placeholder cmd) (Some r) = Inr (Some (replace_all p r ?a))"
        and ad: "command_args_add E (cm_replaced_fixed_args cmd) (replace_all p r ?a) = Inr b" for b
    proof (rule yields_conseq [OF "1.IH" [OF True at rs _ ad]])
      show "deref (Some (replace_all p r ?a)) = Inr (replace_all p r ?a)"
        by (simp add: deref_def)
    qed (use "1.prems" b lt True in \<open>auto simp: cmd_invar_def size_up_Suc Cons_nth_drop_Suc [symmetric]\<close>)
    with repl add True at show ?thesis
      by (simp add: replace_from.simps [of E cmd]) 
        (cases "str_replace E (Some ?a) (cm_arg_placeholder cmd) (Some r)";
         cases "command_args_add E (cm_replaced_fixed_args cmd) (replace_all p r ?a)"; simp add: deref_def)
  qed
qed

lemma command_replace_args_yields:
  assumes inv: "cmd_invar cmd" and p: "cm_arg_placeholder cmd = Some p"
    and r: "arg_ok r" and none: "cm_replaced cmd = []"
    and len: "\<forall>a \<in> set (cm_fixed cmd). length (replace_all p r a) < 2 ^ 58"
    and c: "copes E S (2 ^ 58)"
  shows "yields S (command_replace_args E cmd r) (\<lambda>cmd'. cmd_invar cmd'
    \<and> same_command cmd cmd' \<and> cm_input_args cmd' = cm_input_args cmd
    \<and> cm_replaced cmd' = hd (cm_fixed cmd) # map (replace_all p r) (tl (cm_fixed cmd)))"
proof -
  obtain a as where fixed: "cm_fixed cmd = a # as"
    using inv by (cases "cm_fixed cmd") (auto simp: cmd_invar_def)
  have at: "command_args_at (cm_fixed_args cmd) 0 = Inr (Some a)"
    using inv fixed by (subst command_args_at_eq) (auto simp: cmd_invar_def)
  have "arg_ok a" using inv fixed by (auto simp: cmd_invar_def args_invar_def)
  then have add: "yields S (command_args_add E (cm_replaced_fixed_args cmd) a)
      (\<lambda>b. args_invar b \<and> args_list b = [a])"
    using inv none by (intro yields_conseq [OF command_args_add_yields])
      (auto simp: cmd_invar_def intro: copes_le [OF c])
  have rest: "yields S (replace_from E (cmd\<lparr>cm_replaced_fixed_args := b\<rparr>) r 1) (\<lambda>cmd'. cmd_invar cmd'
      \<and> same_command cmd cmd' \<and> cm_input_args cmd' = cm_input_args cmd
      \<and> cm_replaced cmd' = hd (cm_fixed cmd) # map (replace_all p r) (tl (cm_fixed cmd)))"
    if "args_invar b \<and> args_list b = [a]" for b
    by (rule yields_conseq [OF replace_from_yields])
      (use inv p r len c fixed that in \<open>auto simp: cmd_invar_def\<close>)
  show ?thesis
    unfolding command_replace_args_def at
    by (simp add: deref_def, rule yields_conseq [OF add], rule rest)
qed

section \<open>The argument vector\<close>

lemma copy_exec_args_yields:
  assumes "args_invar args" and "unat i \<le> length (args_list args)"
    and "unat off + length (args_list args) \<le> length b" and "length b < 2 ^ 58"
    and "copes E S (2 ^ 58)"
  shows "yields S (copy_exec_args E args off i b) (\<lambda>b'. b' = take (unat off + unat i) b
    @ map (Some \<circ> Some) (drop (unat i) (args_list args))
    @ drop (unat off + length (args_list args)) b)"
  using assms
proof (induction E args off i b rule: copy_exec_args.induct)
  case (1 E args off i b)
  have n: "unat (command_args_count args) = length (args_list args)"
    using "1.prems"(1) by (rule unat_args_count)
  show ?case
  proof (cases "i < command_args_count args")
    case False
    then have "unat i = length (args_list args)" using "1.prems"(2) n by (simp add: size_less_unat)
    with False show ?thesis by (simp add: copy_exec_args.simps [of E args off i b])
  next
    case True
    have lt: "unat i < length (args_list args)" using True n by (simp add: size_less_unat)
    let ?a = "args_list args ! unat i" and ?b = "b[unat (off + i) := Some (Some (args_list args ! unat i))]"
    have at: "command_args_at args i = Inr (Some ?a)"
      using "1.prems"(1) lt by (rule command_args_at_eq)
    have ok: "arg_ok ?a" using "1.prems"(1) lt by (auto simp: args_invar_def)
    have pos: "unat (off + i) = unat off + unat i"
      using "1.prems"(3,4) lt by (intro unat_add_size) simp
    have st: "blk_store b (unat (off + i)) (Some ?a) = Inr ?b"
      using "1.prems"(3) lt by (simp add: blk_store_def pos)
    have dup: "yields S (phxargs_strdup E (Some ?a)) (\<lambda>t. t = Some ?a)"
      using ok by (intro yields_strdup) (auto simp: arg_ok_def intro: copes_le [OF "1.prems"(5)])
    have "yields S (copy_exec_args E args off (i + 1) ?b) (\<lambda>b'. b' = take (unat off + unat i) b
        @ map (Some \<circ> Some) (drop (unat i) (args_list args))
        @ drop (unat off + length (args_list args)) b)"
      if "phxargs_strdup E (Some ?a) = Inr (Some ?a)"
    proof (rule yields_conseq [OF "1.IH" [OF True at that st]])
      fix b'
      assume "b' = take (unat off + unat (i + 1)) ?b
        @ map (Some \<circ> Some) (drop (unat (i + 1)) (args_list args))
        @ drop (unat off + length (args_list args)) ?b"
      then show "b' = take (unat off + unat i) b @ map (Some \<circ> Some) (drop (unat i) (args_list args))
          @ drop (unat off + length (args_list args)) b"
        using lt "1.prems"(3) True
        by (simp add: size_up_Suc pos take_Suc_conv_app_nth Cons_nth_drop_Suc [OF lt, symmetric])
    qed (use "1.prems" lt True in \<open>simp_all add: size_up_Suc\<close>)
    with dup st at True show ?thesis
      by (cases "phxargs_strdup E (Some ?a)") (simp_all add: copy_exec_args.simps [of E args off i b] o_def)
  qed
qed

lemma fixed_args_in_play_invar: "cmd_invar cmd \<Longrightarrow> args_invar (fixed_args_in_play cmd)"
  by (simp add: cmd_invar_def fixed_args_in_play_def)

lemma build_exec_args_yields:
  assumes inv: "cmd_invar cmd" and len: "length (cmd_argv cmd) < 2 ^ 58 - 1"
    and c: "copes E S (2 ^ 58)"
  shows "yields S (build_exec_args E cmd) (\<lambda>(b, n).
    b = map (Some \<circ> Some) (cmd_argv cmd) @ [Some None] \<and> unat n = length (cmd_argv cmd))"
proof -
  let ?f = "fixed_args_in_play cmd" and ?i = "cm_input_args cmd"
  let ?n = "command_args_count ?f + command_args_count ?i"
  have f: "args_invar ?f" using inv by (rule fixed_args_in_play_invar)
  have i: "args_invar ?i" using inv by (simp add: cmd_invar_def)
  have n: "unat ?n = length (cmd_argv cmd)"
    using len f i by (simp add: unat_add_size unat_args_count cmd_argv_def)
  have n1: "unat (?n + 1) = length (cmd_argv cmd) + 1"
    using len n by (simp add: unat_Suc_size)
  have m: "yields S (phxargs_calloc E None (?n + 1) 8)
      (\<lambda>b. b = replicate (length (cmd_argv cmd)) (Some None) @ [Some None])"
    by (rule yields_conseq [OF yields_calloc])
      (use len n1 in \<open>auto simp: replicate_append_same intro: copes_le [OF c]\<close>)
  let ?b0 = "replicate (length (cmd_argv cmd)) (Some None) @ [Some None] :: cstr option block"
  let ?b1 = "map (Some \<circ> Some) (args_list ?f) @ drop (length (args_list ?f)) ?b0"
  have c1: "yields S (copy_exec_args E ?f 0 0 ?b0) (\<lambda>b. b = ?b1)"
    by (rule yields_conseq [OF copy_exec_args_yields])
      (use f len c in \<open>auto simp: cmd_argv_def\<close>)
  have c2: "yields S (copy_exec_args E ?i (command_args_count ?f) 0 ?b1)
      (\<lambda>b. b = map (Some \<circ> Some) (cmd_argv cmd) @ [Some None])"
    by (rule yields_conseq [OF copy_exec_args_yields])
      (use f i len c in \<open>auto simp: cmd_argv_def unat_args_count\<close>)
  have st: "blk_store (map (Some \<circ> Some) (cmd_argv cmd) @ [Some None]) (unat ?n) None
      = Inr (map (Some \<circ> Some) (cmd_argv cmd) @ [Some None])"
    by (simp add: blk_store_def n list_update_append)
  note st' = st [unfolded n]
  show ?thesis
    unfolding build_exec_args_def Let_def
    by (intro yields_rbindI [OF m], hypsubst, intro yields_rbindI [OF c1], hypsubst,
        intro yields_rbindI [OF c2], hypsubst) (simp add: n st')
qed

section \<open>The trace\<close>

text \<open>The reference: the arguments with one blank between them.\<close>

fun join_args :: "cstr list \<Rightarrow> byte list" where
  "join_args [] = []"
| "join_args [a] = a"
| "join_args (a # b # as) = a @ cSPACE # join_args (b # as)"

lemma join_args_Cons: "join_args (a # as) = a @ (if as = [] then [] else cSPACE # join_args as)"
  by (cases as) simp_all

lemma join_args_drop:
  "i < length as \<Longrightarrow> join_args (drop i as)
     = as ! i @ (if Suc i < length as then cSPACE # join_args (drop (Suc i) as) else [])"
  by (simp add: Cons_nth_drop_Suc [symmetric] join_args_Cons)

lemma exec_arg_eq: "unat i < length as \<Longrightarrow> exec_arg (map (Some \<circ> Some) as @ r) i = Inr (as ! unat i)"
  by (simp add: exec_arg_def blk_load_def nth_append deref_def)

lemma size_not_last:
  "i < n \<Longrightarrow> (i < n - 1 \<longleftrightarrow> Suc (unat i) < unat (n :: size_t))"
proof -
  assume i: "i < n"
  then have "unat (n - 1) = unat n - 1" by (intro unat_minus_one) auto
  with i show ?thesis by (simp add: size_less_unat) linarith
qed

lemma trace_length_eq:
  assumes "unat n = length as" and "unat i \<le> length as"
  shows "trace_length (map (Some \<circ> Some) as @ r) n i acc
    = Inr (acc + of_nat (length (join_args (drop (unat i) as))))"
  using assms
proof (induction "length as - unat i" arbitrary: i acc)
  case 0
  then have "\<not> i < n" by (simp add: size_less_unat)
  with 0 show ?case by (simp add: trace_length.simps [of _ n i acc])
next
  case (Suc k)
  then have lt: "unat i < length as" by linarith
  then have i: "i < n" using Suc.prems by (simp add: size_less_unat)
  have "trace_length (map (Some \<circ> Some) as @ r) n (i + 1) acc'
      = Inr (acc' + of_nat (length (join_args (drop (Suc (unat i)) as))))" for acc'
    using Suc.hyps(1) [of "i + 1" acc'] Suc.hyps(2) Suc.prems lt i by (simp add: size_up_Suc)
  then show ?case
    using i lt Suc.prems
    by (simp add: trace_length.simps [of _ n i acc] exec_arg_eq size_not_last join_args_drop strlen_def
        algebra_simps)
qed

lemma trace_fill_eq:
  assumes "unat n = length as" and "unat i \<le> length as"
    and "\<forall>a \<in> set as. length a < 2 ^ 64"
    and "p + length (join_args (drop (unat i) as)) \<le> length buf"
  shows "trace_fill (map (Some \<circ> Some) as @ r) n i buf p
    = Inr (take p buf @ map Some (join_args (drop (unat i) as))
        @ drop (p + length (join_args (drop (unat i) as))) buf,
      p + length (join_args (drop (unat i) as)))"
  using assms
proof (induction "length as - unat i" arbitrary: i buf p)
  case 0
  then have "\<not> i < n" by (simp add: size_less_unat)
  with 0 show ?case by (simp add: trace_fill.simps [of _ n i buf])
next
  case (Suc k)
  then have lt: "unat i < length as" by linarith
  then have i: "i < n" using Suc.prems by (simp add: size_less_unat)
  let ?a = "as ! unat i"
  have u: "unat (strlen ?a) = length ?a" using Suc.prems(3) lt by (simp add: unat_strlen)
  note IH = Suc.hyps(1) [of "i + 1"]
  show ?case
  proof (cases "Suc (unat i) < length as")
    case False
    then have e: "drop (unat (i + 1)) as = []" using lt i by (simp add: size_up_Suc)
    show ?thesis
      using Suc.prems lt i u False e Suc.hyps(2)
      by (simp add: trace_fill.simps [of _ n i buf] exec_arg_eq size_not_last join_args_drop
          blk_copy_def IH size_up_Suc)
  next
    case True
    let ?q = "p + length ?a" and ?J = "join_args (drop (Suc (unat i)) as)"
    have J: "join_args (drop (unat i) as) = ?a @ cSPACE # ?J"
      using True lt by (simp add: join_args_drop)
    have room: "?q + 1 + length ?J \<le> length buf" using Suc.prems(4) by (simp add: J)
    let ?buf1 = "take p buf @ map Some ?a @ drop ?q buf"
    let ?buf2 = "take p buf @ map Some ?a @ Some cSPACE # drop (?q + 1) buf"
    have c: "blk_copy buf p ?a = Inr ?buf1" using room by (simp add: blk_copy_def)
    have "drop ?q buf = buf ! ?q # drop (?q + 1) buf"
      using room by (simp add: Cons_nth_drop_Suc)
    then have s: "blk_store ?buf1 ?q cSPACE = Inr ?buf2"
      using room by (simp add: blk_store_def list_update_append)
    have t: "take (?q + 1) ?buf2 = take p buf @ map Some ?a @ [Some cSPACE]"
      and d: "drop (?q + 1 + length ?J) ?buf2 = drop (?q + 1 + length ?J) buf"
      using room by (simp_all add: ac_simps)
    have IH': "trace_fill (map (Some \<circ> Some) as @ r) n (i + 1) ?buf2 (?q + 1)
        = Inr (take (?q + 1) ?buf2 @ map Some ?J @ drop (?q + 1 + length ?J) ?buf2,
            ?q + 1 + length ?J)"
      using IH [where buf = ?buf2 and p = "?q + 1"] Suc.hyps(2) Suc.prems(1,3) lt i room
      by (simp add: size_up_Suc)
    have "trace_fill (map (Some \<circ> Some) as @ r) n i buf p
        = trace_fill (map (Some \<circ> Some) as @ r) n (i + 1) ?buf2 (?q + 1)"
      using i lt u True Suc.prems(1)
      by (simp only: trace_fill.simps [of _ n i buf] exec_arg_eq size_not_last c s Let_def
          rbind_simps if_True simp_thms prod.case)
    then show ?thesis
      unfolding IH' t d J by (simp add: ac_simps)
  qed
qed

lemma write_trace_yields:
  assumes "unat n = length as" and "\<forall>a \<in> set as. length a < 2 ^ 64"
    and "length (join_args as) < 2 ^ 62" and "copes E S m"
  shows "yields S (write_trace E (map (Some \<circ> Some) as @ r) n nl)
    (\<lambda>t. t = join_args as @ (if nl then [cNL] else []))"
proof -
  let ?J = "join_args as"
  let ?len = "of_nat (length ?J) + (if nl then 1 else 0) :: size_t"
  have l: "unat ?len = length ?J + (if nl then 1 else 0)"
    using assms(3) by (simp add: unat_Suc_size unat_of_nat_size)
  have l1: "unat (?len + 1) = length ?J + (if nl then 1 else 0) + 1"
    using assms(3) l by (simp add: unat_Suc_size)
  have m: "yields S (phxargs_malloc E (?len + 1))
      (\<lambda>b. b = replicate (length ?J + (if nl then 1 else 0) + 1) (None :: byte option))"
    using yields_malloc [OF assms(4), of "?len + 1", where 'a = byte] unfolding l1 .
  have f: "trace_fill (map (Some \<circ> Some) as @ r) n 0 b 0
      = Inr (map Some ?J @ drop (length ?J) b, length ?J)" if "length ?J \<le> length b" for b
    using trace_fill_eq [of n as 0 0 b r] assms(1,2) that by simp
  have t: "trace_length (map (Some \<circ> Some) as @ r) n 0 0 = Inr (of_nat (length ?J))"
    using trace_length_eq [of n as 0 r 0] assms(1) by simp
  have body: "yields S (rbind (phxargs_malloc E (?len + 1)) (\<lambda>buf.
      rbind (trace_fill (map (Some \<circ> Some) as @ r) n 0 buf 0) (\<lambda>(buf, p).
      rbind (if nl then blk_store buf p cNL else Inr buf) (\<lambda>buf. write_out buf ?len))))
      (\<lambda>t. t = ?J @ (if nl then [cNL] else []))"
  proof (rule yields_rbindI [OF m])
    fix buf :: "byte block"
    assume b: "buf = replicate (length ?J + (if nl then 1 else 0) + 1) None"
    have "drop (length ?J) buf = replicate (Suc (if nl then 1 else 0)) None"
      unfolding b drop_replicate by (rule arg_cong [where f = "\<lambda>k. replicate k None"]) simp
    moreover have "length buf = length ?J + (if nl then 1 else 0) + 1" by (simp add: b)
    ultimately show "yields S (rbind (trace_fill (map (Some \<circ> Some) as @ r) n 0 buf 0) (\<lambda>(buf, p).
        rbind (if nl then blk_store buf p cNL else Inr buf) (\<lambda>buf. write_out buf ?len)))
        (\<lambda>t. t = ?J @ (if nl then [cNL] else []))"
      using l by (cases nl) (simp_all add: f blk_store_def write_out_def list_update_append)
  qed
  have "(if nl then of_nat (length ?J) + 1 else of_nat (length ?J)) = ?len" by simp
  with body show ?thesis
    by (simp only: write_trace_def t rbind_simps Let_def)
qed

lemma length_join_args: "length (join_args as) \<le> args_bytes as"
  by (induction as rule: join_args.induct) simp_all

end
