(* ===== verification/Child_Correct.thy ===== *)
theory Child_Correct
  imports Command_Correct
begin

text \<open>
  The children of the program: what each of them does and how it ends is a function of the
  options \<open>-p\<close>, \<open>-o\<close> and \<open>-t\<close>, of what the command does on the host, and of what is waiting at
  the terminal (\<open>courses\<close>); \<open>command_execute_async\<close> starts one such child.
\<close>

section \<open>The specification of the children\<close>

text \<open>
  How the parent sees the end of a child by what \<open>execvp\<close> did: the command's own status, or
  127, 125, 126 by the reason of the failure.
\<close>

definition exec_status :: "exec_outcome \<Rightarrow> wstatus" where
  "exec_status x = (case x of Runs st \<Rightarrow> st
     | Exec_fails e \<Rightarrow> Exited (if e = E2BIG then 125 else if e = ENOENT then 127 else 126))"

text \<open>What the options make of a child.\<close>

record child_kind =
  ck_prompt :: bool
  ck_open_tty :: bool
  ck_trace :: bool

definition kind_of :: "command \<Rightarrow> child_kind" where
  "kind_of cmd = \<lparr>ck_prompt = cm_prompt cmd, ck_open_tty = cm_open_tty cmd, ck_trace = cm_trace cmd\<rparr>"

lemma kind_of_simps [simp]:
  "ck_prompt (kind_of cmd) = cm_prompt cmd" "ck_open_tty (kind_of cmd) = cm_open_tty cmd"
  "ck_trace (kind_of cmd) = cm_trace cmd"
  by (simp_all add: kind_of_def)

text \<open>
  The answer to a prompt, with what is left at the terminal: the status the child ends with
  when it may not go on. Without a terminal that is 1; otherwise the first byte must be \<open>y\<close>
  or \<open>Y\<close>, and everything up to the next newline after it is dropped.
\<close>

fun consent :: "bool \<Rightarrow> cstr option \<Rightarrow> wstatus option \<times> cstr option" where
  "consent False tty = (None, tty)"
| "consent True None = (Some (Exited 1), None)"
| "consent True (Some []) = (Some (Exited 0), Some [])"
| "consent True (Some (c # cs)) =
     (if c \<in> {of_char CHR ''y'', of_char CHR ''Y''} then None else Some (Exited 0),
      Some (tl (dropWhile (\<lambda>b. b \<noteq> cNL) cs)))"

text \<open>
  What some children leave behind: the statuses they end with, the commands that reach
  \<open>execvp\<close> (and whether standard input was reopened), the traces, and the rest of the
  terminal's input.
\<close>

record course =
  co_ends :: "wstatus list"
  co_execs :: "(cstr list \<times> bool) list"
  co_traces :: "byte list list"
  co_tty :: "cstr option"

definition child_course :: "child_kind \<Rightarrow> exec_outcome \<Rightarrow> cstr list \<Rightarrow> cstr option \<Rightarrow> course" where
  "child_course k x as tty =
     (let traces = (if ck_trace k then [join_args as @ (if ck_prompt k then [] else [cNL])] else [])
      in case consent (ck_prompt k) tty of
        (Some st, tty) \<Rightarrow> \<lparr>co_ends = [st], co_execs = [], co_traces = traces, co_tty = tty\<rparr>
      | (None, tty) \<Rightarrow>
          if ck_open_tty k \<and> tty = None
          then \<lparr>co_ends = [Exited 1], co_execs = [], co_traces = traces, co_tty = tty\<rparr>
          else \<lparr>co_ends = [exec_status x], co_execs = [(as, ck_open_tty k)], co_traces = traces, co_tty = tty\<rparr>)"

text \<open>The children for the commands \<open>xs\<close>, of which the first is the \<open>n\<close>-th fork.\<close>

fun courses :: "child_kind \<Rightarrow> (nat \<Rightarrow> cstr list \<Rightarrow> exec_outcome) \<Rightarrow> nat \<Rightarrow> cstr option
    \<Rightarrow> cstr list list \<Rightarrow> course" where
  "courses k x n tty [] = \<lparr>co_ends = [], co_execs = [], co_traces = [], co_tty = tty\<rparr>"
| "courses k x n tty (as # xs) =
     (let c = child_course k (x n as) as tty; d = courses k x (Suc n) (co_tty c) xs
      in \<lparr>co_ends = co_ends c @ co_ends d, co_execs = co_execs c @ co_execs d,
          co_traces = co_traces c @ co_traces d, co_tty = co_tty d\<rparr>)"

lemma courses_append:
  "courses k x n tty (xs @ ys) =
     (let c = courses k x n tty xs; d = courses k x (n + length xs) (co_tty c) ys
      in \<lparr>co_ends = co_ends c @ co_ends d, co_execs = co_execs c @ co_execs d,
          co_traces = co_traces c @ co_traces d, co_tty = co_tty d\<rparr>)"
  by (induction xs arbitrary: n tty) (simp_all add: Let_def)

lemma courses_single: "courses k x n tty [as] = child_course k (x n as) as tty"
  by (simp add: Let_def)

lemma child_course_ends:
  "\<exists>st. co_ends (child_course k x as tty) = [st] \<and> st \<in> {exec_status x, Exited 0, Exited 1}"
  by (cases "(ck_prompt k, tty)" rule: consent.cases) (auto simp: child_course_def)

lemma courses_ends:
  "st \<in> set (co_ends (courses k x n tty xs)) \<Longrightarrow> (\<exists>i as. st = exec_status (x i as)) \<or> st \<in> {Exited 0, Exited 1}"
proof (induction xs arbitrary: n tty)
  case (Cons as xs)
  then show ?case using child_course_ends [of k "x n as" as tty] by (fastforce simp: Let_def)
qed simp

lemma length_courses_ends [simp]: "length (co_ends (courses k x n tty xs)) = length xs"
proof (induction xs arbitrary: n tty)
  case (Cons as xs)
  then show ?case using child_course_ends [of k "x n as" as tty] by (auto simp: Let_def)
qed simp

text \<open>Without a prompt and without \<open>-o\<close> every command is executed and ends as it does there.\<close>

lemma courses_plain:
  assumes "\<not> ck_prompt k" and "\<not> ck_open_tty k"
  shows "co_execs (courses k x n tty xs) = map (\<lambda>as. (as, False)) xs"
    and "i < length xs \<Longrightarrow> co_ends (courses k x n tty xs) ! i = exec_status (x (n + i) (xs ! i))"
proof -
  have c: "child_course k e as t = \<lparr>co_ends = [exec_status e], co_execs = [(as, False)],
      co_traces = (if ck_trace k then [join_args as @ [cNL]] else []), co_tty = t\<rparr>" for e as t
    using assms by (simp add: child_course_def)
  show "co_execs (courses k x n tty xs) = map (\<lambda>as. (as, False)) xs"
    by (induction xs arbitrary: n tty) (simp_all add: Let_def c)
  show "i < length xs \<Longrightarrow> co_ends (courses k x n tty xs) ! i = exec_status (x (n + i) (xs ! i))"
    by (induction xs arbitrary: n tty i) (auto simp: Let_def c nth_Cons split: nat.split)
qed

section \<open>The child\<close>

text \<open>A child touches nothing of the world but the terminal and the log.\<close>

definition child_effect :: "world \<Rightarrow> world \<Rightarrow> bool" where
  "child_effect w w' \<longleftrightarrow> w\<lparr>w_tty := None, w_log := []\<rparr> = w'\<lparr>w_tty := None, w_log := []\<rparr>
     \<and> forked (w_log w') = forked (w_log w) \<and> reaped (w_log w') = reaped (w_log w)"

lemma child_effect_refl [simp]: "child_effect w w"
  by (simp add: child_effect_def)

lemma child_effect_trans: "child_effect a b \<Longrightarrow> child_effect b c \<Longrightarrow> child_effect a c"
  by (simp add: child_effect_def)

lemma child_effect_updates [simp]:
  "child_effect w (w'\<lparr>w_tty := t\<rparr>) = child_effect w w'"
  "child_effect w (log_event (Spawned as) w') = child_effect w w'"
  "child_effect w (log_event (Trace tr) w') = child_effect w w'"
  "child_effect w (log_event Asked w') = child_effect w w'"
  "child_effect w (log_event (Execvp as b) w') = child_effect w w'"
  by (simp_all add: child_effect_def log_event_def)

lemma child_effect_fields:
  "child_effect w w' \<Longrightarrow> w_exec w' = w_exec w \<and> w_fork_fails w' = w_fork_fails w
     \<and> w_forks w' = w_forks w \<and> w_children w' = w_children w \<and> w_sched w' = w_sched w
     \<and> w_signals w' = w_signals w \<and> w_handlers w' = w_handlers w
     \<and> forked (w_log w') = forked (w_log w)
     \<and> reaped (w_log w') = reaped (w_log w)"
  by (cases w; cases w') (simp add: child_effect_def)

text \<open>How a child ends, with its world: never in undefined behaviour.\<close>

definition child_ends :: "world \<Rightarrow> (stop \<times> world) + wstatus \<times> world
    \<Rightarrow> (wstatus \<Rightarrow> world \<Rightarrow> bool) \<Rightarrow> bool" where
  "child_ends w m Q = (case m of
     Inl (s, w') \<Rightarrow> s \<noteq> Undefined \<and> child_effect w w' \<and> Q (stop_status s) w'
   | Inr (st, w') \<Rightarrow> child_effect w w' \<and> Q st w')"

lemma child_ends_simps [simp]:
  "child_ends w (Inl (s, w')) Q \<longleftrightarrow> s \<noteq> Undefined \<and> child_effect w w' \<and> Q (stop_status s) w'"
  "child_ends w (Inr (st, w')) Q \<longleftrightarrow> child_effect w w' \<and> Q st w'"
  by (simp_all add: child_ends_def)

lemma child_ends_mono: "child_ends w m P \<Longrightarrow> (\<And>st w'. P st w' \<Longrightarrow> Q st w') \<Longrightarrow> child_ends w m Q"
  by (auto simp: child_ends_def split: sum.splits)

text \<open>What a child that ended with \<open>st\<close> left behind since \<open>w\<close>.\<close>

definition took_course :: "course \<Rightarrow> world \<Rightarrow> wstatus \<Rightarrow> world \<Rightarrow> bool" where
  "took_course c w st w' \<longleftrightarrow> co_ends c = [st] \<and> execs (w_log w') = execs (w_log w) @ co_execs c
     \<and> traced (w_log w') = traced (w_log w) @ co_traces c \<and> w_tty w' = co_tty c"

lemma skip_answer_eq: "skip_answer cs = tl (dropWhile (\<lambda>b. b \<noteq> cNL) cs)"
  by (induction cs) simp_all

text \<open>The end of a child, from the prompt on.\<close>

lemma child_goes_on:
  assumes "child_effect w v" and "execs (w_log v) = execs (w_log w)" and "w_tty v = w_tty w"
    and "traced (w_log v) = traced (w_log w)
      @ (if cm_trace cmd then [join_args as @ (if cm_prompt cmd then [] else [cNL])] else [])"
  shows "child_ends w (rbind (if cm_prompt cmd then confirm_execution (log_event Asked v) else Inr (True, v))
      (\<lambda>(execute, v). if execute then phxargs_exec n (map (Some \<circ> Some) as @ [Some None]) (cm_open_tty cmd) v
       else Inr (Exited EXIT_SUCCESS, v)))
    (\<lambda>st w'. took_course (child_course (kind_of cmd) (w_exec w n as) as (w_tty w)) w st w'
      \<and> spawned (w_log w') = spawned (w_log v))"
proof -
  have x: "w_exec v = w_exec w" using child_effect_fields [OF assms(1)] by simp
  show ?thesis
    using assms x
    by (cases "(cm_prompt cmd, w_tty w)" rule: consent.cases; cases "w_exec w n as")
      (auto simp: confirm_execution_def phxargs_exec_def child_course_def took_course_def exec_status_def
        stop_status_def exit_codes EXIT_FAILURE_def EXIT_SUCCESS_def skip_answer_eq)
qed

text \<open>
  The child assembles exactly \<open>cmd_argv\<close> and takes its course; only on a host short of memory
  may it fail before.
\<close>

lemma exec_child_ends:
  assumes inv: "cmd_invar cmd" and len: "length (cmd_argv cmd) < 2 ^ 58 - 1"
    and bytes: "args_bytes (cmd_argv cmd) < 2 ^ 62"
  shows "child_ends w (exec_child E n cmd w) (\<lambda>st w'.
    took_course (child_course (kind_of cmd) (w_exec w n (cmd_argv cmd)) (cmd_argv cmd) (w_tty w)) w st w'
      \<and> spawned (w_log w') = spawned (w_log w) @ [cmd_argv cmd]
    \<or> \<not> ample E)"
    (is "child_ends w _ ?Q")
proof -
  define R where "R = (if ample E then {} else resource_stops)"
  have R: "Undefined \<notin> R" "ample E \<Longrightarrow> R = {}" by (simp_all add: R_def)
  have c: "copes E R k" if "k \<le> 2 ^ 58" for k
    using that by (simp add: R_def copes_def)
  let ?as = "cmd_argv cmd" and ?b = "map (Some \<circ> Some) (cmd_argv cmd) @ [Some None]"
  have build: "yields R (build_exec_args E cmd) (\<lambda>(b, n). b = ?b \<and> unat n = length ?as)"
    using inv len by (rule build_exec_args_yields) (simp add: c)
  have small: "\<forall>a \<in> set ?as. length a < 2 ^ 64"
    using inv by (auto simp: cmd_argv_def cmd_invar_def args_invar_def fixed_args_in_play_def
        arg_ok_def)
  have join: "length (join_args ?as) < 2 ^ 62"
    using length_join_args bytes by (rule le_less_trans)
  show ?thesis
  proof (cases "build_exec_args E cmd")
    case (Inl s)
    then have "s \<in> R" using build by simp
    with R Inl show ?thesis by (auto simp: exec_child_def Let_def)
  next
    case (Inr bn)
    then obtain m where bn: "bn = (?b, m)" "unat m = length ?as" using build by auto
    let ?w = "note_spawn ?b w"
    have w: "child_effect w ?w" "spawned (w_log ?w) = spawned (w_log w) @ [?as]"
      "execs (w_log ?w) = execs (w_log w)" "traced (w_log ?w) = traced (w_log w)" "w_tty ?w = w_tty w"
      by (simp_all add: note_spawn_def)
    show ?thesis
    proof (cases "cm_trace cmd")
      case False
      with child_goes_on [OF w(1,3,5), of cmd ?as n] w(2,4) Inr bn show ?thesis
        by (auto simp: exec_child_def Let_def elim!: child_ends_mono)
    next
      case True
      note t = write_trace_yields [OF bn(2) small join c [of 0], of "[Some None]" "\<not> cm_prompt cmd"]
      show ?thesis
      proof (cases "write_trace E ?b m (\<not> cm_prompt cmd)")
        case (Inl s)
        then have "s \<noteq> Undefined" "\<not> ample E" using t R by auto
        with Inl True \<open>build_exec_args E cmd = Inr bn\<close> bn w show ?thesis
          by (simp add: exec_child_def Let_def)
      next
        case (Inr tr)
        then have tr: "tr = join_args ?as @ (if cm_prompt cmd then [] else [cNL])" using t by simp
        have v: "child_effect w (log_event (Trace tr) ?w)" "execs (w_log (log_event (Trace tr) ?w)) = execs (w_log w)"
          "w_tty (log_event (Trace tr) ?w) = w_tty w" using w by simp_all
        from child_goes_on [OF v, of cmd ?as n] True Inr \<open>build_exec_args E cmd = Inr bn\<close> bn w(2,4) tr
        show ?thesis by (auto simp: exec_child_def Let_def elim!: child_ends_mono)
      qed
    qed
  qed
qed

section \<open>Starting a child\<close>

text \<open>What some children since \<open>w\<close> left behind.\<close>

definition took_courses :: "course \<Rightarrow> world \<Rightarrow> world \<Rightarrow> bool" where
  "took_courses c w w' \<longleftrightarrow> map snd (forked (w_log w')) = map snd (forked (w_log w)) @ co_ends c
     \<and> execs (w_log w') = execs (w_log w) @ co_execs c
     \<and> traced (w_log w') = traced (w_log w) @ co_traces c \<and> w_tty w' = co_tty c"

text \<open>What one successful \<open>command_execute_async\<close> does to the world.\<close>

definition started :: "platform \<Rightarrow> command \<Rightarrow> world \<Rightarrow> int \<Rightarrow> world \<Rightarrow> bool" where
  "started E cmd w pid w' \<longleftrightarrow> pid = int (w_forks w) + 2 \<and> w_forks w' = Suc (w_forks w)
     \<and> w_exec w' = w_exec w \<and> w_fork_fails w' = w_fork_fails w
     \<and> w_sched w' = w_sched w \<and> w_signals w' = w_signals w \<and> w_handlers w' = w_handlers w
     \<and> (\<exists>st. w_children w' = w_children w @ [(pid, st)]
        \<and> forked (w_log w') = forked (w_log w) @ [(pid, st)])
     \<and> reaped (w_log w') = reaped (w_log w)
     \<and> (ample E \<longrightarrow> spawned (w_log w') = spawned (w_log w) @ [cmd_argv cmd]
        \<and> took_courses (courses (kind_of cmd) (w_exec w) (w_forks w) (w_tty w) [cmd_argv cmd]) w w')"

text \<open>The stops of a call that may fork, at any world.\<close>

definition fork_copes :: "(stop \<times> world) set \<Rightarrow> world \<Rightarrow> bool" where
  "fork_copes T w \<longleftrightarrow> (\<forall>n. \<not> w_fork_fails w n) \<or> {Exit EXIT_FAILURE Perror_fork} \<times> UNIV \<subseteq> T"

lemma run_child_yields:
  assumes "cmd_invar cmd" and "length (cmd_argv cmd) < 2 ^ 58 - 1"
    and "args_bytes (cmd_argv cmd) < 2 ^ 62"
    and w1: "w1 = w\<lparr>w_forks := w_forks w + 1\<rparr>"
  shows "\<exists>w'. run_child E (int (w_forks w) + 2) (w_forks w) cmd w1 = Inr w'
    \<and> started E cmd w (int (w_forks w) + 2) w'"
proof -
  let ?n = "w_forks w" and ?as = "cmd_argv cmd"
  let ?c = "child_course (kind_of cmd) (w_exec w ?n ?as) ?as (w_tty w)"
  have e: "child_ends w1 (exec_child E ?n cmd w1) (\<lambda>st w'.
      took_course ?c w1 st w' \<and> spawned (w_log w') = spawned (w_log w) @ [?as] \<or> \<not> ample E)"
    using exec_child_ends [OF assms(1-3), of w1 E ?n] w1 by simp
  have s: "started E cmd w (int ?n + 2) (add_child (int ?n + 2) st w2)"
    if "child_effect w1 w2" "took_course ?c w1 st w2 \<and> spawned (w_log w2) = spawned (w_log w) @ [?as] \<or> \<not> ample E"
    for w2 st
    using child_effect_fields [OF that(1)] that(2) w1
    by (auto simp: started_def add_child_def took_course_def took_courses_def courses_single simp del: courses.simps)
  show ?thesis
  proof (cases "exec_child E ?n cmd w1")
    case (Inl x)
    with e s show ?thesis by (cases x) (auto simp: run_child_def)
  next
    case (Inr x)
    with e s show ?thesis by (cases x) (auto simp: run_child_def)
  qed
qed

lemma command_execute_async_yields:
  assumes "cmd_invar cmd" and "length (cmd_argv cmd) < 2 ^ 58 - 1"
    and "args_bytes (cmd_argv cmd) < 2 ^ 62"
    and c: "copes E S (2 ^ 57)" and T: "S \<times> UNIV \<subseteq> T" and f: "fork_copes T w"
  shows "yields T (command_execute_async E cmd w) (\<lambda>(pid, cmd', w').
    started E cmd w pid w' \<and> cmd_invar cmd' \<and> same_command cmd cmd' \<and> cm_input cmd' = []
    \<and> cm_line_count cmd' = 0
    \<and> (if cm_arg_placeholder cmd = None
       then cm_replaced_fixed_args cmd' = cm_replaced_fixed_args cmd else cm_replaced cmd' = []))"
proof (cases "w_fork_fails w (w_forks w)")
  case True
  with f have "{Exit EXIT_FAILURE Perror_fork} \<times> UNIV \<subseteq> T" by (auto simp: fork_copes_def)
  with True show ?thesis
    by (auto simp: command_execute_async_def phxargs_fork_def os_fork_def)
next
  case False
  obtain w' where w': "run_child E (int (w_forks w) + 2) (w_forks w) cmd
      (w\<lparr>w_forks := w_forks w + 1\<rparr>) = Inr w'" "started E cmd w (int (w_forks w) + 2) w'"
    using run_child_yields [OF assms(1-3) refl] by blast
  show ?thesis
    using recycle_command_yields [OF assms(1) c] False w' T
    by (cases "recycle_command E cmd")
      (auto simp: command_execute_async_def phxargs_fork_def os_fork_def)
qed

end
