(* ===== verification/Process_Pool.thy ===== *)
theory Process_Pool
  imports Child_Correct "HOL-Library.Multiset"
begin

text \<open>
  Models \<^verbatim>\<open>src/process_pool.c\<close>: the table of running children, the exit status accumulated
  from them, the halt on a child that exits with 255, and the adjustment of the number of
  parallel processes by signals.
\<close>

section \<open>State\<close>

text \<open>
  The four static counters of the file are kept with the pool: the program has one pool.
  They are \<open>sig_atomic_t\<close>, a signed integer of 32 bits on Linux, kept as its value; every
  operation on them goes through \<open>sig_atomic\<close>, in which an overflow is undefined behaviour.
\<close>

record process_pool =
  pl_max_procs :: size_t
  pl_capacity :: size_t
  pl_child_max :: int
  pl_count :: size_t
  pl_status :: int
  pl_halt :: bool
  pl_pids :: "int block"
  pl_sigusr1_count :: int
  pl_sigusr2_count :: int
  pl_applied_sigusr1 :: int
  pl_applied_sigusr2 :: int

section \<open>Exit statuses\<close>

definition severity :: "int \<Rightarrow> int" where
  "severity phxargs_status =
     (if phxargs_status = PHXARGS_STATUS_NOT_FOUND then 6
      else if phxargs_status = PHXARGS_STATUS_NOT_EXECUTABLE then 5
      else if phxargs_status = PHXARGS_STATUS_SIGNALLED then 4
      else if phxargs_status = PHXARGS_STATUS_HALT then 3
      else if phxargs_status = PHXARGS_STATUS_CHILD_FAILED then 2
      else 0)"

definition accumulate_status :: "process_pool \<Rightarrow> int \<Rightarrow> process_pool" where
  "accumulate_status pool new_status =
     (if severity new_status > severity (pl_status pool) then pool\<lparr>pl_status := new_status\<rparr>
      else pool)"

text \<open>
  The status and the new value of \<open>halt\<close>. The code's unreachable end is a status that is
  neither an exit nor a signal, which a plain \<open>waitpid\<close> does not report.
\<close>

definition child_exit_status :: "wstatus \<Rightarrow> bool \<Rightarrow> int \<times> bool" where
  "child_exit_status raw_status halt = (case raw_status of
       Exited code \<Rightarrow>
         if code = 255 then (PHXARGS_STATUS_HALT, True)
         else if code = 0 \<or> code = 126 \<or> code = 127 then (code, halt)
         else (PHXARGS_STATUS_CHILD_FAILED, halt)
     | Signaled _ \<Rightarrow> (PHXARGS_STATUS_SIGNALLED, halt))"

section \<open>Reaping\<close>

text \<open>The loop that repeats \<open>waitpid\<close> while a signal interrupts it.\<close>

function wait_child :: "world \<Rightarrow> wait_result \<times> world" where
  "wait_child w = (case os_waitpid w of (r, w') \<Rightarrow>
     if r = Wait_EINTR then wait_child w' else (r, w'))"
  by pat_completeness auto
termination
  by (relation "measure (\<lambda>w. length (w_sched w))")
    (auto simp: os_waitpid_def collect_child_def take_child_def Let_def split: if_splits list.splits wait_event.splits
      prod.splits)

declare wait_child.simps [simp del]

function find_pid :: "process_pool \<Rightarrow> int \<Rightarrow> size_t \<Rightarrow> stop + size_t" where
  "find_pid pool pid i =
     (if i < pl_count pool then
        rbind (blk_load (pl_pids pool) (unat i)) (\<lambda>p.
        if p = pid then Inr i else find_pid pool pid (i + 1))
      else Inr i)"
  by pat_completeness auto
termination
  by (relation "measure (\<lambda>(pool, pid, i). unat (pl_count pool) - unat i)")
    (simp_all add: size_up_decreases)

declare find_pid.simps [simp del]

text \<open>With \<open>NDEBUG\<close> the assertion is absent and an unknown child is counted as a known one.\<close>

definition reap_one :: "platform \<Rightarrow> process_pool \<Rightarrow> world \<Rightarrow> (stop \<times> world) + process_pool \<times> world" where
  "reap_one E pool w = (case wait_child w of
       (Waited pid raw_status, w) \<Rightarrow>
         rbind (lift w (find_pid pool pid 0)) (\<lambda>i.
         rbind (lift w (if i < pl_count pool
             then rbind (blk_load (pl_pids pool) (unat (pl_count pool - 1))) (\<lambda>last.
                  blk_store (pl_pids pool) (unat i) last)
             else Inr (pl_pids pool))) (\<lambda>pids.
         if \<not> i < pl_count pool \<and> \<not> pf_ndebug E then Inl (Abort, w)
         else
           let pool = pool\<lparr>pl_pids := pids, pl_count := pl_count pool - 1\<rparr>;
               (status, halt) = child_exit_status raw_status (pl_halt pool)
           in Inr (accumulate_status (pool\<lparr>pl_halt := halt\<rparr>) status, w)))
     | (_, w) \<Rightarrow> Inl (Exit EXIT_FAILURE Perror_waitpid, w))"

lemma accumulate_status_fields [simp]:
  "pl_max_procs (accumulate_status pool s) = pl_max_procs pool"
  "pl_capacity (accumulate_status pool s) = pl_capacity pool"
  "pl_child_max (accumulate_status pool s) = pl_child_max pool"
  "pl_count (accumulate_status pool s) = pl_count pool"
  "pl_halt (accumulate_status pool s) = pl_halt pool"
  "pl_pids (accumulate_status pool s) = pl_pids pool"
  "pl_sigusr1_count (accumulate_status pool s) = pl_sigusr1_count pool"
  "pl_sigusr2_count (accumulate_status pool s) = pl_sigusr2_count pool"
  "pl_applied_sigusr1 (accumulate_status pool s) = pl_applied_sigusr1 pool"
  "pl_applied_sigusr2 (accumulate_status pool s) = pl_applied_sigusr2 pool"
  by (simp_all add: accumulate_status_def)

lemma reap_one_count:
  "reap_one E pool w = Inr (pool', w') \<Longrightarrow>
     pl_count pool' = pl_count pool - 1 \<and> pl_max_procs pool' = pl_max_procs pool"
  by (auto simp: reap_one_def rbind_Inr_iff Let_def split: wait_result.splits prod.splits if_splits)

lemma size_down_decreases: "n \<noteq> 0 \<Longrightarrow> unat (n - 1 :: size_t) < unat n"
  by (simp add: unat_minus_one unat_gt_0)

text \<open>The two loops that reap: until there is room, and until no child is left.\<close>

function reap_while_full ::
    "platform \<Rightarrow> process_pool \<Rightarrow> world \<Rightarrow> (stop \<times> world) + process_pool \<times> world" where
  "reap_while_full E pool w =
     (if pl_max_procs pool \<noteq> 0 \<and> pl_count pool \<ge> pl_max_procs pool
      then rbind (reap_one E pool w) (\<lambda>(pool, w). reap_while_full E pool w)
      else Inr (pool, w))"
  by pat_completeness auto
termination
  by (relation "measure (\<lambda>(E, pool, w). unat (pl_count pool))")
    (auto dest!: reap_one_count intro!: size_down_decreases)

function reap_all ::
    "platform \<Rightarrow> process_pool \<Rightarrow> world \<Rightarrow> (stop \<times> world) + process_pool \<times> world" where
  "reap_all E pool w =
     (if pl_count pool > 0
      then rbind (reap_one E pool w) (\<lambda>(pool, w). reap_all E pool w)
      else Inr (pool, w))"
  by pat_completeness auto
termination
  by (relation "measure (\<lambda>(E, pool, w). unat (pl_count pool))")
    (auto dest!: reap_one_count intro!: size_down_decreases)

declare reap_while_full.simps [simp del] reap_all.simps [simp del]

section \<open>Signals\<close>

text \<open>The results of arithmetic in \<open>sig_atomic_t\<close> and in \<open>long\<close>.\<close>

definition SIG_ATOMIC_MAX :: int where "SIG_ATOMIC_MAX = 2 ^ 31 - 1"

definition sig_atomic :: "int \<Rightarrow> stop + int" where
  "sig_atomic x = (if - SIG_ATOMIC_MAX - 1 \<le> x \<and> x \<le> SIG_ATOMIC_MAX then Inr x else Inl Undefined)"

definition signed_long :: "int \<Rightarrow> stop + int" where
  "signed_long x = (if LONG_MIN \<le> x \<and> x \<le> LONG_MAX then Inr x else Inl Undefined)"

text \<open>
  The handlers run before the counters are read, or between the first reads and the
  copies into the applied counters. \<open>sizeof(pid_t)\<close> is 4.
\<close>

definition on_sigusr1 :: "process_pool \<Rightarrow> stop + process_pool" where
  "on_sigusr1 pool = rbind (sig_atomic (pl_sigusr1_count pool + 1)) (\<lambda>n. Inr (pool\<lparr>pl_sigusr1_count := n\<rparr>))"

definition on_sigusr2 :: "process_pool \<Rightarrow> stop + process_pool" where
  "on_sigusr2 pool = rbind (sig_atomic (pl_sigusr2_count pool + 1)) (\<lambda>n. Inr (pool\<lparr>pl_sigusr2_count := n\<rparr>))"

text \<open>The delivery of \<open>k\<close> equal signals under a disposition; the default action ends the process.\<close>

primrec repeated :: "nat \<Rightarrow> ('a \<Rightarrow> stop + 'a) \<Rightarrow> 'a \<Rightarrow> stop + 'a" where
  "repeated 0 f x = Inr x"
| "repeated (Suc k) f x = rbind (f x) (repeated k f)"

definition deliver :: "handler \<Rightarrow> int \<Rightarrow> nat \<Rightarrow> process_pool \<Rightarrow> stop + process_pool" where
  "deliver h sig k pool = (case h of
       SIG_DFL \<Rightarrow> if k = 0 then Inr pool else Inl (Terminated sig)
     | SIG_IGN \<Rightarrow> Inr pool
     | On_sigusr1 \<Rightarrow> repeated k on_sigusr1 pool
     | On_sigusr2 \<Rightarrow> repeated k on_sigusr2 pool)"

text \<open>On Linux \<open>SIGUSR1\<close> is 10 and \<open>SIGUSR2\<close> is 12.\<close>

definition deliver_signals :: "world \<Rightarrow> nat \<times> nat \<Rightarrow> process_pool \<Rightarrow> (stop \<times> world) + process_pool" where
  "deliver_signals w k pool = lift w (rbind (deliver (w_handlers w SIGUSR1) 10 (fst k) pool)
     (deliver (w_handlers w SIGUSR2) 12 (snd k)))"

text \<open>
  \<open>signal(SIGCHLD, SIG_DFL)\<close> undoes an inherited \<open>SIG_IGN\<close>, under which the program could not
  wait for its children.
\<close>

definition process_pool_install_signal_handlers :: "world \<Rightarrow> world" where
  "process_pool_install_signal_handlers w =
     os_sigaction SIGUSR2 On_sigusr2 (os_sigaction SIGUSR1 On_sigusr1 (os_sigaction SIGCHLD SIG_DFL w))"

definition apply_signal_adjustments ::
    "platform \<Rightarrow> process_pool \<Rightarrow> world \<Rightarrow> (stop \<times> world) + process_pool \<times> world" where
  "apply_signal_adjustments E pool w = (case next_signals w of ((before, between), w) \<Rightarrow>
     rbind (deliver_signals w before pool) (\<lambda>pool.
     rbind (lift w (sig_atomic (pl_sigusr1_count pool - pl_applied_sigusr1 pool))) (\<lambda>u1.
     rbind (lift w (sig_atomic (pl_sigusr2_count pool - pl_applied_sigusr2 pool))) (\<lambda>u2.
     rbind (deliver_signals w between pool) (\<lambda>pool.
     if u1 = 0 \<and> u2 = 0 then Inr (pool, w)
     else
       let pool = pool\<lparr>pl_applied_sigusr1 := pl_sigusr1_count pool,
             pl_applied_sigusr2 := pl_sigusr2_count pool\<rparr>
       in if pl_max_procs pool = 0 then Inr (pool, w)
          else
            rbind (lift w (signed_long (sint (pl_max_procs pool) + u1))) (\<lambda>raised.
            rbind (lift w (signed_long (raised - u2))) (\<lambda>new_max.
            let new_max = (if new_max < 1 then 1 else new_max);
                new_max = (if pl_child_max pool > 0 \<and> new_max > pl_child_max pool
                           then pl_child_max pool else new_max)
            in rbind (if word_of_int new_max > pl_capacity pool
                 then rbind (lift w (phxargs_realloc E 4 (pl_pids pool) (word_of_int new_max * 4)))
                   (\<lambda>pids. Inr (pool\<lparr>pl_pids := pids, pl_capacity := word_of_int new_max\<rparr>))
                 else Inr pool) (\<lambda>pool.
               Inr (pool\<lparr>pl_max_procs := word_of_int new_max\<rparr>, w)))))))))"

section \<open>The interface\<close>

text \<open>\<open>sizeof(process_pool)\<close> is 48.\<close>

definition process_pool_create :: "platform \<Rightarrow> size_t \<Rightarrow> stop + process_pool" where
  "process_pool_create E max_procs =
     rbind (phxargs_malloc E 48 :: stop + byte block) (\<lambda>_.
     let capacity = (if max_procs = 0 then 16 else max_procs) in
     rbind (phxargs_sysconf E SC_CHILD_MAX) (\<lambda>child_max.
     rbind (phxargs_calloc E 0 capacity 4) (\<lambda>pids.
     Inr \<lparr>pl_max_procs = max_procs, pl_capacity = capacity, pl_child_max = child_max,
       pl_count = 0, pl_status = 0, pl_halt = False, pl_pids = pids, pl_sigusr1_count = 0,
       pl_sigusr2_count = 0, pl_applied_sigusr1 = 0, pl_applied_sigusr2 = 0\<rparr>)))"

definition process_pool_halted :: "process_pool \<Rightarrow> bool" where
  "process_pool_halted pool = pl_halt pool"

definition process_pool_wait_if_full ::
    "platform \<Rightarrow> process_pool \<Rightarrow> world \<Rightarrow> (stop \<times> world) + process_pool \<times> world" where
  "process_pool_wait_if_full E pool w =
     rbind (apply_signal_adjustments E pool w) (\<lambda>(pool, w). reap_while_full E pool w)"

definition process_pool_submit :: "platform \<Rightarrow> process_pool \<Rightarrow> int \<Rightarrow> stop + process_pool" where
  "process_pool_submit E pool pid =
     rbind (if pl_count pool = pl_capacity pool
         then rbind (phxargs_double_capacity (pl_capacity pool)) (\<lambda>capacity.
              rbind (phxargs_realloc E 4 (pl_pids pool) (capacity * 4)) (\<lambda>pids.
              Inr (pool\<lparr>pl_capacity := capacity, pl_pids := pids\<rparr>)))
         else Inr pool) (\<lambda>pool.
     rbind (blk_store (pl_pids pool) (unat (pl_count pool)) pid) (\<lambda>pids.
     Inr (pool\<lparr>pl_pids := pids, pl_count := pl_count pool + 1\<rparr>)))"

definition process_pool_drain ::
    "platform \<Rightarrow> process_pool \<Rightarrow> world \<Rightarrow> (stop \<times> world) + int \<times> process_pool \<times> world" where
  "process_pool_drain E pool w =
     rbind (reap_all E pool w) (\<lambda>(pool, w). Inr (pl_status pool, pool, w))"

end
