(* ===== verification/Pool_Correct.thy ===== *)
theory Pool_Correct
  imports Process_Pool
begin

text \<open>
  Correctness of \<^verbatim>\<open>src/process_pool.c\<close>: the table holds exactly the unreaped children, the
  status is the most severe outcome of the reaped ones, a halt is a reaped child that
  exited with 255, and draining reaps every child.
\<close>

section \<open>Outcomes, ordered by severity\<close>

datatype outcome = Success | Child_failed | Halted | Killed | Not_executable | Not_found

fun rank :: "outcome \<Rightarrow> nat" where
  "rank Success = 0"
| "rank Child_failed = 1"
| "rank Halted = 2"
| "rank Killed = 3"
| "rank Not_executable = 4"
| "rank Not_found = 5"

lemma rank_inject: "rank a = rank b \<Longrightarrow> a = b"
  by (cases a; cases b) simp_all

instantiation outcome :: linorder
begin

definition less_eq_outcome :: "outcome \<Rightarrow> outcome \<Rightarrow> bool" where
  "less_eq_outcome a b = (rank a \<le> rank b)"

definition less_outcome :: "outcome \<Rightarrow> outcome \<Rightarrow> bool" where
  "less_outcome a b = (rank a < rank b)"

instance
  by intro_classes (auto simp: less_eq_outcome_def less_outcome_def intro: rank_inject)

end

fun exit_code :: "outcome \<Rightarrow> int" where
  "exit_code Success = 0"
| "exit_code Child_failed = 123"
| "exit_code Halted = 124"
| "exit_code Killed = 125"
| "exit_code Not_executable = 126"
| "exit_code Not_found = 127"

definition classify :: "wstatus \<Rightarrow> outcome" where
  "classify st = (case st of
     Signaled _ \<Rightarrow> Killed
   | Exited n \<Rightarrow> if n = 0 then Success else if n = 126 then Not_executable
       else if n = 127 then Not_found else if n = 255 then Halted else Child_failed)"

definition halting :: "wstatus \<Rightarrow> bool" where
  "halting st \<longleftrightarrow> st = Exited 255"

text \<open>The most severe outcome of a list of statuses.\<close>

definition worst :: "wstatus list \<Rightarrow> outcome" where
  "worst sts = foldl (\<lambda>a st. max a (classify st)) Success sts"

lemma worst_simps [simp]: "worst [] = Success" "worst (sts @ [st]) = max (worst sts) (classify st)"
  by (simp_all add: worst_def)

lemma worst_Max: "worst sts = Max (insert Success (classify ` set sts))"
proof (induction sts rule: rev_induct)
  case (snoc st sts)
  have "Max (insert Success (classify ` set (sts @ [st])))
      = Max (insert (classify st) (insert Success (classify ` set sts)))"
    by (simp add: insert_commute)
  also have "\<dots> = max (classify st) (Max (insert Success (classify ` set sts)))"
    by (rule Max_insert) simp_all
  finally show ?case using snoc by (simp add: max.commute)
qed simp

lemma severity_exit_code: "severity (exit_code a) < severity (exit_code b) \<longleftrightarrow> a < b"
  by (cases a; cases b) (simp_all add: severity_def exit_codes less_outcome_def)

lemma child_exit_status_eq:
  "child_exit_status st h = (exit_code (classify st), h \<or> halting st)"
  by (cases st) (simp_all add: child_exit_status_def classify_def halting_def exit_codes)

lemma accumulate_status_max:
  "pl_status pool = exit_code a \<Longrightarrow>
   accumulate_status pool (exit_code b) = pool\<lparr>pl_status := exit_code (max a b)\<rparr>"
  by (cases pool) (auto simp: accumulate_status_def severity_exit_code max_def)

section \<open>Invariants\<close>

definition pool_pids :: "process_pool \<Rightarrow> int list" where
  "pool_pids pool = map the (take (unat (pl_count pool)) (pl_pids pool))"

definition pool_invar :: "process_pool \<Rightarrow> bool" where
  "pool_invar pool \<longleftrightarrow> length (pl_pids pool) = unat (pl_capacity pool)
     \<and> unat (pl_capacity pool) < 2 ^ 62 \<and> unat (pl_count pool) \<le> unat (pl_capacity pool)
     \<and> take (unat (pl_count pool)) (pl_pids pool) = map Some (pool_pids pool)"

text \<open>The pool against the host: the table, the accumulated status, the halt.\<close>

definition handled :: "world \<Rightarrow> bool" where
  "handled w \<longleftrightarrow> w_handlers w SIGCHLD = SIG_DFL \<and> w_handlers w SIGUSR1 = On_sigusr1
     \<and> w_handlers w SIGUSR2 = On_sigusr2"

definition pool_world :: "process_pool \<Rightarrow> world \<Rightarrow> bool" where
  "pool_world pool w \<longleftrightarrow> mset (pool_pids pool) = image_mset fst (mset (w_children w))
     \<and> distinct (pool_pids pool) \<and> (\<forall>pid \<in> set (pool_pids pool). pid < int (w_forks w) + 2)
     \<and> pl_status pool = exit_code (worst (map snd (reaped (w_log w))))
     \<and> pl_halt pool = (\<exists>st \<in> snd ` set (reaped (w_log w)). halting st)
     \<and> mset (forked (w_log w)) = mset (reaped (w_log w)) + mset (w_children w) \<and> handled w"

lemma length_pool_pids: "pool_invar pool \<Longrightarrow> length (pool_pids pool) = unat (pl_count pool)"
  by (simp add: pool_invar_def pool_pids_def)

text \<open>What reaping leaves alone.\<close>

definition reap_effect :: "world \<Rightarrow> world \<Rightarrow> bool" where
  "reap_effect w w' \<longleftrightarrow> w_exec w' = w_exec w \<and> w_fork_fails w' = w_fork_fails w
     \<and> w_forks w' = w_forks w \<and> w_signals w' = w_signals w \<and> w_tty w' = w_tty w
     \<and> w_handlers w' = w_handlers w
     \<and> spawned (w_log w') = spawned (w_log w) \<and> forked (w_log w') = forked (w_log w)
     \<and> execs (w_log w') = execs (w_log w) \<and> traced (w_log w') = traced (w_log w)
     \<and> prefix (reaped (w_log w)) (reaped (w_log w'))"

lemma reap_effect_refl [simp]: "reap_effect w w"
  by (simp add: reap_effect_def)

lemma reap_effect_trans: "reap_effect a b \<Longrightarrow> reap_effect b c \<Longrightarrow> reap_effect a c"
  by (auto simp: reap_effect_def intro: prefix_order.trans)

section \<open>Waiting\<close>

text \<open>While there are children, the wait returns one of them, whatever the host's schedule.\<close>

definition waits :: "world \<Rightarrow> wait_result \<times> world \<Rightarrow> bool" where
  "waits w m \<longleftrightarrow> (\<exists>us pid st vs w'. m = (Waited pid st, w')
     \<and> w_children w = us @ (pid, st) # vs \<and> w_children w' = us @ vs
     \<and> reaped (w_log w') = reaped (w_log w) @ [(pid, st)] \<and> reap_effect w w')"

lemma waits_sched [simp]: "waits (w\<lparr>w_sched := s\<rparr>) m = waits w m"
  by (simp add: waits_def reap_effect_def)

lemma take_child_waits:
  assumes "w_children w \<noteq> []"
  shows "waits w (take_child k w)"
proof -
  let ?cs = "w_children w" and ?i = "k mod length (w_children w)"
  have i: "?i < length ?cs" using assms by simp
  obtain pid st where c: "?cs ! ?i = (pid, st)" by fastforce
  have "?cs = take ?i ?cs @ (pid, st) # drop (Suc ?i) ?cs"
    using id_take_nth_drop [OF i] c by simp
  then show ?thesis
    unfolding waits_def using c
    by (intro exI [of _ "take ?i ?cs"] exI [of _ pid] exI [of _ st]
        exI [of _ "drop (Suc ?i) ?cs"]) (auto simp: take_child_def Let_def reap_effect_def)
qed

lemma handled_simps [simp]:
  "handled (w\<lparr>w_sched := s\<rparr>) = handled w"
  "handled w \<Longrightarrow> collect_child k w = take_child k w"
  by (simp_all add: handled_def collect_child_def)

lemma wait_child_waits:
  assumes "w_children w \<noteq> []" and "handled w"
  shows "waits w (wait_child w)"
  using assms
proof (induction w rule: wait_child.induct)
  case (1 w)
  show ?case
  proof (cases "\<exists>s. w_sched w = Interrupted # s")
    case True
    then obtain s where step: "os_waitpid w = (Wait_EINTR, w\<lparr>w_sched := s\<rparr>)"
      using "1.prems" by (auto simp: os_waitpid_def)
    show ?thesis
      using "1.IH" [OF step [symmetric] refl] "1.prems" by (simp add: wait_child.simps [of w] step)
  next
    case False
    have "os_waitpid w = take_child 0 (w\<lparr>w_sched := w_sched w\<rparr>)" if "w_sched w = []"
      using "1.prems" that by (cases w) (simp add: os_waitpid_def)
    moreover have "os_waitpid w = take_child k (w\<lparr>w_sched := s\<rparr>)" if "w_sched w = Deliver k # s" for k s
      using "1.prems" that by (simp add: os_waitpid_def)
    ultimately have "\<exists>k s. os_waitpid w = take_child k (w\<lparr>w_sched := s\<rparr>)"
      using False by (cases "w_sched w"; cases "hd (w_sched w)") auto
    then obtain k s where k: "os_waitpid w = take_child k (w\<lparr>w_sched := s\<rparr>)" by blast
    have "waits w (take_child k (w\<lparr>w_sched := s\<rparr>))"
      using take_child_waits [of "w\<lparr>w_sched := s\<rparr>" k] "1.prems" by simp
    moreover from this have "wait_child w = take_child k (w\<lparr>w_sched := s\<rparr>)"
      by (auto simp: wait_child.simps [of w] k waits_def)
    ultimately show ?thesis by simp
  qed
qed

text \<open>Removing the pid that was found: the last entry takes its place.\<close>

lemma find_pid_eq:
  assumes "pool_invar pool" and "unat i \<le> length (pool_pids pool)"
    and "k < length (pool_pids pool)" and "pool_pids pool ! k = pid" and "unat i \<le> k"
    and "distinct (pool_pids pool)"
  shows "find_pid pool pid i = Inr (of_nat k)"
  using assms
proof (induction pool pid i rule: find_pid.induct)
  case (1 pool pid i)
  have n: "length (pool_pids pool) = unat (pl_count pool)"
    using "1.prems"(1) by (rule length_pool_pids)
  have i: "i < pl_count pool" using "1.prems" n by (simp add: size_less_unat)
  have "take (unat (pl_count pool)) (pl_pids pool) ! unat i = Some (pool_pids pool ! unat i)"
    using "1.prems" n by (simp add: pool_invar_def)
  then have ld: "blk_load (pl_pids pool) (unat i) = Inr (pool_pids pool ! unat i)"
    using "1.prems" n by (simp add: blk_load_def pool_invar_def)
  show ?case
  proof (cases "unat i = k")
    case True
    then have "i = of_nat k" by auto
    then show ?thesis
      using i ld "1.prems" True by (simp add: find_pid.simps [of pool pid "of_nat k"])
  next
    case False
    then have "pool_pids pool ! unat i \<noteq> pid"
      using "1.prems" by (metis le_less_trans less_imp_le nth_eq_iff_index_eq)
    then show ?thesis
      using "1.IH" [OF i ld] "1.prems" i ld False
      by (simp add: find_pid.simps [of pool pid i] size_up_Suc)
  qed
qed

lemma mset_swap_out:
  assumes "k < length xs"
  shows "mset (butlast (xs[k := last xs])) = mset xs - {#xs ! k#}"
proof (cases xs rule: rev_cases)
  case (snoc ys y)
  then show ?thesis
    using assms by (cases "k = length ys")
      (auto simp: list_update_append nth_append mset_update butlast_append)
qed (use assms in simp)

lemma distinct_swap_out:
  assumes "k < length xs" and "distinct xs"
  shows "distinct (butlast (xs[k := last xs]))"
proof (cases xs rule: rev_cases)
  case (snoc ys y)
  then show ?thesis
    using assms by (cases "k = length ys")
      (auto simp: list_update_append butlast_append distinct_list_update)
qed (use assms in simp)

section \<open>Reaping one child\<close>

text \<open>The fields that only signals change.\<close>

definition pool_frame :: "process_pool \<Rightarrow> process_pool \<Rightarrow> bool" where
  "pool_frame p q \<longleftrightarrow> pl_max_procs q = pl_max_procs p \<and> pl_capacity q = pl_capacity p
     \<and> pl_child_max q = pl_child_max p
     \<and> pl_sigusr1_count q = pl_sigusr1_count p \<and> pl_sigusr2_count q = pl_sigusr2_count p
     \<and> pl_applied_sigusr1 q = pl_applied_sigusr1 p \<and> pl_applied_sigusr2 q = pl_applied_sigusr2 p"

lemma pool_frame_refl [simp]: "pool_frame p p"
  by (simp add: pool_frame_def)

lemma pool_frame_trans: "pool_frame p q \<Longrightarrow> pool_frame q r \<Longrightarrow> pool_frame p r"
  by (simp add: pool_frame_def)

definition reaps :: "process_pool \<Rightarrow> world \<Rightarrow> process_pool \<times> world \<Rightarrow> bool" where
  "reaps pool w = (\<lambda>(pool', w'). pool_invar pool' \<and> pool_world pool' w' \<and> reap_effect w w'
     \<and> pool_frame pool pool')"

lemma pool_world_children:
  "pool_invar pool \<Longrightarrow> pool_world pool w \<Longrightarrow> length (w_children w) = unat (pl_count pool)"
  by (metis length_pool_pids pool_world_def size_image_mset size_mset)

lemma remove_pid_invar:
  assumes inv: "pool_invar pool" and k: "k < length (pool_pids pool)" and n: "pl_count pool \<noteq> 0"
    and new: "pl_pids pool' = (pl_pids pool)[k := Some (last (pool_pids pool))]"
      "pl_count pool' = pl_count pool - 1" "pl_capacity pool' = pl_capacity pool"
  shows "pool_invar pool' \<and> pool_pids pool' = butlast ((pool_pids pool)[k := last (pool_pids pool)])"
proof -
  let ?xs = "pool_pids pool" and ?n = "unat (pl_count pool)"
  have n1: "unat (pl_count pool - 1) = ?n - 1" using n by (simp add: unat_minus_one)
  have len: "length ?xs = ?n" using inv by (rule length_pool_pids)
  have "take ?n ((pl_pids pool)[k := Some (last ?xs)]) = map Some (?xs[k := last ?xs])"
    using inv by (simp add: take_update_swap pool_invar_def map_update)
  then have "take (?n - 1) (take ?n ((pl_pids pool)[k := Some (last ?xs)]))
      = map Some (take (?n - 1) (?xs[k := last ?xs]))" by (simp add: take_map)
  then have t: "take (?n - 1) ((pl_pids pool)[k := Some (last ?xs)])
      = map Some (butlast (?xs[k := last ?xs]))"
    by (simp add: min_def butlast_conv_take len)
  then have "pool_pids pool' = butlast (?xs[k := last ?xs])"
    by (simp add: pool_pids_def new n1)
  with t inv show ?thesis
    by (auto simp: pool_invar_def new n1)
qed

lemma reap_one_reaps:
  assumes inv: "pool_invar pool" and wld: "pool_world pool w" and n: "pl_count pool \<noteq> 0"
  shows "yields {} (reap_one E pool w) (reaps pool w)"
proof -
  have cnt: "length (w_children w) = unat (pl_count pool)"
    using inv wld by (rule pool_world_children)
  then have "w_children w \<noteq> []" using n by (auto simp: unat_eq_0)
  then obtain us pid st vs w' where w': "wait_child w = (Waited pid st, w')"
    "w_children w = us @ (pid, st) # vs" "w_children w' = us @ vs"
    "reaped (w_log w') = reaped (w_log w) @ [(pid, st)]" "reap_effect w w'"
    using wait_child_waits [of w] wld [unfolded pool_world_def] by (auto simp: waits_def)
  let ?xs = "pool_pids pool"
  have ms: "mset ?xs = image_mset fst (mset (w_children w))" and di: "distinct ?xs"
    using wld by (auto simp: pool_world_def)
  have "pid \<in># mset ?xs" unfolding ms by (simp add: w'(2))
  then obtain k where k: "k < length ?xs" "?xs ! k = pid" by (auto simp: in_set_conv_nth)
  have len: "length ?xs = unat (pl_count pool)" using inv by (rule length_pool_pids)
  have n1: "unat (pl_count pool - 1) = unat (pl_count pool) - 1"
    using n by (simp add: unat_minus_one)
  have f: "find_pid pool pid 0 = Inr (of_nat k)"
    using inv k di by (intro find_pid_eq) auto
  have k2: "k < 2 ^ 64" using k len size_t_bound [of "pl_count pool"] by simp
  then have uk: "unat (of_nat k :: size_t) = k" by (rule unat_of_nat_size)
  then have lt: "of_nat k < pl_count pool" using k len by (simp add: size_less_unat)
  have lt2: "unat (pl_count pool) - 1 < unat (pl_count pool)" using k len by simp
  have "take (unat (pl_count pool)) (pl_pids pool) ! (unat (pl_count pool) - 1)
      = Some (?xs ! (unat (pl_count pool) - 1))"
    using inv len lt2 by (simp add: pool_invar_def)
  moreover have "last ?xs = ?xs ! (unat (pl_count pool) - 1)"
    using k len by (subst last_conv_nth) auto
  ultimately have ld: "blk_load (pl_pids pool) (unat (pl_count pool - 1)) = Inr (last ?xs)"
    using inv k len lt2 by (auto simp: blk_load_def n1 pool_invar_def)
  have st: "blk_store (pl_pids pool) k (last ?xs) = Inr ((pl_pids pool)[k := Some (last ?xs)])"
    using inv k len by (simp add: blk_store_def pool_invar_def)
  define pool' where "pool' = pool\<lparr>pl_pids := (pl_pids pool)[k := Some (last ?xs)],
    pl_count := pl_count pool - 1, pl_halt := pl_halt pool \<or> halting st,
    pl_status := exit_code (max (worst (map snd (reaped (w_log w)))) (classify st))\<rparr>"
  have r: "reap_one E pool w = Inr (pool', w')"
    using wld
    by (simp add: reap_one_def w'(1) f uk ld st lt child_exit_status_eq pool_world_def pool'_def
        accumulate_status_max [where a = "worst (map snd (reaped (w_log w)))"])
  have p: "pool_invar pool'" "pool_pids pool' = butlast (?xs[k := last ?xs])"
    using remove_pid_invar [OF inv k(1) n, of pool'] by (simp_all add: pool'_def)
  have "mset (pool_pids pool') = image_mset fst (mset (w_children w'))"
    unfolding p(2) mset_swap_out [OF k(1)] ms k(2) by (simp add: w'(2,3))
  moreover have "set (pool_pids pool') \<subseteq> set ?xs"
    using mset_swap_out [OF k(1)] unfolding p(2) by (metis in_diffD set_mset_mset subsetI)
  ultimately have "pool_world pool' w'"
    using wld p(2) distinct_swap_out [OF k(1) di] w'
    by (auto simp: pool_world_def pool'_def reap_effect_def subset_iff handled_def)
  then show ?thesis
    using r p(1) w'(5) by (simp add: reaps_def pool_frame_def pool'_def)
qed

section \<open>The reaping loops\<close>

lemma reaps_refl: "pool_invar pool \<Longrightarrow> pool_world pool w \<Longrightarrow> reaps pool w (pool, w)"
  by (simp add: reaps_def)

lemma reaps_trans: "reaps p w (q, v) \<Longrightarrow> reaps q v r \<Longrightarrow> reaps p w r"
  by (auto simp: reaps_def intro: reap_effect_trans pool_frame_trans)

lemma reap_while_full_yields:
  "pool_invar pool \<Longrightarrow> pool_world pool w \<Longrightarrow>
   yields {} (reap_while_full E pool w) (\<lambda>(p, v). reaps pool w (p, v)
     \<and> (pl_max_procs p = 0 \<or> pl_count p < pl_max_procs p))"
proof (induction E pool w rule: reap_while_full.induct)
  case (1 E pool w)
  show ?case
  proof (cases "pl_max_procs pool \<noteq> 0 \<and> pl_count pool \<ge> pl_max_procs pool")
    case False
    then show ?thesis
      using "1.prems" by (auto simp: reap_while_full.simps [of E pool w] reaps_refl)
  next
    case True
    then have n: "pl_count pool \<noteq> 0" by auto
    obtain q v where q: "reap_one E pool w = Inr (q, v)" "reaps pool w (q, v)"
      using reap_one_reaps [OF "1.prems" n, of E] by (auto simp: yields_empty)
    have inv: "pool_invar q" "pool_world q v" using q(2) by (simp_all add: reaps_def)
    show ?thesis
      using "1.IH" [OF True q(1) refl inv] True q
      by (auto simp: reap_while_full.simps [of E pool w] elim!: yields_conseq intro: reaps_trans)
  qed
qed

lemma reap_all_yields:
  "pool_invar pool \<Longrightarrow> pool_world pool w \<Longrightarrow>
   yields {} (reap_all E pool w) (\<lambda>(p, v). reaps pool w (p, v) \<and> w_children v = []
     \<and> pl_count p = 0)"
proof (induction E pool w rule: reap_all.induct)
  case (1 E pool w)
  show ?case
  proof (cases "pl_count pool > 0")
    case False
    then show ?thesis
      using "1.prems" pool_world_children [OF "1.prems"]
      by (simp add: reap_all.simps [of E pool w] reaps_refl word_gt_0)
  next
    case True
    then have n: "pl_count pool \<noteq> 0" by auto
    obtain q v where q: "reap_one E pool w = Inr (q, v)" "reaps pool w (q, v)"
      using reap_one_reaps [OF "1.prems" n, of E] by (auto simp: yields_empty)
    have inv: "pool_invar q" "pool_world q v" using q(2) by (simp_all add: reaps_def)
    show ?thesis
      using "1.IH" [OF True q(1) refl inv] True q
      by (auto simp: reap_all.simps [of E pool w] elim!: yields_conseq intro: reaps_trans)
  qed
qed

section \<open>Draining\<close>

text \<open>All the children have been reaped once, and the status is the worst of all.\<close>

definition drained :: "process_pool \<Rightarrow> world \<Rightarrow> int \<Rightarrow> world \<Rightarrow> bool" where
  "drained pool w status w' \<longleftrightarrow> reap_effect w w' \<and> w_children w' = []
     \<and> mset (reaped (w_log w')) = mset (forked (w_log w))
     \<and> status = exit_code (worst (map snd (reaped (w_log w'))))"

lemma process_pool_drain_yields:
  assumes "pool_invar pool" and "pool_world pool w"
  shows "yields {} (process_pool_drain E pool w) (\<lambda>(status, pool', w').
    drained pool w status w' \<and> reaps pool w (pool', w') \<and> pl_count pool' = 0)"
proof -
  obtain p v where p: "reap_all E pool w = Inr (p, v)" "reaps pool w (p, v)" "w_children v = []"
      "pl_count p = 0"
    using reap_all_yields [OF assms, of E] by (auto simp: yields_empty)
  then have w: "pool_world p v" "reap_effect w v" by (simp_all add: reaps_def)
  have f: "forked (w_log v) = forked (w_log w)" using w(2) by (simp add: reap_effect_def)
  have m: "mset (forked (w_log v)) = mset (reaped (w_log v))"
    using w(1) p(3) by (simp add: pool_world_def)
  have "mset (reaped (w_log v)) = mset (forked (w_log w))" using m f by metis
  moreover have "reap_effect w v" "pl_status p = exit_code (worst (map snd (reaped (w_log v))))"
    using p(2) by (simp_all add: reaps_def pool_world_def)
  ultimately have "drained pool w (pl_status p) v" using p(3) by (simp add: drained_def)
  with p show ?thesis by (simp add: process_pool_drain_def)
qed

section \<open>Submitting\<close>

definition submitted :: "process_pool \<Rightarrow> int \<Rightarrow> process_pool \<Rightarrow> bool" where
  "submitted p pid q \<longleftrightarrow> pool_invar q \<and> pool_pids q = pool_pids p @ [pid]
    \<and> pl_max_procs q = pl_max_procs p \<and> pl_status q = pl_status p \<and> pl_halt q = pl_halt p
    \<and> pl_child_max q = pl_child_max p \<and> pl_sigusr1_count q = pl_sigusr1_count p
    \<and> pl_applied_sigusr1 q = pl_applied_sigusr1 p
    \<and> pl_sigusr2_count q = pl_sigusr2_count p \<and> pl_applied_sigusr2 q = pl_applied_sigusr2 p"

lemma submit_room:
  assumes "pool_invar p" and "unat (pl_count p) < unat (pl_capacity p)"
  shows "yields S (rbind (blk_store (pl_pids p) (unat (pl_count p)) pid) (\<lambda>pids.
      Inr (p\<lparr>pl_pids := pids, pl_count := pl_count p + 1\<rparr>))) (submitted p pid)"
proof -
  let ?n = "unat (pl_count p)"
  have n1: "unat (pl_count p + 1) = Suc ?n"
    using assms by (intro unat_Suc_size) (simp add: pool_invar_def)
  have t: "take (Suc ?n) ((pl_pids p)[?n := Some pid]) = map Some (pool_pids p @ [pid])"
    using assms by (intro take_eq_map_Some_snoc) (simp_all add: pool_invar_def)
  have "pool_pids (p\<lparr>pl_pids := (pl_pids p)[?n := Some pid], pl_count := pl_count p + 1\<rparr>)
      = pool_pids p @ [pid]"
    by (simp add: pool_pids_def n1 t del: map_append)
  then show ?thesis
    using assms t by (simp add: blk_store_def submitted_def pool_invar_def n1)
qed

lemma process_pool_submit_yields:
  assumes inv: "pool_invar p" and n: "length (pool_pids p) < 2 ^ 59"
    and c: "copes E S (length (pool_pids p))"
  shows "yields S (process_pool_submit E p pid) (submitted p pid)"
proof (cases "pl_count p = pl_capacity p")
  case False
  then have "unat (pl_count p) < unat (pl_capacity p)"
    using inv by (auto simp: pool_invar_def size_eq_unat)
  from submit_room [OF inv this, of S pid] False show ?thesis
    by (simp only: process_pool_submit_def if_False rbind_simps)
next
  case True
  have cnt: "unat (pl_capacity p) = length (pool_pids p)"
    using length_pool_pids [OF inv] by (simp add: True)
  have double: "yields S (phxargs_double_capacity (pl_capacity p)) (\<lambda>c.
      unat c = max 1 (2 * unat (pl_capacity p)) \<and> unat (pl_capacity p) < unat c
      \<and> unat c < unat SIZE_MAX)"
    using c by (intro yields_double_capacity) (simp add: cnt)
  have realloc: "yields S (phxargs_realloc E 4 (pl_pids p) (k * 4))
      (\<lambda>b. b = pl_pids p @ replicate (unat k - unat (pl_capacity p)) None)"
    if "unat k = max 1 (2 * unat (pl_capacity p))" for k
  proof -
    have "unat (k * 4) = unat k * 4"
      using that cnt n by (subst unat_mult_size) (simp_all add: max_def)
    then show ?thesis
      using yields_realloc [OF c, of "k * 4" "unat k" 4 "pl_pids p"] that inv
      by (simp add: pool_invar_def)
  qed
  have grown: "pool_invar (p\<lparr>pl_capacity := k, pl_pids := b\<rparr>)
      \<and> pool_pids (p\<lparr>pl_capacity := k, pl_pids := b\<rparr>) = pool_pids p"
    if "unat k = max 1 (2 * unat (pl_capacity p))" "unat (pl_capacity p) < unat k"
      "b = pl_pids p @ replicate (unat k - unat (pl_capacity p)) None" for k b
  proof -
    have t: "take (unat (pl_count p)) b = take (unat (pl_count p)) (pl_pids p)"
      using that inv by (simp add: pool_invar_def)
    then have "pool_pids (p\<lparr>pl_capacity := k, pl_pids := b\<rparr>) = pool_pids p"
      by (simp add: pool_pids_def)
    with t that inv cnt n show ?thesis by (simp add: pool_invar_def)
  qed
  show ?thesis
    unfolding process_pool_submit_def
  proof (rule yields_rbindI [where P = "\<lambda>q. \<exists>k b. q = p\<lparr>pl_capacity := k, pl_pids := b\<rparr>
      \<and> pool_invar q \<and> pool_pids q = pool_pids p \<and> unat (pl_count p) < unat k"], goal_cases)
    case 1
    show ?case
      unfolding if_P [OF True]
    proof (rule yields_rbindI [OF double])
      fix k :: size_t
      assume k: "unat k = max 1 (2 * unat (pl_capacity p)) \<and> unat (pl_capacity p) < unat k
        \<and> unat k < unat SIZE_MAX"
      then show "yields S (rbind (phxargs_realloc E 4 (pl_pids p) (k * 4)) (\<lambda>pids.
          Inr (p\<lparr>pl_capacity := k, pl_pids := pids\<rparr>))) (\<lambda>q.
          \<exists>k b. q = p\<lparr>pl_capacity := k, pl_pids := b\<rparr>
          \<and> pool_invar q \<and> pool_pids q = pool_pids p \<and> unat (pl_count p) < unat k)"
        unfolding yields_rbind
        by (intro yields_conseq [OF realloc]) (use grown True in auto)
    qed
  next
    case (2 q)
    then obtain k b where q: "q = p\<lparr>pl_capacity := k, pl_pids := b\<rparr>" "pool_invar q"
      "pool_pids q = pool_pids p" "unat (pl_count p) < unat k" by blast
    show ?case
      by (rule yields_conseq [OF submit_room [OF q(2)]]) (use q in \<open>auto simp: submitted_def\<close>)
  qed
qed

interpretation gp: growable pool_invar pool_pids "\<lambda>_. True" process_pool_submit
  by unfold_locales
    (rule yields_conseq [OF process_pool_submit_yields], simp_all add: submitted_def)

section \<open>Adjusting to signals\<close>

text \<open>The signals that are still to come.\<close>

definition usr1_total :: "((nat \<times> nat) \<times> nat \<times> nat) list \<Rightarrow> nat" where
  "usr1_total ss = sum_list (map (\<lambda>s. fst (fst s) + fst (snd s)) ss)"

definition usr2_total :: "((nat \<times> nat) \<times> nat \<times> nat) list \<Rightarrow> nat" where
  "usr2_total ss = sum_list (map (\<lambda>s. snd (fst s) + snd (snd s)) ss)"

text \<open>
  No counter can overflow, and the number of \<open>SIGUSR1\<close> that are pending or still to come
  bounds how far the limit can grow.
\<close>

definition pool_room :: "process_pool \<Rightarrow> world \<Rightarrow> bool" where
  "pool_room pool w \<longleftrightarrow> 0 \<le> pl_applied_sigusr1 pool \<and> pl_applied_sigusr1 pool \<le> pl_sigusr1_count pool
     \<and> pl_sigusr1_count pool + int (usr1_total (w_signals w)) \<le> SIG_ATOMIC_MAX
     \<and> 0 \<le> pl_applied_sigusr2 pool \<and> pl_applied_sigusr2 pool \<le> pl_sigusr2_count pool
     \<and> pl_sigusr2_count pool + int (usr2_total (w_signals w)) \<le> SIG_ATOMIC_MAX
     \<and> int (unat (pl_max_procs pool)) + (pl_sigusr1_count pool - pl_applied_sigusr1 pool)
       + int (usr1_total (w_signals w)) < 2 ^ 58"

lemma next_signals_total:
  assumes "next_signals w = ((a, b), v)"
  shows "usr1_total (w_signals w) = fst a + fst b + usr1_total (w_signals v)"
    and "usr2_total (w_signals w) = snd a + snd b + usr2_total (w_signals v)"
  using assms by (auto simp: next_signals_def usr1_total_def usr2_total_def split: list.splits)

lemma pool_room_small:
  assumes "pool_room pool w"
  shows "unat (pl_max_procs pool) < 2 ^ 58"
proof -
  have "int (unat (pl_max_procs pool)) < int (2 ^ 58)" using assms by (simp add: pool_room_def)
  then show ?thesis by (simp only: of_nat_less_iff)
qed

text \<open>The reference: the limit moves by the difference, kept between 1 and the host's limit.\<close>

definition adjusted :: "int \<Rightarrow> int \<Rightarrow> int \<Rightarrow> int \<Rightarrow> int" where
  "adjusted child_max m u1 u2 = (let n = max 1 (m + u1 - u2) in
     if child_max > 0 then min n child_max else n)"

lemma adjusted_bounds:
  assumes "1 \<le> m" and "0 \<le> u1" and "0 \<le> u2"
  shows "1 \<le> adjusted c m u1 u2" and "adjusted c m u1 u2 \<le> m + u1"
  using assms by (auto simp: adjusted_def Let_def)

definition same_children :: "process_pool \<Rightarrow> process_pool \<Rightarrow> bool" where
  "same_children p q \<longleftrightarrow> pool_pids q = pool_pids p \<and> pl_count q = pl_count p
     \<and> pl_status q = pl_status p \<and> pl_halt q = pl_halt p \<and> pl_child_max q = pl_child_max p"

lemma resize_pool:
  assumes "pool_invar p" and "unat n < 2 ^ 58" and "0 < unat n" and "copes E S 0"
  shows "yields (S \<times> UNIV) (rbind (if n > pl_capacity p
       then rbind (lift w (phxargs_realloc E 4 (pl_pids p) (n * 4)))
         (\<lambda>pids. Inr (p\<lparr>pl_pids := pids, pl_capacity := n\<rparr>))
       else Inr p) (\<lambda>p. Inr (p\<lparr>pl_max_procs := n\<rparr>, w)))
    (\<lambda>(q, v). v = w \<and> pool_invar q \<and> same_children p q \<and> pl_max_procs q = n
      \<and> pl_sigusr1_count q = pl_sigusr1_count p \<and> pl_applied_sigusr1 q = pl_applied_sigusr1 p
      \<and> pl_sigusr2_count q = pl_sigusr2_count p \<and> pl_applied_sigusr2 q = pl_applied_sigusr2 p)"
proof (cases "n > pl_capacity p")
  case False
  then show ?thesis
    using assms(1) by (simp add: pool_invar_def pool_pids_def same_children_def)
next
  case True
  then have lt: "unat (pl_capacity p) < unat n" by (simp add: size_less_unat)
  have "unat (n * 4) = unat n * 4" using assms(2) by (subst unat_mult_size) simp_all
  then have r: "yields S (phxargs_realloc E 4 (pl_pids p) (n * 4))
      (\<lambda>b. b = pl_pids p @ replicate (unat n - unat (pl_capacity p)) None)"
    using yields_realloc [OF assms(4), of "n * 4" "unat n" 4 "pl_pids p"] lt assms(1)
    by (simp add: pool_invar_def)
  let ?b = "pl_pids p @ replicate (unat n - unat (pl_capacity p)) None"
  let ?q = "p\<lparr>pl_pids := ?b, pl_capacity := n, pl_max_procs := n\<rparr>"
  have t: "take (unat (pl_count p)) ?b = take (unat (pl_count p)) (pl_pids p)"
    using assms(1) by (simp add: pool_invar_def)
  then have pids: "pool_pids ?q = pool_pids p" by (simp add: pool_pids_def)
  then have "pool_invar ?q"
    using t lt assms(1,2) by (simp add: pool_invar_def)
  with pids r True show ?thesis
    by (cases "phxargs_realloc E 4 (pl_pids p) (n * 4)") (simp_all add: same_children_def)
qed

text \<open>What the installed handlers add up to.\<close>

definition on_signals :: "nat \<times> nat \<Rightarrow> process_pool \<Rightarrow> process_pool" where
  "on_signals k pool = pool\<lparr>pl_sigusr1_count := pl_sigusr1_count pool + int (fst k),
     pl_sigusr2_count := pl_sigusr2_count pool + int (snd k)\<rparr>"

lemma on_sigusr_repeated:
  "0 \<le> pl_sigusr1_count pool \<Longrightarrow> pl_sigusr1_count pool + int k \<le> SIG_ATOMIC_MAX \<Longrightarrow>
     repeated k on_sigusr1 pool = Inr (on_signals (k, 0) pool)"
  "0 \<le> pl_sigusr2_count pool \<Longrightarrow> pl_sigusr2_count pool + int k \<le> SIG_ATOMIC_MAX \<Longrightarrow>
     repeated k on_sigusr2 pool = Inr (on_signals (0, k) pool)"
  by (induction k arbitrary: pool)
    (simp_all add: on_sigusr1_def on_sigusr2_def on_signals_def sig_atomic_def)

lemma deliver_signals_handled:
  assumes "handled w" and "0 \<le> pl_sigusr1_count pool" and "pl_sigusr1_count pool + int (fst k) \<le> SIG_ATOMIC_MAX"
    and "0 \<le> pl_sigusr2_count pool" and "pl_sigusr2_count pool + int (snd k) \<le> SIG_ATOMIC_MAX"
  shows "deliver_signals w k pool = Inr (on_signals k pool)"
proof -
  have "deliver_signals w k pool = lift w (rbind (repeated (fst k) on_sigusr1 pool) (repeated (snd k) on_sigusr2))"
    using assms(1) by (simp add: deliver_signals_def deliver_def [abs_def] handled_def)
  also have "\<dots> = Inr (on_signals (0, snd k) (on_signals (fst k, 0) pool))"
    using assms by (simp add: on_sigusr_repeated(1)) (subst on_sigusr_repeated(2), simp_all add: on_signals_def)
  finally show ?thesis by (simp add: on_signals_def)
qed

lemma on_signals_fields [simp]:
  "pl_sigusr1_count (on_signals k p) = pl_sigusr1_count p + int (fst k)"
  "pl_sigusr2_count (on_signals k p) = pl_sigusr2_count p + int (snd k)"
  "pl_applied_sigusr1 (on_signals k p) = pl_applied_sigusr1 p"
  "pl_applied_sigusr2 (on_signals k p) = pl_applied_sigusr2 p"
  "pl_max_procs (on_signals k p) = pl_max_procs p"
  "pl_child_max (on_signals k p) = pl_child_max p"
  "pool_invar (on_signals k p) = pool_invar p"
  "same_children p' (on_signals k p) = same_children p' p"
  by (simp_all add: on_signals_def pool_invar_def pool_pids_def same_children_def)

text \<open>The counters marked as applied, with whatever they hold at that moment.\<close>

definition mark_applied :: "process_pool \<Rightarrow> process_pool" where
  "mark_applied p = p\<lparr>pl_applied_sigusr1 := pl_sigusr1_count p,
     pl_applied_sigusr2 := pl_sigusr2_count p\<rparr>"

lemma mark_applied_fields [simp]:
  "pl_sigusr1_count (mark_applied p) = pl_sigusr1_count p"
  "pl_sigusr2_count (mark_applied p) = pl_sigusr2_count p"
  "pl_applied_sigusr1 (mark_applied p) = pl_sigusr1_count p"
  "pl_applied_sigusr2 (mark_applied p) = pl_sigusr2_count p"
  "pl_max_procs (mark_applied p) = pl_max_procs p"
  "pl_child_max (mark_applied p) = pl_child_max p"
  "pool_invar (mark_applied p) = pool_invar p"
  "same_children p' (mark_applied p) = same_children p' p"
  by (simp_all add: mark_applied_def pool_invar_def pool_pids_def same_children_def)

lemma same_children_refl [simp]: "same_children p p"
  by (simp add: same_children_def)

lemma same_children_trans: "same_children p q \<Longrightarrow> same_children q r \<Longrightarrow> same_children p r"
  by (simp add: same_children_def)

text \<open>The code as three cases, over the reference: in room, no arithmetic overflows.\<close>

lemma apply_signal_adjustments_cases:
  assumes s: "next_signals w = ((a, b), v)" and h: "handled w" and r: "pool_room pool w"
  defines "u1 \<equiv> pl_sigusr1_count pool + int (fst a) - pl_applied_sigusr1 pool"
    and "u2 \<equiv> pl_sigusr2_count pool + int (snd a) - pl_applied_sigusr2 pool"
    and "p \<equiv> on_signals b (on_signals a pool)"
  defines "N \<equiv> word_of_int (adjusted (pl_child_max pool) (int (unat (pl_max_procs pool))) u1 u2)"
  shows "apply_signal_adjustments E pool w =
    (if u1 = 0 \<and> u2 = 0 then Inr (p, v)
     else if pl_max_procs pool = 0 then Inr (mark_applied p, v)
     else rbind (if N > pl_capacity (mark_applied p)
        then rbind (lift v (phxargs_realloc E 4 (pl_pids (mark_applied p)) (N * 4)))
          (\<lambda>pids. Inr ((mark_applied p)\<lparr>pl_pids := pids, pl_capacity := N\<rparr>))
        else Inr (mark_applied p)) (\<lambda>p. Inr (p\<lparr>pl_max_procs := N\<rparr>, v)))"
proof -
  have v: "handled v"
    using s h by (auto simp: next_signals_def handled_def split: list.splits)
  note room = r [unfolded pool_room_def next_signals_total [OF s]]
  have m: "unat (pl_max_procs pool) < 2 ^ 58" by (rule pool_room_small [OF r])
  then have m63: "sint (pl_max_procs pool) = int (unat (pl_max_procs pool))" by (intro sint_size_small) simp
  have da: "deliver_signals v a pool = Inr (on_signals a pool)"
    and db: "deliver_signals v b (on_signals a pool) = Inr p"
    unfolding p_def using room by (intro deliver_signals_handled [OF v]; simp)+
  have u: "sig_atomic u1 = Inr u1" "sig_atomic u2 = Inr u2" "0 \<le> u1" "u1 \<le> SIG_ATOMIC_MAX" "0 \<le> u2" "u2 \<le> SIG_ATOMIC_MAX"
    using room by (simp_all add: u1_def u2_def sig_atomic_def)
  have range: "signed_long (M + u1) = Inr (M + u1) \<and> signed_long (M + u1 - u2) = Inr (M + u1 - u2)"
    if "0 \<le> M" "M < 2 ^ 58" for M
    using that u(3-6) by (simp add: signed_long_def LONG_MIN_def LONG_MAX_def SIG_ATOMIC_MAX_def)
  have "int (unat (pl_max_procs pool)) < int (2 ^ 58)" using m by (simp only: of_nat_less_iff)
  then have "uint (pl_max_procs pool) < 2 ^ 58" by simp
  note l = range [OF uint_ge_0 this]
  have "(let n = (if x < 1 then 1 else x) in if c > 0 \<and> n > c then c else n)
      = (let n = max 1 x in if c > 0 then min n c else n)" for x c :: int
    by (simp add: max_def min_def Let_def)
  moreover have "pl_sigusr1_count (on_signals a pool) - pl_applied_sigusr1 (on_signals a pool) = u1"
    "pl_sigusr2_count (on_signals a pool) - pl_applied_sigusr2 (on_signals a pool) = u2"
    by (simp_all add: u1_def u2_def)
  moreover have "pl_max_procs p = pl_max_procs pool" "pl_child_max p = pl_child_max pool" by (simp_all add: p_def)
  ultimately show ?thesis
    by (simp add: apply_signal_adjustments_def s da db u(1,2) l N_def mark_applied_def adjusted_def m63 Let_def)
qed

text \<open>
  One check of the counters changes nothing of the world but the pending signals, and the
  children stay; the limit stays within the bound, and unlimited if it was.
\<close>

lemma apply_signal_adjustments_yields:
  assumes inv: "pool_invar pool" and room: "pool_room pool w" and c: "copes E S 0" and h: "handled w"
  shows "yields (S \<times> UNIV) (apply_signal_adjustments E pool w) (\<lambda>(q, v).
    v = snd (next_signals w) \<and> pool_invar q \<and> same_children pool q \<and> pool_room q v
    \<and> (pl_max_procs q = 0 \<longleftrightarrow> pl_max_procs pool = 0))"
proof -
  obtain a b v where s: "next_signals w = ((a, b), v)"
    by (metis prod.collapse)
  note tot = next_signals_total [OF s]
  let ?u1 = "pl_sigusr1_count pool + int (fst a) - pl_applied_sigusr1 pool"
  let ?u2 = "pl_sigusr2_count pool + int (snd a) - pl_applied_sigusr2 pool"
  let ?p = "on_signals b (on_signals a pool)" and ?m = "int (unat (pl_max_procs pool))"
  define N where "N = adjusted (pl_child_max pool) ?m ?u1 ?u2"
  have m: "?m + ?u1 + int (fst b) + int (usr1_total (w_signals v)) < 2 ^ 58" "0 \<le> ?u1" "0 \<le> ?u2"
    using room tot by (simp_all add: pool_room_def)
  have counts: "pl_sigusr1_count ?p + int (usr1_total (w_signals v)) \<le> SIG_ATOMIC_MAX" "0 \<le> pl_sigusr1_count ?p"
    "pl_sigusr2_count ?p + int (usr2_total (w_signals v)) \<le> SIG_ATOMIC_MAX" "0 \<le> pl_sigusr2_count ?p"
    using room tot by (simp_all add: pool_room_def)
  note eq = apply_signal_adjustments_cases [OF s h room, folded N_def]
  show ?thesis
  proof (cases "?u1 = 0 \<and> ?u2 = 0 \<or> pl_max_procs pool = 0")
    case True
    then show ?thesis
      using m inv room tot by (auto simp: eq s pool_room_def)
  next
    case False
    then have "0 < unat (pl_max_procs pool)" by (simp add: unat_gt_0)
    then have "1 \<le> ?m" by linarith
    then have N: "1 \<le> N" "N \<le> ?m + ?u1"
      using adjusted_bounds m(2,3) by (simp_all add: N_def)
    have N58: "N < 2 ^ 58" using N(2) m(1) by linarith
    then have un: "unat (word_of_int N :: size_t) = nat N"
      using N by (intro unat_word_of_int_size) simp_all
    have "(word_of_int N :: size_t) \<noteq> 0"
      using un N(1) by (metis nat_0_iff not_one_le_zero order_trans unat_0 zero_le_one)
    have uN: "uint (word_of_int N :: size_t) = N"
      using un N(1) by (metis int_nat_eq not_one_le_zero linorder_not_le order_trans uint_nat
          zero_le_one)
    from False have nz: "\<not> (?u1 = 0 \<and> ?u2 = 0)" "pl_max_procs pool \<noteq> 0" by blast+
    have "yields (S \<times> UNIV) (apply_signal_adjustments E pool w) (\<lambda>(q, u). u = v
        \<and> pool_invar q \<and> same_children (mark_applied ?p) q \<and> pl_max_procs q = word_of_int N
        \<and> pl_sigusr1_count q = pl_sigusr1_count ?p \<and> pl_applied_sigusr1 q = pl_sigusr1_count ?p
        \<and> pl_sigusr2_count q = pl_sigusr2_count ?p \<and> pl_applied_sigusr2 q = pl_sigusr2_count ?p)"
      unfolding eq if_not_P [OF nz(1)] if_not_P [OF nz(2)]
      by (rule yields_conseq [OF resize_pool]) (use inv N(1) N58 un c in auto)
    then show ?thesis
    proof (rule yields_conseq, clarify)
      fix q
      assume q: "pool_invar q" "same_children (mark_applied ?p) q" "pl_max_procs q = word_of_int N"
        "pl_sigusr1_count q = pl_sigusr1_count ?p" "pl_applied_sigusr1 q = pl_sigusr1_count ?p"
        "pl_sigusr2_count q = pl_sigusr2_count ?p" "pl_applied_sigusr2 q = pl_sigusr2_count ?p"
      have "same_children pool q" by (rule same_children_trans [OF _ q(2)]) simp
      with q show "v = snd (next_signals w) \<and> pool_invar q \<and> same_children pool q
          \<and> pool_room q v
          \<and> (pl_max_procs q = 0 \<longleftrightarrow> pl_max_procs pool = 0)"
        using \<open>(word_of_int N :: size_t) \<noteq> 0\<close> nz(2) N(2) m(1) s counts
        by (simp add: pool_room_def uN)
    qed
  qed
qed

section \<open>Waiting for a free place\<close>

text \<open>Everything the pool relies on between two calls.\<close>

definition pool_ok :: "process_pool \<Rightarrow> world \<Rightarrow> bool" where
  "pool_ok pool w \<longleftrightarrow> pool_invar pool \<and> pool_world pool w \<and> pool_room pool w"

text \<open>What a wait changes in the world: children are reaped, signals are taken in.\<close>

definition wait_effect :: "world \<Rightarrow> world \<Rightarrow> bool" where
  "wait_effect w w' \<longleftrightarrow> w_exec w' = w_exec w \<and> w_fork_fails w' = w_fork_fails w
     \<and> w_forks w' = w_forks w \<and> w_tty w' = w_tty w \<and> w_handlers w' = w_handlers w
     \<and> spawned (w_log w') = spawned (w_log w) \<and> forked (w_log w') = forked (w_log w)
     \<and> execs (w_log w') = execs (w_log w) \<and> traced (w_log w') = traced (w_log w)
     \<and> prefix (reaped (w_log w)) (reaped (w_log w'))"

lemma wait_effect_refl [simp]: "wait_effect w w"
  by (simp add: wait_effect_def)

lemma wait_effect_trans: "wait_effect a b \<Longrightarrow> wait_effect b c \<Longrightarrow> wait_effect a c"
  by (auto simp: wait_effect_def intro: prefix_order.trans)

lemma reap_wait_effect: "reap_effect w w' \<Longrightarrow> wait_effect w w'"
  by (simp add: wait_effect_def reap_effect_def)

lemma next_signals_effect:
  "wait_effect w (snd (next_signals w))" "w_children (snd (next_signals w)) = w_children w"
  "w_log (snd (next_signals w)) = w_log w" "w_forks (snd (next_signals w)) = w_forks w"
  "handled (snd (next_signals w)) = handled w"
  by (simp_all add: next_signals_def wait_effect_def handled_def split: list.split)

lemma reaps_ok:
  "pool_ok p w \<Longrightarrow> reaps p w (q, v) \<Longrightarrow> pool_ok q v \<and> wait_effect w v"
  by (auto simp: pool_ok_def reaps_def pool_room_def pool_frame_def reap_effect_def wait_effect_def)

lemma process_pool_wait_if_full_yields:
  assumes ok: "pool_ok pool w" and c: "copes E S 0"
  shows "yields (S \<times> UNIV) (process_pool_wait_if_full E pool w) (\<lambda>(q, v).
    pool_ok q v \<and> wait_effect w v \<and> (pl_max_procs q = 0 \<longleftrightarrow> pl_max_procs pool = 0)
    \<and> (pl_max_procs q = 0 \<or> pl_count q < pl_max_procs q))"
  unfolding process_pool_wait_if_full_def
proof (rule yields_rbindI, rule apply_signal_adjustments_yields)
  show "copes E S 0" by (rule c)
  fix x
  assume "case x of (q, v) \<Rightarrow> v = snd (next_signals w) \<and> pool_invar q \<and> same_children pool q
    \<and> pool_room q v
    \<and> (pl_max_procs q = 0 \<longleftrightarrow> pl_max_procs pool = 0)"
  then obtain q v where x: "x = (q, v)" "v = snd (next_signals w)" "pool_invar q"
    "same_children pool q" "pool_room q v"
    "pl_max_procs q = 0 \<longleftrightarrow> pl_max_procs pool = 0" by blast
  have wv: "wait_effect w v" using x(2) next_signals_effect(1) by simp
  have "pool_world q v"
    using ok x(4) by (simp add: pool_ok_def pool_world_def same_children_def x(2) next_signals_effect)
  then have okq: "pool_ok q v" using x by (simp add: pool_ok_def)
  obtain p u where p: "reap_while_full E q v = Inr (p, u)" "reaps q v (p, u)"
      "pl_max_procs p = 0 \<or> pl_count p < pl_max_procs p"
    using reap_while_full_yields [OF x(3) \<open>pool_world q v\<close>, of E] by (auto simp: yields_empty)
  have "pl_max_procs p = pl_max_procs q" using p(2) by (simp add: reaps_def pool_frame_def)
  with p reaps_ok [OF okq p(2)] wv x
  show "yields (S \<times> UNIV) (case x of (pool, w) \<Rightarrow> reap_while_full E pool w) (\<lambda>(q, v).
      pool_ok q v \<and> wait_effect w v \<and> (pl_max_procs q = 0 \<longleftrightarrow> pl_max_procs pool = 0)
      \<and> (pl_max_procs q = 0 \<or> pl_count q < pl_max_procs q))"
    by (auto intro: wait_effect_trans)
qed (use ok in \<open>simp_all add: pool_ok_def pool_world_def\<close>)

text \<open>A new pool on a host where nothing was started yet.\<close>

definition fresh_world :: "world \<Rightarrow> bool" where
  "fresh_world w \<longleftrightarrow> w_children w = [] \<and> w_log w = []"

lemma process_pool_create_yields:
  assumes c: "copes E S (unat max_procs + 16)" and m: "unat max_procs + usr1_total (w_signals w) < 2 ^ 58"
    and u: "int (usr1_total (w_signals w)) \<le> SIG_ATOMIC_MAX" "int (usr2_total (w_signals w)) \<le> SIG_ATOMIC_MAX"
    and conf: "phxargs_sysconf E SC_CHILD_MAX \<noteq> Inl (Exit EXIT_FAILURE Perror_sysconf)
      \<or> Exit EXIT_FAILURE Perror_sysconf \<in> S"
    and w: "fresh_world w" "handled w"
  shows "yields S (process_pool_create E max_procs) (\<lambda>pool. pool_ok pool w
    \<and> pl_max_procs pool = max_procs \<and> \<not> pl_halt pool)"
proof -
  let ?cap = "if max_procs = 0 then 16 else max_procs"
  have cap: "unat ?cap < 2 ^ 59" "unat ?cap \<le> unat max_procs + 16" using m by simp_all
  have 1: "yields S (phxargs_malloc E 48 :: stop + byte block) (\<lambda>_. True)"
    by (rule yields_conseq [OF yields_malloc [OF c]]) simp
  have 2: "yields S (phxargs_sysconf E SC_CHILD_MAX) (\<lambda>_. True)"
    using conf by (auto simp: phxargs_sysconf_def split: prod.splits if_splits)
  have 3: "yields S (phxargs_calloc E 0 ?cap 4 :: stop + int block)
      (\<lambda>b. b = replicate (unat ?cap) (Some 0))"
    by (rule yields_conseq [OF yields_calloc]) (use cap in \<open>auto intro: copes_le [OF c]\<close>)
  have "int (unat max_procs + usr1_total (w_signals w)) < int (2 ^ 58)"
    using m by (simp only: of_nat_less_iff)
  then have "pool_ok \<lparr>pl_max_procs = max_procs, pl_capacity = ?cap, pl_child_max = child_max,
       pl_count = 0, pl_status = 0, pl_halt = False, pl_pids = replicate (unat ?cap) (Some 0),
       pl_sigusr1_count = 0, pl_sigusr2_count = 0, pl_applied_sigusr1 = 0,
       pl_applied_sigusr2 = 0\<rparr> w" for child_max
    using w cap m u by (simp add: pool_ok_def pool_invar_def pool_pids_def pool_world_def fresh_world_def
        pool_room_def)
  then show ?thesis
    unfolding process_pool_create_def Let_def
    by (intro yields_rbindI [OF 1] yields_rbindI [OF 2] yields_rbindI [OF 3]) simp
qed

end
