(* ===== verification/Xargs_Mode.thy ===== *)
theory Xargs_Mode
  imports Space_Tokenizer Delim_Tokenizer Pool_Correct
begin

text \<open>
  Models \<^verbatim>\<open>src/xargs_mode.c\<close> and \<^verbatim>\<open>src/arg_source.c\<close>: what the two modes share, a command,
  a tokenizer over the argument source, and the pool of children. The tokenizer's table
  of operations (\<^verbatim>\<open>src/tokenizer.c\<close>) is the datatype \<open>toker\<close>.
\<close>

section \<open>The argument source\<close>

text \<open>Standard input and the files that can be opened, by path.\<close>

record sources =
  sr_stdin :: infile
  sr_files :: "cstr \<Rightarrow> infile option"

definition arg_source_open :: "sources \<Rightarrow> cstr option \<Rightarrow> stop + infile" where
  "arg_source_open F path = (case path of
       None \<Rightarrow> Inr (sr_stdin F)
     | Some p \<Rightarrow> (case sr_files F p of
           None \<Rightarrow> Inl (Exit EXIT_FAILURE Cannot_open_input)
         | Some f \<Rightarrow> Inr f))"

section \<open>The tokenizer behind its table of operations\<close>

datatype toker = Space space_tokenizer | Delim delim_tokenizer

text \<open>The call result with the tokenizer put back behind its table.\<close>

definition retoker :: "('t \<Rightarrow> toker) \<Rightarrow> cstr option \<times> 't \<times> 'c \<times> infile
    \<Rightarrow> cstr option \<times> toker \<times> 'c \<times> infile" where
  "retoker k = (\<lambda>(out, t, ctx, f). (out, k t, ctx, f))"

definition tokenizer_next_token :: "platform \<Rightarrow> ('c \<Rightarrow> 'c) \<Rightarrow> toker \<Rightarrow> 'c \<Rightarrow> infile
    \<Rightarrow> stop + cstr option \<times> toker \<times> 'c \<times> infile" where
  "tokenizer_next_token E cb t ctx f = (case t of
       Space s \<Rightarrow> rbind (next_space_token E cb s ctx f) (\<lambda>r. Inr (retoker Space r))
     | Delim d \<Rightarrow> rbind (next_delim_token E cb d ctx f) (\<lambda>r. Inr (retoker Delim r)))"

definition toker_error :: "toker \<Rightarrow> tokenizer_error" where
  "toker_error t = (case t of Space s \<Rightarrow> space_error s | Delim d \<Rightarrow> delim_error d)"

definition toker_ready :: "toker \<Rightarrow> bool" where
  "toker_ready t = (case t of Space s \<Rightarrow> space_ready s | Delim d \<Rightarrow> delim_ready d)"

definition toker_lexer :: "platform \<Rightarrow> toker \<Rightarrow> bool \<Rightarrow> byte list \<Rightarrow> lexed" where
  "toker_lexer E t = (case t of Space s \<Rightarrow> space_lexer E s | Delim d \<Rightarrow> delim_lexer E d)"

text \<open>Whichever tokenizer is behind the table keeps the contract.\<close>

interpretation any: tokenizing toker_ready toker_error toker_lexer tokenizer_next_token
proof
  show "consumes (toker_lexer E t io)" for E t io
    by (cases t) (simp_all add: toker_lexer_def space.lexer_consumes delim.lexer_consumes)
  show "fits (toker_lexer E t io)" for E t io
    by (cases t) (simp_all add: toker_lexer_def space.lexer_fits delim.lexer_fits)
next
  fix t E S and f :: infile and cb :: "'c \<Rightarrow> 'c" and ctx
  assume r: "toker_ready t" and c: "copes E S (length (in_rest f) + 1)"
  show "yields S (tokenizer_next_token E cb t ctx f) (\<lambda>(out, t', ctx', f').
      case toker_lexer E t (in_error f) (in_rest f) of
        Token w b rest \<Rightarrow> out = Some w \<and> toker_ready t' \<and> toker_error t' = TOKENIZER_ERR_NONE
          \<and> toker_lexer E t' = toker_lexer E t \<and> ctx' = (if b then cb ctx else ctx)
          \<and> f' = f\<lparr>in_rest := rest\<rparr>
      | Stop e b rest \<Rightarrow> out = None \<and> toker_error t' = e \<and> ctx' = (if b then cb ctx else ctx)
          \<and> f' = f\<lparr>in_rest := rest\<rparr>)"
  proof (cases t)
    case (Space s)
    with r have "space_ready s" by (simp add: toker_ready_def)
    from space.next_token_spec [OF this c, of cb ctx] Space show ?thesis
      by (auto simp: tokenizer_next_token_def toker_lexer_def toker_error_def toker_ready_def
          retoker_def split: lexed.splits elim!: yields_conseq)
  next
    case (Delim d)
    with r have "delim_ready d" by (simp add: toker_ready_def)
    from delim.next_token_spec [OF this c, of cb ctx] Delim show ?thesis
      by (auto simp: tokenizer_next_token_def toker_lexer_def toker_error_def toker_ready_def
          retoker_def split: lexed.splits elim!: yields_conseq)
  qed
qed

section \<open>The mode\<close>

text \<open>
  \<open>md_impl\<close> stands for the table of operations with the implementation object:
  \<open>Appender\<close> carries \<open>suppress_execution_on_empty_input\<close>.
\<close>

datatype mode_impl = Appender bool | Replacer

record xargs_mode =
  md_impl :: mode_impl
  md_arg_source :: infile
  md_cmd :: command
  md_toker :: toker
  md_pool :: process_pool

text \<open>\<open>sizeof(xargs_mode)\<close> is 48.\<close>

definition xargs_mode_create :: "platform \<Rightarrow> sources \<Rightarrow> mode_impl \<Rightarrow> options \<Rightarrow> nat \<Rightarrow> cstr list
    \<Rightarrow> stop + xargs_mode" where
  "xargs_mode_create E F impl opts arg_index argv =
     rbind (phxargs_malloc E 48 :: stop + byte block) (\<lambda>_.
     rbind (arg_source_open F (options_arg_file_path opts)) (\<lambda>src.
     rbind (command_create E opts arg_index argv) (\<lambda>cmd.
     rbind (process_pool_create E (options_max_procs opts)) (\<lambda>pool.
     rbind (if options_use_nul_char_as_arg_delimiter opts \<or> options_arg_delimiter opts \<noteq> 0
         then rbind (delim_tokenizer_create E (command_max_length cmd) (options_arg_delimiter opts))
           (\<lambda>t. Inr (Delim t))
         else rbind (space_tokenizer_create E (command_max_length cmd)
             (options_logical_end_of_input_marker opts)) (\<lambda>t. Inr (Space t))) (\<lambda>t.
     Inr \<lparr>md_impl = impl, md_arg_source = src, md_cmd = cmd, md_toker = t, md_pool = pool\<rparr>)))))"

definition increment_line_count :: "command \<Rightarrow> command" where
  "increment_line_count cmd = command_increment_line_count cmd"

definition xargs_mode_next_token :: "platform \<Rightarrow> xargs_mode \<Rightarrow> stop + cstr option \<times> xargs_mode" where
  "xargs_mode_next_token E mode =
     rbind (tokenizer_next_token E increment_line_count (md_toker mode) (md_cmd mode)
         (md_arg_source mode)) (\<lambda>(out, t, cmd, f).
     Inr (out, mode\<lparr>md_toker := t, md_cmd := cmd, md_arg_source := f\<rparr>))"

definition xargs_mode_tokenizer_errored :: "xargs_mode \<Rightarrow> bool" where
  "xargs_mode_tokenizer_errored mode = (toker_error (md_toker mode) \<noteq> TOKENIZER_ERR_NONE)"

definition xargs_mode_arg_would_exceed_limits :: "xargs_mode \<Rightarrow> cstr \<Rightarrow> stop + bool" where
  "xargs_mode_arg_would_exceed_limits mode new_arg =
     command_arg_would_exceed_limits (md_cmd mode) new_arg"

definition xargs_mode_drain :: "platform \<Rightarrow> xargs_mode \<Rightarrow> world
    \<Rightarrow> (stop \<times> world) + int \<times> xargs_mode \<times> world" where
  "xargs_mode_drain E mode w =
     rbind (process_pool_drain E (md_pool mode) w) (\<lambda>(status, pool, w).
     Inr (status, mode\<lparr>md_pool := pool\<rparr>, w))"

text \<open>\<open>exit\<close> after draining the pool.\<close>

definition drain_and_exit :: "platform \<Rightarrow> xargs_mode \<Rightarrow> diagnostic \<Rightarrow> world
    \<Rightarrow> (stop \<times> world) + 'a" where
  "drain_and_exit E mode d w =
     rbind (xargs_mode_drain E mode w) (\<lambda>(_, _, w). Inl (Exit EXIT_FAILURE d, w))"

definition xargs_mode_should_execute_command_after_arg_added ::
    "platform \<Rightarrow> xargs_mode \<Rightarrow> world \<Rightarrow> (stop \<times> world) + bool" where
  "xargs_mode_should_execute_command_after_arg_added E mode w =
     (let result = command_should_execute_after_arg_added (md_cmd mode) in
      if result < 0 then drain_and_exit E mode Command_too_long w else Inr (result > 0))"

definition xargs_mode_halted :: "xargs_mode \<Rightarrow> bool" where
  "xargs_mode_halted mode = process_pool_halted (md_pool mode)"

definition xargs_mode_execute_command ::
    "platform \<Rightarrow> xargs_mode \<Rightarrow> world \<Rightarrow> (stop \<times> world) + xargs_mode \<times> world" where
  "xargs_mode_execute_command E mode w =
     rbind (process_pool_wait_if_full E (md_pool mode) w) (\<lambda>(pool, w).
     let mode = mode\<lparr>md_pool := pool\<rparr> in
     if process_pool_halted pool then Inr (mode, w)
     else rbind (command_execute_async E (md_cmd mode) w) (\<lambda>(pid, cmd, w).
          rbind (lift w (process_pool_submit E pool pid)) (\<lambda>pool.
          Inr (mode\<lparr>md_cmd := cmd, md_pool := pool\<rparr>, w))))"

definition xargs_mode_add_input_argument ::
    "platform \<Rightarrow> xargs_mode \<Rightarrow> cstr \<Rightarrow> stop + xargs_mode" where
  "xargs_mode_add_input_argument E mode new_arg =
     rbind (command_add_input_argument E (md_cmd mode) new_arg) (\<lambda>cmd.
     Inr (mode\<lparr>md_cmd := cmd\<rparr>))"

definition xargs_mode_input_args_remain :: "xargs_mode \<Rightarrow> bool" where
  "xargs_mode_input_args_remain mode = command_input_args_remain (md_cmd mode)"

definition xargs_mode_ensure_command_length_not_exceeded :: "xargs_mode \<Rightarrow> cstr \<Rightarrow> stop + unit" where
  "xargs_mode_ensure_command_length_not_exceeded mode new_arg =
     command_ensure_length_not_exceeded (md_cmd mode) new_arg"

definition xargs_replace_args :: "platform \<Rightarrow> xargs_mode \<Rightarrow> cstr \<Rightarrow> stop + xargs_mode" where
  "xargs_replace_args E mode new_arg =
     rbind (command_replace_args E (md_cmd mode) new_arg) (\<lambda>cmd. Inr (mode\<lparr>md_cmd := cmd\<rparr>))"

end
