(* ===== verification/Appender_Mode.thy ===== *)
theory Appender_Mode
  imports Xargs_Mode
begin

text \<open>
  Models \<^verbatim>\<open>src/appender_mode.c\<close>: the loop that collects arguments and runs the command when
  the next one would not fit, when enough lines were read, and at the end. The loop is a
  \<open>partial_function\<close>: not returning would be \<open>None\<close>, and the theorems show it is not.
\<close>

text \<open>The body of the loop for one token; the flag of the result is \<open>break\<close>.\<close>

definition appender_step :: "platform \<Rightarrow> xargs_mode \<Rightarrow> cstr \<Rightarrow> world
    \<Rightarrow> (stop \<times> world) + bool \<times> xargs_mode \<times> world" where
  "appender_step E mode token w =
     rbind (lift w (xargs_mode_arg_would_exceed_limits mode token)) (\<lambda>exceeds.
     rbind (if exceeds then xargs_mode_execute_command E mode w else Inr (mode, w)) (\<lambda>(mode, w).
     if exceeds \<and> xargs_mode_halted mode then Inr (True, mode, w)
     else
       rbind (lift w (xargs_mode_add_input_argument E mode token)) (\<lambda>mode.
       rbind (xargs_mode_should_execute_command_after_arg_added E mode w) (\<lambda>now.
       if now
       then rbind (xargs_mode_execute_command E mode w) (\<lambda>(mode, w).
            Inr (xargs_mode_halted mode, mode, w))
       else Inr (False, mode, w)))))"

partial_function (option) appender_loop :: "platform \<Rightarrow> xargs_mode \<Rightarrow> bool \<Rightarrow> world
    \<Rightarrow> ((stop \<times> world) + xargs_mode \<times> bool \<times> world) option" where
  "appender_loop E mode input_present w =
     (case xargs_mode_next_token E mode of
        Inl s \<Rightarrow> Some (Inl (s, w))
      | Inr (out, mode) \<Rightarrow> (case out of
          None \<Rightarrow> Some (Inr (mode, input_present, w))
        | Some token \<Rightarrow> (case appender_step E mode token w of
            Inl e \<Rightarrow> Some (Inl e)
          | Inr (stopped, mode, w) \<Rightarrow>
              if stopped then Some (Inr (mode, True, w))
              else appender_loop E mode True w)))"

text \<open>The code after the loop.\<close>

definition appender_finish :: "platform \<Rightarrow> bool \<Rightarrow> xargs_mode \<Rightarrow> bool \<Rightarrow> world
    \<Rightarrow> (stop \<times> world) + int \<times> xargs_mode \<times> world" where
  "appender_finish E suppress mode input_present w =
     (if xargs_mode_tokenizer_errored mode then drain_and_exit E mode Input_error w
      else
        rbind (if \<not> input_present then
            (if \<not> suppress then xargs_mode_execute_command E mode w else Inr (mode, w))
          else
            (if xargs_mode_input_args_remain mode then xargs_mode_execute_command E mode w
             else Inr (mode, w))) (\<lambda>(mode, w).
        rbind (xargs_mode_drain E mode w) (\<lambda>(status, mode, w).
        Inr (or EXIT_SUCCESS status, mode, w))))"

definition appender_mode_run :: "platform \<Rightarrow> bool \<Rightarrow> xargs_mode \<Rightarrow> world
    \<Rightarrow> ((stop \<times> world) + int \<times> xargs_mode \<times> world) option" where
  "appender_mode_run E suppress mode w =
     map_option (\<lambda>r. rbind r (\<lambda>(mode, input_present, w).
         appender_finish E suppress mode input_present w))
       (appender_loop E mode False w)"

text \<open>\<open>sizeof(appender_mode)\<close> is 16.\<close>

definition appender_mode_create :: "platform \<Rightarrow> sources \<Rightarrow> options \<Rightarrow> nat \<Rightarrow> cstr list
    \<Rightarrow> stop + xargs_mode" where
  "appender_mode_create E F opts arg_index argv =
     rbind (phxargs_malloc E 16 :: stop + byte block) (\<lambda>_.
     xargs_mode_create E F (Appender (options_suppress_execution_on_empty_input opts)) opts
       arg_index argv)"

end
