(* ===== verification/Replacer_Mode.thy ===== *)
theory Replacer_Mode
  imports Xargs_Mode
begin

text \<open>
  Models \<^verbatim>\<open>src/replacer_mode.c\<close>: with \<open>-I\<close>, one command per token, the token put in the
  place of the placeholder.
\<close>

definition replacer_step :: "platform \<Rightarrow> xargs_mode \<Rightarrow> cstr \<Rightarrow> world
    \<Rightarrow> (stop \<times> world) + bool \<times> xargs_mode \<times> world" where
  "replacer_step E mode token w =
     rbind (lift w (xargs_mode_ensure_command_length_not_exceeded mode token)) (\<lambda>_.
     rbind (lift w (xargs_replace_args E mode token)) (\<lambda>mode.
     rbind (xargs_mode_execute_command E mode w) (\<lambda>(mode, w).
     Inr (xargs_mode_halted mode, mode, w))))"

partial_function (option) replacer_loop :: "platform \<Rightarrow> xargs_mode \<Rightarrow> world
    \<Rightarrow> ((stop \<times> world) + xargs_mode \<times> world) option" where
  "replacer_loop E mode w =
     (case xargs_mode_next_token E mode of
        Inl s \<Rightarrow> Some (Inl (s, w))
      | Inr (out, mode) \<Rightarrow> (case out of
          None \<Rightarrow> Some (Inr (mode, w))
        | Some token \<Rightarrow> (case replacer_step E mode token w of
            Inl e \<Rightarrow> Some (Inl e)
          | Inr (stopped, mode, w) \<Rightarrow>
              if stopped then Some (Inr (mode, w)) else replacer_loop E mode w)))"

definition replacer_mode_run :: "platform \<Rightarrow> xargs_mode \<Rightarrow> world
    \<Rightarrow> ((stop \<times> world) + int \<times> xargs_mode \<times> world) option" where
  "replacer_mode_run E mode w =
     map_option (\<lambda>r. rbind r (\<lambda>(mode, w).
         if xargs_mode_tokenizer_errored mode then drain_and_exit E mode Input_error w
         else rbind (xargs_mode_drain E mode w) (\<lambda>(status, mode, w).
              Inr (or EXIT_SUCCESS status, mode, w))))
       (replacer_loop E mode w)"

text \<open>\<open>sizeof(replacer_mode)\<close> is 8.\<close>

definition replacer_mode_create :: "platform \<Rightarrow> sources \<Rightarrow> options \<Rightarrow> nat \<Rightarrow> cstr list
    \<Rightarrow> stop + xargs_mode" where
  "replacer_mode_create E F opts arg_index argv =
     rbind (phxargs_malloc E 8 :: stop + byte block) (\<lambda>_.
     xargs_mode_create E F Replacer opts arg_index argv)"

end
