(* ===== verification/Xargs.thy ===== *)
theory Xargs
  imports Appender_Mode Replacer_Mode
begin

text \<open>
  Models \<^verbatim>\<open>src/xargs.c\<close> and \<^verbatim>\<open>src/main.c\<close>: options, the choice of the mode, the run, and the
  exit status of the process.
\<close>

text \<open>The dispatch \<open>mode->ops->run(mode)\<close>.\<close>

definition xargs_mode_run :: "platform \<Rightarrow> xargs_mode \<Rightarrow> world
    \<Rightarrow> ((stop \<times> world) + int \<times> xargs_mode \<times> world) option" where
  "xargs_mode_run E mode w = (case md_impl mode of
       Appender suppress \<Rightarrow> appender_mode_run E suppress mode w
     | Replacer \<Rightarrow> replacer_mode_run E mode w)"

text \<open>\<open>sizeof(xargs)\<close> is 8.\<close>

definition xargs_create :: "platform \<Rightarrow> sources \<Rightarrow> cstr list \<Rightarrow> world
    \<Rightarrow> (stop \<times> world) + xargs_mode \<times> world" where
  "xargs_create E F argv w =
     (let w = process_pool_install_signal_handlers w in
      rbind (lift w (options_create E argv)) (\<lambda>opts.
      let arg_index = options_index_of_first_arg opts in
      rbind (lift w (phxargs_malloc E 8 :: stop + byte block)) (\<lambda>_.
      rbind (lift w (if options_arg_placeholder opts = None
        then appender_mode_create E F opts arg_index argv
        else replacer_mode_create E F opts arg_index argv)) (\<lambda>x.
      Inr (x, w)))))"

definition xargs_run :: "platform \<Rightarrow> xargs_mode \<Rightarrow> world
    \<Rightarrow> ((stop \<times> world) + int \<times> xargs_mode \<times> world) option" where
  "xargs_run E x w = xargs_mode_run E x w"

text \<open>The whole program: how the process ends, and what it did; \<open>None\<close> if it never ends.\<close>

definition main :: "platform \<Rightarrow> sources \<Rightarrow> cstr list \<Rightarrow> world
    \<Rightarrow> ((stop \<times> world) + int \<times> world) option" where
  "main E F argv w = (case xargs_create E F argv w of
       Inl e \<Rightarrow> Some (Inl e)
     | Inr (x, w) \<Rightarrow> map_option (\<lambda>r. rbind r (\<lambda>(execution_status, x, w). Inr (execution_status, w)))
         (xargs_run E x w))"

end
