(* ===== verification/Batching.thy ===== *)
theory Batching
  imports Command_Correct Tokenizer
begin

text \<open>
  The abstract specification of the appending mode: how a list of tokens is divided into
  batches, one per command, under the limits of \<open>-n\<close>, \<open>-L\<close>, \<open>-s\<close> and \<open>-x\<close>. The theorems here
  are about the plan alone; the theory of the mode shows that the code follows it.
\<close>

section \<open>The plan\<close>

text \<open>
  \<open>lm_base\<close> is the size of the command with no input argument, environment included;
  \<open>lm_max_args\<close> is 0 without \<open>-n\<close>, \<open>lm_max_lines\<close> is \<open>None\<close> without \<open>-L\<close>.
\<close>

record limits =
  lm_base :: nat
  lm_max_length :: nat
  lm_max_args :: nat
  lm_max_lines :: "nat option"
  lm_terminate :: bool

text \<open>
  How a plan ends: with the batch still open, or because the command is too long,
  noticed before the argument was added (\<open>Refused\<close>) or after (\<open>Overrun\<close>).
\<close>

datatype plan_end = Open "cstr list" | Refused | Overrun

definition over_size :: "limits \<Rightarrow> cstr list \<Rightarrow> cstr \<Rightarrow> bool" where
  "over_size L cur w \<longleftrightarrow> lm_base L + args_bytes cur + length w + 1 > lm_max_length L"

text \<open>Whether the open batch is closed before \<open>w\<close> joins it.\<close>

definition closes_before :: "limits \<Rightarrow> cstr list \<Rightarrow> cstr \<Rightarrow> bool" where
  "closes_before L cur w \<longleftrightarrow>
     (lm_max_args L > 0 \<and> length cur = lm_max_args L)
     \<or> (lm_max_lines L = None \<and> over_size L cur w \<and> \<not> (lm_max_args L > 0 \<and> lm_terminate L))"

text \<open>A token with the flag that it ended its line; \<open>n\<close> lines are in the open batch.\<close>

fun plan :: "limits \<Rightarrow> cstr list \<Rightarrow> nat \<Rightarrow> (cstr \<times> bool) list \<Rightarrow> cstr list list \<times> plan_end" where
  "plan L cur n [] = ([], Open cur)"
| "plan L cur n ((w, b) # ts) =
     (if cur = [] \<and> over_size L cur w then ([], Refused)
      else
        let closed = closes_before L cur w;
            before = (if closed then [cur] else []);
            cur' = (if closed then [] else cur) @ [w];
            n' = (if closed then 0 else if b then n + 1 else n)
        in if lm_terminate L \<and> lm_base L + args_bytes cur' > lm_max_length L
           then (before, Overrun)
           else if lm_max_lines L = Some n'
           then (case plan L [] 0 ts of (bs, e) \<Rightarrow> (before @ cur' # bs, e))
           else (case plan L cur' n' ts of (bs, e) \<Rightarrow> (before @ bs, e)))"

section \<open>What a plan guarantees\<close>

text \<open>No argument is lost, duplicated or reordered.\<close>

lemma plan_concat:
  "plan L cur n ts = (bs, Open rest) \<Longrightarrow> concat bs @ rest = cur @ map fst ts"
proof (induction L cur n ts arbitrary: bs rest rule: plan.induct)
  case (2 L cur n w b ts)
  then show ?case
    by (auto simp: Let_def split: if_splits prod.splits)
qed simp

lemma plan_cut_short:
  "plan L cur n ts = (bs, e) \<Longrightarrow> prefix (concat bs) (cur @ map fst ts)"
proof (induction L cur n ts arbitrary: bs e rule: plan.induct)
  case (2 L cur n w b ts)
  then show ?case
    by (auto simp: Let_def split: if_splits prod.splits)
qed simp

text \<open>No batch is empty, and with \<open>-n\<close> none has more arguments than that.\<close>

lemma plan_batch_count:
  assumes "0 < lm_max_args L"
  shows "plan L cur n ts = (bs, e) \<Longrightarrow> length cur \<le> lm_max_args L \<Longrightarrow>
    (\<forall>b \<in> set bs. length b \<le> lm_max_args L)
    \<and> (\<forall>rest. e = Open rest \<longrightarrow> length rest \<le> lm_max_args L)"
  using assms
proof (induction L cur n ts arbitrary: bs e rule: plan.induct)
  case (2 L cur n w b ts)
  then show ?case
    by (auto simp: Let_def closes_before_def Suc_le_eq split: if_splits prod.splits)
qed simp

text \<open>Each command fits, when every argument alone does.\<close>

definition within_limit :: "limits \<Rightarrow> cstr list \<Rightarrow> bool" where
  "within_limit L b \<longleftrightarrow> lm_base L + args_bytes b \<le> lm_max_length L"

lemma plan_batch_size:
  assumes "lm_max_lines L = None \<or> lm_terminate L"
  shows "plan L cur n ts = (bs, e) \<Longrightarrow> within_limit L cur \<Longrightarrow>
    \<forall>w \<in> fst ` set ts. \<not> over_size L [] w \<Longrightarrow>
    (\<forall>b \<in> set bs. within_limit L b) \<and> (\<forall>rest. e = Open rest \<longrightarrow> within_limit L rest)"
  using assms
proof (induction L cur n ts arbitrary: bs e rule: plan.induct)
  case (2 L cur n w b ts)
  have base: "within_limit L []" using "2.prems"(2) by (simp add: within_limit_def)
  let ?c = "closes_before L cur w"
  let ?cur = "(if ?c then [] else cur) @ [w]"
  let ?n = "if ?c then 0 else if b then n + 1 else n"
  show ?case
  proof (cases "cur = [] \<and> over_size L cur w
      \<or> lm_terminate L \<and> lm_base L + args_bytes ?cur > lm_max_length L")
    case True
    then show ?thesis using "2.prems" by (auto simp: Let_def split: if_splits)
  next
    case False
    then have fits: "within_limit L ?cur"
      using "2.prems"(3,4) by (auto simp: closes_before_def over_size_def within_limit_def)
    show ?thesis
    proof (cases "lm_max_lines L = Some ?n")
      case True
      obtain bs' e' where p: "plan L [] 0 ts = (bs', e')" by fastforce
      have "(\<forall>b \<in> set bs'. within_limit L b) \<and> (\<forall>rest. e' = Open rest \<longrightarrow> within_limit L rest)"
        using "2.IH"(1) [OF _ refl refl refl refl _ _ p base] "2.prems" False True by auto
      then show ?thesis
        using "2.prems"(1,2) False True p fits by (auto simp: Let_def split: if_splits)
    next
      case no: False
      obtain bs' e' where p: "plan L ?cur ?n ts = (bs', e')" by fastforce
      have "(\<forall>b \<in> set bs'. within_limit L b) \<and> (\<forall>rest. e' = Open rest \<longrightarrow> within_limit L rest)"
        using "2.IH"(2) [OF _ refl refl refl refl _ _ p fits] "2.prems" False no by auto
      then show ?thesis
        using "2.prems"(1,2) False no p by (auto simp: Let_def split: if_splits)
    qed
  qed
qed (simp add: within_limit_def)

text \<open>With \<open>-L\<close>, a command takes the arguments of exactly so many lines.\<close>

lemma plan_lines:
  assumes "lm_max_lines L = Some k" and "0 < k" and "lm_max_args L = 0"
  shows "plan L cur n ts = (bs, e) \<Longrightarrow> cur = map fst us \<Longrightarrow> n = length (filter snd us) \<Longrightarrow> n < k \<Longrightarrow>
    \<exists>segs rest. us @ ts = concat segs @ rest \<and> bs = map (map fst) segs
      \<and> (\<forall>s \<in> set segs. length (filter snd s) = k \<and> snd (last s))
      \<and> (\<forall>cur'. e = Open cur' \<longrightarrow> cur' = map fst rest \<and> length (filter snd rest) < k)"
  using assms
proof (induction ts arbitrary: cur n us bs e)
  case Nil
  then show ?case by (intro exI [of _ "[]"] exI [of _ us]) auto
next
  case (Cons wb ts)
  obtain w b where wb: "wb = (w, b)" by fastforce
  note prems = Cons.prems [unfolded wb]
  have open': "\<not> closes_before L cur w" using prems by (simp add: closes_before_def)
  let ?us = "us @ [(w, b)]" and ?n = "if b then n + 1 else n"
  show ?case
  proof (cases "cur = [] \<and> over_size L cur w
      \<or> lm_terminate L \<and> lm_base L + args_bytes (cur @ [w]) > lm_max_length L")
    case True
    then have "bs = []" "\<not> (\<exists>c. e = Open c)"
      using prems(1) open' by (auto simp: Let_def split: if_splits)
    then show ?thesis
      unfolding wb by (intro exI [of _ "[]"] exI [of _ "us @ (w, b) # ts"]) auto
  next
    case False
    show ?thesis
    proof (cases "k = ?n")
      case True
      then have b: "b" using prems(4) by (auto split: if_splits)
      obtain bs' e' where p: "plan L [] 0 ts = (bs', e')" by fastforce
      obtain segs rest where s: "ts = concat segs @ rest" "bs' = map (map fst) segs"
        "\<forall>s \<in> set segs. length (filter snd s) = k \<and> snd (last s)"
        "\<forall>cur'. e' = Open cur' \<longrightarrow> cur' = map fst rest \<and> length (filter snd rest) < k"
        using Cons.IH [OF p, of "[]"] prems by auto
      have "bs = map fst ?us # bs'" "e = e'"
        using prems(1,2,5) False True p open' by (auto simp: Let_def split: if_splits)
      then show ?thesis
        unfolding wb using s b True prems(3) by (intro exI [of _ "?us # segs"] exI [of _ rest]) auto
    next
      case no: False
      obtain bs' e' where p: "plan L (cur @ [w]) ?n ts = (bs', e')" by fastforce
      have "\<exists>segs rest. ?us @ ts = concat segs @ rest \<and> bs' = map (map fst) segs
        \<and> (\<forall>s \<in> set segs. length (filter snd s) = k \<and> snd (last s))
        \<and> (\<forall>cur'. e' = Open cur' \<longrightarrow> cur' = map fst rest \<and> length (filter snd rest) < k)"
        using prems no by (intro Cons.IH [OF p]) (auto split: if_splits)
      moreover have "bs = bs'" "e = e'"
        using prems(1,5) False no p open' by (auto simp: Let_def split: if_splits)
      ultimately show ?thesis by (simp add: wb)
    qed
  qed
qed

text \<open>
  Without \<open>-x\<close> and \<open>-L\<close> nothing is refused once a batch is open: an argument that is too long
  by itself closes the batch before it, and the next one closes its own.
\<close>

lemma plan_late:
  assumes "\<not> lm_terminate L" and "lm_max_lines L = None"
  shows "plan L cur n ts = (bs, e) \<Longrightarrow> cur \<noteq> [] \<Longrightarrow>
    \<exists>rest. e = Open rest \<and> rest \<noteq> [] \<and> (\<forall>t \<in> fst ` set ts. over_size L [] t \<longrightarrow> [t] \<in> set (bs @ [rest]))
      \<and> (\<forall>c. cur = [c] \<and> over_size L [] c \<longrightarrow> [c] \<in> set (bs @ [rest]))"
proof (induction ts arbitrary: cur n bs e)
  case (Cons wb ts)
  obtain w b where wb: "wb = (w, b)" by fastforce
  let ?closed = "closes_before L cur w"
  let ?cur = "(if ?closed then [] else cur) @ [w]" and ?n = "if ?closed then 0 else if b then n + 1 else n"
  obtain bs' e' where p: "plan L ?cur ?n ts = (bs', e')" by fastforce
  have bs: "bs = (if ?closed then [cur] else []) @ bs'" "e = e'"
    using Cons.prems p assms by (auto simp: wb Let_def split: if_splits)
  obtain rest where r: "e' = Open rest" "rest \<noteq> []"
    "\<forall>t \<in> fst ` set ts. over_size L [] t \<longrightarrow> [t] \<in> set (bs' @ [rest])"
    "\<forall>c. ?cur = [c] \<and> over_size L [] c \<longrightarrow> [c] \<in> set (bs' @ [rest])"
    using Cons.IH [OF p] by auto
  have "?closed" if "over_size L [] w \<or> (\<exists>c. cur = [c] \<and> over_size L [] c)"
    using that assms by (auto simp: closes_before_def over_size_def)
  with r bs show ?case by (intro exI [of _ rest]) (auto simp: wb)
qed simp

section \<open>The verdict of a run\<close>

text \<open>
  The verdict of a plan on a whole input: the commands to run, and the diagnostic the
  program stops with, if any. \<open>quiet\<close> is the option \<open>-r\<close>.
\<close>

definition run_plan :: "limits \<Rightarrow> bool \<Rightarrow> (cstr \<times> bool) list \<times> tokenizer_error
    \<Rightarrow> cstr list list \<times> diagnostic option" where
  "run_plan L quiet tse = (case tse of (ts, err) \<Rightarrow> (case plan L [] 0 ts of (bs, e) \<Rightarrow>
     (case e of
        Open cur \<Rightarrow>
          if err \<noteq> TOKENIZER_ERR_NONE then (bs, Some Input_error)
          else if ts = [] then (if quiet then [] else [[]], None)
          else (if cur = [] then bs else bs @ [cur], None)
      | _ \<Rightarrow> (bs, Some Command_too_long))))"

lemma run_plan_cases:
  "plan L [] 0 ts = (bs, Open cur) \<Longrightarrow> err \<noteq> TOKENIZER_ERR_NONE \<Longrightarrow>
     run_plan L q (ts, err) = (bs, Some Input_error)"
  "plan L [] 0 ts = (bs, Open cur) \<Longrightarrow> ts \<noteq> [] \<Longrightarrow>
     run_plan L q (ts, TOKENIZER_ERR_NONE) = (if cur = [] then bs else bs @ [cur], None)"
  "run_plan L q ([], TOKENIZER_ERR_NONE) = (if q then [] else [[]], None)"
  "plan L [] 0 ts = (bs, e) \<Longrightarrow> e = Refused \<or> e = Overrun \<Longrightarrow>
     run_plan L q (ts, err) = (bs, Some Command_too_long)"
  by (auto simp: run_plan_def)

lemma run_plan_prefix: "plan L [] 0 ts = (bs, e) \<Longrightarrow> prefix bs (fst (run_plan L q (ts, err)))"
  by (cases e) (auto simp: run_plan_def)

lemma run_plan_late:
  assumes "\<not> lm_terminate L" and "lm_max_lines L = None" and "\<not> over_size L [] t0"
  shows "snd (run_plan L q ((t0, b) # ts, err)) = (if err = TOKENIZER_ERR_NONE then None else Some Input_error)"
    and "err = TOKENIZER_ERR_NONE \<Longrightarrow> t \<in> fst ` set ts \<Longrightarrow> over_size L [] t \<Longrightarrow>
      [t] \<in> set (fst (run_plan L q ((t0, b) # ts, err)))"
proof -
  let ?n = "if b then 1 else 0 :: nat"
  have no: "\<not> closes_before L [] t0" using assms by (auto simp: closes_before_def)
  obtain bs e where p: "plan L [t0] ?n ts = (bs, e)" by fastforce
  then obtain rest where r: "e = Open rest" "rest \<noteq> []"
    "\<forall>t \<in> fst ` set ts. over_size L [] t \<longrightarrow> [t] \<in> set (bs @ [rest])"
    using plan_late [OF assms(1,2) p] by auto
  have "plan L [] 0 ((t0, b) # ts) = (bs, Open rest)"
    using p no assms r(1) by (cases b) (simp_all add: Let_def)
  then have "run_plan L q ((t0, b) # ts, err)
      = (if err = TOKENIZER_ERR_NONE then (bs @ [rest], None) else (bs, Some Input_error))"
    using r(2) by (simp add: run_plan_def)
  with r(3) show "snd (run_plan L q ((t0, b) # ts, err)) = (if err = TOKENIZER_ERR_NONE then None else Some Input_error)"
    and "err = TOKENIZER_ERR_NONE \<Longrightarrow> t \<in> fst ` set ts \<Longrightarrow> over_size L [] t \<Longrightarrow>
      [t] \<in> set (fst (run_plan L q ((t0, b) # ts, err)))"
    by auto
qed

end
