(* ===== verification/Mode_Correct.thy ===== *)
theory Mode_Correct
  imports Xargs Batching
begin

text \<open>
  What the operations of \<^verbatim>\<open>src/xargs_mode.c\<close> guarantee to the two loops: reading a token is a
  step of the lexer, the limit checks are those of the plan, and running the command
  starts it once, when the pool has room and did not halt.
\<close>

section \<open>The limits\<close>

definition limits_of :: "command \<Rightarrow> limits" where
  "limits_of cmd = \<lparr>lm_base = cmd_base cmd, lm_max_length = unat (cm_max_length cmd),
     lm_max_args = unat (cm_max_args cmd),
     lm_max_lines = (if cm_line_mode cmd then Some (unat (cm_max_lines cmd)) else None),
     lm_terminate = cm_terminate_on_too_large_command cmd\<rparr>"

lemma limits_of_same: "same_command cmd cmd' \<Longrightarrow> limits_of cmd' = limits_of cmd"
  by (drule same_command_fields) (simp add: limits_of_def cmd_base_def)

lemma new_length_eq:
  assumes "cmd_invar cmd" and "args_bytes (cm_input cmd) < 2 ^ 60" and "length w < 2 ^ 60"
  shows "unat (command_length cmd + strlen w + 1)
    = cmd_base cmd + args_bytes (cm_input cmd) + length w + 1"
proof -
  have c: "unat (command_length cmd) = cmd_base cmd + args_bytes (cm_input cmd)"
    using assms by (intro unat_command_length) simp_all
  have b: "cmd_base cmd < 2 ^ 61" using assms(1) by (simp add: cmd_invar_def cmd_base_def)
  have l: "unat (strlen w) = length w" using assms(3) by (intro unat_strlen) simp
  show ?thesis
    using b assms(2,3) by (simp add: unat_add_size unat_Suc_size c l)
qed

lemma ensure_length_eq:
  assumes "cmd_invar cmd" and "args_bytes (cm_input cmd) < 2 ^ 60" and "length w < 2 ^ 60"
  shows "command_ensure_length_not_exceeded cmd w =
    (if (cm_arg_placeholder cmd \<noteq> None \<or> cm_input cmd = []) \<and> over_size (limits_of cmd) (cm_input cmd) w
     then Inl (Exit EXIT_FAILURE Command_too_long) else Inr ())"
proof -
  have "command_args_count (cm_input_args cmd) = 0 \<longleftrightarrow> cm_input cmd = []"
    using assms(1) by (simp add: size_eq_unat cmd_invar_def unat_args_count)
  then show ?thesis
    by (simp add: command_ensure_length_not_exceeded_def Let_def size_less_unat
        new_length_eq [OF assms] over_size_def limits_of_def)
qed

lemma would_exceed_limits_eq:
  assumes "cmd_invar cmd" and "args_bytes (cm_input cmd) < 2 ^ 60" and "length w < 2 ^ 60"
    and "cm_arg_placeholder cmd = None"
  shows "command_arg_would_exceed_limits cmd w =
    (if cm_input cmd = [] \<and> over_size (limits_of cmd) (cm_input cmd) w
     then Inl (Exit EXIT_FAILURE Command_too_long)
     else Inr (closes_before (limits_of cmd) (cm_input cmd) w))"
proof -
  have "command_args_count (cm_input_args cmd) = cm_max_args cmd
      \<longleftrightarrow> length (cm_input cmd) = unat (cm_max_args cmd)"
    using assms(1) by (simp add: size_eq_unat cmd_invar_def unat_args_count)
  moreover have "0 < cm_max_args cmd \<longleftrightarrow> 0 < unat (cm_max_args cmd)"
    by (simp add: word_gt_0 unat_gt_0)
  ultimately show ?thesis
    using assms(4)
    by (auto simp: command_arg_would_exceed_limits_def Let_def size_less_unat
        ensure_length_eq [OF assms(1-3)] new_length_eq [OF assms(1-3)] over_size_def
        limits_of_def closes_before_def command_max_args_specified_def)
qed

lemma should_execute_eq:
  assumes "cmd_invar cmd" and "args_bytes (cm_input cmd) < 2 ^ 60"
  shows "command_should_execute_after_arg_added cmd =
    (if lm_terminate (limits_of cmd)
        \<and> lm_base (limits_of cmd) + args_bytes (cm_input cmd) > lm_max_length (limits_of cmd) then -1
     else if lm_max_lines (limits_of cmd) = Some (unat (cm_line_count cmd)) then 1 else 0)"
proof -
  have "unat (command_length cmd) = cmd_base cmd + args_bytes (cm_input cmd)"
    using assms by (intro unat_command_length) simp_all
  then show ?thesis
    by (auto simp: command_should_execute_after_arg_added_def limits_of_def size_less_unat
        size_eq_unat)
qed

section \<open>Spawning\<close>

text \<open>
  Between \<open>w\<close> and \<open>w'\<close> one child was forked for each of the commands \<open>xs\<close>, and, unless the
  host ran short of memory in a child, exactly these argument vectors were assembled, in
  this order, and each child took its course: it traced, asked, executed and ended as
  \<open>courses\<close> says.
\<close>

definition spawns :: "platform \<Rightarrow> child_kind \<Rightarrow> world \<Rightarrow> world \<Rightarrow> cstr list list \<Rightarrow> bool" where
  "spawns E k w w' xs \<longleftrightarrow> w_exec w' = w_exec w \<and> w_forks w' = w_forks w + length xs
     \<and> length (forked (w_log w')) = length (forked (w_log w)) + length xs
     \<and> (ample E \<longrightarrow> spawned (w_log w') = spawned (w_log w) @ xs
        \<and> took_courses (courses k (w_exec w) (w_forks w) (w_tty w) xs) w w')"

lemma spawns_refl [simp]: "spawns E k w w []"
  by (simp add: spawns_def took_courses_def)

lemma spawns_Nil: "wait_effect w w' \<Longrightarrow> spawns E k w w' []"
  by (simp add: spawns_def wait_effect_def took_courses_def)

lemma spawns_trans:
  assumes "spawns E k a b xs" and "spawns E k b c ys"
  shows "spawns E k a c (xs @ ys)"
  using assms by (auto simp: spawns_def took_courses_def courses_append Let_def)

text \<open>The kind of the children of a mode; it is the same after every step.\<close>

abbreviation md_kind :: "xargs_mode \<Rightarrow> child_kind" where
  "md_kind mode \<equiv> kind_of (md_cmd mode)"

lemma kind_of_same: "same_command cmd cmd' \<Longrightarrow> kind_of cmd' = kind_of cmd"
  by (drule same_command_fields) (simp add: kind_of_def)

lemma started_spawns: "started E cmd w pid w' \<Longrightarrow> spawns E (kind_of cmd) w w' [cmd_argv cmd]"
  by (auto simp: spawns_def started_def simp del: courses.simps)

lemma spawns_forked: "spawns E k w w' xs \<Longrightarrow> length (forked (w_log w')) = length (forked (w_log w)) + length xs"
  by (auto simp: spawns_def)

text \<open>The choices of the host that stay the same throughout a run.\<close>

definition same_host :: "world \<Rightarrow> world \<Rightarrow> bool" where
  "same_host w w' \<longleftrightarrow> w_exec w' = w_exec w \<and> w_fork_fails w' = w_fork_fails w"

lemma same_host_simps [simp]: "same_host w w"
  by (simp add: same_host_def)

lemma same_host_trans: "same_host a b \<Longrightarrow> same_host b c \<Longrightarrow> same_host a c"
  by (simp add: same_host_def)

lemma same_host_fork_copes: "same_host w w' \<Longrightarrow> fork_copes T w' = fork_copes T w"
  by (simp add: same_host_def fork_copes_def)

lemma wait_effect_same_host: "wait_effect w w' \<Longrightarrow> same_host w w'"
  by (simp add: wait_effect_def same_host_def)

lemma children_fewer:
  assumes "pool_ok p w" and "pool_ok q v" and "wait_effect w v"
  shows "length (pool_pids q) \<le> length (pool_pids p)"
proof -
  have n: "length (forked (w_log u)) = length (reaped (w_log u)) + length (pool_pids r)"
    if "pool_ok r u" for r u
    using that unfolding pool_ok_def pool_world_def
    by (metis size_image_mset size_mset size_union)
  have "length (reaped (w_log w)) \<le> length (reaped (w_log v))"
    using assms(3) by (simp add: wait_effect_def prefix_length_le)
  with n [OF assms(1)] n [OF assms(2)] assms(3) show ?thesis
    by (simp add: wait_effect_def)
qed

lemma started_submitted_ok:
  assumes "pool_ok p w" and "started E cmd w pid w'" and "submitted p pid q"
  shows "pool_ok q w'"
proof -
  have "pid \<notin> set (pool_pids p)"
    using assms(1,2) by (auto simp: pool_ok_def pool_world_def started_def)
  moreover have "\<forall>x \<in> set (pool_pids p). x < int (Suc (w_forks w)) + 2"
    using assms(1) by (auto simp: pool_ok_def pool_world_def)
  ultimately show ?thesis
    using assms
    by (auto simp: pool_ok_def pool_world_def started_def submitted_def pool_room_def handled_def)
qed

section \<open>The state of a mode between two steps\<close>

definition mode_core :: "xargs_mode \<Rightarrow> world \<Rightarrow> bool" where
  "mode_core mode w \<longleftrightarrow> cmd_invar (md_cmd mode) \<and> pool_ok (md_pool mode) w"

text \<open>While there may be more tokens, the tokenizer is ready too.\<close>

definition mode_ok :: "xargs_mode \<Rightarrow> world \<Rightarrow> bool" where
  "mode_ok mode w \<longleftrightarrow> mode_core mode w \<and> toker_ready (md_toker mode)
     \<and> toker_error (md_toker mode) = TOKENIZER_ERR_NONE"

text \<open>What is left of the input, as tokens and the final error.\<close>

abbreviation md_rest :: "xargs_mode \<Rightarrow> byte list" where
  "md_rest mode \<equiv> in_rest (md_arg_source mode)"

definition md_lexer :: "platform \<Rightarrow> xargs_mode \<Rightarrow> byte list \<Rightarrow> lexed" where
  "md_lexer E mode = toker_lexer E (md_toker mode) (in_error (md_arg_source mode))"

definition mode_tokens :: "platform \<Rightarrow> xargs_mode \<Rightarrow> (cstr \<times> bool) list \<times> tokenizer_error" where
  "mode_tokens E mode = lex_all (md_lexer E mode) (md_rest mode)"

text \<open>The memory a run may need is bounded by its input: each byte pays for four units.\<close>

definition budget :: "xargs_mode \<Rightarrow> nat" where
  "budget mode = args_bytes (cm_input (md_cmd mode)) + length (pool_pids (md_pool mode))
     + 4 * length (md_rest mode)"

text \<open>The mode after reading on to \<open>rest\<close>, a line end seen if \<open>b\<close>.\<close>

definition advanced :: "platform \<Rightarrow> xargs_mode \<Rightarrow> bool \<Rightarrow> byte list \<Rightarrow> xargs_mode \<Rightarrow> bool" where
  "advanced E mode b rest mode' \<longleftrightarrow> md_impl mode' = md_impl mode \<and> md_pool mode' = md_pool mode
     \<and> md_arg_source mode' = (md_arg_source mode)\<lparr>in_rest := rest\<rparr>
     \<and> md_cmd mode' = (if b then increment_line_count (md_cmd mode) else md_cmd mode)"

lemma next_token_yields:
  assumes ok: "mode_ok mode w" and c: "copes E S (length (md_rest mode) + 1)"
  shows "yields S (xargs_mode_next_token E mode) (\<lambda>(out, mode').
    case md_lexer E mode (md_rest mode) of
      Token t b rest \<Rightarrow> out = Some t \<and> advanced E mode b rest mode' \<and> mode_ok mode' w
        \<and> md_lexer E mode' = md_lexer E mode
    | Stop e b rest \<Rightarrow> out = None \<and> advanced E mode b rest mode'
        \<and> toker_error (md_toker mode') = e)"
proof -
  let ?f = "md_arg_source mode"
  have inc: "cmd_invar (increment_line_count (md_cmd mode))"
    using ok by (simp add: mode_ok_def mode_core_def increment_line_count_def command_increment_line_count_def
        cmd_invar_def)
  have "toker_ready (md_toker mode)" using ok by (simp add: mode_ok_def mode_core_def)
  from any.next_token_spec [OF this c, of increment_line_count "md_cmd mode"] show ?thesis
    using ok inc unfolding xargs_mode_next_token_def yields_rbind
    by (elim yields_conseq)
      (auto simp: md_lexer_def advanced_def mode_ok_def mode_core_def split: lexed.splits)
qed

section \<open>Running the command\<close>

text \<open>
  \<open>executed E mode w mode' w'\<close>: either the pool had halted and only waiting took place, or
  the command was started and an empty one is left; the number of children is in bounds.
\<close>

definition executed :: "platform \<Rightarrow> xargs_mode \<Rightarrow> world \<Rightarrow> xargs_mode \<Rightarrow> world \<Rightarrow> bool" where
  "executed E mode w mode' w' \<longleftrightarrow>
     mode_core mode' w' \<and> same_host w w' \<and> md_impl mode' = md_impl mode
     \<and> md_toker mode' = md_toker mode \<and> md_arg_source mode' = md_arg_source mode
     \<and> same_command (md_cmd mode) (md_cmd mode')
     \<and> length (pool_pids (md_pool mode')) \<le> Suc (length (pool_pids (md_pool mode)))
     \<and> (pl_max_procs (md_pool mode') = 0
        \<or> length (pool_pids (md_pool mode')) \<le> unat (pl_max_procs (md_pool mode')))
     \<and> prefix (reaped (w_log w)) (reaped (w_log w'))
     \<and> (if xargs_mode_halted mode'
        then md_cmd mode' = md_cmd mode \<and> spawns E (md_kind mode) w w' []
        else spawns E (md_kind mode) w w' [cmd_argv (md_cmd mode)] \<and> cm_input (md_cmd mode') = []
          \<and> cm_line_count (md_cmd mode') = 0
          \<and> (cm_arg_placeholder (md_cmd mode) \<noteq> None \<longrightarrow> cm_replaced (md_cmd mode') = []))"

lemma execute_command_yields:
  assumes ok: "mode_core mode w" and len: "length (cmd_argv (md_cmd mode)) < 2 ^ 58 - 1"
    and bytes: "args_bytes (cmd_argv (md_cmd mode)) < 2 ^ 62"
    and pids: "length (pool_pids (md_pool mode)) < 2 ^ 58"
    and c: "copes E S (2 ^ 58)" and T: "S \<times> UNIV \<subseteq> T" and f: "fork_copes T w"
  shows "yields T (xargs_mode_execute_command E mode w)
    (\<lambda>(mode', w'). executed E mode w mode' w')"
proof -
  have c': "copes E S n" if "n \<le> 2 ^ 58" for n using c that by (rule copes_le)
  have pok: "pool_ok (md_pool mode) w" and inv: "cmd_invar (md_cmd mode)"
    using ok by (simp_all add: mode_core_def)
  show ?thesis
    unfolding xargs_mode_execute_command_def
  proof (rule yields_rbindI, rule yields_mono,
      rule process_pool_wait_if_full_yields [OF pok c' [of 0]])
    show "S \<times> UNIV \<subseteq> T" by (rule T)
    fix x
    assume "case x of (q, v) \<Rightarrow> pool_ok q v \<and> wait_effect w v
      \<and> (pl_max_procs q = 0 \<longleftrightarrow> pl_max_procs (md_pool mode) = 0)
      \<and> (pl_max_procs q = 0 \<or> pl_count q < pl_max_procs q)"
    then obtain q v where x: "x = (q, v)" "pool_ok q v" "wait_effect w v"
      "pl_max_procs q = 0 \<or> pl_count q < pl_max_procs q" by blast
    have fewer: "length (pool_pids q) \<le> length (pool_pids (md_pool mode))"
      using pok x(2,3) by (rule children_fewer)
    have qinv: "pool_invar q" using x(2) by (simp add: pool_ok_def)
    have cnt: "length (pool_pids q) = unat (pl_count q)" using qinv by (rule length_pool_pids)
    show "yields T (case x of (pool, w) \<Rightarrow>
        let mode = mode\<lparr>md_pool := pool\<rparr> in
        if process_pool_halted pool then Inr (mode, w)
        else rbind (command_execute_async E (md_cmd mode) w) (\<lambda>(pid, cmd, w).
             rbind (lift w (process_pool_submit E pool pid)) (\<lambda>pool.
             Inr (mode\<lparr>md_cmd := cmd, md_pool := pool\<rparr>, w))))
        (\<lambda>(mode', w'). executed E mode w mode' w')"
    proof (cases "pl_halt q")
      case True
      then show ?thesis
        using x ok fewer wait_effect_same_host [OF x(3)] spawns_Nil [OF x(3)] cnt
        by (auto simp: executed_def wait_effect_def process_pool_halted_def xargs_mode_halted_def mode_core_def
            size_less_unat)
    next
      case False
      have fv: "fork_copes T v"
        using f same_host_fork_copes [OF wait_effect_same_host [OF x(3)]] by simp
      have "yields T (rbind (command_execute_async E (md_cmd mode) v) (\<lambda>(pid, cmd, w).
          rbind (lift w (process_pool_submit E q pid)) (\<lambda>pool.
          Inr (mode\<lparr>md_cmd := cmd, md_pool := pool\<rparr>, w))))
        (\<lambda>(mode', w'). executed E mode w mode' w')"
      proof (rule yields_rbindI, rule command_execute_async_yields [OF inv len bytes c' T fv])
        fix y
        assume "case y of (pid, cmd', w') \<Rightarrow> started E (md_cmd mode) v pid w' \<and> cmd_invar cmd'
          \<and> same_command (md_cmd mode) cmd' \<and> cm_input cmd' = [] \<and> cm_line_count cmd' = 0
          \<and> (if cm_arg_placeholder (md_cmd mode) = None
             then cm_replaced_fixed_args cmd' = cm_replaced_fixed_args (md_cmd mode)
             else cm_replaced cmd' = [])"
        then obtain pid cmd' u where y: "y = (pid, cmd', u)" "started E (md_cmd mode) v pid u"
          "cmd_invar cmd'" "same_command (md_cmd mode) cmd'" "cm_input cmd' = []"
          "cm_line_count cmd' = 0"
          "cm_arg_placeholder (md_cmd mode) \<noteq> None \<longrightarrow> cm_replaced cmd' = []"
          by (auto split: if_splits)
        have sub: "yields T (lift u (process_pool_submit E q pid)) (submitted q pid)"
          by (rule yields_mono, rule yields_lift, rule process_pool_submit_yields [OF qinv])
            (use fewer pids T in \<open>auto intro: c'\<close>)
        have sp: "spawns E (md_kind mode) w u [cmd_argv (md_cmd mode)]"
          using spawns_trans [OF spawns_Nil [OF x(3)] started_spawns [OF y(2)]] by simp
        have re: "prefix (reaped (w_log w)) (reaped (w_log u))"
          using x(3) y(2) by (simp add: wait_effect_def started_def)
        have sh: "same_host w u"
          using wait_effect_same_host [OF x(3)] y(2) by (auto simp: same_host_def started_def)
        have "executed E mode w (mode\<lparr>md_cmd := cmd', md_pool := p\<rparr>) u" if p: "submitted q pid p" for p
          using started_submitted_ok [OF x(2) y(2) p] p ok y False sp sh re fewer x(4) cnt
          by (auto simp: executed_def mode_core_def xargs_mode_halted_def process_pool_halted_def
              submitted_def size_less_unat)
        then show "yields T (case y of (pid, cmd, w) \<Rightarrow>
            rbind (lift w (process_pool_submit E q pid)) (\<lambda>pool.
            Inr (mode\<lparr>md_cmd := cmd, md_pool := pool\<rparr>, w)))
          (\<lambda>(mode', w'). executed E mode w mode' w')"
          unfolding y(1) prod.case yields_rbind
          by (intro yields_conseq [OF sub]) simp
      qed simp
      with False x(1) show ?thesis by (simp add: process_pool_halted_def)
    qed
  qed simp
qed

text \<open>A pool that halted stays halted: the child that exited with 255 stays reaped.\<close>

lemma halted_iff:
  "mode_core mode w \<Longrightarrow> xargs_mode_halted mode \<longleftrightarrow> (\<exists>st \<in> snd ` set (reaped (w_log w)). halting st)"
  by (simp add: mode_core_def pool_ok_def pool_world_def xargs_mode_halted_def
      process_pool_halted_def)

lemma halted_stays:
  assumes "mode_core mode w" and "mode_core mode' w'" and "xargs_mode_halted mode"
    and "prefix (reaped (w_log w)) (reaped (w_log w'))"
  shows "xargs_mode_halted mode'"
  using assms(3) set_mono_prefix [OF assms(4)]
  unfolding halted_iff [OF assms(1)] halted_iff [OF assms(2)] by blast

section \<open>Draining and exiting\<close>

text \<open>Every child was reaped, and nothing else was started.\<close>

definition all_reaped :: "world \<Rightarrow> bool" where
  "all_reaped w \<longleftrightarrow> w_children w = [] \<and> mset (reaped (w_log w)) = mset (forked (w_log w))"

definition final_status :: "world \<Rightarrow> int" where
  "final_status w = exit_code (worst (map snd (reaped (w_log w))))"

lemma mode_drain_yields:
  assumes "pool_ok (md_pool mode) w"
  shows "yields {} (xargs_mode_drain E mode w) (\<lambda>(status, mode', w'). wait_effect w w'
    \<and> all_reaped w' \<and> status = final_status w' \<and> pool_ok (md_pool mode') w'
    \<and> pl_count (md_pool mode') = 0)"
proof -
  obtain st p v where p: "process_pool_drain E (md_pool mode) w = Inr (st, p, v)"
      "drained (md_pool mode) w st v" "reaps (md_pool mode) w (p, v)" "pl_count p = 0"
    using process_pool_drain_yields [of "md_pool mode" w E] assms
    by (auto simp: pool_ok_def yields_empty)
  have ok: "pool_ok p v" "wait_effect w v" using reaps_ok [OF assms p(3)] by simp_all
  have "mset (reaped (w_log v)) = mset (forked (w_log v))"
    using p(2) by (simp add: drained_def reap_effect_def)
  with p ok show ?thesis
    by (simp add: xargs_mode_drain_def all_reaped_def final_status_def drained_def)
qed

lemma drain_and_exit_yields:
  assumes ok: "pool_ok (md_pool mode) w"
    and T: "\<And>w'. wait_effect w w' \<Longrightarrow> all_reaped w' \<Longrightarrow> (Exit EXIT_FAILURE d, w') \<in> T"
  shows "yields T (drain_and_exit E mode d w) Q"
proof -
  obtain st m v where "xargs_mode_drain E mode w = Inr (st, m, v)" "wait_effect w v" "all_reaped v"
    using mode_drain_yields [OF ok, of E] by (auto simp: yields_empty)
  with T show ?thesis by (simp add: drain_and_exit_def)
qed

section \<open>The end of a run\<close>

text \<open>How the run of a mode may end, given the commands \<open>xs\<close> of its plan and its verdict.\<close>

definition fails_as_planned :: "platform \<Rightarrow> child_kind \<Rightarrow> world \<Rightarrow> cstr list list \<times> diagnostic option \<Rightarrow> (stop \<times> world) set" where
  "fails_as_planned E k w v = {(Exit EXIT_FAILURE d, w') | d w'. snd v = Some d \<and> spawns E k w w' (fst v)
     \<and> (d = Input_error \<longrightarrow> all_reaped w')}"

definition runs_as_planned :: "platform \<Rightarrow> child_kind \<Rightarrow> world \<Rightarrow> cstr list list \<times> diagnostic option
    \<Rightarrow> int \<times> xargs_mode \<times> world \<Rightarrow> bool" where
  "runs_as_planned E k w v = (\<lambda>(status, mode', w'). all_reaped w' \<and> status = final_status w'
     \<and> (\<exists>ps. prefix ps (fst v) \<and> spawns E k w w' ps)
     \<and> ((\<forall>st \<in> snd ` set (reaped (w_log w')). \<not> halting st) \<longrightarrow> snd v = None \<and> spawns E k w w' (fst v)))"

lemma or_status_zero [simp]: "or EXIT_SUCCESS (k :: int) = k"
  by (simp add: EXIT_SUCCESS_def)

text \<open>Draining keeps what was spawned, and a halt.\<close>

lemma drain_status_yields:
  assumes "mode_core mode w"
  shows "yields T (rbind (xargs_mode_drain E mode w) (\<lambda>(status, mode, w).
      Inr (or EXIT_SUCCESS status, mode, w)))
    (\<lambda>(status, mode', w'). all_reaped w' \<and> status = final_status w' \<and> wait_effect w w')"
proof -
  obtain st m v where "xargs_mode_drain E mode w = Inr (st, m, v)" "wait_effect w v" "all_reaped v"
      "st = final_status v"
    using mode_drain_yields [of mode w E] assms by (auto simp: yields_empty mode_core_def)
  then show ?thesis by simp
qed

lemma drain_planned:
  assumes core: "mode_core mode w1" and sp: "spawns E k w w1 ps" and pre: "prefix ps (fst v)"
    and full: "\<not> xargs_mode_halted mode \<Longrightarrow> snd v = None \<and> ps = fst v"
  shows "yields T (rbind (xargs_mode_drain E mode w1) (\<lambda>(status, mode, w).
      Inr (or EXIT_SUCCESS status, mode, w))) (runs_as_planned E k w v)"
proof (rule yields_conseq [OF drain_status_yields [OF core]])
  fix x :: "int \<times> xargs_mode \<times> world"
  assume "case x of (status, mode', w') \<Rightarrow> all_reaped w' \<and> status = final_status w' \<and> wait_effect w1 w'"
  then obtain mode' w' where x: "x = (final_status w', mode', w')" "all_reaped w'" "wait_effect w1 w'"
    by (cases x) auto
  have sp': "spawns E k w w' ps" using spawns_trans [OF sp spawns_Nil [OF x(3)]] by simp
  moreover have "set (reaped (w_log w1)) \<subseteq> set (reaped (w_log w'))"
    using x(3) by (simp add: wait_effect_def set_mono_prefix)
  then have "\<not> xargs_mode_halted mode" if "\<forall>st \<in> snd ` set (reaped (w_log w')). \<not> halting st"
    using that halted_iff [OF core] by auto
  ultimately show "runs_as_planned E k w v x"
    using x pre full by (auto simp: runs_as_planned_def)
qed

end
