(* ===== verification/Appender_Correct.thy ===== *)
theory Appender_Correct
  imports Mode_Correct
begin

text \<open>
  Correctness of \<^verbatim>\<open>src/appender_mode.c\<close>: the loop always ends, and the commands it starts are
  the batches of the plan, in order.
\<close>

section \<open>One token\<close>

text \<open>Adding an argument to the command of a mode.\<close>

lemma add_argument_yields:
  assumes ok: "mode_core mode w" and t: "arg_ok t"
    and n: "args_bytes (cm_input (md_cmd mode)) < 2 ^ 58" and c: "copes E S (2 ^ 58)"
  shows "yields S (xargs_mode_add_input_argument E mode t) (\<lambda>mode'. \<exists>a.
    mode' = mode\<lparr>md_cmd := (md_cmd mode)\<lparr>cm_input_args := a\<rparr>\<rparr>
    \<and> args_list a = cm_input (md_cmd mode) @ [t] \<and> mode_core mode' w)"
proof -
  have len: "length (cm_input (md_cmd mode)) < 2 ^ 58"
    using args_bytes_length [of "cm_input (md_cmd mode)"] n by simp
  have "yields S (command_args_add E (cm_input_args (md_cmd mode)) t)
      (\<lambda>a. args_invar a \<and> args_list a = cm_input (md_cmd mode) @ [t])"
    by (rule command_args_add_yields)
      (use ok t len in \<open>auto simp: mode_core_def cmd_invar_def intro: copes_le [OF c]\<close>)
  then show ?thesis
    using ok
    by (auto simp: xargs_mode_add_input_argument_def command_add_input_argument_def mode_core_def
        cmd_invar_def elim!: yields_conseq)
qed

text \<open>The argument vector of one batch.\<close>

definition batch_argv :: "command \<Rightarrow> cstr list \<Rightarrow> cstr list" where
  "batch_argv cmd b = cm_fixed cmd @ b"

lemma cmd_argv_batch: "cm_arg_placeholder cmd = None \<Longrightarrow> cmd_argv cmd = batch_argv cmd (cm_input cmd)"
  by (simp add: cmd_argv_def batch_argv_def fixed_args_in_play_def)

lemma batch_argv_same: "same_command cmd cmd' \<Longrightarrow> batch_argv cmd' = batch_argv cmd"
  by (drule same_command_fields) (simp add: batch_argv_def fun_eq_iff)

text \<open>Running the open batch of a mode without placeholder.\<close>

definition appendable :: "xargs_mode \<Rightarrow> world \<Rightarrow> bool" where
  "appendable mode w \<longleftrightarrow> mode_core mode w \<and> cm_arg_placeholder (md_cmd mode) = None"

definition appending :: "xargs_mode \<Rightarrow> world \<Rightarrow> bool" where
  "appending mode w \<longleftrightarrow> appendable mode w \<and> \<not> xargs_mode_halted mode"

lemma execute_batch_yields:
  assumes m: "appendable mode w"
    and b: "args_bytes (cm_input (md_cmd mode)) + length (pool_pids (md_pool mode)) < 2 ^ 57 - 1"
    and c: "copes E S (2 ^ 58)" and T: "S \<times> UNIV \<subseteq> T" and f: "fork_copes T w"
  shows "yields T (xargs_mode_execute_command E mode w) (\<lambda>(mode', w'). executed E mode w mode' w'
    \<and> (xargs_mode_halted mode' \<longrightarrow> spawns E (md_kind mode) w w' [])
    \<and> (\<not> xargs_mode_halted mode' \<longrightarrow> appending mode' w'
       \<and> spawns E (md_kind mode) w w' [batch_argv (md_cmd mode) (cm_input (md_cmd mode))]))"
proof -
  let ?cmd = "md_cmd mode"
  have inv: "cmd_invar ?cmd" using m by (simp add: appendable_def mode_core_def)
  have argv: "cmd_argv ?cmd = cm_fixed ?cmd @ cm_input ?cmd"
    using m by (simp add: appendable_def cmd_argv_batch batch_argv_def)
  have "length (cmd_argv ?cmd) < 2 ^ 58 - 1"
    using inv b args_bytes_length [of "cm_input ?cmd"] by (simp add: argv cmd_invar_def)
  moreover have "args_bytes (cmd_argv ?cmd) < 2 ^ 62"
    using inv b by (simp add: argv cmd_invar_def)
  ultimately have "yields T (xargs_mode_execute_command E mode w)
      (\<lambda>(mode', w'). executed E mode w mode' w')"
    using m b by (intro execute_command_yields [OF _ _ _ _ c T f]) (auto simp: appendable_def appending_def)
  then show ?thesis
  proof (rule yields_conseq)
    fix x
    assume x: "case x of (mode', w') \<Rightarrow> executed E mode w mode' w'"
    show "case x of (mode', w') \<Rightarrow> executed E mode w mode' w'
        \<and> (xargs_mode_halted mode' \<longrightarrow> spawns E (md_kind mode) w w' [])
        \<and> (\<not> xargs_mode_halted mode' \<longrightarrow> appending mode' w'
          \<and> spawns E (md_kind mode) w w' [batch_argv (md_cmd mode) (cm_input (md_cmd mode))])"
    proof (cases x)
      case (Pair mode' w')
      have "cm_arg_placeholder (md_cmd mode') = None"
        using x Pair m same_command_fields [of ?cmd "md_cmd mode'"]
        by (auto simp: executed_def appendable_def appending_def)
      then show ?thesis
        using x Pair m cmd_argv_batch [of ?cmd] by (auto simp: executed_def appendable_def appending_def)
    qed
  qed
qed

text \<open>
  The effect of one token on the open batch, as in the plan: the batches it completes,
  the batch left open, the lines in it.
\<close>

definition joined :: "limits \<Rightarrow> cstr list \<Rightarrow> cstr \<Rightarrow> cstr list" where
  "joined L cur t = (if closes_before L cur t then [] else cur) @ [t]"

definition closed_first :: "limits \<Rightarrow> cstr list \<Rightarrow> cstr \<Rightarrow> cstr list list" where
  "closed_first L cur t = (if closes_before L cur t then [cur] else [])"

definition overruns :: "limits \<Rightarrow> cstr list \<Rightarrow> bool" where
  "overruns L cur \<longleftrightarrow> lm_terminate L \<and> lm_base L + args_bytes cur > lm_max_length L"

text \<open>\<open>n\<close> counts the lines, that of the token included if it ended one.\<close>

definition lines_now :: "limits \<Rightarrow> cstr list \<Rightarrow> nat \<Rightarrow> cstr \<Rightarrow> nat" where
  "lines_now L cur n t = (if closes_before L cur t then 0 else n)"

definition completed :: "limits \<Rightarrow> cstr list \<Rightarrow> nat \<Rightarrow> cstr \<Rightarrow> cstr list list" where
  "completed L cur n t = closed_first L cur t
     @ (if lm_max_lines L = Some (lines_now L cur n t) then [joined L cur t] else [])"

lemma plan_Cons:
  "plan L cur n ((t, b) # ts) =
     (if cur = [] \<and> over_size L cur t then ([], Refused)
      else if overruns L (joined L cur t) then (closed_first L cur t, Overrun)
      else let n1 = (if b then n + 1 else n) in
        if lm_max_lines L = Some (lines_now L cur n1 t)
        then (case plan L [] 0 ts of (bs, e) \<Rightarrow> (completed L cur n1 t @ bs, e))
        else (case plan L (joined L cur t) (lines_now L cur n1 t) ts of
            (bs, e) \<Rightarrow> (completed L cur n1 t @ bs, e)))"
  by (auto simp: Let_def joined_def closed_first_def overruns_def lines_now_def completed_def
      split: prod.splits)

text \<open>The state a step leaves behind.\<close>

definition stepped :: "platform \<Rightarrow> xargs_mode \<Rightarrow> world \<Rightarrow> cstr \<Rightarrow> bool \<times> xargs_mode \<times> world \<Rightarrow> bool" where
  "stepped E mode w t = (\<lambda>(stopped, mode', w').
     let L = limits_of (md_cmd mode); cur = cm_input (md_cmd mode);
         n = unat (cm_line_count (md_cmd mode));
         done = map (batch_argv (md_cmd mode)) (completed L cur n t)
     in same_host w w' \<and> mode_core mode' w' \<and> same_command (md_cmd mode) (md_cmd mode')
       \<and> md_toker mode' = md_toker mode \<and> md_arg_source mode' = md_arg_source mode
       \<and> md_impl mode' = md_impl mode
       \<and> args_bytes (cm_input (md_cmd mode')) + length (pool_pids (md_pool mode'))
         \<le> args_bytes cur + length (pool_pids (md_pool mode)) + length t + 3
       \<and> (if stopped then xargs_mode_halted mode' \<and> (\<exists>ps. prefix ps (if overruns L (joined L cur t) then [] else done) \<and> spawns E (md_kind mode) w w' ps)
          else appending mode' w' \<and> spawns E (md_kind mode) w w' done
            \<and> (if lm_max_lines L = Some (lines_now L cur n t)
               then cm_input (md_cmd mode') = [] \<and> cm_line_count (md_cmd mode') = 0
               else cm_input (md_cmd mode') = joined L cur t
                 \<and> unat (cm_line_count (md_cmd mode')) = lines_now L cur n t)))"

lemma executed_fields:
  "executed E mode w mode' w' \<Longrightarrow> mode_core mode' w' \<and> same_host w w' \<and> md_impl mode' = md_impl mode
     \<and> md_toker mode' = md_toker mode \<and> md_arg_source mode' = md_arg_source mode
     \<and> same_command (md_cmd mode) (md_cmd mode')
     \<and> length (pool_pids (md_pool mode')) \<le> Suc (length (pool_pids (md_pool mode)))"
  by (simp add: executed_def)

text \<open>First half: close the batch if the token does not join it.\<close>

definition made_room :: "platform \<Rightarrow> xargs_mode \<Rightarrow> world \<Rightarrow> bool \<Rightarrow> xargs_mode \<times> world \<Rightarrow> bool" where
  "made_room E mode w c = (\<lambda>(mode', w').
     mode_core mode' w' \<and> same_host w w' \<and> md_impl mode' = md_impl mode
     \<and> md_toker mode' = md_toker mode \<and> md_arg_source mode' = md_arg_source mode
     \<and> same_command (md_cmd mode) (md_cmd mode')
     \<and> length (pool_pids (md_pool mode')) \<le> Suc (length (pool_pids (md_pool mode)))
     \<and> (if c \<and> xargs_mode_halted mode' then spawns E (md_kind mode) w w' [] \<and> cm_input (md_cmd mode') = cm_input (md_cmd mode)
        else appending mode' w'
          \<and> cm_input (md_cmd mode') = (if c then [] else cm_input (md_cmd mode))
          \<and> cm_line_count (md_cmd mode') = (if c then 0 else cm_line_count (md_cmd mode))
          \<and> spawns E (md_kind mode) w w' (if c then [batch_argv (md_cmd mode) (cm_input (md_cmd mode))] else [])))"

lemma make_room_yields:
  assumes m: "appending mode w"
    and b: "args_bytes (cm_input (md_cmd mode)) + length (pool_pids (md_pool mode)) < 2 ^ 57 - 1"
    and c: "copes E S (2 ^ 58)" and T: "S \<times> UNIV \<subseteq> T" and f: "fork_copes T w"
  shows "yields T (if c then xargs_mode_execute_command E mode w else Inr (mode, w))
    (made_room E mode w c)"
proof (cases c)
  case True
  show ?thesis
    unfolding if_P [OF True]
    by (rule yields_conseq [OF execute_batch_yields [OF _ b \<open>copes E S (2 ^ 58)\<close> T f]])
      (use True m in \<open>auto simp: made_room_def executed_def appending_def\<close>)
next
  case False
  with m show ?thesis
    by (auto simp: made_room_def appending_def appendable_def)
qed

lemma appender_step_yields:
  assumes m: "appending mode w" and t: "arg_ok t"
    and b: "args_bytes (cm_input (md_cmd mode)) + length (pool_pids (md_pool mode)) + length t
      < 2 ^ 57 - 4"
    and c: "copes E S (2 ^ 58)" and T: "S \<times> UNIV \<subseteq> T" and f: "fork_copes T w"
  defines "cmd \<equiv> md_cmd mode" and "L \<equiv> limits_of (md_cmd mode)" and "cur \<equiv> cm_input (md_cmd mode)"
  assumes refused: "cur = [] \<and> over_size L cur t \<Longrightarrow> (Exit EXIT_FAILURE Command_too_long, w) \<in> T"
    and overrun: "\<And>w'. \<not> (cur = [] \<and> over_size L cur t) \<Longrightarrow> overruns L (joined L cur t) \<Longrightarrow>
      spawns E (md_kind mode) w w' (map (batch_argv cmd) (closed_first L cur t)) \<Longrightarrow> all_reaped w' \<Longrightarrow>
      (Exit EXIT_FAILURE Command_too_long, w') \<in> T"
  shows "yields T (appender_step E mode t w)
    (\<lambda>r. \<not> (cur = [] \<and> over_size L cur t) \<and> (fst r \<or> \<not> overruns L (joined L cur t))
      \<and> stepped E mode w t r)"
proof (cases "cur = [] \<and> over_size L cur t")
  case True
  have eq: "xargs_mode_arg_would_exceed_limits mode t =
      (if cur = [] \<and> over_size L cur t then Inl (Exit EXIT_FAILURE Command_too_long)
       else Inr (closes_before L cur t))"
    unfolding xargs_mode_arg_would_exceed_limits_def L_def cur_def
    by (rule would_exceed_limits_eq) (use m b in \<open>auto simp: appending_def appendable_def mode_core_def\<close>)
  then have "xargs_mode_arg_would_exceed_limits mode t = Inl (Exit EXIT_FAILURE Command_too_long)"
    unfolding if_P [OF True] .
  with refused [OF True] show ?thesis by (simp add: appender_step_def)
next
  case fits: False
  let ?c = "closes_before L cur t"
  have ex: "xargs_mode_arg_would_exceed_limits mode t =
      (if cur = [] \<and> over_size L cur t then Inl (Exit EXIT_FAILURE Command_too_long) else Inr ?c)"
    unfolding xargs_mode_arg_would_exceed_limits_def L_def cur_def
    by (rule would_exceed_limits_eq) (use m b in \<open>auto simp: appending_def appendable_def mode_core_def\<close>)
  have b1: "args_bytes (cm_input (md_cmd mode)) + length (pool_pids (md_pool mode)) < 2 ^ 57 - 1"
    using b by simp
  show ?thesis
    unfolding appender_step_def ex if_not_P [OF fits] lift_simps rbind_simps
  proof (rule yields_rbindI [OF make_room_yields [OF m b1 c T f]])
    fix x assume "made_room E mode w ?c x"
    then obtain mode2 w2 where x: "x = (mode2, w2)" "made_room E mode w ?c (mode2, w2)"
      by (cases x) auto
    have same: "same_host w w2" "md_impl mode2 = md_impl mode" "md_toker mode2 = md_toker mode"
      "md_arg_source mode2 = md_arg_source mode" "same_command (md_cmd mode) (md_cmd mode2)"
      "length (pool_pids (md_pool mode2)) \<le> Suc (length (pool_pids (md_pool mode)))"
      "mode_core mode2 w2"
      using x(2) by (simp_all add: made_room_def)
    have L2: "limits_of (md_cmd mode2) = L" using same(5) by (simp add: limits_of_same L_def)
    have argv2: "batch_argv (md_cmd mode2) = batch_argv cmd"
      using same(5) by (simp add: batch_argv_same cmd_def)
    let ?rest = "\<lambda>mode w. rbind (lift w (xargs_mode_add_input_argument E mode t)) (\<lambda>mode.
       rbind (xargs_mode_should_execute_command_after_arg_added E mode w) (\<lambda>now.
       if now
       then rbind (xargs_mode_execute_command E mode w) (\<lambda>(mode, w).
            Inr (xargs_mode_halted mode, mode, w))
       else Inr (False, mode, w)))"
    let ?Q = "\<lambda>r. \<not> (cur = [] \<and> over_size L cur t) \<and> (fst r \<or> \<not> overruns L (joined L cur t))
      \<and> stepped E mode w t r"
    have "yields T (if ?c \<and> xargs_mode_halted mode2 then Inr (True, mode2, w2) else ?rest mode2 w2) ?Q"
    proof (cases "?c \<and> xargs_mode_halted mode2")
      case True
      have "spawns E (md_kind mode) w w2 []" using True x(2) by (simp add: made_room_def)
      then have none: "\<exists>ps. prefix ps ds \<and> spawns E (md_kind mode) w w2 ps" for ds :: "cstr list list"
        by (intro exI [of _ "[]"]) simp
      show ?thesis
        using True x(2) same fits by (auto simp: made_room_def stepped_def Let_def none)
    next
      case False
      then have r: "appending mode2 w2" "cm_input (md_cmd mode2) = (if ?c then [] else cur)"
        "cm_line_count (md_cmd mode2) = (if ?c then 0 else cm_line_count cmd)"
        "spawns E (md_kind mode) w w2 (map (batch_argv cmd) (closed_first L cur t))"
        using x(2) by (auto simp: made_room_def closed_first_def cmd_def cur_def)
      have small: "args_bytes (cm_input (md_cmd mode2)) + length (pool_pids (md_pool mode2))
          + length t < 2 ^ 57 - 3"
        using b same(6) r(2) by (simp add: cur_def)
      have add: "yields T (lift w2 (xargs_mode_add_input_argument E mode2 t)) (\<lambda>mode'. \<exists>a.
          mode' = mode2\<lparr>md_cmd := (md_cmd mode2)\<lparr>cm_input_args := a\<rparr>\<rparr>
          \<and> args_list a = joined L cur t \<and> mode_core mode' w2)"
        by (rule yields_mono [OF yields_lift [OF add_argument_yields [OF same(7) t _ c]] T])
          (use small r(2) in \<open>auto simp: joined_def\<close>)
      show ?thesis
        unfolding if_not_P [OF False]
      proof (rule yields_rbindI [OF add])
        fix mode3
        assume "\<exists>a. mode3 = mode2\<lparr>md_cmd := (md_cmd mode2)\<lparr>cm_input_args := a\<rparr>\<rparr>
          \<and> args_list a = joined L cur t \<and> mode_core mode3 w2"
        then obtain a where a: "mode3 = mode2\<lparr>md_cmd := (md_cmd mode2)\<lparr>cm_input_args := a\<rparr>\<rparr>"
          "args_list a = joined L cur t" "mode_core mode3 w2" by blast
        have in3: "cm_input (md_cmd mode3) = joined L cur t" using a by simp
        have same3: "same_command (md_cmd mode) (md_cmd mode3)" using a(1) same(5) by simp
        have L3: "limits_of (md_cmd mode3) = L" using same3 by (simp add: limits_of_same L_def)
        have argv3: "batch_argv (md_cmd mode3) = batch_argv cmd"
          using same3 by (simp add: batch_argv_same cmd_def)
        have kind3: "md_kind mode3 = md_kind mode" using same3 by (rule kind_of_same)
        have app3: "appending mode3 w2"
          using r(1) a by (auto simp: appending_def appendable_def xargs_mode_halted_def)
        have pids3: "md_pool mode3 = md_pool mode2" using a(1) by simp
        have lc3: "cm_line_count (md_cmd mode3) = cm_line_count (md_cmd mode2)" using a(1) by simp
        have bytes3: "args_bytes (joined L cur t)
            = args_bytes (cm_input (md_cmd mode2)) + length t + 1"
          by (simp add: joined_def r(2))
        have n3: "unat (cm_line_count (md_cmd mode3)) = lines_now L cur (unat (cm_line_count cmd)) t"
          using r(3) by (simp add: lc3 lines_now_def)
        have inv3: "cmd_invar (md_cmd mode3)" using a(3) by (simp add: mode_core_def)
        have se: "command_should_execute_after_arg_added (md_cmd mode3) =
            (if overruns L (joined L cur t) then -1
             else if lm_max_lines L = Some (lines_now L cur (unat (cm_line_count cmd)) t) then 1 else 0)"
          using should_execute_eq [OF inv3] small
          by (simp add: in3 L3 n3 bytes3 overruns_def)
        have args3: "args_bytes (joined L cur t) + length (pool_pids (md_pool mode3)) < 2 ^ 57 - 1"
          using small by (simp add: bytes3 pids3)
        show "yields T (rbind (xargs_mode_should_execute_command_after_arg_added E mode3 w2) (\<lambda>now.
            if now
            then rbind (xargs_mode_execute_command E mode3 w2) (\<lambda>(mode, w).
                 Inr (xargs_mode_halted mode, mode, w))
            else Inr (False, mode3, w2))) ?Q"
        proof (cases "overruns L (joined L cur t)")
          case True
          have "yields T (drain_and_exit E mode3 Command_too_long w2) R" for R :: "bool \<Rightarrow> bool"
            using a(3)
            by (intro drain_and_exit_yields overrun [OF fits True])
              (auto simp: mode_core_def dest: spawns_Nil intro: spawns_trans [OF r(4), where ys = "[]", simplified])
          with True show ?thesis
            by (simp add: xargs_mode_should_execute_command_after_arg_added_def se)
        next
          case ok: False
          show ?thesis
          proof (cases "lm_max_lines L = Some (lines_now L cur (unat (cm_line_count cmd)) t)")
            case False
            have "stepped E mode w t (False, mode3, w2)"
              using same app3 a same3 r(4) False n3 in3 bytes3 pids3 r(2)
              by (simp add: stepped_def Let_def completed_def cmd_def L_def cur_def)
            with ok False fits show ?thesis
              by (simp add: xargs_mode_should_execute_command_after_arg_added_def se)
          next
            case True
            have f2: "fork_copes T w2" using f same_host_fork_copes [OF same(1)] by simp
            have ex3: "yields T (xargs_mode_execute_command E mode3 w2) (\<lambda>(mode', w').
                executed E mode3 w2 mode' w' \<and> (xargs_mode_halted mode' \<longrightarrow> spawns E (md_kind mode) w2 w' [])
                \<and> (\<not> xargs_mode_halted mode' \<longrightarrow> appending mode' w'
                  \<and> spawns E (md_kind mode) w2 w' [batch_argv cmd (joined L cur t)]))"
              using execute_batch_yields [OF _ _ c T f2, of mode3] app3 args3
              by (simp add: in3 argv3 kind3 appending_def)
            have st: "stepped E mode w t (xargs_mode_halted mode4, mode4, w4)"
              if e: "executed E mode3 w2 mode4 w4" "xargs_mode_halted mode4 \<longrightarrow> spawns E (md_kind mode) w2 w4 []"
                "\<not> xargs_mode_halted mode4 \<longrightarrow> appending mode4 w4
                  \<and> spawns E (md_kind mode) w2 w4 [batch_argv cmd (joined L cur t)]" for mode4 w4
            proof -
              have sh: "same_host w w4"
                using e(1) same(1) by (auto simp: executed_def intro: same_host_trans)
              have sc: "same_command (md_cmd mode) (md_cmd mode4)"
                using e(1) same3 by (auto simp: executed_def intro: same_command_trans)
              have "spawns E (md_kind mode) w w4 (map (batch_argv cmd) (closed_first L cur t))" if "xargs_mode_halted mode4"
                using spawns_trans [OF r(4)] e(2) that by fastforce
              moreover have "spawns E (md_kind mode) w w4 (map (batch_argv cmd)
                  (completed L cur (unat (cm_line_count cmd)) t))" if "\<not> xargs_mode_halted mode4"
                using spawns_trans [OF r(4)] e(3) that True by (simp add: completed_def)
              moreover have "prefix (map (batch_argv cmd) (closed_first L cur t))
                  (map (batch_argv cmd) (completed L cur (unat (cm_line_count cmd)) t))"
                by (simp add: completed_def)
              moreover have "args_bytes (cm_input (md_cmd mode4)) + length (pool_pids (md_pool mode4))
                  \<le> args_bytes cur + length (pool_pids (md_pool mode)) + length t + 3"
              proof -
                have "args_bytes (cm_input (md_cmd mode4)) \<le> args_bytes (joined L cur t)"
                  using e(1) by (auto simp: executed_def in3 split: if_splits)
                also have "\<dots> \<le> args_bytes cur + length t + 1" by (simp add: joined_def)
                finally show ?thesis
                  using executed_fields [OF e(1)] same(6) pids3 by simp
              qed
              ultimately show ?thesis
                using e(3) sh sc same(2-4) a(1) True ok executed_fields [OF e(1)] e(1)
                unfolding stepped_def Let_def prod.case L_def [symmetric] cur_def [symmetric]
                unfolding cmd_def [symmetric]
                by (auto simp: executed_def)
            qed
            have "yields T (rbind (xargs_mode_execute_command E mode3 w2) (\<lambda>(mode, w).
                Inr (xargs_mode_halted mode, mode, w))) (stepped E mode w t)"
              by (rule yields_rbindI [OF ex3]) (use st in \<open>clarify, simp only: prod.case yields_Inr\<close>)
            then show ?thesis
              using ok True fits
              by (auto simp: xargs_mode_should_execute_command_after_arg_added_def se
                  elim!: yields_conseq)
          qed
        qed
      qed
    qed
    then show "yields T (case x of (mode, w) \<Rightarrow>
        if ?c \<and> xargs_mode_halted mode then Inr (True, mode, w) else ?rest mode w) ?Q"
      by (simp only: x(1) prod.case)
  qed
qed

section \<open>The loop\<close>

definition lm :: "xargs_mode \<Rightarrow> limits" where
  "lm mode = limits_of (md_cmd mode)"

text \<open>The plan for what is left of the input, the open batch and its lines.\<close>

definition mode_plan :: "platform \<Rightarrow> xargs_mode \<Rightarrow> cstr list list \<times> plan_end" where
  "mode_plan E mode = plan (lm mode) (cm_input (md_cmd mode)) (unat (cm_line_count (md_cmd mode)))
     (fst (mode_tokens E mode))"

definition planned :: "platform \<Rightarrow> xargs_mode \<Rightarrow> cstr list list" where
  "planned E mode = map (batch_argv (md_cmd mode)) (fst (mode_plan E mode))"

text \<open>The ways the loop may stop the process although nothing failed: the plan says so.\<close>

definition too_long :: "platform \<Rightarrow> xargs_mode \<Rightarrow> world \<Rightarrow> (stop \<times> world) set" where
  "too_long E mode w = {(Exit EXIT_FAILURE Command_too_long, w') | w'.
     spawns E (md_kind mode) w w' (planned E mode)
     \<and> (snd (mode_plan E mode) = Refused
        \<or> snd (mode_plan E mode) = Overrun \<and> all_reaped w')}"

definition loop_done :: "platform \<Rightarrow> xargs_mode \<Rightarrow> world \<Rightarrow> xargs_mode \<times> bool \<times> world \<Rightarrow> bool" where
  "loop_done E mode w = (\<lambda>(mode', present, w').
     mode_core mode' w' \<and> same_host w w' \<and> md_impl mode' = md_impl mode
     \<and> same_command (md_cmd mode) (md_cmd mode')
     \<and> args_bytes (cm_input (md_cmd mode')) + length (pool_pids (md_pool mode')) \<le> budget mode
     \<and> (if xargs_mode_halted mode'
        then present \<and> toker_error (md_toker mode') = TOKENIZER_ERR_NONE
          \<and> (\<exists>ps. prefix ps (planned E mode) \<and> spawns E (md_kind mode) w w' ps)
        else appending mode' w' \<and> toker_error (md_toker mode') = snd (mode_tokens E mode)
          \<and> snd (mode_plan E mode) = Open (cm_input (md_cmd mode'))
          \<and> spawns E (md_kind mode) w w' (planned E mode)))"

text \<open>The tokens of a mode, by one step of its lexer.\<close>

lemma md_lexer_laws: "consumes (md_lexer E mode)" "fits (md_lexer E mode)"
  by (simp_all add: md_lexer_def any.lexer_consumes any.lexer_fits)

lemma mode_tokens_unfold:
  "mode_tokens E mode = (case md_lexer E mode (md_rest mode) of
      Token t b rest \<Rightarrow> (case lex_all (md_lexer E mode) rest of (ts, e) \<Rightarrow> ((t, b) # ts, e))
    | Stop e b rest \<Rightarrow> ([], e))"
  unfolding mode_tokens_def by (rule lex_all_unfold [OF md_lexer_laws(1)])

lemma token_facts:
  assumes "md_lexer E mode (md_rest mode) = Token t b rest" and "length (md_rest mode) < 2 ^ 58"
  shows "arg_ok t \<and> length rest < length (md_rest mode)
    \<and> length t + length rest \<le> length (md_rest mode)"
  using assms md_lexer_laws [of E mode] by (fastforce simp: arg_ok_def consumes_def fits_def)

lemma mode_tokens_advanced:
  assumes "md_lexer E mode (md_rest mode) = Token t b rest"
    and "md_lexer E mode' = md_lexer E mode" and "md_rest mode' = rest"
  shows "fst (mode_tokens E mode) = (t, b) # fst (mode_tokens E mode')"
    and "snd (mode_tokens E mode) = snd (mode_tokens E mode')"
proof -
  have "mode_tokens E mode' = lex_all (md_lexer E mode) rest"
    by (simp add: mode_tokens_def assms(2,3))
  then show "fst (mode_tokens E mode) = (t, b) # fst (mode_tokens E mode')"
    and "snd (mode_tokens E mode) = snd (mode_tokens E mode')"
    by (simp_all add: mode_tokens_unfold [of E mode] assms(1) split: prod.split)
qed

text \<open>The command once a line end was counted or not.\<close>

lemma advanced_command:
  assumes "advanced E mode b rest mode'" and "unat (cm_line_count (md_cmd mode)) < 2 ^ 60"
  shows "same_command (md_cmd mode) (md_cmd mode')"
    "cm_input (md_cmd mode') = cm_input (md_cmd mode)"
    "unat (cm_line_count (md_cmd mode')) = (if b then unat (cm_line_count (md_cmd mode)) + 1
       else unat (cm_line_count (md_cmd mode)))"
  using assms
  by (simp_all add: advanced_def increment_line_count_def command_increment_line_count_def
      unat_Suc_size)

lemma appender_loop_yields:
  assumes "mode_ok mode w" and "appending mode w"
    and "budget mode < 2 ^ 57 - 4"
    and "unat (cm_line_count (md_cmd mode)) + length (md_rest mode) < 2 ^ 60"
    and c: "copes E S (2 ^ 58)" and T: "S \<times> UNIV \<subseteq> T" and f: "fork_copes T w"
    and stops: "too_long E mode w \<subseteq> T"
  shows "\<exists>r. appender_loop E mode present w = Some r \<and> yields T r
    (\<lambda>(mode', present', w'). loop_done E mode w (mode', present', w')
      \<and> present' = (present \<or> fst (mode_tokens E mode) \<noteq> []))"
  using assms(1-4) f stops
proof (induction "length (md_rest mode)" arbitrary: mode present w rule: less_induct)
  case less
  note ok = less.prems(1) and app = less.prems(2) and bud = less.prems(3) and lines = less.prems(4)
    and fk = less.prems(5) and st = less.prems(6)
  have rest58: "length (md_rest mode) < 2 ^ 56" using bud by (simp add: budget_def)
  have c1: "copes E S (length (md_rest mode) + 1)" using c rest58 by (auto intro: copes_le)
  note nt = next_token_yields [OF ok c1]
  show ?case
  proof (cases "xargs_mode_next_token E mode")
    case (Inl s)
    then have "s \<in> S" using nt by simp
    with T have "(s, w) \<in> T" by auto
    with Inl show ?thesis by (subst appender_loop.simps) simp
  next
    case (Inr om)
    obtain out mode1 where om: "om = (out, mode1)" by fastforce
    note next1 = Inr [unfolded om]
    show ?thesis
    proof (cases "md_lexer E mode (md_rest mode)")
      case (Stop e b rest)
      have o: "out = None" "advanced E mode b rest mode1" "toker_error (md_toker mode1) = e"
        using nt next1 Stop by simp_all
      have ts: "mode_tokens E mode = ([], e)" by (simp add: mode_tokens_unfold [of E mode] Stop)
      have lc: "unat (cm_line_count (md_cmd mode)) < 2 ^ 60" using lines by simp
      note adv = advanced_command [OF o(2) lc]
      have inv1: "cmd_invar (md_cmd mode1)" "md_pool mode1 = md_pool mode" "md_impl mode1 = md_impl mode"
        using o(2) ok
        by (auto simp: advanced_def mode_ok_def mode_core_def increment_line_count_def
            command_increment_line_count_def cmd_invar_def)
      have core1: "mode_core mode1 w" using ok inv1 by (simp add: mode_ok_def mode_core_def)
      have app1: "appending mode1 w"
        using app core1 inv1 same_command_fields [OF adv(1)]
        by (simp add: appending_def appendable_def xargs_mode_halted_def)
      have "loop_done E mode w (mode1, present, w)"
        using core1 app1 inv1 adv o(3) ts app
        by (auto simp: loop_done_def budget_def mode_plan_def planned_def appending_def appendable_def)
      with next1 o(1) ts show ?thesis by (subst appender_loop.simps) simp
    next
      case (Token t b rest)
      have o: "out = Some t" "advanced E mode b rest mode1" "mode_ok mode1 w"
        "md_lexer E mode1 = md_lexer E mode"
        using nt next1 Token by simp_all
      have tok: "arg_ok t" "length rest < length (md_rest mode)"
        "length t + length rest \<le> length (md_rest mode)"
        using token_facts [OF Token] rest58 by simp_all
      have lc: "unat (cm_line_count (md_cmd mode)) < 2 ^ 60" using lines by simp
      note adv = advanced_command [OF o(2) lc]
      have src1: "md_rest mode1 = rest" "md_pool mode1 = md_pool mode" "md_impl mode1 = md_impl mode"
        "in_error (md_arg_source mode1) = in_error (md_arg_source mode)"
        using o(2) by (simp_all add: advanced_def)
      have app1: "appending mode1 w"
        using app o(3) src1 same_command_fields [OF adv(1)]
        by (simp add: appending_def appendable_def xargs_mode_halted_def mode_ok_def)
      note ts = mode_tokens_advanced [OF Token o(4) src1(1)]
      have L1: "limits_of (md_cmd mode1) = lm mode"
        using adv(1) by (simp add: lm_def limits_of_same)
      have argv1: "batch_argv (md_cmd mode1) = batch_argv (md_cmd mode)"
        using adv(1) by (rule batch_argv_same)
      have kind1: "md_kind mode1 = md_kind mode" using adv(1) by (rule kind_of_same)
      let ?L = "lm mode" and ?cur = "cm_input (md_cmd mode)" and ?n1 = "unat (cm_line_count (md_cmd mode1))"
      have pl: "mode_plan E mode = (if ?cur = [] \<and> over_size ?L ?cur t then ([], Refused)
          else if overruns ?L (joined ?L ?cur t) then (closed_first ?L ?cur t, Overrun)
          else if lm_max_lines ?L = Some (lines_now ?L ?cur ?n1 t)
          then (case plan ?L [] 0 (fst (mode_tokens E mode1)) of (bs, e) \<Rightarrow> (completed ?L ?cur ?n1 t @ bs, e))
          else (case plan ?L (joined ?L ?cur t) (lines_now ?L ?cur ?n1 t) (fst (mode_tokens E mode1)) of
            (bs, e) \<Rightarrow> (completed ?L ?cur ?n1 t @ bs, e)))"
        unfolding mode_plan_def ts(1) plan_Cons adv(3) Let_def by simp
      have b1: "args_bytes (cm_input (md_cmd mode1)) + length (pool_pids (md_pool mode1)) + length t
          < 2 ^ 57 - 4"
        using bud tok(3) by (simp add: budget_def adv(2) src1(2))
      have step: "yields T (appender_step E mode1 t w) (\<lambda>r. \<not> (?cur = [] \<and> over_size ?L ?cur t)
          \<and> (fst r \<or> \<not> overruns ?L (joined ?L ?cur t)) \<and> stepped E mode1 w t r)"
      proof (rule appender_step_yields [OF app1 tok(1) b1 c T fk, unfolded L1 adv(2) argv1 kind1])
        assume r: "?cur = [] \<and> over_size ?L ?cur t"
        have "(Exit EXIT_FAILURE Command_too_long, w) \<in> too_long E mode w"
          using pl [unfolded if_P [OF r]] by (simp add: too_long_def planned_def)
        with st show "(Exit EXIT_FAILURE Command_too_long, w) \<in> T" by blast
      next
        fix w'
        assume r: "\<not> (?cur = [] \<and> over_size ?L ?cur t)" "overruns ?L (joined ?L ?cur t)"
          "spawns E (md_kind mode) w w' (map (batch_argv (md_cmd mode)) (closed_first ?L ?cur t))" "all_reaped w'"
        have "(Exit EXIT_FAILURE Command_too_long, w') \<in> too_long E mode w"
          using pl [unfolded if_not_P [OF r(1)] if_P [OF r(2)]] r(3,4)
          by (simp add: too_long_def planned_def)
        with st show "(Exit EXIT_FAILURE Command_too_long, w') \<in> T" by blast
      qed
      show ?thesis
      proof (cases "appender_step E mode1 t w")
        case (Inl e)
        with step have "e \<in> T" by simp
        with Inl next1 o(1) show ?thesis by (subst appender_loop.simps) simp
      next
        case (Inr x)
        obtain stopped mode2 w2 where x: "x = (stopped, mode2, w2)" by (cases x) auto
        note step2 = Inr [unfolded x]
        have nf: "\<not> (?cur = [] \<and> over_size ?L ?cur t)" "stopped \<or> \<not> overruns ?L (joined ?L ?cur t)"
          "stepped E mode1 w t (stopped, mode2, w2)"
          using step step2 by simp_all
        let ?done = "map (batch_argv (md_cmd mode)) (completed ?L ?cur ?n1 t)"
        have s2: "same_host w w2" "mode_core mode2 w2" "same_command (md_cmd mode1) (md_cmd mode2)"
          "md_toker mode2 = md_toker mode1" "md_arg_source mode2 = md_arg_source mode1"
          "md_impl mode2 = md_impl mode1"
          "args_bytes (cm_input (md_cmd mode2)) + length (pool_pids (md_pool mode2))
            \<le> args_bytes ?cur + length (pool_pids (md_pool mode)) + length t + 3"
          using nf(3) by (simp_all add: stepped_def Let_def adv(2) src1(2))
        have same2: "same_command (md_cmd mode) (md_cmd mode2)"
          using adv(1) s2(3) by (rule same_command_trans)
        have bud2: "budget mode2 \<le> budget mode"
          using s2(5,7) tok(2,3) by (simp add: budget_def src1)
        show ?thesis
        proof (cases stopped)
          case True
          then have h: "xargs_mode_halted mode2" "\<exists>ps. prefix ps (if overruns ?L (joined ?L ?cur t) then [] else ?done)
              \<and> spawns E (md_kind mode) w w2 ps"
            using nf(3) by (simp_all add: stepped_def Let_def L1 adv(2) argv1 kind1)
          have "toker_error (md_toker mode2) = TOKENIZER_ERR_NONE"
            using o(3) s2(4) by (simp add: mode_ok_def)
          moreover have "prefix (if overruns ?L (joined ?L ?cur t) then [] else ?done) (planned E mode)"
            by (simp add: planned_def pl if_not_P [OF nf(1)] split: prod.split)
          ultimately have "loop_done E mode w (mode2, True, w2)"
            using h s2 same2 bud2 src1(3) 
            by (auto simp: loop_done_def budget_def intro: prefix_order.trans)
          with True next1 o(1) step2 ts(1) show ?thesis by (subst appender_loop.simps) simp
        next
          case False
          let ?flush = "lm_max_lines ?L = Some (lines_now ?L ?cur ?n1 t)"
          have no: "\<not> overruns ?L (joined ?L ?cur t)" using nf(2) False by simp
          have r2: "appending mode2 w2" "spawns E (md_kind mode) w w2 ?done"
            "cm_input (md_cmd mode2) = (if ?flush then [] else joined ?L ?cur t)"
            "unat (cm_line_count (md_cmd mode2)) = (if ?flush then 0 else lines_now ?L ?cur ?n1 t)"
            using nf(3) False by (simp_all add: stepped_def Let_def L1 adv(2) argv1 kind1)
          have ok2: "mode_ok mode2 w2" using o(3) s2(2,4) by (simp add: mode_ok_def)
          have lx2: "md_lexer E mode2 = md_lexer E mode" using o(4) s2(4,5) by (simp add: md_lexer_def)
          have rest2: "md_rest mode2 = rest" using s2(5) src1(1) by simp
          have ts2: "mode_tokens E mode2 = mode_tokens E mode1"
            using lx2 o(4) by (simp add: mode_tokens_def rest2 src1(1))
          have L2: "lm mode2 = ?L" using same2 by (simp add: lm_def limits_of_same)
          have argv2: "batch_argv (md_cmd mode2) = batch_argv (md_cmd mode)"
            using same2 by (rule batch_argv_same)
          have kind2: "md_kind mode2 = md_kind mode" using same2 by (rule kind_of_same)
          have pl2: "mode_plan E mode = (completed ?L ?cur ?n1 t @ fst (mode_plan E mode2),
              snd (mode_plan E mode2))"
            unfolding pl if_not_P [OF nf(1)] if_not_P [OF no]
            by (simp add: mode_plan_def L2 r2(3,4) ts2 split: prod.split)
          have planned2: "planned E mode = ?done @ planned E mode2"
            by (simp add: planned_def pl2 argv2)
          have "too_long E mode2 w2 \<subseteq> T"
            using st spawns_trans [OF r2(2)] by (fastforce simp: too_long_def planned2 pl2 kind2)
          moreover have "unat (cm_line_count (md_cmd mode2)) + length (md_rest mode2) < 2 ^ 60"
            using lines tok(2) adv(3) by (simp add: r2(4) rest2 lines_now_def)
          moreover have "budget mode2 < 2 ^ 57 - 4" using bud bud2 by simp
          moreover have "fork_copes T w2" using fk same_host_fork_copes [OF s2(1)] by simp
          moreover have "length (md_rest mode2) < length (md_rest mode)" using tok(2) rest2 by simp
          ultimately obtain r where r: "appender_loop E mode2 True w2 = Some r"
            "yields T r (\<lambda>(mode', present', w'). loop_done E mode2 w2 (mode', present', w')
              \<and> present' = (True \<or> fst (mode_tokens E mode2) \<noteq> []))"
            using less.hyps [OF _ ok2 r2(1)] by blast
          have "appender_loop E mode present w = Some r"
            using next1 o(1) step2 False r(1) by (subst appender_loop.simps) simp
          moreover have "loop_done E mode w (mode', True, w')"
            if "loop_done E mode2 w2 (mode', True, w')" for mode' w'
          proof -
            have "same_host w w'" "same_command (md_cmd mode) (md_cmd mode')"
              using that s2(1) same2
              by (auto simp: loop_done_def intro: same_host_trans same_command_trans)
            moreover have "\<exists>ps. prefix ps (planned E mode) \<and> spawns E (md_kind mode) w w' ps"
              if "prefix ps (planned E mode2)" "spawns E (md_kind mode) w2 w' ps" for ps
              by (rule exI [of _ "?done @ ps"])
                (use spawns_trans [OF r2(2) that(2)] that(1) in \<open>simp add: planned2\<close>)
            moreover have "spawns E (md_kind mode) w w' (planned E mode)" if "spawns E (md_kind mode) w2 w' (planned E mode2)"
              using spawns_trans [OF r2(2) that] by (simp add: planned2)
            ultimately show ?thesis
              using that bud2 s2(6) src1(3)
              by (auto simp: loop_done_def pl2 ts2 ts(2) kind2)
          qed
          ultimately show ?thesis
            using r(2) ts(1) by (auto elim!: yields_conseq)
        qed
      qed
    qed
  qed
qed

section \<open>The run\<close>

text \<open>The commands of the run, and its verdict, for a mode at its start.\<close>

definition appender_verdict :: "platform \<Rightarrow> bool \<Rightarrow> xargs_mode \<Rightarrow> cstr list list \<times> diagnostic option" where
  "appender_verdict E quiet mode =
     (case run_plan (lm mode) quiet (mode_tokens E mode) of
        (bs, d) \<Rightarrow> (map (batch_argv (md_cmd mode)) bs, d))"

definition fresh_command :: "command \<Rightarrow> bool" where
  "fresh_command cmd \<longleftrightarrow> cm_input cmd = [] \<and> cm_line_count cmd = 0"

lemma mode_plan_fresh:
  "fresh_command (md_cmd mode) \<Longrightarrow> mode_plan E mode = plan (lm mode) [] 0 (fst (mode_tokens E mode))"
  by (simp add: mode_plan_def fresh_command_def)

text \<open>Executing at the end and draining.\<close>

lemma execute_any_yields:
  assumes m: "appendable mode w"
    and b: "args_bytes (cm_input (md_cmd mode)) + length (pool_pids (md_pool mode)) < 2 ^ 57 - 1"
    and c: "copes E S (2 ^ 58)" and T: "S \<times> UNIV \<subseteq> T" and f: "fork_copes T w"
  shows "yields T (if go then xargs_mode_execute_command E mode w else Inr (mode, w))
    (\<lambda>(mode', w'). appendable mode' w' \<and> prefix (reaped (w_log w)) (reaped (w_log w'))
      \<and> (if \<not> go \<or> xargs_mode_halted mode' then spawns E (md_kind mode) w w' []
         else spawns E (md_kind mode) w w' [batch_argv (md_cmd mode) (cm_input (md_cmd mode))])
      \<and> (xargs_mode_halted mode \<longrightarrow> xargs_mode_halted mode'))"
proof (cases go)
  case False
  with m show ?thesis by simp
next
  case True
  show ?thesis
    unfolding if_P [OF True]
  proof (rule yields_conseq [OF execute_batch_yields [OF m b c T f]])
    fix x
    assume x: "case x of (mode', w') \<Rightarrow> executed E mode w mode' w'
      \<and> (xargs_mode_halted mode' \<longrightarrow> spawns E (md_kind mode) w w' [])
      \<and> (\<not> xargs_mode_halted mode' \<longrightarrow> appending mode' w'
         \<and> spawns E (md_kind mode) w w' [batch_argv (md_cmd mode) (cm_input (md_cmd mode))])"
    obtain mode' w' where p: "x = (mode', w')" by fastforce
    have e: "executed E mode w mode' w'" using x p by simp
    have "cm_arg_placeholder (md_cmd mode') = None"
      using e m same_command_fields [of "md_cmd mode" "md_cmd mode'"]
      by (auto simp: executed_def appendable_def)
    moreover have "mode_core mode' w'" "prefix (reaped (w_log w)) (reaped (w_log w'))"
      using e by (simp_all add: executed_def)
    ultimately show "case x of (mode', w') \<Rightarrow> appendable mode' w'
        \<and> prefix (reaped (w_log w)) (reaped (w_log w'))
        \<and> (if \<not> go \<or> xargs_mode_halted mode' then spawns E (md_kind mode) w w' []
           else spawns E (md_kind mode) w w' [batch_argv (md_cmd mode) (cm_input (md_cmd mode))])
        \<and> (xargs_mode_halted mode \<longrightarrow> xargs_mode_halted mode')"
      using x p True m halted_stays [of mode w mode' w'] by (simp add: appendable_def)
  qed
qed

text \<open>The code after the loop, from what the loop guarantees.\<close>

lemma appender_finish_yields:
  assumes fresh: "fresh_command (md_cmd mode)" and ph: "cm_arg_placeholder (md_cmd mode) = None"
    and bud: "budget mode < 2 ^ 57 - 4"
    and l: "loop_done E mode w (mode1, present, w1)"
    and p: "present = (fst (mode_tokens E mode) \<noteq> [])"
    and c: "copes E S (2 ^ 58)" and T: "S \<times> UNIV \<subseteq> T" and f: "fork_copes T w"
    and fails: "fails_as_planned E (md_kind mode) w (appender_verdict E quiet mode) \<subseteq> T"
  shows "yields T (appender_finish E quiet mode1 present w1)
    (runs_as_planned E (md_kind mode) w (appender_verdict E quiet mode))"
proof -
  let ?v = "appender_verdict E quiet mode" and ?argv = "batch_argv (md_cmd mode)"
  obtain ts err where ts: "mode_tokens E mode = (ts, err)" by fastforce
  obtain bs e where pl: "plan (lm mode) [] 0 ts = (bs, e)" by fastforce
  have planned: "planned E mode = map ?argv bs"
    by (simp add: planned_def mode_plan_fresh [OF fresh] ts pl)
  have pre: "prefix (map ?argv bs) (fst ?v)"
    using run_plan_prefix [OF pl, of quiet err] map_mono_prefix
    by (auto simp: appender_verdict_def ts split: prod.split)
  have core: "mode_core mode1 w1" and host: "same_host w w1"
    and same: "same_command (md_cmd mode) (md_cmd mode1)"
    and size: "args_bytes (cm_input (md_cmd mode1)) + length (pool_pids (md_pool mode1)) < 2 ^ 57 - 1"
    using l bud by (simp_all add: loop_done_def)
  have app: "appendable mode1 w1"
    using ph core same_command_fields [OF same] by (simp add: appendable_def)
  have argv1: "batch_argv (md_cmd mode1) = ?argv" using same by (rule batch_argv_same)
  have kind1: "md_kind mode1 = md_kind mode" using same by (rule kind_of_same)
  have f1: "fork_copes T w1" using f same_host_fork_copes [OF host] by simp
  show ?thesis
  proof (cases "xargs_mode_tokenizer_errored mode1")
    case True
    then have nh: "\<not> xargs_mode_halted mode1" "err \<noteq> TOKENIZER_ERR_NONE" "\<exists>cur. e = Open cur"
        "spawns E (md_kind mode) w w1 (map ?argv bs)"
      using l by (auto simp: loop_done_def xargs_mode_tokenizer_errored_def ts planned
          mode_plan_fresh [OF fresh] pl split: if_splits)
    then have v: "?v = (map ?argv bs, Some Input_error)"
      using pl run_plan_cases(1) by (auto simp: appender_verdict_def ts)
    have "yields T (drain_and_exit E mode1 Input_error w1) Q" for Q :: "int \<times> xargs_mode \<times> world \<Rightarrow> bool"
    proof (rule drain_and_exit_yields)
      fix w' assume "wait_effect w1 w'" "all_reaped w'"
      then have "(Exit EXIT_FAILURE Input_error, w') \<in> fails_as_planned E (md_kind mode) w ?v"
        using spawns_trans [OF nh(4) spawns_Nil] by (simp add: fails_as_planned_def v)
      with fails show "(Exit EXIT_FAILURE Input_error, w') \<in> T" by blast
    qed (use core in \<open>simp add: mode_core_def\<close>)
    with True show ?thesis by (simp add: appender_finish_def)
  next
    case False
    let ?go = "if present then xargs_mode_input_args_remain mode1 else \<not> quiet"
    have remain: "xargs_mode_input_args_remain mode1 \<longleftrightarrow> cm_input (md_cmd mode1) \<noteq> []"
      using core unat_args_count [of "cm_input_args (md_cmd mode1)"]
      by (simp add: xargs_mode_input_args_remain_def command_input_args_remain_def mode_core_def
          cmd_invar_def size_less_unat)
    have "yields T (rbind (if ?go then xargs_mode_execute_command E mode1 w1 else Inr (mode1, w1))
        (\<lambda>(mode, w). rbind (xargs_mode_drain E mode w) (\<lambda>(status, mode, w).
          Inr (or EXIT_SUCCESS status, mode, w)))) (runs_as_planned E (md_kind mode) w ?v)"
    proof (rule yields_rbindI [OF execute_any_yields [OF app size c T f1, unfolded kind1]], clarify)
      fix mode2 w2
      assume a2: "appendable mode2 w2" "prefix (reaped (w_log w1)) (reaped (w_log w2))"
        and s2: "if \<not> ?go \<or> xargs_mode_halted mode2 then spawns E (md_kind mode) w1 w2 []
          else spawns E (md_kind mode) w1 w2 [batch_argv (md_cmd mode1) (cm_input (md_cmd mode1))]"
        and h2: "xargs_mode_halted mode1 \<longrightarrow> xargs_mode_halted mode2"
      have core2: "mode_core mode2 w2" using a2 by (simp add: appendable_def)
      show "yields T (rbind (xargs_mode_drain E mode2 w2) (\<lambda>(status, mode, w).
          Inr (or EXIT_SUCCESS status, mode, w))) (runs_as_planned E (md_kind mode) w ?v)"
      proof (cases "xargs_mode_halted mode1")
        case True
        then obtain ps where ps: "prefix ps (map ?argv bs)" "spawns E (md_kind mode) w w1 ps"
          using l by (auto simp: loop_done_def planned)
        have "spawns E (md_kind mode) w w2 ps" using spawns_trans [OF ps(2)] s2 h2 True by fastforce
        then show ?thesis
          using prefix_order.trans [OF ps(1) pre] h2 True by (intro drain_planned [OF core2]) auto
      next
        case no: False
        then have n1: "e = Open (cm_input (md_cmd mode1))" "spawns E (md_kind mode) w w1 (map ?argv bs)"
            "err = TOKENIZER_ERR_NONE"
          using l False by (auto simp: loop_done_def planned ts mode_plan_fresh [OF fresh] pl
              xargs_mode_tokenizer_errored_def)
        let ?extra = "if ?go then [cm_input (md_cmd mode1)] else []"
        have v: "?v = (map ?argv (bs @ ?extra), None)"
        proof (cases "ts = []")
          case True
          then show ?thesis
            using pl n1 p ts by (simp add: appender_verdict_def run_plan_cases(3))
        next
          case False
          then show ?thesis
            using pl n1 p ts remain run_plan_cases(2) [OF pl [unfolded n1(1)] False]
            by (simp add: appender_verdict_def)
        qed
        show ?thesis
        proof (cases "?go \<and> xargs_mode_halted mode2")
          case True
          then have "spawns E (md_kind mode) w w2 (map ?argv bs)"
            using spawns_trans [OF n1(2)] s2 by fastforce
          then show ?thesis
            using True pre by (intro drain_planned [OF core2]) auto
        next
          case False
          then have "spawns E (md_kind mode) w w2 (fst ?v)"
            using spawns_trans [OF n1(2), of w2 "[]"] spawns_trans [OF n1(2)] s2
            by (auto simp: v argv1 split: if_splits)
          then show ?thesis
            using v by (intro drain_planned [OF core2]) auto
        qed
      qed
    qed
    with False show ?thesis
      by (cases present) (simp_all add: appender_finish_def)
  qed
qed

lemma appender_mode_run_yields:
  assumes ok: "mode_ok mode w" and fresh: "fresh_command (md_cmd mode)"
    and ph: "cm_arg_placeholder (md_cmd mode) = None" and nh: "\<not> xargs_mode_halted mode"
    and bud: "budget mode < 2 ^ 57 - 4"
    and c: "copes E S (2 ^ 58)" and T: "S \<times> UNIV \<subseteq> T" and f: "fork_copes T w"
    and fails: "fails_as_planned E (md_kind mode) w (appender_verdict E quiet mode) \<subseteq> T"
  shows "\<exists>r. appender_mode_run E quiet mode w = Some r
    \<and> yields T r (runs_as_planned E (md_kind mode) w (appender_verdict E quiet mode))"
proof -
  let ?v = "appender_verdict E quiet mode"
  have app: "appending mode w" using ok ph nh by (simp add: appending_def appendable_def mode_ok_def)
  have lines: "unat (cm_line_count (md_cmd mode)) + length (md_rest mode) < 2 ^ 60"
    using fresh bud by (simp add: fresh_command_def budget_def)
  have "too_long E mode w \<subseteq> fails_as_planned E (md_kind mode) w ?v"
  proof -
    obtain ts err where ts: "mode_tokens E mode = (ts, err)" by fastforce
    obtain bs e where pl: "plan (lm mode) [] 0 ts = (bs, e)" by fastforce
    show ?thesis
      using run_plan_cases(4) [OF pl]
      by (auto simp: too_long_def fails_as_planned_def planned_def mode_plan_fresh [OF fresh] ts pl
          appender_verdict_def)
  qed
  then have "too_long E mode w \<subseteq> T" using fails by blast
  then obtain r where r: "appender_loop E mode False w = Some r"
    "yields T r (\<lambda>(mode', present', w'). loop_done E mode w (mode', present', w')
      \<and> present' = (False \<or> fst (mode_tokens E mode) \<noteq> []))"
    using appender_loop_yields [OF ok app bud lines c T f, of False] by blast
  have "yields T (rbind r (\<lambda>(mode, input_present, w). appender_finish E quiet mode input_present w))
      (runs_as_planned E (md_kind mode) w ?v)"
    by (rule yields_rbindI [OF r(2)]) (auto intro: appender_finish_yields [OF fresh ph bud _ _ c T f fails])
  with r(1) show ?thesis by (simp add: appender_mode_run_def)
qed

end
