(* ===== verification/Replacer_Correct.thy ===== *)
theory Replacer_Correct
  imports Appender_Correct
begin

text \<open>
  Correctness of \<^verbatim>\<open>src/replacer_mode.c\<close>: the loop always ends, and starts one command per
  token, with the token in the place of every placeholder of the fixed arguments.
\<close>

section \<open>One token\<close>

text \<open>The argument vector of the command for one token: its word, then the substituted arguments.\<close>

definition replaced_argv :: "command \<Rightarrow> cstr \<Rightarrow> cstr list" where
  "replaced_argv cmd t = hd (cm_fixed cmd)
     # map (replace_all (the (cm_arg_placeholder cmd)) t) (tl (cm_fixed cmd))"

lemma replaced_argv_same: "same_command cmd cmd' \<Longrightarrow> replaced_argv cmd' = replaced_argv cmd"
  by (drule same_command_fields) (simp add: replaced_argv_def fun_eq_iff)

lemma length_replaced_arg:
  "a \<in> set as \<Longrightarrow> length (replace_all p t a) + 1 \<le> args_bytes as * (length t + 1)"
proof (induction as)
  case (Cons b as)
  have "length (replace_all p t b) + 1 \<le> (length b + 1) * (length t + 1)"
    using length_replace_all_le [of p t b] by simp
  moreover have "args_bytes (b # as) * (length t + 1)
      = (length b + 1) * (length t + 1) + args_bytes as * (length t + 1)"
    by (simp add: algebra_simps)
  ultimately show ?case using Cons by (auto intro: order_trans trans_le_add1 trans_le_add2)
qed simp

lemma args_bytes_replaced:
  "args_bytes (map (replace_all p t) as) \<le> args_bytes as * (length t + 1)"
proof (induction as)
  case (Cons b as)
  have "length (replace_all p t b) + 1 \<le> (length b + 1) * (length t + 1)"
    using length_replace_all_le [of p t b] by simp
  moreover have "args_bytes (b # as) * (length t + 1)
      = (length b + 1) * (length t + 1) + args_bytes as * (length t + 1)"
    by (simp add: algebra_simps)
  ultimately show ?case using Cons by simp
qed simp

text \<open>Between two tokens no argument is collected and no substitution is pending.\<close>

definition replaceable :: "xargs_mode \<Rightarrow> world \<Rightarrow> bool" where
  "replaceable mode w \<longleftrightarrow> mode_core mode w \<and> cm_arg_placeholder (md_cmd mode) \<noteq> None
     \<and> \<not> xargs_mode_halted mode \<and> cm_input (md_cmd mode) = [] \<and> cm_replaced (md_cmd mode) = []"

definition substituted :: "platform \<Rightarrow> xargs_mode \<Rightarrow> world \<Rightarrow> cstr \<Rightarrow> bool \<times> xargs_mode \<times> world \<Rightarrow> bool" where
  "substituted E mode w t = (\<lambda>(stopped, mode', w').
     mode_core mode' w' \<and> same_host w w' \<and> md_impl mode' = md_impl mode
     \<and> md_toker mode' = md_toker mode \<and> md_arg_source mode' = md_arg_source mode
     \<and> same_command (md_cmd mode) (md_cmd mode')
     \<and> length (pool_pids (md_pool mode')) \<le> Suc (length (pool_pids (md_pool mode)))
     \<and> (if stopped then xargs_mode_halted mode' \<and> spawns E (md_kind mode) w w' []
        else replaceable mode' w' \<and> spawns E (md_kind mode) w w' [replaced_argv (md_cmd mode) t]))"

lemma replacer_step_yields:
  assumes m: "replaceable mode w" and t: "arg_ok t"
    and size: "args_bytes (cm_fixed (md_cmd mode)) * (length t + 1) < 2 ^ 57"
    and pids: "length (pool_pids (md_pool mode)) < 2 ^ 58"
    and c: "copes E S (2 ^ 58)" and T: "S \<times> UNIV \<subseteq> T" and f: "fork_copes T w"
    and refused: "over_size (limits_of (md_cmd mode)) [] t \<Longrightarrow>
      (Exit EXIT_FAILURE Command_too_long, w) \<in> T"
  shows "yields T (replacer_step E mode t w)
    (\<lambda>r. \<not> over_size (limits_of (md_cmd mode)) [] t \<and> substituted E mode w t r)"
proof -
  let ?cmd = "md_cmd mode"
  obtain p where p: "cm_arg_placeholder ?cmd = Some p" using m by (auto simp: replaceable_def)
  have core: "mode_core mode w" and inv: "cmd_invar ?cmd" and none: "cm_input ?cmd = []" "cm_replaced ?cmd = []"
    using m by (simp_all add: replaceable_def mode_core_def)
  have fixed: "hd (cm_fixed ?cmd) # tl (cm_fixed ?cmd) = cm_fixed ?cmd"
    using inv by (simp add: cmd_invar_def)
  have lt: "length t < 2 ^ 60" using t by (simp add: arg_ok_def)
  have el: "xargs_mode_ensure_command_length_not_exceeded mode t =
      (if over_size (limits_of ?cmd) [] t then Inl (Exit EXIT_FAILURE Command_too_long) else Inr ())"
    unfolding xargs_mode_ensure_command_length_not_exceeded_def
    using ensure_length_eq [OF inv _ lt] by (simp add: none p)
  show ?thesis
  proof (cases "over_size (limits_of ?cmd) [] t")
    case True
    with refused show ?thesis by (simp add: replacer_step_def el)
  next
    case False
    have "\<forall>a \<in> set (cm_fixed ?cmd). length (replace_all p t a) < 2 ^ 58"
      using length_replaced_arg [of _ "cm_fixed ?cmd" p t] size by fastforce
    then have r: "yields S (xargs_replace_args E mode t) (\<lambda>mode'. \<exists>cmd'. mode' = mode\<lparr>md_cmd := cmd'\<rparr>
        \<and> cmd_invar cmd' \<and> same_command ?cmd cmd' \<and> cm_input_args cmd' = cm_input_args ?cmd
        \<and> cm_replaced cmd' = replaced_argv ?cmd t)"
      unfolding xargs_replace_args_def
      by (intro yields_rbindI [OF command_replace_args_yields [OF inv p t none(2) _ c]])
        (auto simp: replaced_argv_def p)
    have rT: "yields T (lift w (xargs_replace_args E mode t)) (\<lambda>mode'. \<exists>cmd'. mode' = mode\<lparr>md_cmd := cmd'\<rparr>
        \<and> cmd_invar cmd' \<and> same_command ?cmd cmd' \<and> cm_input_args cmd' = cm_input_args ?cmd
        \<and> cm_replaced cmd' = replaced_argv ?cmd t)"
      by (rule yields_mono [OF yields_lift [OF r] T])
    show ?thesis
      unfolding replacer_step_def el if_not_P [OF False] lift_simps rbind_simps
    proof (rule yields_rbindI [OF rT])
      fix mode1
      assume "\<exists>cmd'. mode1 = mode\<lparr>md_cmd := cmd'\<rparr> \<and> cmd_invar cmd' \<and> same_command ?cmd cmd'
        \<and> cm_input_args cmd' = cm_input_args ?cmd \<and> cm_replaced cmd' = replaced_argv ?cmd t"
      then obtain cmd' where m1: "mode1 = mode\<lparr>md_cmd := cmd'\<rparr>" "cmd_invar cmd'"
        "same_command ?cmd cmd'" "cm_input_args cmd' = cm_input_args ?cmd"
        "cm_replaced cmd' = replaced_argv ?cmd t" by blast
      have core1: "mode_core mode1 w" using core m1 by (simp add: mode_core_def)
      have ph1: "cm_arg_placeholder cmd' = Some p" using same_command_fields [OF m1(3)] p by simp
      have argv: "cmd_argv (md_cmd mode1) = replaced_argv ?cmd t"
        using m1 none ph1 by (simp add: cmd_argv_def fixed_args_in_play_def)
      have bytes: "args_bytes (replaced_argv ?cmd t) < 2 ^ 58"
      proof -
        have "args_bytes (replaced_argv ?cmd t)
            = length (hd (cm_fixed ?cmd)) + 1 + args_bytes (map (replace_all p t) (tl (cm_fixed ?cmd)))"
          by (simp add: replaced_argv_def p)
        also have "\<dots> \<le> (length (hd (cm_fixed ?cmd)) + 1) * (length t + 1)
            + args_bytes (tl (cm_fixed ?cmd)) * (length t + 1)"
          using args_bytes_replaced [of p t "tl (cm_fixed ?cmd)"] by simp
        also have "\<dots> = args_bytes (hd (cm_fixed ?cmd) # tl (cm_fixed ?cmd)) * (length t + 1)"
          by (simp add: algebra_simps)
        finally show ?thesis using size unfolding fixed by simp
      qed
      have n1: "length (cmd_argv (md_cmd mode1)) < 2 ^ 58 - 1"
        using inv by (simp add: argv replaced_argv_def cmd_invar_def)
      have b1: "args_bytes (cmd_argv (md_cmd mode1)) < 2 ^ 62" unfolding argv using bytes by simp
      have "length (pool_pids (md_pool mode1)) < 2 ^ 58" using pids m1(1) by simp
      then have "yields T (xargs_mode_execute_command E mode1 w)
          (\<lambda>(mode', w'). executed E mode1 w mode' w')"
        by (rule execute_command_yields [OF core1 n1 b1 _ c T f])
      moreover have "substituted E mode w t (xargs_mode_halted mode2, mode2, w2)"
        if e: "executed E mode1 w mode2 w2" for mode2 w2
      proof -
        have "same_command ?cmd (md_cmd mode2)"
          using e m1 by (auto simp: executed_def intro: same_command_trans)
        moreover from this have "cm_arg_placeholder (md_cmd mode2) \<noteq> None"
          using same_command_fields p by simp
        moreover have kind1: "md_kind mode1 = md_kind mode" using kind_of_same [OF m1(3)] by (simp add: m1(1))
        ultimately show ?thesis
          using e m1(1) ph1 argv unfolding substituted_def executed_def replaceable_def kind1 by auto
      qed
      ultimately show "yields T (rbind (xargs_mode_execute_command E mode1 w) (\<lambda>(mode, w).
          Inr (xargs_mode_halted mode, mode, w)))
          (\<lambda>r. \<not> over_size (limits_of ?cmd) [] t \<and> substituted E mode w t r)"
        using False by (auto elim!: yields_conseq)
    qed
  qed
qed

section \<open>The loop\<close>

text \<open>
  The commands of a run: one per token, up to the first one that makes the command too
  long, and the diagnostic the run stops with, if any.
\<close>

definition accepted :: "limits \<Rightarrow> (cstr \<times> bool) list \<Rightarrow> cstr list" where
  "accepted L ts = takeWhile (\<lambda>t. \<not> over_size L [] t) (map fst ts)"

definition replacer_plan :: "limits \<Rightarrow> (cstr \<times> bool) list \<times> tokenizer_error
    \<Rightarrow> cstr list \<times> diagnostic option" where
  "replacer_plan L tse = (case tse of (ts, err) \<Rightarrow>
     let good = accepted L ts in
     (good,
      if length good < length ts then Some Command_too_long
      else if err \<noteq> TOKENIZER_ERR_NONE then Some Input_error else None))"

definition replacer_verdict :: "platform \<Rightarrow> xargs_mode \<Rightarrow> cstr list list \<times> diagnostic option" where
  "replacer_verdict E mode = (case replacer_plan (lm mode) (mode_tokens E mode) of
     (good, d) \<Rightarrow> (map (replaced_argv (md_cmd mode)) good, d))"

lemma replacer_verdict_Nil:
  "mode_tokens E mode = ([], err) \<Longrightarrow>
     replacer_verdict E mode = ([], if err \<noteq> TOKENIZER_ERR_NONE then Some Input_error else None)"
  by (simp add: replacer_verdict_def replacer_plan_def accepted_def)

lemma replacer_verdict_Cons:
  assumes "fst (mode_tokens E mode) = (t, b) # fst (mode_tokens E mode')"
    and "snd (mode_tokens E mode) = snd (mode_tokens E mode')"
    and "lm mode' = lm mode" and "replaced_argv (md_cmd mode') = replaced_argv (md_cmd mode)"
  shows "replacer_verdict E mode = (if over_size (lm mode) [] t then ([], Some Command_too_long)
    else (replaced_argv (md_cmd mode) t # fst (replacer_verdict E mode'), snd (replacer_verdict E mode')))"
  using assms
  by (cases "mode_tokens E mode"; cases "mode_tokens E mode'")
    (simp add: replacer_verdict_def replacer_plan_def accepted_def Let_def)

text \<open>When the loop ends.\<close>

definition replaced_done :: "platform \<Rightarrow> xargs_mode \<Rightarrow> world \<Rightarrow> xargs_mode \<times> world \<Rightarrow> bool" where
  "replaced_done E mode w = (\<lambda>(mode', w').
     mode_core mode' w' \<and> same_host w w'
     \<and> (if xargs_mode_halted mode'
        then toker_error (md_toker mode') = TOKENIZER_ERR_NONE
          \<and> (\<exists>ps. prefix ps (fst (replacer_verdict E mode)) \<and> spawns E (md_kind mode) w w' ps)
        else toker_error (md_toker mode') = snd (mode_tokens E mode)
          \<and> snd (replacer_verdict E mode) \<noteq> Some Command_too_long
          \<and> spawns E (md_kind mode) w w' (fst (replacer_verdict E mode))))"

text \<open>The bounds that hold from token to token.\<close>

definition replacer_room :: "xargs_mode \<Rightarrow> bool" where
  "replacer_room mode \<longleftrightarrow> length (pool_pids (md_pool mode)) + length (md_rest mode) < 2 ^ 57
     \<and> args_bytes (cm_fixed (md_cmd mode)) * (length (md_rest mode) + 1) < 2 ^ 57"

lemma verdict_too_long:
  "replacer_verdict E mode = (xs, Some Command_too_long) \<Longrightarrow> spawns E (md_kind mode) w w' xs \<Longrightarrow>
     (Exit EXIT_FAILURE Command_too_long, w') \<in> fails_as_planned E (md_kind mode) w (replacer_verdict E mode)"
  by (simp add: fails_as_planned_def)

lemma fails_as_planned_later:
  assumes "spawns E k w w2 xs" and "fst v = xs @ fst v2" and "snd v = snd v2"
  shows "fails_as_planned E k w2 v2 \<subseteq> fails_as_planned E k w v"
  using assms spawns_trans [OF assms(1)] by (auto simp: fails_as_planned_def)

lemma replacer_loop_yields:
  assumes "mode_ok mode w" and "replaceable mode w" and "replacer_room mode"
    and c: "copes E S (2 ^ 58)" and T: "S \<times> UNIV \<subseteq> T" and f: "fork_copes T w"
    and stops: "fails_as_planned E (md_kind mode) w (replacer_verdict E mode) \<subseteq> T"
  shows "\<exists>r. replacer_loop E mode w = Some r \<and> yields T r (replaced_done E mode w)"
  using assms(1-3) f stops
proof (induction "length (md_rest mode)" arbitrary: mode w rule: less_induct)
  case less
  note ok = less.prems(1) and rp = less.prems(2) and room = less.prems(3) and fk = less.prems(4)
    and st = less.prems(5)
  have rest: "length (md_rest mode) < 2 ^ 57" using room by (simp add: replacer_room_def)
  have c1: "copes E S (length (md_rest mode) + 1)" using c rest by (auto intro: copes_le)
  note nt = next_token_yields [OF ok c1]
  show ?case
  proof (cases "xargs_mode_next_token E mode")
    case (Inl s)
    then have "s \<in> S" using nt by simp
    with T have "(s, w) \<in> T" by auto
    with Inl show ?thesis by (subst replacer_loop.simps) simp
  next
    case (Inr om)
    obtain out mode1 where om: "om = (out, mode1)" by fastforce
    note next1 = Inr [unfolded om]
    show ?thesis
    proof (cases "md_lexer E mode (md_rest mode)")
      case (Stop e b rest)
      have o: "out = None" "advanced E mode b rest mode1" "toker_error (md_toker mode1) = e"
        using nt next1 Stop by simp_all
      have ts: "mode_tokens E mode = ([], e)" by (simp add: mode_tokens_unfold [of E mode] Stop)
      have core1: "mode_core mode1 w" "\<not> xargs_mode_halted mode1"
        using ok rp o(2)
        by (auto simp: advanced_def mode_ok_def mode_core_def increment_line_count_def
            command_increment_line_count_def cmd_invar_def replaceable_def xargs_mode_halted_def)
      then have "replaced_done E mode w (mode1, w)"
        using o(3) ts by (simp add: replaced_done_def replacer_verdict_Nil)
      with next1 o(1) show ?thesis by (subst replacer_loop.simps) simp
    next
      case (Token t b rest)
      have o: "out = Some t" "advanced E mode b rest mode1" "mode_ok mode1 w"
        "md_lexer E mode1 = md_lexer E mode"
        using nt next1 Token by simp_all
      have tok: "arg_ok t" "length rest < length (md_rest mode)"
        "length t + length rest \<le> length (md_rest mode)"
        using token_facts [OF Token] rest by simp_all
      have same1: "md_rest mode1 = rest" "md_pool mode1 = md_pool mode" "md_impl mode1 = md_impl mode"
        "in_error (md_arg_source mode1) = in_error (md_arg_source mode)"
        "same_command (md_cmd mode) (md_cmd mode1)" "cm_input_args (md_cmd mode1) = cm_input_args (md_cmd mode)"
        "cm_replaced_fixed_args (md_cmd mode1) = cm_replaced_fixed_args (md_cmd mode)"
        using o(2) by (simp_all add: advanced_def increment_line_count_def command_increment_line_count_def)
      have fixed1: "cm_fixed_args (md_cmd mode1) = cm_fixed_args (md_cmd mode)"
        "cm_arg_placeholder (md_cmd mode1) = cm_arg_placeholder (md_cmd mode)"
        using same_command_fields [OF same1(5)] by simp_all
      have L1: "limits_of (md_cmd mode1) = lm mode" using same1(5) by (simp add: lm_def limits_of_same)
      have argv1: "replaced_argv (md_cmd mode1) = replaced_argv (md_cmd mode)"
        using same1(5) by (rule replaced_argv_same)
      have kind1: "md_kind mode1 = md_kind mode" using same1(5) by (rule kind_of_same)
      note ts = mode_tokens_advanced [OF Token o(4) same1(1)]
      have v: "replacer_verdict E mode = (if over_size (lm mode) [] t then ([], Some Command_too_long)
          else (replaced_argv (md_cmd mode) t # fst (replacer_verdict E mode1), snd (replacer_verdict E mode1)))"
        by (rule replacer_verdict_Cons [OF ts _ argv1]) (simp add: lm_def L1)
      have rp1: "replaceable mode1 w"
        using rp o(3) same1 fixed1
        by (simp add: replaceable_def mode_ok_def xargs_mode_halted_def)
      have "args_bytes (cm_fixed (md_cmd mode)) * (length t + 1)
          \<le> args_bytes (cm_fixed (md_cmd mode)) * (length (md_rest mode) + 1)"
        using tok(3) by (intro mult_le_mono2) simp
      then have size1: "args_bytes (cm_fixed (md_cmd mode1)) * (length t + 1) < 2 ^ 57"
        unfolding fixed1 by (rule le_less_trans [OF _ conjunct2 [OF room [unfolded replacer_room_def]]])
      have pids1: "length (pool_pids (md_pool mode1)) < 2 ^ 58"
        using room same1(2) by (simp add: replacer_room_def)
      have step: "yields T (replacer_step E mode1 t w)
          (\<lambda>r. \<not> over_size (lm mode) [] t \<and> substituted E mode1 w t r)"
      proof (rule replacer_step_yields [OF rp1 tok(1) size1 pids1 c T fk, unfolded L1])
        assume r: "over_size (lm mode) [] t"
        have "(Exit EXIT_FAILURE Command_too_long, w) \<in> fails_as_planned E (md_kind mode) w (replacer_verdict E mode)"
          using r by (intro verdict_too_long [where xs = "[]"]) (simp_all add: v)
        with st show "(Exit EXIT_FAILURE Command_too_long, w) \<in> T" by blast
      qed
      show ?thesis
      proof (cases "replacer_step E mode1 t w")
        case (Inl e)
        with step have "e \<in> T" by simp
        with Inl next1 o(1) show ?thesis by (subst replacer_loop.simps) simp
      next
        case (Inr x)
        obtain stopped mode2 w2 where x: "x = (stopped, mode2, w2)" by (cases x) auto
        note step2 = Inr [unfolded x]
        have nf: "\<not> over_size (lm mode) [] t" "substituted E mode1 w t (stopped, mode2, w2)"
          using step step2 by simp_all
        have s2: "same_host w w2" "mode_core mode2 w2" "same_command (md_cmd mode1) (md_cmd mode2)"
          "md_toker mode2 = md_toker mode1" "md_arg_source mode2 = md_arg_source mode1"
          "length (pool_pids (md_pool mode2)) \<le> Suc (length (pool_pids (md_pool mode)))"
          using nf(2) by (simp_all add: substituted_def same1(2))
        have same2: "same_command (md_cmd mode) (md_cmd mode2)"
          using same1(5) s2(3) by (rule same_command_trans)
        show ?thesis
        proof (cases stopped)
          case True
          then have "replaced_done E mode w (mode2, w2)"
            using nf(2) o(3) s2 unfolding replaced_done_def
            by (auto simp: substituted_def mode_ok_def kind1 intro: exI [of _ "[]"])
          with True next1 o(1) step2 show ?thesis by (subst replacer_loop.simps) simp
        next
          case False
          then have r2: "replaceable mode2 w2" "spawns E (md_kind mode) w w2 [replaced_argv (md_cmd mode) t]"
            using nf(2) by (simp_all add: substituted_def argv1 kind1)
          have kind2: "md_kind mode2 = md_kind mode" using same2 by (rule kind_of_same)
          have ok2: "mode_ok mode2 w2" using o(3) s2(2,4) by (simp add: mode_ok_def)
          have lx2: "md_lexer E mode2 = md_lexer E mode1" using s2(4,5) by (simp add: md_lexer_def)
          have rest2: "md_rest mode2 = rest" using s2(5) same1(1) by simp
          have ts2: "mode_tokens E mode2 = mode_tokens E mode1"
            using lx2 by (simp add: mode_tokens_def rest2 same1(1))
          have v2: "replacer_verdict E mode2 = replacer_verdict E mode1"
            using replaced_argv_same [OF s2(3)] limits_of_same [OF s2(3)]
            by (simp add: replacer_verdict_def ts2 lm_def)
          have v': "fst (replacer_verdict E mode) = [replaced_argv (md_cmd mode) t] @ fst (replacer_verdict E mode2)"
            "snd (replacer_verdict E mode) = snd (replacer_verdict E mode2)"
            using v nf(1) by (simp_all add: v2)
          have room2: "replacer_room mode2"
          proof -
            have "args_bytes (cm_fixed (md_cmd mode)) * (length rest + 1)
                \<le> args_bytes (cm_fixed (md_cmd mode)) * (length (md_rest mode) + 1)"
              using tok(2) by (intro mult_le_mono2) simp
            then have "args_bytes (cm_fixed (md_cmd mode)) * (length rest + 1) < 2 ^ 57"
              by (rule le_less_trans [OF _ conjunct2 [OF room [unfolded replacer_room_def]]])
            moreover have "cm_fixed_args (md_cmd mode2) = cm_fixed_args (md_cmd mode)"
              using same_command_fields [OF same2] by simp
            moreover have "length (pool_pids (md_pool mode2)) + length rest < 2 ^ 57"
              using room s2(6) tok(2) by (simp add: replacer_room_def)
            ultimately show ?thesis by (simp only: replacer_room_def rest2)
          qed
          have "fails_as_planned E (md_kind mode2) w2 (replacer_verdict E mode2) \<subseteq> T"
            unfolding kind2 using fails_as_planned_later [OF r2(2) v'] st by blast
          moreover have "fork_copes T w2" using fk same_host_fork_copes [OF s2(1)] by simp
          moreover have "length (md_rest mode2) < length (md_rest mode)" using tok(2) rest2 by simp
          ultimately obtain r where r: "replacer_loop E mode2 w2 = Some r"
              "yields T r (replaced_done E mode2 w2)"
            using less.hyps [OF _ ok2 r2(1) room2] by blast
          have "replaced_done E mode w y" if y: "replaced_done E mode2 w2 y" for y
          proof -
            obtain mode' w' where yy: "y = (mode', w')" by fastforce
            have "same_host w w'" using y s2(1) yy by (auto simp: replaced_done_def intro: same_host_trans)
            moreover have "\<exists>ps. prefix ps (fst (replacer_verdict E mode)) \<and> spawns E (md_kind mode) w w' ps"
              if "prefix ps (fst (replacer_verdict E mode2))" "spawns E (md_kind mode) w2 w' ps" for ps
              using spawns_trans [OF r2(2) that(2)] that(1) unfolding v' by (intro exI [of _ "replaced_argv (md_cmd mode) t # ps"]) simp
            ultimately show ?thesis
              using y spawns_trans [OF r2(2)] unfolding yy replaced_done_def v'
              by (auto simp: ts2 ts(2) kind2 split: if_splits)
          qed
          then have "yields T r (replaced_done E mode w)" using r(2) by (rule yields_conseq [rotated])
          moreover have "replacer_loop E mode w = Some r"
            using next1 o(1) step2 False r(1) by (subst replacer_loop.simps) simp
          ultimately show ?thesis by blast
        qed
      qed
    qed
  qed
qed

section \<open>The run\<close>

lemma replacer_mode_run_yields:
  assumes ok: "mode_ok mode w" and rp: "replaceable mode w" and room: "replacer_room mode"
    and c: "copes E S (2 ^ 58)" and T: "S \<times> UNIV \<subseteq> T" and f: "fork_copes T w"
    and fails: "fails_as_planned E (md_kind mode) w (replacer_verdict E mode) \<subseteq> T"
  shows "\<exists>r. replacer_mode_run E mode w = Some r
    \<and> yields T r (runs_as_planned E (md_kind mode) w (replacer_verdict E mode))"
proof -
  let ?v = "replacer_verdict E mode"
  obtain r where r: "replacer_loop E mode w = Some r" "yields T r (replaced_done E mode w)"
    using replacer_loop_yields [OF ok rp room c T f fails] by blast
  have "yields T (rbind r (\<lambda>(mode, w).
      if xargs_mode_tokenizer_errored mode then drain_and_exit E mode Input_error w
      else rbind (xargs_mode_drain E mode w) (\<lambda>(status, mode, w).
           Inr (or EXIT_SUCCESS status, mode, w)))) (runs_as_planned E (md_kind mode) w ?v)"
  proof (rule yields_rbindI [OF r(2)], clarify)
    fix mode1 w1 assume d: "replaced_done E mode w (mode1, w1)"
    then have core: "mode_core mode1 w1" by (simp add: replaced_done_def)
    show "yields T (if xargs_mode_tokenizer_errored mode1 then drain_and_exit E mode1 Input_error w1
      else rbind (xargs_mode_drain E mode1 w1) (\<lambda>(status, mode, w).
           Inr (or EXIT_SUCCESS status, mode, w))) (runs_as_planned E (md_kind mode) w ?v)"
    proof (cases "xargs_mode_tokenizer_errored mode1")
      case True
      then have nh: "spawns E (md_kind mode) w w1 (fst ?v)" "snd (mode_tokens E mode) \<noteq> TOKENIZER_ERR_NONE"
          "snd ?v \<noteq> Some Command_too_long"
        using d by (auto simp: replaced_done_def xargs_mode_tokenizer_errored_def split: if_splits)
      then have v: "snd ?v = Some Input_error"
        by (auto simp: replacer_verdict_def replacer_plan_def Let_def split: prod.splits if_splits)
      have "yields T (drain_and_exit E mode1 Input_error w1) (runs_as_planned E (md_kind mode) w ?v)"
      proof (rule drain_and_exit_yields)
        fix w' assume "wait_effect w1 w'" "all_reaped w'"
        then have "(Exit EXIT_FAILURE Input_error, w') \<in> fails_as_planned E (md_kind mode) w ?v"
          using spawns_trans [OF nh(1) spawns_Nil] by (simp add: fails_as_planned_def v)
        with fails show "(Exit EXIT_FAILURE Input_error, w') \<in> T" by blast
      qed (use core in \<open>simp add: mode_core_def\<close>)
      with True show ?thesis by simp
    next
      case False
      obtain ps where ps: "spawns E (md_kind mode) w w1 ps" "prefix ps (fst ?v)"
          "\<not> xargs_mode_halted mode1 \<Longrightarrow> snd ?v = None \<and> ps = fst ?v"
      proof (cases "xargs_mode_halted mode1")
        case True
        with d that show ?thesis by (auto simp: replaced_done_def)
      next
        case no: False
        then have s: "spawns E (md_kind mode) w w1 (fst ?v)" "snd ?v \<noteq> Some Command_too_long"
          "snd (mode_tokens E mode) = TOKENIZER_ERR_NONE"
          using d False by (auto simp: replaced_done_def xargs_mode_tokenizer_errored_def)
        then have "snd ?v = None"
          by (auto simp: replacer_verdict_def replacer_plan_def Let_def split: prod.splits if_splits)
        with s that show ?thesis by blast
      qed
      show ?thesis
        using False drain_planned [OF core ps(1,2), where T = T] ps(3) by simp
    qed
  qed
  with r(1) show ?thesis by (simp add: replacer_mode_run_def)
qed

end
