(* ===== verification/Options_Correct.thy ===== *)
theory Options_Correct
  imports Options
begin

text \<open>
  What \<^verbatim>\<open>src/options.c\<close> guarantees: the invariant of the parse loop, the batching mode as an
  abstract state that \<open>-I\<close>, \<open>-L\<close> and \<open>-n\<close> replace, and the safety of the loop over \<open>getopt\<close>.
\<close>

section \<open>Parsing numbers\<close>

lemma parse_number_arg_with_min_Inr:
  assumes "parse_number_arg_with_min arg m = Inr v"
  shows "m \<le> v \<and> LONG_MIN \<le> v \<and> v \<le> LONG_MAX"
proof -
  have "LONG_MIN \<le> w \<and> w \<le> LONG_MAX" if "strtol arg = (w, e, r)" for w e r
    using that by (auto simp: strtol_def Let_def LONG_MIN_def LONG_MAX_def split: if_splits)
  with assms show ?thesis
    by (auto simp: parse_number_arg_with_min_def split: prod.splits if_splits)
qed

lemma parse_number_arg_Inr:
  assumes "parse_number_arg arg = Inr n"
  shows "1 \<le> unat n \<and> unat n < 2 ^ 63"
proof -
  from assms obtain v where v: "parse_number_arg_with_min arg 1 = Inr v" "n = word_of_int v"
    by (auto simp: parse_number_arg_def rbind_Inr_iff)
  have "1 \<le> v" "v < 2 ^ 63"
    using parse_number_arg_with_min_Inr [OF v(1)] by (simp_all add: LONG_MAX_def)
  moreover from this have "unat n = nat v"
    unfolding v(2) by (intro unat_word_of_int_size) simp_all
  ultimately show ?thesis by (simp add: nat_less_iff)
qed

lemma parse_number_decimal:
  assumes "1 \<le> n" and "n < 2 ^ 63"
  shows "parse_number_arg (decimal n) = Inr (of_nat n)"
  using assms strtol_decimal [of n] decimal_digits [of n]
  by (simp add: parse_number_arg_def parse_number_arg_with_min_def LONG_MAX_def)

section \<open>Invariant of the parse loop\<close>

text \<open>
  The three ways to cut the input into command lines exclude each other, as do the two
  delimiters; a prompt comes with a trace.
\<close>

definition options_invar :: "options \<Rightarrow> bool" where
  "options_invar opts \<longleftrightarrow>
     (op_use_nul_char_as_arg_delimiter opts \<longrightarrow> op_arg_delimiter opts = 0)
   \<and> (op_arg_placeholder opts \<noteq> None \<longrightarrow>
        \<not> op_line_mode_specified opts \<and> op_max_args_per_command opts = 0)
   \<and> (op_line_mode_specified opts \<longrightarrow>
        op_max_args_per_command opts = 0 \<and> 1 \<le> unat (op_max_lines_per_command opts))
   \<and> (\<not> op_line_mode_specified opts \<longrightarrow> op_max_lines_per_command opts = 0)
   \<and> (op_prompt opts \<longrightarrow> op_trace opts)
   \<and> (op_max_command_length_specified opts \<longrightarrow> 1 \<le> unat (op_max_command_length opts))"

lemmas option_setters = enable_nul_char_as_arg_delimiter_def reset_arg_delimiter_def
  set_arg_delimiter_def disable_nul_char_as_arg_delimiter_def set_arg_file_path_def
  set_logical_end_of_input_marker_def reset_logical_end_of_input_marker_def
  set_arg_placeholder_def reset_arg_placeholder_def reset_max_lines_per_command_def
  reset_max_args_per_command_def set_open_tty_def enable_prompt_def enable_trace_def
  enable_suppress_execution_on_empty_input_def enable_terminate_on_too_large_command_def

lemmas numeric_setters = set_max_lines_per_command_def set_max_args_per_command_def
  set_max_command_length_def set_max_procs_def

lemma init_options_invar: "options_invar init_options"
  by (simp add: options_invar_def init_options_def)

lemma with_arg_Inr: "with_arg a k = Inr x \<longleftrightarrow> (\<exists>s. a = Some s \<and> k s = Inr x)"
  by (cases a) (auto simp: with_arg_def)

text \<open>A successful step, by the option handled.\<close>

lemma handle_option_cases [consumes 1, case_names
    nul path delim marker placeholder lines args tty prompt procs empty length trace exact]:
  assumes "handle_option E opts r = Inr opts'"
  obtains
    "gr_opt r = opt_char CHR ''0''" "opts' = enable_nul_char_as_arg_delimiter opts"
  | "gr_opt r = opt_char CHR ''a''" "opts' = set_arg_file_path opts (gr_optarg r)"
  | a where "gr_opt r = opt_char CHR ''d''" "gr_optarg r = Some a" "strlen a = 1"
      "opts' = set_arg_delimiter opts (hd a)"
  | "gr_opt r = opt_char CHR ''E''" "opts' = set_logical_end_of_input_marker opts (gr_optarg r)"
  | "gr_opt r = opt_char CHR ''I''" "opts' = set_arg_placeholder opts (gr_optarg r)"
  | a where "gr_opt r = opt_char CHR ''L''" "gr_optarg r = Some a"
      "set_max_lines_per_command opts a = Inr opts'"
  | a where "gr_opt r = opt_char CHR ''n''" "gr_optarg r = Some a"
      "set_max_args_per_command opts a = Inr opts'"
  | "gr_opt r = opt_char CHR ''o''" "opts' = set_open_tty opts"
  | "gr_opt r = opt_char CHR ''p''" "opts' = enable_prompt opts"
  | a where "gr_opt r = opt_char CHR ''P''" "gr_optarg r = Some a"
      "set_max_procs E opts a = Inr opts'"
  | "gr_opt r = opt_char CHR ''r''" "opts' = enable_suppress_execution_on_empty_input opts"
  | a where "gr_opt r = opt_char CHR ''s''" "gr_optarg r = Some a"
      "set_max_command_length opts a = Inr opts'"
  | "gr_opt r = opt_char CHR ''t''" "opts' = enable_trace opts"
  | "gr_opt r = opt_char CHR ''x''" "opts' = enable_terminate_on_too_large_command opts"
  using assms unfolding handle_option_def Let_def
  by (simp only: with_arg_Inr sum.inject sum.distinct split: if_split_asm) metis+

lemma numeric_setters_Inr:
  "set_max_lines_per_command opts a = Inr opts' \<Longrightarrow> \<exists>n. parse_number_arg a = Inr n \<and> 1 \<le> unat n
     \<and> opts' = opts\<lparr>op_max_lines_per_command := n, op_line_mode_specified := True,
         op_arg_placeholder := None, op_max_args_per_command := 0\<rparr>"
  "set_max_args_per_command opts a = Inr opts' \<Longrightarrow> \<exists>n. parse_number_arg a = Inr n \<and> 1 \<le> unat n
     \<and> opts' = opts\<lparr>op_max_args_per_command := n, op_arg_placeholder := None,
         op_max_lines_per_command := 0, op_line_mode_specified := False\<rparr>"
  "set_max_command_length opts a = Inr opts' \<Longrightarrow> \<exists>n. parse_number_arg a = Inr n \<and> 1 \<le> unat n
     \<and> opts' = opts\<lparr>op_max_command_length := n, op_max_command_length_specified := True\<rparr>"
  "set_max_procs E opts a = Inr opts' \<Longrightarrow> \<exists>v. parse_number_arg_with_min a 0 = Inr v
     \<and> opts' = opts\<lparr>op_max_procs := word_of_int v\<rparr>"
  using parse_number_arg_Inr [of a] by (auto simp: numeric_setters rbind_Inr_iff option_setters)

lemma handle_option_invar:
  assumes "options_invar opts" and "handle_option E opts r = Inr opts'"
  shows "options_invar opts'"
  using assms(2,1)
proof (cases rule: handle_option_cases)
  case (lines a)
  with assms(1) show ?thesis
    by (auto simp: options_invar_def dest!: numeric_setters_Inr(1))
next
  case (args a)
  with assms(1) show ?thesis
    by (auto simp: options_invar_def dest!: numeric_setters_Inr(2))
next
  case (length a)
  with assms(1) show ?thesis
    by (auto simp: options_invar_def dest!: numeric_setters_Inr(3))
next
  case (procs a)
  with assms(1) show ?thesis
    by (auto simp: options_invar_def dest!: numeric_setters_Inr(4))
qed (simp_all add: option_setters options_invar_def)

lemma parse_options_invar:
  "options_invar opts \<Longrightarrow> parse_options E opts argv g = Inr (opts', g') \<Longrightarrow> options_invar opts'"
proof (induction E opts argv g rule: parse_options.induct)
  case (1 E opts argv g)
  then show ?case
    by (auto simp: parse_options.simps [of _ _ _ g] rbind_Inr_iff split: prod.splits if_splits
        dest: handle_option_invar)
qed

section \<open>The batching mode as an abstract state\<close>

text \<open>What \<open>-I\<close>, \<open>-L\<close> and \<open>-n\<close> choose between.\<close>

datatype batching = Fill | By_lines size_t | By_args size_t | Replacing cstr

definition batching_of :: "options \<Rightarrow> batching" where
  "batching_of opts = (case op_arg_placeholder opts of
      Some p \<Rightarrow> Replacing p
    | None \<Rightarrow> if op_line_mode_specified opts then By_lines (op_max_lines_per_command opts)
        else if op_max_args_per_command opts > 0 then By_args (op_max_args_per_command opts)
        else Fill)"

text \<open>
  The abstract step: \<open>I\<close>, \<open>L\<close> and \<open>n\<close> replace the mode, whatever it was, and every other
  option keeps it.
\<close>

definition number_given :: "getopt_result \<Rightarrow> size_t" where
  "number_given r = (case gr_optarg r of None \<Rightarrow> 0
     | Some a \<Rightarrow> (case parse_number_arg a of Inl _ \<Rightarrow> 0 | Inr n \<Rightarrow> n))"

definition batching_step :: "getopt_result \<Rightarrow> batching \<Rightarrow> batching" where
  "batching_step r b =
     (if gr_opt r = opt_char CHR ''I'' then
        (case gr_optarg r of Some p \<Rightarrow> Replacing p | None \<Rightarrow> Fill)
      else if gr_opt r = opt_char CHR ''L'' then By_lines (number_given r)
      else if gr_opt r = opt_char CHR ''n'' then By_args (number_given r)
      else b)"

lemma handle_option_batching:
  assumes "options_invar opts" and "handle_option E opts r = Inr opts'"
  shows "batching_of opts' = batching_step r (batching_of opts)"
  using assms(2,1)
proof (cases rule: handle_option_cases)
  case placeholder
  with assms(1) show ?thesis
    by (cases "gr_optarg r")
      (simp_all add: option_setters batching_of_def batching_step_def)
qed (auto simp: option_setters batching_of_def batching_step_def word_gt_0 size_eq_unat
      number_given_def dest!: numeric_setters_Inr split: option.split)

text \<open>The options \<open>getopt\<close> delivers from a state on, and the state it ends in.\<close>

function options_seen :: "cstr list \<Rightarrow> getopt_state \<Rightarrow> getopt_result list" where
  "options_seen argv g = (case getopt argv phxargs_opts g of (r, g') \<Rightarrow>
     if gr_opt r = -1 then [] else r # options_seen argv g')"
  by pat_completeness auto
termination
  by (relation "measure (\<lambda>(argv, g). getopt_left argv g)") (auto intro: getopt_decreases [OF sym])

declare options_seen.simps [simp del]

lemma parse_options_batching:
  "options_invar opts \<Longrightarrow> parse_options E opts argv g = Inr (opts', g') \<Longrightarrow>
     batching_of opts' = fold batching_step (options_seen argv g) (batching_of opts)"
proof (induction E opts argv g rule: parse_options.induct)
  case (1 E opts argv g)
  obtain r g1 where r: "getopt argv phxargs_opts g = (r, g1)" by fastforce
  show ?case
  proof (cases "gr_opt r = -1")
    case True
    with "1.prems"(2) r show ?thesis
      by (simp add: parse_options.simps [of _ _ _ g] options_seen.simps [of _ g])
  next
    case False
    with "1.prems"(2) r obtain opts1 where h: "handle_option E opts r = Inr opts1"
      and p: "parse_options E opts1 argv g1 = Inr (opts', g')"
      by (auto simp: parse_options.simps [of _ _ _ g] rbind_Inr_iff)
    from "1.IH" [OF r [symmetric] False h handle_option_invar [OF "1.prems"(1) h] p]
    show ?thesis
      using False r handle_option_batching [OF "1.prems"(1) h]
      by (simp add: options_seen.simps [of _ g])
  qed
qed

section \<open>The parse loop never reads a missing argument\<close>

lemma takes_argument_phxargs:
  "takes_argument phxargs_opts c = Some True \<Longrightarrow>
     c \<in> of_char ` {CHR ''a'', CHR ''d'', CHR ''E'', CHR ''I'', CHR ''L'', CHR ''n'', CHR ''P'', CHR ''s''}"
  "takes_argument phxargs_opts c = Some False \<Longrightarrow>
     c \<in> of_char ` {CHR ''0'', CHR ''o'', CHR ''p'', CHR ''r'', CHR ''t'', CHR ''x''}"
  by (auto simp: phxargs_opts_def bytes_def split: if_splits)

text \<open>Exits with a diagnostic, the only way option parsing may stop the process.\<close>

definition diagnosed :: "stop set" where
  "diagnosed = {Exit EXIT_FAILURE d |d. d \<noteq> Unreachable}"

lemma diagnosed_iff [simp]:
  "Exit k d \<in> diagnosed \<longleftrightarrow> k = EXIT_FAILURE \<and> d \<noteq> Unreachable"
  "Abort \<notin> diagnosed" "Undefined \<notin> diagnosed"
  by (auto simp: diagnosed_def)

lemma parse_number_yields [yields_intro]:
  "yields diagnosed (parse_number_arg_with_min a m) (\<lambda>_. True)"
  "yields diagnosed (parse_number_arg a) (\<lambda>_. True)"
  by (simp_all add: parse_number_arg_def parse_number_arg_with_min_def split: prod.split)

lemma numeric_setters_yield:
  "yields diagnosed (set_max_lines_per_command opts a) (\<lambda>_. True)"
  "yields diagnosed (set_max_args_per_command opts a) (\<lambda>_. True)"
  "yields diagnosed (set_max_command_length opts a) (\<lambda>_. True)"
  "yields diagnosed (set_max_procs E opts a) (\<lambda>_. True)"
  using parse_number_yields
  by (auto simp: numeric_setters phxargs_sysconf_def split: prod.split elim!: yields_conseq)

text \<open>What \<open>getopt\<close> may deliver for the option string of the program.\<close>

definition delivered :: "getopt_result \<Rightarrow> bool" where
  "delivered r \<longleftrightarrow>
     gr_opt r \<in> opt_char ` {CHR ''a'', CHR ''d'', CHR ''E'', CHR ''I'', CHR ''L'', CHR ''n'',
       CHR ''P'', CHR ''s''} \<and> gr_optarg r \<noteq> None
   \<or> gr_opt r \<in> opt_char ` {CHR ''0'', CHR ''o'', CHR ''p'', CHR ''r'', CHR ''t'', CHR ''x'',
       CHR '':'', CHR ''?''}"

lemma getopt_scan_delivered: "delivered (fst (getopt_scan argv phxargs_opts i c rest))"
proof (cases "takes_argument phxargs_opts c")
  case None
  then show ?thesis by (simp add: getopt_scan_def delivered_def Let_def)
next
  case (Some b)
  then show ?thesis
    using takes_argument_phxargs [of c]
    by (cases b) (auto simp: getopt_scan_def delivered_def Let_def)
qed

lemma getopt_delivered:
  assumes "getopt argv phxargs_opts g = (r, g')" and "gr_opt r \<noteq> -1"
  shows "delivered r"
proof -
  from assms obtain i c rest where "getopt_scan argv phxargs_opts i c rest = (r, g')"
    by (auto simp: getopt_def Let_def split: if_splits list.splits)
  with getopt_scan_delivered [of argv i c rest] show ?thesis by simp
qed

lemma handle_option_yields:
  assumes "delivered r"
  shows "yields diagnosed (handle_option E opts r) (\<lambda>_. True)"
proof -
  obtain a where a: "gr_optarg r = Some a \<or> gr_opt r \<in> opt_char ` {CHR ''0'', CHR ''o'',
      CHR ''p'', CHR ''r'', CHR ''t'', CHR ''x'', CHR '':'', CHR ''?''}"
    using assms by (auto simp: delivered_def)
  with assms numeric_setters_yield show ?thesis
    by (auto simp: delivered_def handle_option_def with_arg_def Let_def)
qed

lemma parse_options_yields:
  "yields diagnosed (parse_options E opts argv g) (\<lambda>_. True)"
proof (induction E opts argv g rule: parse_options.induct)
  case (1 E opts argv g)
  obtain r g1 where r: "getopt argv phxargs_opts g = (r, g1)" by fastforce
  show ?case
  proof (cases "gr_opt r = -1")
    case False
    have "yields diagnosed (handle_option E opts r) (\<lambda>opts. yields diagnosed
        (parse_options E opts argv g1) (\<lambda>_. True))"
      using handle_option_yields [OF getopt_delivered [OF r False], of E opts]
      by (rule yields_mono) (auto intro: "1.IH" [OF r [symmetric] False])
    with False r show ?thesis by (simp add: parse_options.simps [of _ _ _ g])
  qed (simp add: parse_options.simps [of _ _ _ g] r)
qed

section \<open>Properties\<close>

text \<open>
  C12. The configured options are consistent: at most one of \<open>-I\<close>, \<open>-L\<close> and \<open>-n\<close> is in force,
  \<open>-I\<close> and \<open>-L\<close> imply \<open>-x\<close>, \<open>-I\<close> drops the end marker, sets one line per command and always
  has a delimiter, \<open>-0\<close> and \<open>-d\<close> exclude each other, and a prompt is traced and never combined
  with \<open>-P n\<close> for \<open>n > 1\<close>. (The limit \<open>0\<close> of \<open>-P 0\<close>, which means unlimited, passes that check:
  \<open>prompt_with_unlimited_procs_accepted\<close> below.)
\<close>

theorem options_create_consistent:
  assumes "options_create E argv = Inr opts"
  shows "(op_arg_placeholder opts \<noteq> None \<longrightarrow>
        op_terminate_on_too_large_command opts \<and> op_logical_end_of_input_marker opts = None
        \<and> op_max_lines_per_command opts = 1 \<and> \<not> op_line_mode_specified opts
        \<and> op_max_args_per_command opts = 0
        \<and> (op_use_nul_char_as_arg_delimiter opts \<or> op_arg_delimiter opts \<noteq> 0))
    \<and> (op_line_mode_specified opts \<longrightarrow>
        op_terminate_on_too_large_command opts \<and> op_max_args_per_command opts = 0
        \<and> 1 \<le> unat (op_max_lines_per_command opts))
    \<and> (op_use_nul_char_as_arg_delimiter opts \<longrightarrow> op_arg_delimiter opts = 0)
    \<and> (op_prompt opts \<longrightarrow> op_trace opts \<and> unat (op_max_procs opts) \<le> 1)"
proof -
  from assms obtain opts0 g where p: "parse_options E init_options argv getopt_init = Inr (opts0, g)"
    and c: "configure_options E init_options argv = Inr opts"
    by (auto simp: options_create_def configure_options_def rbind_Inr_iff)
  have "options_invar opts0" using init_options_invar p by (rule parse_options_invar)
  with p c show ?thesis
    by (cases "op_arg_placeholder opts0"; cases "op_line_mode_specified opts0")
      (auto simp: configure_options_def Let_def options_accessors option_setters options_invar_def
        size_less_unat split: if_splits)
qed

definition demo_argv :: "cstr list" where
  "demo_argv = [bytes ''phxargs'', bytes ''-L2'', bytes ''-pI'', bytes ''{}'', bytes ''ls'', bytes ''-n'']"

lemma demo_options:
  "options_create plain_host demo_argv = Inr (init_options\<lparr>op_optind_val := 4,
     op_arg_delimiter := cNL, op_arg_placeholder := Some (bytes ''{}''),
     op_max_lines_per_command := 1, op_prompt := True, op_trace := True,
     op_terminate_on_too_large_command := True\<rparr>)"
  by code_simp

theorem options_create_consistent_witness:
  "\<exists>opts. options_create plain_host demo_argv = Inr opts \<and> op_arg_placeholder opts \<noteq> None
     \<and> op_terminate_on_too_large_command opts \<and> op_arg_delimiter opts \<noteq> 0
     \<and> op_prompt opts \<and> unat (op_max_procs opts) \<le> 1"
  using options_create_consistent [OF demo_options] demo_options
  by (simp add: init_options_def)

text \<open>
  C21. Of \<open>-I\<close>, \<open>-L\<close> and \<open>-n\<close> the last one given decides how the input is cut into command
  lines: the batching mode of the parsed options is the fold of the abstract step, in which
  each of the three replaces the mode, over the options \<open>getopt\<close> delivers.
\<close>

theorem batching_last_option_wins:
  assumes "parse_options E init_options argv getopt_init = Inr (opts, g)"
  shows "batching_of opts = fold batching_step (options_seen argv getopt_init) Fill"
  using parse_options_batching [OF init_options_invar assms]
  by (simp add: batching_of_def [of init_options]) (simp add: init_options_def)

lemma demo_parse:
  "parse_options plain_host init_options demo_argv getopt_init
     = Inr (init_options\<lparr>op_arg_placeholder := Some (bytes ''{}''), op_prompt := True,
         op_trace := True\<rparr>, \<lparr>go_optind = 4, go_nextchar = []\<rparr>)"
  by code_simp

theorem batching_last_option_wins_witness:
  "fold batching_step (options_seen demo_argv getopt_init) Fill = Replacing (bytes ''{}'')"
  using batching_last_option_wins [OF demo_parse]
  by (simp add: batching_of_def init_options_def)

text \<open>
  C31. Option parsing stops the process only through \<open>exit(EXIT_FAILURE)\<close> after a diagnostic
  (or for want of memory): it never reads a missing option argument and never reaches the
  \<open>assert\<close> of the \<open>default\<close> branch, whatever the command line.
\<close>

theorem options_create_safe:
  "case options_create E argv of Inl s \<Rightarrow> s \<in> diagnosed | Inr opts \<Rightarrow> True"
proof -
  have "yields diagnosed (configure_options E init_options argv) (\<lambda>_. True)"
    using parse_options_yields [of E init_options argv getopt_init]
    by (auto simp: configure_options_def Let_def elim!: yields_conseq split: prod.split)
  then have "yields diagnosed (options_create E argv) (\<lambda>_. True)"
    by (auto simp: options_create_def phxargs_malloc_def)
  then show ?thesis by (simp add: yields_def)
qed

text \<open>
  C36. Numeric option arguments round-trip: the decimal numeral of any number from 1 to
  \<open>LONG_MAX\<close> is read back as that number, and zero is refused as too small.
\<close>

theorem numeric_argument_roundtrip:
  assumes "n < 2 ^ 63"
  shows "parse_number_arg (decimal n) =
    (if n = 0 then Inl (Exit EXIT_FAILURE Number_too_small) else Inr (of_nat n))"
  using assms parse_number_decimal [of n] strtol_decimal [of n] decimal_digits [of n]
  by (auto simp: parse_number_arg_def parse_number_arg_with_min_def LONG_MAX_def)

theorem numeric_argument_roundtrip_witness:
  "parse_number_arg (decimal 4096) = Inr 4096"
  using numeric_argument_roundtrip [of 4096] by simp

text \<open>
  Unlimited parallelism, \<open>-P 0\<close>, passes the check that is meant to keep \<open>-p\<close> serial:
  prompting and an unbounded number of processes can be in force together.
\<close>

theorem prompt_with_unlimited_procs_accepted:
  "options_create plain_host [bytes ''phxargs'', bytes ''-p'', bytes ''-P0'']
     = Inr (init_options\<lparr>op_optind_val := 3, op_prompt := True, op_trace := True,
         op_max_procs := 0\<rparr>)"
  by code_simp

end
