(* ===== verification/Command_Create.thy ===== *)
theory Command_Create
  imports Replacer_Correct Options_Correct
begin

text \<open>
  How a run is set up: the strings in the options are parts of \<open>argv\<close>, and
  \<open>command_create\<close> of \<^verbatim>\<open>src/command.c\<close> makes a command with the words after the options and
  the size limit that \<open>command_limit\<close> describes.
\<close>

section \<open>Where the options' strings come from\<close>

text \<open>The state of \<open>getopt\<close> stays inside \<open>argv\<close>, and an option's argument is part of it.\<close>

definition getopt_ok :: "cstr list \<Rightarrow> getopt_state \<Rightarrow> bool" where
  "getopt_ok argv g \<longleftrightarrow> go_optind g \<le> length argv
     \<and> (go_nextchar g \<noteq> [] \<longrightarrow> go_optind g < length argv \<and> arg_ok (go_nextchar g))"

lemma getopt_scan_ok:
  assumes "\<forall>a \<in> set argv. arg_ok a" and "i < length argv" and "arg_ok rest"
    and "getopt_scan argv os i c rest = (r, g')"
  shows "getopt_ok argv g' \<and> (\<forall>a. gr_optarg r = Some a \<longrightarrow> arg_ok a)"
  using assms by (auto simp: getopt_scan_def getopt_ok_def Let_def split: option.splits bool.splits if_splits)

lemma arg_ok_tl: "arg_ok a \<Longrightarrow> arg_ok (tl a)"
  by (cases a) (auto simp: arg_ok_def)

lemma getopt_ok_step:
  assumes "\<forall>a \<in> set argv. arg_ok a" and "getopt_ok argv g" and "getopt argv os g = (r, g')"
  shows "getopt_ok argv g' \<and> (\<forall>a. gr_optarg r = Some a \<longrightarrow> arg_ok a)"
proof (cases "go_nextchar g")
  case (Cons c rest)
  have "arg_ok rest" using assms(2) Cons arg_ok_tl [of "c # rest"] by (simp add: getopt_ok_def)
  moreover have "go_optind g < length argv" using assms(2) Cons by (simp add: getopt_ok_def)
  ultimately show ?thesis
    using assms Cons by (intro getopt_scan_ok) (auto simp: getopt_def Let_def)
next
  case Nil
  let ?i = "go_optind g"
  show ?thesis
  proof (cases "\<exists>d cs. ?i < length argv \<and> argv ! ?i = d # cs \<and> d = of_char CHR ''-'' \<and> cs \<noteq> []
      \<and> cs \<noteq> [of_char CHR ''-'']")
    case True
    then obtain d cs where e: "?i < length argv" "argv ! ?i = d # cs" "d = of_char CHR ''-''" "cs \<noteq> []"
      "cs \<noteq> [of_char CHR ''-'']" by blast
    have "arg_ok (argv ! ?i)" using assms(1) e(1) by simp
    then have "arg_ok (tl cs)" unfolding e(2) using arg_ok_tl [of "d # cs"] arg_ok_tl [of cs] by simp
    moreover have "getopt_scan argv os ?i (hd cs) (tl cs) = (r, g')"
      using assms(3) Nil e by (simp add: getopt_def Let_def)
    ultimately show ?thesis using getopt_scan_ok [OF assms(1) e(1)] by blast
  next
    case False
    then show ?thesis
      using assms(2,3) Nil
      by (auto simp: getopt_def getopt_ok_def Let_def split: if_splits list.splits)
  qed
qed

definition options_strings_ok :: "options \<Rightarrow> bool" where
  "options_strings_ok opts \<longleftrightarrow> (\<forall>p. op_arg_placeholder opts = Some p \<longrightarrow> arg_ok p)
     \<and> (\<forall>m. op_logical_end_of_input_marker opts = Some m \<longrightarrow> arg_ok m)"

lemma handle_option_strings:
  assumes "options_strings_ok opts" and "\<forall>a. gr_optarg r = Some a \<longrightarrow> arg_ok a"
    and "handle_option E opts r = Inr opts'"
  shows "options_strings_ok opts'"
  using assms(3,1,2)
  by (cases rule: handle_option_cases)
    (auto simp: options_strings_ok_def option_setters dest!: numeric_setters_Inr)

lemma parse_options_strings:
  "\<forall>a \<in> set argv. arg_ok a \<Longrightarrow> getopt_ok argv g \<Longrightarrow> options_strings_ok opts \<Longrightarrow>
     parse_options E opts argv g = Inr (opts', g') \<Longrightarrow> options_strings_ok opts' \<and> getopt_ok argv g'"
proof (induction E opts argv g rule: parse_options.induct)
  case (1 E opts argv g)
  obtain r g1 where r: "getopt argv phxargs_opts g = (r, g1)" by fastforce
  note ok = getopt_ok_step [OF "1.prems"(1,2) r]
  show ?case
  proof (cases "gr_opt r = -1")
    case True
    then show ?thesis using "1.prems" ok r by (auto simp: parse_options.simps [of _ _ _ g])
  next
    case False
    then obtain opts1 where "handle_option E opts r = Inr opts1"
      "parse_options E opts1 argv g1 = Inr (opts', g')"
      using "1.prems"(4) r by (auto simp: parse_options.simps [of _ _ _ g] rbind_Inr_iff)
    then show ?thesis
      using "1.IH" [OF r [symmetric] False] "1.prems" ok handle_option_strings by blast
  qed
qed

lemma options_create_strings:
  assumes "\<forall>a \<in> set argv. arg_ok a" and "argv \<noteq> []" and "options_create E argv = Inr opts"
  shows "options_strings_ok opts \<and> op_optind_val opts \<le> length argv"
proof -
  obtain opts1 g1 where p: "parse_options E init_options argv getopt_init = Inr (opts1, g1)"
    using assms(3) by (auto simp: options_create_def configure_options_def rbind_Inr_iff)
  have "getopt_ok argv getopt_init"
    using assms(2) by (cases argv) (auto simp: getopt_ok_def getopt_init_def)
  moreover have "options_strings_ok init_options" by (simp add: options_strings_ok_def init_options_def)
  ultimately have "options_strings_ok opts1 \<and> getopt_ok argv g1"
    using parse_options_strings [OF assms(1) _ _ p] by blast
  with p assms(3) show ?thesis
    by (auto simp: options_create_def configure_options_def rbind_Inr_iff Let_def option_setters
        options_strings_ok_def getopt_ok_def split: if_splits)
qed

section \<open>Creating the command\<close>

text \<open>The words of the command line after the options, or the default command.\<close>

definition command_words :: "nat \<Rightarrow> cstr list \<Rightarrow> cstr list" where
  "command_words arg_index argv = (if arg_index = length argv then [DEFAULT_CMD] else drop arg_index argv)"

definition env_bytes :: "platform \<Rightarrow> nat" where
  "env_bytes E = args_bytes (pf_environ E)"

text \<open>
  The largest command: POSIX leaves \<open>ARG_MAX\<close> less the environment and 2048 bytes; the
  code takes the environment twice, and caps the limit at 128 KB unless \<open>-s\<close> is given.
\<close>

definition command_limit :: "platform \<Rightarrow> options \<Rightarrow> cstr list \<Rightarrow> stop + nat" where
  "command_limit E opts ws =
     rbind (phxargs_sysconf E SC_ARG_MAX) (\<lambda>arg_max.
     let top = (if arg_max > 0 then nat (arg_max - int (2 * env_bytes E + 2048)) else 131072);
         asked = unat (op_max_command_length opts)
     in if \<not> op_max_command_length_specified opts then Inr (min 131072 top)
        else if asked < env_bytes E + args_bytes ws then Inl (Exit EXIT_FAILURE Command_size_too_small)
        else if asked > top then Inl (Exit EXIT_FAILURE Command_size_too_large)
        else Inr asked)"

lemma foldl_strlen:
  "foldl (\<lambda>sz e. sz + (strlen e + 1)) s es = s + of_nat (args_bytes es)"
  by (induction es arbitrary: s) (simp_all add: strlen_def algebra_simps)

lemma unat_calc_env_length: "env_bytes E < 2 ^ 64 \<Longrightarrow> unat (calc_env_length E) = env_bytes E"
  by (simp add: calc_env_length_def foldl_strlen env_bytes_def unat_of_nat_size)

lemma decide_max_length_eq:
  assumes env: "unat (cm_env_length cmd) = env_bytes E" "env_bytes E < 2 ^ 56"
    and len: "unat (command_length cmd) = env_bytes E + args_bytes ws"
    and top: "fst (pf_sysconf E SC_ARG_MAX) < 2 ^ 57"
  shows "decide_max_length E cmd opts = rbind (command_limit E opts ws) (\<lambda>n. Inr (of_nat n))"
proof (cases "phxargs_sysconf E SC_ARG_MAX")
  case (Inl e)
  then show ?thesis by (simp add: decide_max_length_def command_limit_def)
next
  case (Inr m)
  then have m: "m < 2 ^ 57" using top by (auto simp: phxargs_sysconf_def split: prod.splits if_splits)
  have margin: "unat (2 * cm_env_length cmd + 2048) = 2 * env_bytes E + 2048"
  proof -
    have d: "unat (2 * cm_env_length cmd) = 2 * env_bytes E"
      using env by (subst unat_mult_size) simp_all
    show ?thesis using env(2) by (subst unat_add_size) (simp_all add: d)
  qed
  let ?top = "if m > 0 then nat (m - int (2 * env_bytes E + 2048)) else 131072"
  let ?max = "if m > 0 then
      let margin = 2 * cm_env_length cmd + 2048 in
      if word_of_int m > margin then word_of_int m - margin else 0
    else 128 * 1024 :: size_t"
  have max: "?max = of_nat ?top" and t64: "?top < 2 ^ 64"
  proof -
    have "unat ?max = ?top"
    proof (cases "m > 0")
      case True
      then have w: "unat (word_of_int m :: size_t) = nat m"
        using m by (intro unat_word_of_int_size) simp_all
      show ?thesis
        using True
        by (simp add: Let_def size_less_unat margin w unat_sub size_le_unat) linarith
    qed simp
    moreover show "?top < 2 ^ 64" using m by auto
    ultimately show "?max = of_nat ?top" by (simp only: size_eq_unat unat_of_nat_size)
  qed
  have u: "unat (of_nat ?top :: size_t) = ?top" using t64 by (rule unat_of_nat_size)
  have min: "phxargs_min (128 * 1024) (of_nat ?top) = of_nat (min 131072 ?top)"
    by (simp only: phxargs_min_def size_less_unat u min_def) simp
  show ?thesis
    unfolding decide_max_length_def command_limit_def Inr rbind_simps max [unfolded Let_def] Let_def
      options_accessors
    by (simp only: size_less_unat len u min split: if_split) simp
qed

text \<open>The command a run starts with.\<close>

definition new_command :: "platform \<Rightarrow> options \<Rightarrow> cstr list \<Rightarrow> command \<Rightarrow> bool" where
  "new_command E opts ws cmd \<longleftrightarrow> cmd_invar cmd \<and> fresh_command cmd \<and> cm_fixed cmd = ws
     \<and> cm_replaced cmd = [] \<and> cm_arg_placeholder cmd = op_arg_placeholder opts
     \<and> cm_max_lines cmd = op_max_lines_per_command opts
     \<and> cm_max_args cmd = op_max_args_per_command opts
     \<and> cm_line_mode cmd = op_line_mode_specified opts
     \<and> cm_terminate_on_too_large_command cmd = op_terminate_on_too_large_command opts
     \<and> cm_trace cmd = op_trace opts \<and> cm_prompt cmd = op_prompt opts
     \<and> cm_open_tty cmd = op_open_tty opts \<and> unat (cm_env_length cmd) = env_bytes E"

text \<open>The bounds under which the sizes of a run are exact, far above those of real hosts.\<close>

definition within_bounds :: "platform \<Rightarrow> options \<Rightarrow> cstr list \<Rightarrow> bool" where
  "within_bounds E opts argv \<longleftrightarrow> (\<forall>a \<in> set argv. arg_ok a) \<and> args_bytes argv < 2 ^ 56
     \<and> env_bytes E < 2 ^ 56 \<and> fst (pf_sysconf E SC_ARG_MAX) < 2 ^ 57
     \<and> unat (op_max_args_per_command opts) < 2 ^ 57
     \<and> options_strings_ok opts \<and> op_optind_val opts \<le> length argv"

lemma args_bytes_drop: "args_bytes (drop n as) \<le> args_bytes as"
proof -
  have "args_bytes (take n as @ drop n as) = args_bytes (take n as) + args_bytes (drop n as)"
    by (rule args_bytes_simps)
  then show ?thesis by simp
qed

lemma command_words_ok:
  assumes "\<forall>a \<in> set argv. arg_ok a" and "args_bytes argv < 2 ^ 56" and "i \<le> length argv"
  shows "\<forall>a \<in> set (command_words i argv). arg_ok a" "args_bytes (command_words i argv) < 2 ^ 56"
    "command_words i argv \<noteq> []" "length (command_words i argv) < 2 ^ 56"
proof -
  show ok: "\<forall>a \<in> set (command_words i argv). arg_ok a"
    using assms(1) by (auto simp: command_words_def DEFAULT_CMD_def bytes_def arg_ok_def dest: in_set_dropD)
  show b: "args_bytes (command_words i argv) < 2 ^ 56"
    using assms(2) args_bytes_drop [of i argv]
    by (simp add: command_words_def DEFAULT_CMD_def bytes_def)
  show "command_words i argv \<noteq> []" using assms(3) by (simp add: command_words_def)
  show "length (command_words i argv) < 2 ^ 56" using b args_bytes_length le_less_trans by blast
qed

lemma no_args_simps [simp]: "args_invar no_args" "args_list no_args = []"
  by (simp_all add: no_args_def args_invar_def args_list_def)

lemma put_all_fixed:
  "put_all (add_fixed_argument E) (cmd\<lparr>cm_fixed_args := a\<rparr>) ws
     = rbind (put_all (command_args_add E) a ws) (\<lambda>a. Inr (cmd\<lparr>cm_fixed_args := a\<rparr>))"
  by (induction ws arbitrary: a) (simp_all add: add_fixed_argument_def rbind_assoc)

lemma fixed_words_yields:
  assumes ok: "\<forall>a \<in> set argv. arg_ok a" "args_bytes argv < 2 ^ 56" "i \<le> length argv"
    and c: "copes E S (2 ^ 58)"
  shows "yields S (if i = length argv then
          rbind (command_args_create_with_capacity E 1) (\<lambda>a.
          add_fixed_argument E (cmd\<lparr>cm_fixed_args := a\<rparr>) DEFAULT_CMD)
        else
          rbind (command_args_create_with_capacity E
              (word_of_int (int (length argv) - int i))) (\<lambda>a.
          put_all (add_fixed_argument E) (cmd\<lparr>cm_fixed_args := a\<rparr>) (drop i argv)))
     (\<lambda>cmd'. \<exists>a. args_invar a \<and> args_list a = command_words i argv \<and> cmd' = cmd\<lparr>cm_fixed_args := a\<rparr>)"
proof -
  note words = command_words_ok [OF ok]
  have "length argv < 2 ^ 56" using ok(2) args_bytes_length le_less_trans by blast
  then have n: "unat (word_of_int (int (length argv) - int i) :: size_t) = length argv - i"
    using ok(3) by (subst unat_word_of_int_size) auto
  have new: "yields S (command_args_create_with_capacity E n) (\<lambda>a. args_invar a \<and> args_list a = [])"
    if "unat n < 2 ^ 57" for n
    using that by (intro yields_conseq [OF create_with_capacity_yields]) (auto intro: copes_le [OF c])
  have put: "yields S (put_all (add_fixed_argument E) (cmd\<lparr>cm_fixed_args := a\<rparr>) (command_words i argv))
      (\<lambda>cmd'. \<exists>a. args_invar a \<and> args_list a = command_words i argv \<and> cmd' = cmd\<lparr>cm_fixed_args := a\<rparr>)"
    if a: "args_invar a \<and> args_list a = []" for a
    unfolding put_all_fixed
    by (rule yields_rbindI [OF ga.put_all_spec]) (use a words in \<open>auto intro: copes_le [OF c]\<close>)
  show ?thesis
  proof (cases "i = length argv")
    case True
    have "yields S (add_fixed_argument E (cmd\<lparr>cm_fixed_args := a\<rparr>) DEFAULT_CMD)
        (\<lambda>cmd'. \<exists>a. args_invar a \<and> args_list a = command_words i argv \<and> cmd' = cmd\<lparr>cm_fixed_args := a\<rparr>)"
      if "args_invar a \<and> args_list a = []" for a
      using put [OF that] True by (simp add: command_words_def)
    then show ?thesis
      unfolding if_P [OF True] by (intro yields_rbindI [OF new]) simp_all
  next
    case False
    have "unat (word_of_int (int (length argv) - int i) :: size_t) < 2 ^ 57"
      using \<open>length argv < 2 ^ 56\<close> unfolding n by simp
    with False put show ?thesis
      unfolding if_not_P [OF False]
      by (intro yields_rbindI [OF new]) (simp_all add: command_words_def)
  qed
qed

lemma command_create_yields:
  assumes bounds: "within_bounds E opts argv" and c: "copes E S (2 ^ 58)"
  defines "ws \<equiv> command_words (op_optind_val opts) argv"
  shows "yields (S \<union> {s. command_limit E opts ws = Inl s}) (command_create E opts (op_optind_val opts) argv)
    (\<lambda>cmd. new_command E opts ws cmd \<and> command_limit E opts ws = Inr (unat (cm_max_length cmd)))"
    (is "yields ?S _ _")
proof -
  have b: "\<forall>a \<in> set argv. arg_ok a" "args_bytes argv < 2 ^ 56" "op_optind_val opts \<le> length argv"
    "env_bytes E < 2 ^ 56" "fst (pf_sysconf E SC_ARG_MAX) < 2 ^ 57"
    "unat (op_max_args_per_command opts) < 2 ^ 57"
    "\<And>p. op_arg_placeholder opts = Some p \<Longrightarrow> arg_ok p"
    using bounds by (simp_all add: within_bounds_def options_strings_ok_def)
  note words = command_words_ok [OF b(1-3), folded ws_def]
  have S: "S \<subseteq> ?S" by blast
  have c': "copes E ?S n" if "n \<le> 2 ^ 58" for n
    using c that by (auto simp: copes_def)
  let ?p = "op_arg_placeholder opts"
  have dup: "yields ?S (phxargs_strdup E ?p) (\<lambda>p. p = ?p)"
  proof (cases ?p)
    case (Some p)
    then show ?thesis
      using b(7) [of p] by (auto simp: arg_ok_def intro!: yields_strdup c')
  qed simp
  let ?cmd0 = "\<lparr>cm_max_lines = op_max_lines_per_command opts,
      cm_max_args = op_max_args_per_command opts, cm_max_length = 0, cm_arg_placeholder = ?p,
      cm_open_tty = op_open_tty opts, cm_prompt = op_prompt opts, cm_trace = op_trace opts,
      cm_terminate_on_too_large_command = op_terminate_on_too_large_command opts,
      cm_line_mode = op_line_mode_specified opts, cm_line_count = 0,
      cm_env_length = calc_env_length E, cm_fixed_args = no_args, cm_input_args = no_args,
      cm_replaced_fixed_args = no_args\<rparr>"
  have env: "unat (calc_env_length E) = env_bytes E" using b(4) by (intro unat_calc_env_length) simp
  have small: "args_invar a \<Longrightarrow> args_list a = ws \<Longrightarrow> args_invar i \<Longrightarrow> args_list i = [] \<Longrightarrow>
      args_invar r \<Longrightarrow> args_list r = [] \<Longrightarrow>
      new_command E opts ws (?cmd0\<lparr>cm_fixed_args := a, cm_input_args := i, cm_max_length := n,
        cm_replaced_fixed_args := r\<rparr>)" for a i r n
    using words b env
    by (auto simp: new_command_def cmd_invar_def fresh_command_def arg_ok_def)
  have input: "yields ?S (new_input_args E cmd) (\<lambda>i. args_invar i \<and> args_list i = [])"
    if "cm_max_args cmd = op_max_args_per_command opts" for cmd
    using b(6) that by (intro new_input_args_yields) (auto intro: c')
  have limit: "yields ?S (decide_max_length E (?cmd0\<lparr>cm_fixed_args := a, cm_input_args := i\<rparr>) opts)
      (\<lambda>n. command_limit E opts ws = Inr (unat n))"
    if a: "args_invar a" "args_list a = ws" "args_invar i" "args_list i = []" for a i
  proof -
    let ?cmd = "?cmd0\<lparr>cm_fixed_args := a, cm_input_args := i\<rparr>"
    have "cmd_invar ?cmd" using small [of a i no_args 0] a by (simp add: new_command_def)
    then have "unat (command_length ?cmd) = env_bytes E + args_bytes ws"
      using a env by (simp add: unat_command_length cmd_base_def)
    then have eq: "decide_max_length E ?cmd opts = rbind (command_limit E opts ws) (\<lambda>n. Inr (of_nat n))"
      using env b(4,5) by (intro decide_max_length_eq) simp_all
    show ?thesis
    proof (cases "command_limit E opts ws")
      case (Inr n)
      have "n < 2 ^ 64"
        using Inr size_t_bound [of "op_max_command_length opts"]
        by (auto simp: command_limit_def rbind_Inr_iff Let_def split: if_splits)
      then have "unat (of_nat n :: size_t) = n" by (rule unat_of_nat_size)
      with Inr show ?thesis unfolding eq by simp
    next
      case (Inl e)
      then show ?thesis unfolding eq by simp
    qed
  qed
  have repl: "yields ?S (command_args_create_with_capacity E (command_args_count a))
      (\<lambda>r. args_invar r \<and> args_list r = [])" if "args_invar a" "args_list a = ws" for a
  proof -
    have "unat (command_args_count a) < 2 ^ 56" using words(4) that by (simp add: unat_args_count)
    then show ?thesis
      by (intro yields_conseq [OF create_with_capacity_yields]) (auto intro: c')
  qed
  have fixed: "yields ?S (if op_optind_val opts = length argv then
          rbind (command_args_create_with_capacity E 1) (\<lambda>a.
          add_fixed_argument E (?cmd0\<lparr>cm_fixed_args := a\<rparr>) DEFAULT_CMD)
        else
          rbind (command_args_create_with_capacity E
              (word_of_int (int (length argv) - int (op_optind_val opts)))) (\<lambda>a.
          put_all (add_fixed_argument E) (?cmd0\<lparr>cm_fixed_args := a\<rparr>) (drop (op_optind_val opts) argv)))
     (\<lambda>cmd'. \<exists>a. args_invar a \<and> args_list a = ws \<and> cmd' = ?cmd0\<lparr>cm_fixed_args := a\<rparr>)"
    unfolding ws_def by (rule fixed_words_yields [OF b(1-3)]) (rule c' [unfolded ws_def], simp)
  have m: "yields ?S (phxargs_malloc E 80 :: stop + byte block) (\<lambda>_. True)"
    by (rule yields_conseq [OF yields_malloc [OF c' [of 0]]]) simp_all
  define good where "good a \<longleftrightarrow> args_invar a \<and> args_list a = ws" for a
  have fixed': "yields ?S (if op_optind_val opts = length argv then
          rbind (command_args_create_with_capacity E 1) (\<lambda>a.
          add_fixed_argument E (?cmd0\<lparr>cm_fixed_args := a\<rparr>) DEFAULT_CMD)
        else
          rbind (command_args_create_with_capacity E
              (word_of_int (int (length argv) - int (op_optind_val opts)))) (\<lambda>a.
          put_all (add_fixed_argument E) (?cmd0\<lparr>cm_fixed_args := a\<rparr>) (drop (op_optind_val opts) argv)))
     (\<lambda>cmd'. \<exists>a. good a \<and> cmd' = ?cmd0\<lparr>cm_fixed_args := a\<rparr>)"
    using fixed by (simp add: good_def)
  show ?thesis
    unfolding command_create_def Let_def options_accessors
  proof (rule yields_rbindI [OF m], rule yields_rbindI [OF dup], hypsubst,
      rule yields_rbindI [OF fixed'], elim exE conjE, hypsubst)
    fix a assume "good a"
    then have a: "args_invar a" "args_list a = ws" by (simp_all add: good_def)
    show "yields ?S (rbind (new_input_args E (?cmd0\<lparr>cm_fixed_args := a\<rparr>)) (\<lambda>i.
        rbind (decide_max_length E (?cmd0\<lparr>cm_fixed_args := a, cm_input_args := i\<rparr>) opts) (\<lambda>n.
        rbind (command_args_create_with_capacity E (command_args_count (cm_fixed_args
          (?cmd0\<lparr>cm_fixed_args := a, cm_input_args := i, cm_max_length := n\<rparr>)))) (\<lambda>r.
        Inr (?cmd0\<lparr>cm_fixed_args := a, cm_input_args := i, cm_max_length := n,
          cm_replaced_fixed_args := r\<rparr>)))))
      (\<lambda>cmd. new_command E opts ws cmd \<and> command_limit E opts ws = Inr (unat (cm_max_length cmd)))"
    proof (rule yields_rbindI [OF input], simp, rule yields_rbindI, rule limit [OF a], simp, simp)
      fix i n assume i: "args_invar i \<and> args_list i = []" and n: "command_limit E opts ws = Inr (unat (n :: size_t))"
      show "yields ?S (rbind (command_args_create_with_capacity E (command_args_count (cm_fixed_args
          (?cmd0\<lparr>cm_fixed_args := a, cm_input_args := i, cm_max_length := n\<rparr>)))) (\<lambda>r.
        Inr (?cmd0\<lparr>cm_fixed_args := a, cm_input_args := i, cm_max_length := n,
          cm_replaced_fixed_args := r\<rparr>)))
        (\<lambda>cmd. new_command E opts ws cmd \<and> command_limit E opts ws = Inr (unat (cm_max_length cmd)))"
        using repl [OF a] small [OF a, of i] i n by (auto elim!: yields_conseq)
    qed
  qed
qed

end
