(* ===== verification/Program_Correct.thy ===== *)
theory Program_Correct
  imports Command_Create Xargs
begin

text \<open>
  The whole program, \<^verbatim>\<open>src/xargs.c\<close> and \<^verbatim>\<open>src/main.c\<close>: what a run does is a function of the
  options, the words of the command, the size limit and the input (\<open>verdict\<close>), and
  \<open>main_yields\<close> shows that \<open>main\<close> always ends and follows it.
\<close>

section \<open>Setting up\<close>

text \<open>The lexer that the options select.\<close>

definition option_lexer :: "platform \<Rightarrow> options \<Rightarrow> bool \<Rightarrow> byte list \<Rightarrow> lexed" where
  "option_lexer E opts =
     (if op_use_nul_char_as_arg_delimiter opts \<or> op_arg_delimiter opts \<noteq> 0
      then delim_lex (op_arg_delimiter opts) (char_promote E (op_arg_delimiter opts))
      else space_lex (op_logical_end_of_input_marker opts))"

text \<open>What is needed of the host before the first token: the input and the size limit.\<close>

definition run_setup :: "platform \<Rightarrow> sources \<Rightarrow> options \<Rightarrow> cstr list \<Rightarrow> stop + infile \<times> nat" where
  "run_setup E F opts argv =
     rbind (arg_source_open F (op_arg_file_path opts)) (\<lambda>src.
     rbind (command_limit E opts (command_words (op_optind_val opts) argv)) (\<lambda>n.
     rbind (phxargs_sysconf E SC_CHILD_MAX) (\<lambda>_. Inr (src, n))))"

definition new_mode :: "platform \<Rightarrow> sources \<Rightarrow> mode_impl \<Rightarrow> options \<Rightarrow> cstr list \<Rightarrow> world
    \<Rightarrow> xargs_mode \<Rightarrow> bool" where
  "new_mode E F impl opts argv w mode \<longleftrightarrow> mode_ok mode w \<and> md_impl mode = impl
     \<and> new_command E opts (command_words (op_optind_val opts) argv) (md_cmd mode)
     \<and> run_setup E F opts argv = Inr (md_arg_source mode, unat (cm_max_length (md_cmd mode)))
     \<and> md_lexer E mode = option_lexer E opts (in_error (md_arg_source mode))
     \<and> \<not> xargs_mode_halted mode \<and> pool_pids (md_pool mode) = []"

text \<open>
  The host: nothing was started yet, the parallelism stays in bounds, and neither signal
  arrives more often than its counter can hold.
\<close>

definition pool_bounds :: "options \<Rightarrow> world \<Rightarrow> bool" where
  "pool_bounds opts w \<longleftrightarrow> fresh_world w \<and> unat (op_max_procs opts) + usr1_total (w_signals w) < 2 ^ 58
     \<and> int (usr1_total (w_signals w)) \<le> SIG_ATOMIC_MAX \<and> int (usr2_total (w_signals w)) \<le> SIG_ATOMIC_MAX"

lemma pool_create_fresh:
  assumes c: "copes E S (2 ^ 58 + 16)" and b: "pool_bounds opts w" and h: "handled w"
    and conf: "phxargs_sysconf E SC_CHILD_MAX \<noteq> Inl (Exit EXIT_FAILURE Perror_sysconf)
      \<or> Exit EXIT_FAILURE Perror_sysconf \<in> S"
  shows "yields S (process_pool_create E (op_max_procs opts))
    (\<lambda>pool. pool_ok pool w \<and> \<not> pl_halt pool \<and> pool_pids pool = [])"
proof -
  have "pool_pids pool = []" if "pool_ok pool w" for pool
    using that b by (auto simp: pool_ok_def pool_world_def pool_bounds_def fresh_world_def)
  then show ?thesis
    using b h by (intro yields_conseq [OF process_pool_create_yields [OF _ _ _ _ conf, of _ w]] copes_le [OF c])
      (auto simp: pool_bounds_def)
qed

lemma command_limit_less:
  assumes "command_limit E opts ws = Inr n" and "fst (pf_sysconf E SC_ARG_MAX) < 2 ^ 57"
  shows "n < 2 ^ 57"
proof -
  obtain m where "phxargs_sysconf E SC_ARG_MAX = Inr m" using assms(1)
    by (auto simp: command_limit_def rbind_Inr_iff)
  moreover from this have "m < 2 ^ 57"
    using assms(2) by (auto simp: phxargs_sysconf_def split: prod.splits if_splits)
  ultimately show ?thesis
    using assms(1) by (auto simp: command_limit_def Let_def split: if_splits)
qed

lemma space_tokenizer_create_error:
  "space_tokenizer_create E n m = Inr t \<Longrightarrow> space_error t = TOKENIZER_ERR_NONE"
  by (auto simp: space_tokenizer_create_def tokenizer_create_def rbind_Inr_iff space_error_def
      tokenizer_get_error_def space_tokenizer_no_token_def)

lemma toker_create_yields:
  assumes c: "copes E S (2 ^ 58)" and n: "unat n < 2 ^ 57" and o: "options_strings_ok opts"
  shows "yields S (if options_use_nul_char_as_arg_delimiter opts \<or> options_arg_delimiter opts \<noteq> 0
         then rbind (delim_tokenizer_create E n (options_arg_delimiter opts)) (\<lambda>t. Inr (Delim t))
         else rbind (space_tokenizer_create E n (options_logical_end_of_input_marker opts))
           (\<lambda>t. Inr (Space t)))
    (\<lambda>t. toker_ready t \<and> toker_error t = TOKENIZER_ERR_NONE \<and> toker_lexer E t = option_lexer E opts)"
proof (cases "op_use_nul_char_as_arg_delimiter opts \<or> op_arg_delimiter opts \<noteq> 0")
  case True
  have "yields S (delim_tokenizer_create E n (op_arg_delimiter opts))
      (\<lambda>t. delim_ready t \<and> dt_delim t = op_arg_delimiter opts)"
    using n by (intro delim_tokenizer_create_yields) (auto intro: copes_le [OF c])
  then show ?thesis
    using True
    by (auto simp: options_accessors toker_ready_def toker_error_def toker_lexer_def delim_ready_def
        delim_lexer_def option_lexer_def delim_error_def tokenizer_get_error_def elim!: yields_conseq)
next
  case False
  have "\<forall>m. op_logical_end_of_input_marker opts = Some m \<longrightarrow> 0 \<notin> set m \<and> length m < 2 ^ 59"
    using o by (auto simp: options_strings_ok_def arg_ok_def)
  then have "yields S (space_tokenizer_create E n (op_logical_end_of_input_marker opts))
      (\<lambda>t. space_ready t \<and> st_logical_end_of_input_marker t = op_logical_end_of_input_marker opts)"
    using n by (intro space_tokenizer_create_yields) (auto intro: copes_le [OF c])
  then have "yields S (space_tokenizer_create E n (op_logical_end_of_input_marker opts))
      (\<lambda>t. space_ready t \<and> st_logical_end_of_input_marker t = op_logical_end_of_input_marker opts
        \<and> space_error t = TOKENIZER_ERR_NONE)"
    by (rule yields_mono) (auto dest: space_tokenizer_create_error)
  then show ?thesis
    using False
    by (auto simp: options_accessors toker_ready_def toker_error_def toker_lexer_def
        space_lexer_def option_lexer_def elim!: yields_conseq)
qed

lemma xargs_mode_create_yields:
  assumes b: "within_bounds E opts argv" "pool_bounds opts w" "handled w"
    and c: "copes E S (2 ^ 58 + 16)"
  shows "yields (S \<union> {s. run_setup E F opts argv = Inl s})
    (xargs_mode_create E F impl opts (op_optind_val opts) argv) (new_mode E F impl opts argv w)"
    (is "yields ?S _ _")
proof -
  let ?ws = "command_words (op_optind_val opts) argv"
  have c': "copes E ?S n" if "n \<le> 2 ^ 58 + 16" for n using c that by (auto simp: copes_def)
  have m: "yields ?S (phxargs_malloc E 48 :: stop + byte block) (\<lambda>_. True)"
    by (rule yields_conseq [OF yields_malloc [OF c' [of 0]]]) simp_all
  show ?thesis
    unfolding xargs_mode_create_def
  proof (rule yields_rbindI [OF m])
    show "yields ?S (rbind (arg_source_open F (options_arg_file_path opts)) (\<lambda>src.
       rbind (command_create E opts (op_optind_val opts) argv) (\<lambda>cmd.
       rbind (process_pool_create E (options_max_procs opts)) (\<lambda>pool.
       rbind (if options_use_nul_char_as_arg_delimiter opts \<or> options_arg_delimiter opts \<noteq> 0
           then rbind (delim_tokenizer_create E (command_max_length cmd) (options_arg_delimiter opts))
             (\<lambda>t. Inr (Delim t))
           else rbind (space_tokenizer_create E (command_max_length cmd)
               (options_logical_end_of_input_marker opts)) (\<lambda>t. Inr (Space t))) (\<lambda>t.
       Inr \<lparr>md_impl = impl, md_arg_source = src, md_cmd = cmd, md_toker = t, md_pool = pool\<rparr>)))))
       (new_mode E F impl opts argv w)"
    proof (cases "arg_source_open F (op_arg_file_path opts)")
      case (Inl e)
      then show ?thesis by (simp add: options_accessors run_setup_def)
    next
      case (Inr src)
      note src = Inr
      have sub: "S \<union> {s. command_limit E opts ?ws = Inl s} \<subseteq> ?S"
        using src by (auto simp: run_setup_def)
      have c58: "copes E S (2 ^ 58)" by (rule copes_le [OF c]) simp
      have cc: "yields ?S (command_create E opts (op_optind_val opts) argv)
          (\<lambda>cmd. new_command E opts ?ws cmd \<and> command_limit E opts ?ws = Inr (unat (cm_max_length cmd)))"
        by (rule yields_mono [OF command_create_yields [OF b(1) c58] sub])
      show ?thesis
        unfolding src [folded options_accessors(3)] rbind_simps
      proof (rule yields_rbindI [OF cc], elim conjE)
        fix cmd
        assume cmd: "new_command E opts ?ws cmd" "command_limit E opts ?ws = Inr (unat (cm_max_length cmd))"
        have n: "unat (cm_max_length cmd) < 2 ^ 57"
          using command_limit_less [OF cmd(2)] b(1) by (simp add: within_bounds_def)
        have "yields ?S (process_pool_create E (op_max_procs opts))
            (\<lambda>pool. pool_ok pool w \<and> \<not> pl_halt pool \<and> pool_pids pool = [])"
          using src cmd(2) by (intro pool_create_fresh [OF c' b(2,3)]) (auto simp: run_setup_def)
        moreover have "run_setup E F opts argv = Inr (src, unat (cm_max_length cmd))"
          if "process_pool_create E (op_max_procs opts) = Inr pool" for pool
          using that src cmd(2) by (auto simp: run_setup_def process_pool_create_def Let_def rbind_Inr_iff)
        ultimately have "yields ?S (process_pool_create E (op_max_procs opts))
            (\<lambda>pool. pool_ok pool w \<and> \<not> pl_halt pool \<and> pool_pids pool = []
              \<and> run_setup E F opts argv = Inr (src, unat (cm_max_length cmd)))"
          by (auto elim!: yields_mono)
        then show "yields ?S (rbind (process_pool_create E (options_max_procs opts)) (\<lambda>pool.
           rbind (if options_use_nul_char_as_arg_delimiter opts \<or> options_arg_delimiter opts \<noteq> 0
               then rbind (delim_tokenizer_create E (command_max_length cmd) (options_arg_delimiter opts))
                 (\<lambda>t. Inr (Delim t))
               else rbind (space_tokenizer_create E (command_max_length cmd)
                   (options_logical_end_of_input_marker opts)) (\<lambda>t. Inr (Space t))) (\<lambda>t.
           Inr \<lparr>md_impl = impl, md_arg_source = src, md_cmd = cmd, md_toker = t, md_pool = pool\<rparr>)))
           (new_mode E F impl opts argv w)"
          unfolding command_max_length_def options_max_procs_def
        proof (rule yields_rbindI, goal_cases)
          case (1 pool)
          have ss: "options_strings_ok opts" using b(1) by (simp add: within_bounds_def)
          have "cmd_invar cmd" using cmd(1) by (simp add: new_command_def)
          then show ?case
            using 1 cmd(1)
            by (intro yields_rbindI [OF toker_create_yields [OF c' n ss]])
              (auto simp: new_mode_def mode_ok_def mode_core_def xargs_mode_halted_def
                process_pool_halted_def md_lexer_def)
        qed
      qed
    qed
  qed
qed

section \<open>The whole program\<close>

text \<open>
  The specification of a run: the commands it means to start and the diagnostic it means
  to stop with, as a function of the options, the words of the command, the size limit
  and the input alone.
\<close>

definition option_limits :: "platform \<Rightarrow> options \<Rightarrow> cstr list \<Rightarrow> nat \<Rightarrow> limits" where
  "option_limits E opts ws n = \<lparr>lm_base = env_bytes E + args_bytes ws, lm_max_length = n,
     lm_max_args = unat (op_max_args_per_command opts),
     lm_max_lines = (if op_line_mode_specified opts
       then Some (unat (op_max_lines_per_command opts)) else None),
     lm_terminate = op_terminate_on_too_large_command opts\<rparr>"

definition option_tokens :: "platform \<Rightarrow> options \<Rightarrow> infile \<Rightarrow> (cstr \<times> bool) list \<times> tokenizer_error" where
  "option_tokens E opts src = lex_all (option_lexer E opts (in_error src)) (in_rest src)"

definition verdict :: "platform \<Rightarrow> options \<Rightarrow> cstr list \<Rightarrow> nat \<Rightarrow> infile
    \<Rightarrow> cstr list list \<times> diagnostic option" where
  "verdict E opts ws n src =
     (let L = option_limits E opts ws n; tokens = option_tokens E opts src in
      case op_arg_placeholder opts of
        None \<Rightarrow> (case run_plan L (op_suppress_execution_on_empty_input opts) tokens of
          (bs, d) \<Rightarrow> (map (\<lambda>b. ws @ b) bs, d))
      | Some p \<Rightarrow> (case replacer_plan L tokens of
          (good, d) \<Rightarrow> (map (\<lambda>t. hd ws # map (replace_all p t) (tl ws)) good, d)))"

text \<open>The input is small enough for the sizes to be exact: less than \<open>2 ^ 54\<close> bytes.\<close>

definition input_bounds :: "cstr list \<Rightarrow> infile \<Rightarrow> bool" where
  "input_bounds argv src \<longleftrightarrow> length (in_rest src) < 2 ^ 54
     \<and> (args_bytes argv + 10) * (length (in_rest src) + 1) < 2 ^ 57"

text \<open>The kind of children the options ask for.\<close>

definition option_kind :: "options \<Rightarrow> child_kind" where
  "option_kind opts = \<lparr>ck_prompt = op_prompt opts, ck_open_tty = op_open_tty opts, ck_trace = op_trace opts\<rparr>"

lemma new_command_kind: "new_command E opts ws cmd \<Longrightarrow> kind_of cmd = option_kind opts"
  by (simp add: new_command_def kind_of_def option_kind_def)

lemma new_mode_verdict:
  assumes "new_mode E F impl opts argv w mode"
    and "run_setup E F opts argv = Inr (src, n)"
  defines "ws \<equiv> command_words (op_optind_val opts) argv"
  shows "op_arg_placeholder opts = None \<Longrightarrow>
      appender_verdict E (op_suppress_execution_on_empty_input opts) mode = verdict E opts ws n src"
    and "op_arg_placeholder opts \<noteq> None \<Longrightarrow> replacer_verdict E mode = verdict E opts ws n src"
proof -
  have src: "md_arg_source mode = src" "unat (cm_max_length (md_cmd mode)) = n"
    using assms(1,2) by (simp_all add: new_mode_def)
  have cmd: "new_command E opts ws (md_cmd mode)" using assms(1) by (simp add: new_mode_def ws_def)
  have L: "lm mode = option_limits E opts ws n"
    using cmd src(2) by (simp add: lm_def limits_of_def option_limits_def cmd_base_def new_command_def)
  have ts: "mode_tokens E mode = option_tokens E opts src"
    using assms(1) src(1) by (simp add: mode_tokens_def option_tokens_def new_mode_def)
  have w: "cm_fixed (md_cmd mode) = ws" "cm_arg_placeholder (md_cmd mode) = op_arg_placeholder opts"
    using cmd by (simp_all add: new_command_def)
  show "op_arg_placeholder opts = None \<Longrightarrow>
      appender_verdict E (op_suppress_execution_on_empty_input opts) mode = verdict E opts ws n src"
    by (simp add: appender_verdict_def verdict_def L ts Let_def batch_argv_def w split: prod.split)
  show "op_arg_placeholder opts \<noteq> None \<Longrightarrow> replacer_verdict E mode = verdict E opts ws n src"
    by (auto simp: replacer_verdict_def verdict_def L ts Let_def replaced_argv_def w split: prod.split)
qed

lemma new_mode_run_yields:
  assumes m: "new_mode E F impl opts argv w mode" and s: "run_setup E F opts argv = Inr (src, n)"
    and impl: "impl = (if op_arg_placeholder opts = None
      then Appender (op_suppress_execution_on_empty_input opts) else Replacer)"
    and b: "input_bounds argv src" and c: "copes E S (2 ^ 58)" and T: "S \<times> UNIV \<subseteq> T"
    and f: "fork_copes T w"
  defines "v \<equiv> verdict E opts (command_words (op_optind_val opts) argv) n src"
  assumes fails: "fails_as_planned E (option_kind opts) w v \<subseteq> T"
  shows "\<exists>r. xargs_run E mode w = Some r \<and> yields T r (runs_as_planned E (option_kind opts) w v)"
proof -
  have src: "md_arg_source mode = src" "\<not> xargs_mode_halted mode" "pool_pids (md_pool mode) = []"
    "mode_ok mode w" and cmd: "new_command E opts (command_words (op_optind_val opts) argv) (md_cmd mode)"
    using m s by (simp_all add: new_mode_def)
  have fresh: "fresh_command (md_cmd mode)" "cm_input (md_cmd mode) = []"
    "cm_replaced (md_cmd mode) = []" "cm_arg_placeholder (md_cmd mode) = op_arg_placeholder opts"
    using cmd by (simp_all add: new_command_def fresh_command_def)
  note kind = new_command_kind [OF cmd]
  have run: "xargs_run E mode w = (case impl of Appender q \<Rightarrow> appender_mode_run E q mode w
      | Replacer \<Rightarrow> replacer_mode_run E mode w)"
    using m by (simp add: xargs_run_def xargs_mode_run_def new_mode_def)
  show ?thesis
  proof (cases "op_arg_placeholder opts")
    case None
    have "budget mode < 2 ^ 57 - 4"
      using b by (simp add: budget_def fresh src input_bounds_def)
    from appender_mode_run_yields [OF src(4) fresh(1) _ src(2) this c T f,
        of "op_suppress_execution_on_empty_input opts"]
    show ?thesis
      using fails None by (simp add: v_def new_mode_verdict(1) [OF m s None] run impl fresh(4) kind)
  next
    case (Some p)
    then have P: "op_arg_placeholder opts \<noteq> None" by simp
    have "replaceable mode w"
      using src fresh P by (simp add: replaceable_def mode_ok_def)
    moreover have "replacer_room mode"
    proof -
      have "args_bytes (cm_fixed (md_cmd mode)) \<le> args_bytes argv + 10"
        using cmd args_bytes_drop [of "op_optind_val opts" argv]
        by (simp add: new_command_def command_words_def DEFAULT_CMD_def bytes_def split: if_splits)
      then have "args_bytes (cm_fixed (md_cmd mode)) * (length (in_rest src) + 1)
          \<le> (args_bytes argv + 10) * (length (in_rest src) + 1)"
        by (rule mult_le_mono1)
      then have "args_bytes (cm_fixed (md_cmd mode)) * (length (in_rest src) + 1) < 2 ^ 57"
        by (rule le_less_trans [OF _ conjunct2 [OF b [unfolded input_bounds_def]]])
      then show ?thesis using b unfolding replacer_room_def src by (simp only: input_bounds_def) simp
    qed
    ultimately show ?thesis
      using replacer_mode_run_yields [OF src(4) _ _ c T f] fails Some
      by (simp add: v_def new_mode_verdict(2) [OF m s P] run impl kind)
  qed
qed

text \<open>Installing the handlers changes nothing of the world but the dispositions.\<close>

abbreviation handling :: "world \<Rightarrow> world" where
  "handling \<equiv> process_pool_install_signal_handlers"

lemma handling_fields [simp]:
  "w_exec (handling w) = w_exec w" "w_fork_fails (handling w) = w_fork_fails w"
  "w_forks (handling w) = w_forks w" "w_children (handling w) = w_children w"
  "w_sched (handling w) = w_sched w" "w_signals (handling w) = w_signals w"
  "w_tty (handling w) = w_tty w" "w_log (handling w) = w_log w" "handled (handling w)"
  by (simp_all add: process_pool_install_signal_handlers_def os_sigaction_def handled_def)

lemma handling_bounds [simp]:
  "pool_bounds opts (handling w) = pool_bounds opts w" "fork_copes T (handling w) = fork_copes T w"
  "spawns E k (handling w) w' xs = spawns E k w w' xs"
  by (simp_all add: pool_bounds_def fresh_world_def fork_copes_def spawns_def took_courses_def)

lemma handling_planned [simp]:
  "fails_as_planned E k (handling w) v = fails_as_planned E k w v"
  "runs_as_planned E k (handling w) v = runs_as_planned E k w v"
  by (simp_all add: fails_as_planned_def runs_as_planned_def)

lemma xargs_create_yields:
  assumes o: "options_create E argv = Inr opts"
    and b: "within_bounds E opts argv" "pool_bounds opts w" and c: "copes E S (2 ^ 58 + 16)"
  shows "yields ((S \<union> {s. run_setup E F opts argv = Inl s}) \<times> {handling w}) (xargs_create E F argv w)
    (\<lambda>(x, w'). w' = handling w \<and> new_mode E F (if op_arg_placeholder opts = None
      then Appender (op_suppress_execution_on_empty_input opts) else Replacer) opts argv w' x)"
proof -
  let ?S = "S \<union> {s. run_setup E F opts argv = Inl s}" and ?w = "handling w"
  have lifted: "yields (?S \<times> {?w}) (lift ?w m) P" if "yields ?S m P" for m :: "stop + 'a" and P
    using that by (cases m) simp_all
  have m: "yields ?S (phxargs_malloc E k :: stop + byte block) (\<lambda>_. True)" for k
    using c by (intro yields_conseq [OF yields_malloc [of E ?S 0]]) (auto simp: copes_def)
  have b': "pool_bounds opts ?w" "handled ?w" using b(2) by simp_all
  have x: "yields ?S (rbind (phxargs_malloc E k :: stop + byte block) (\<lambda>_.
      xargs_mode_create E F impl opts (op_optind_val opts) argv)) (new_mode E F impl opts argv ?w)" for k impl
    by (rule yields_rbindI [OF m xargs_mode_create_yields [OF b(1) b' c]])
  have lx: "yields (?S \<times> {?w}) (lift ?w (if op_arg_placeholder opts = None
      then rbind (phxargs_malloc E 16 :: stop + byte block) (\<lambda>_. xargs_mode_create E F
        (Appender (op_suppress_execution_on_empty_input opts)) opts (op_optind_val opts) argv)
      else rbind (phxargs_malloc E 8 :: stop + byte block) (\<lambda>_. xargs_mode_create E F Replacer opts
        (op_optind_val opts) argv))) (new_mode E F (if op_arg_placeholder opts = None
      then Appender (op_suppress_execution_on_empty_input opts) else Replacer) opts argv ?w)"
    using lifted [OF x] by (simp del: yields_rbind)
  show ?thesis
    unfolding xargs_create_def o lift_simps rbind_simps Let_def options_accessors appender_mode_create_def
      replacer_mode_create_def
    by (rule yields_rbindI [OF lifted [OF m]], rule yields_rbindI [OF lx]) simp
qed

text \<open>
  Everything at once: the process always ends, and it ends either with the status of its
  children after doing what the specification says, or in one of the ways \<open>T\<close>.
\<close>

lemma main_yields:
  assumes o: "options_create E argv = Inr opts"
    and b: "within_bounds E opts argv" "pool_bounds opts w" and c: "copes E S (2 ^ 58 + 16)"
    and i: "\<And>src n. run_setup E F opts argv = Inr (src, n) \<Longrightarrow> input_bounds argv src"
    and T: "(S \<union> {s. run_setup E F opts argv = Inl s}) \<times> UNIV \<subseteq> T" and f: "fork_copes T w"
    and fails: "\<And>src n. run_setup E F opts argv = Inr (src, n) \<Longrightarrow>
      fails_as_planned E (option_kind opts) w (verdict E opts (command_words (op_optind_val opts) argv) n src) \<subseteq> T"
  shows "\<exists>r. main E F argv w = Some r \<and> yields T r (\<lambda>(status, w'). \<exists>src n mode'.
    run_setup E F opts argv = Inr (src, n)
    \<and> runs_as_planned E (option_kind opts) w (verdict E opts (command_words (op_optind_val opts) argv) n src) (status, mode', w'))"
proof (cases "xargs_create E F argv w")
  case (Inl e)
  then show ?thesis
    using xargs_create_yields [OF o b c, of F] T by (auto simp: main_def)
next
  case (Inr y)
  let ?w = "handling w"
  obtain x where y: "y = (x, ?w)" and x: "new_mode E F (if op_arg_placeholder opts = None
      then Appender (op_suppress_execution_on_empty_input opts) else Replacer) opts argv ?w x"
    using xargs_create_yields [OF o b c, of F] Inr by (cases y) auto
  then obtain src n where s: "run_setup E F opts argv = Inr (src, n)" by (auto simp: new_mode_def)
  let ?v = "verdict E opts (command_words (op_optind_val opts) argv) n src"
  have c58: "copes E S (2 ^ 58)" by (rule copes_le [OF c]) simp
  have T': "S \<times> UNIV \<subseteq> T" using T by auto
  have f': "fork_copes T ?w" and fails': "fails_as_planned E (option_kind opts) ?w ?v \<subseteq> T" using f fails [OF s] by simp_all
  obtain r where r: "xargs_run E x ?w = Some r" "yields T r (runs_as_planned E (option_kind opts) w ?v)"
    using new_mode_run_yields [OF x s refl i [OF s] c58 T' f' fails'] by auto
  have "yields T (rbind r (\<lambda>(execution_status, x, w). Inr (execution_status, w)))
      (\<lambda>(status, w'). \<exists>src n mode'. run_setup E F opts argv = Inr (src, n)
        \<and> runs_as_planned E (option_kind opts) w (verdict E opts (command_words (op_optind_val opts) argv) n src) (status, mode', w'))"
    by (rule yields_rbindI [OF r(2)]) (use s in auto)
  with r(1) Inr y show ?thesis by (simp add: main_def)
qed

end
