(* ===== verification/Program_Properties.thy ===== *)
theory Program_Properties
  imports Program_Correct
begin

text \<open>
  The properties of the whole program: that it follows its specification, that it is safe
  on every host, and what the specification promises for \<open>-n\<close>, \<open>-L\<close>, \<open>-s\<close> and \<open>-I\<close>. Each is
  a few steps over \<open>main_yields\<close> and the lemmas on plans.
\<close>

section \<open>The conditions of a run\<close>

text \<open>
  The arguments are C strings, the environment, the limits of the host and the requested
  numbers are below \<open>2 ^ 56\<close> to \<open>2 ^ 58\<close>, the input is below \<open>2 ^ 54\<close> bytes, at most
  \<open>2 ^ 31 - 1\<close> signals of each kind arrive (\<open>pool_bounds\<close>), and nothing was started before.
\<close>

definition run_bounds :: "platform \<Rightarrow> sources \<Rightarrow> cstr list \<Rightarrow> options \<Rightarrow> world \<Rightarrow> bool" where
  "run_bounds E F argv opts w \<longleftrightarrow> argv \<noteq> [] \<and> (\<forall>a \<in> set argv. arg_ok a) \<and> args_bytes argv < 2 ^ 56
     \<and> env_bytes E < 2 ^ 56 \<and> fst (pf_sysconf E SC_ARG_MAX) < 2 ^ 57
     \<and> unat (op_max_args_per_command opts) < 2 ^ 57 \<and> pool_bounds opts w
     \<and> (case arg_source_open F (op_arg_file_path opts) of Inl s \<Rightarrow> True | Inr src \<Rightarrow> input_bounds argv src)"

lemma run_boundsD:
  assumes "run_bounds E F argv opts w" and "options_create E argv = Inr opts"
  shows "within_bounds E opts argv" "pool_bounds opts w" "fresh_world w"
    "run_setup E F opts argv = Inr (src, n) \<Longrightarrow> input_bounds argv src"
  using assms options_create_strings [of argv E opts]
  by (auto simp: run_bounds_def within_bounds_def run_setup_def rbind_Inr_iff pool_bounds_def)

text \<open>The commands of the specification, and its diagnostic.\<close>

definition specified :: "platform \<Rightarrow> sources \<Rightarrow> options \<Rightarrow> cstr list \<Rightarrow> stop + cstr list list \<times> diagnostic option" where
  "specified E F opts argv = rbind (run_setup E F opts argv) (\<lambda>(src, n).
     Inr (verdict E opts (command_words (op_optind_val opts) argv) n src))"

definition never_halted :: "world \<Rightarrow> bool" where
  "never_halted w \<longleftrightarrow> (\<forall>st \<in> snd ` set (reaped (w_log w)). \<not> halting st)"

text \<open>
  The children since \<open>w\<close>, one for each command that was started, did what the options ask
  for: which commands reached \<open>execvp\<close>, the statuses they ended with, what was traced and
  what was read from the terminal.
\<close>

definition children_explained :: "options \<Rightarrow> world \<Rightarrow> world \<Rightarrow> bool" where
  "children_explained opts w w' \<longleftrightarrow>
     (let c = courses (option_kind opts) (w_exec w) (w_forks w) (w_tty w) (spawned (w_log w'))
      in map snd (forked (w_log w')) = co_ends c \<and> execs (w_log w') = co_execs c
        \<and> traced (w_log w') = co_traces c \<and> w_tty w' = co_tty c)"

lemma spawns_explained:
  assumes "spawns E (option_kind opts) w w' ps" and "ample E" and "fresh_world w"
  shows "spawned (w_log w') = ps" and "children_explained opts w w'"
  using assms by (auto simp: spawns_def took_courses_def fresh_world_def children_explained_def Let_def)

lemma unhalted_host:
  assumes "children_explained opts w w'" and "all_reaped w'"
    and "\<And>n as. \<not> halting (exec_status (w_exec w n as))"
  shows "never_halted w'"
  unfolding never_halted_def
proof (rule ballI)
  fix st assume "st \<in> snd ` set (reaped (w_log w'))"
  then have "st \<in> snd ` set (forked (w_log w'))" using assms(2) unfolding all_reaped_def by (metis set_mset_mset)
  then have "st \<in> set (map snd (forked (w_log w')))" by simp
  then have "st \<in> set (co_ends (courses (option_kind opts) (w_exec w) (w_forks w) (w_tty w) (spawned (w_log w'))))"
    using assms(1) by (simp only: children_explained_def Let_def)
  from courses_ends [OF this] show "\<not> halting st"
  proof
    assume "\<exists>i as. st = exec_status (w_exec w i as)"
    then show ?thesis using assms(3) by blast
  qed (auto simp: halting_def)
qed

text \<open>How a run may end, given the commands and the diagnostic that are specified.\<close>

definition run_follows :: "options \<Rightarrow> world \<Rightarrow> cstr list list \<times> diagnostic option \<Rightarrow> (stop \<times> world) + int \<times> world \<Rightarrow> bool" where
  "run_follows opts w v r = (case r of
     Inr (status, w') \<Rightarrow> all_reaped w' \<and> status = final_status w' \<and> children_explained opts w w'
       \<and> prefix (spawned (w_log w')) (fst v)
       \<and> (never_halted w' \<longrightarrow> snd v = None \<and> spawned (w_log w') = fst v)
   | Inl (s, w') \<Rightarrow> children_explained opts w w' \<and> spawned (w_log w') = fst v
       \<and> (\<exists>d. snd v = Some d \<and> s = Exit EXIT_FAILURE d \<and> (d = Input_error \<longrightarrow> all_reaped w')))"

lemma main_follows:
  assumes o: "options_create E argv = Inr opts" and s: "specified E F opts argv = Inr v"
    and b: "run_bounds E F argv opts w" and a: "ample E" and f: "\<forall>k. \<not> w_fork_fails w k"
  shows "\<exists>r. main E F argv w = Some r \<and> run_follows opts w v r"
proof -
  obtain src n where sn: "run_setup E F opts argv = Inr (src, n)"
    and v: "v = verdict E opts (command_words (op_optind_val opts) argv) n src"
    using s by (auto simp: specified_def rbind_Inr_iff)
  note bs = run_boundsD [OF b o]
  note sp = spawns_explained [OF _ a bs(3)]
  let ?T = "fails_as_planned E (option_kind opts) w v"
  have "\<exists>r. main E F argv w = Some r \<and> yields ?T r (\<lambda>(status, w'). \<exists>src n mode'.
    run_setup E F opts argv = Inr (src, n)
    \<and> runs_as_planned E (option_kind opts) w (verdict E opts (command_words (op_optind_val opts) argv) n src) (status, mode', w'))"
    by (rule main_yields [OF o bs(1,2), where S = "{}"])
      (use a f sn v bs(4) in \<open>auto simp: copes_ample fork_copes_def\<close>)
  then obtain r where r: "main E F argv w = Some r"
    "yields ?T r (\<lambda>(status, w'). \<exists>mode'. runs_as_planned E (option_kind opts) w v (status, mode', w'))"
    using sn v by auto
  have "run_follows opts w v r"
  proof (cases r)
    case (Inl e)
    then show ?thesis
      using r(2) sp by (auto simp: run_follows_def fails_as_planned_def)
  next
    case (Inr x)
    obtain status w' where x: "x = (status, w')" by fastforce
    then obtain mode' where "runs_as_planned E (option_kind opts) w v (status, mode', w')" using r(2) Inr by auto
    then show ?thesis
      using sp by (auto simp: run_follows_def runs_as_planned_def Inr x never_halted_def)
  qed
  with r(1) show ?thesis by blast
qed

text \<open>
  A small host: every command succeeds, and nothing is pending; the signals were ignored by
  the process that started the program.
\<close>

definition calm_world :: world where
  "calm_world = \<lparr>w_exec = (\<lambda>n argv. Runs (Exited 0)), w_fork_fails = (\<lambda>n. False), w_forks = 0,
     w_children = [], w_sched = [], w_signals = [], w_handlers = (\<lambda>sig. SIG_IGN), w_tty = None,
     w_log = []\<rparr>"

definition only_stdin :: "infile \<Rightarrow> sources" where
  "only_stdin src = \<lparr>sr_stdin = src, sr_files = (\<lambda>p. None)\<rparr>"

lemmas start_defs = run_bounds_def arg_ok_def env_bytes_def plain_host_def init_options_def pool_bounds_def
  fresh_world_def calm_world_def usr1_total_def usr2_total_def SIG_ATOMIC_MAX_def arg_source_open_def
  only_stdin_def input_bounds_def bytes_def

text \<open>\<open>phxargs -n2 ls\<close>, with three items on standard input.\<close>

definition pairs_argv :: "cstr list" where
  "pairs_argv = [bytes ''phxargs'', bytes ''-n2'', bytes ''ls'']"

definition pairs_input :: infile where
  "pairs_input = \<lparr>in_rest = bytes ''a 'b c' d'', in_error = False\<rparr>"

definition pairs_options :: options where
  "pairs_options = init_options\<lparr>op_optind_val := 2, op_max_args_per_command := 2\<rparr>"

lemma pairs_create: "options_create plain_host pairs_argv = Inr pairs_options"
  by code_simp

lemma pairs_tokens: "option_tokens plain_host pairs_options pairs_input
    = ([(bytes ''a'', False), (bytes ''b c'', False), (bytes ''d'', True)], TOKENIZER_ERR_NONE)"
  by code_simp

lemma pairs_setup:
  "run_setup plain_host (only_stdin src) pairs_options pairs_argv = Inr (src, 131072)"
  by (simp add: run_setup_def only_stdin_def pairs_options_def init_options_def arg_source_open_def
      command_limit_def plain_host_def phxargs_sysconf_def env_bytes_def)

lemma pairs_limits:
  "option_limits plain_host pairs_options (command_words 2 pairs_argv) 131072
     = \<lparr>lm_base = 3, lm_max_length = 131072, lm_max_args = 2, lm_max_lines = None, lm_terminate = False\<rparr>"
  by (simp add: option_limits_def pairs_options_def init_options_def command_words_def pairs_argv_def
      env_bytes_def plain_host_def bytes_def)

lemma pairs_specified:
  "specified plain_host (only_stdin pairs_input) pairs_options pairs_argv
     = Inr ([[bytes ''ls'', bytes ''a'', bytes ''b c''], [bytes ''ls'', bytes ''d'']], None)"
proof -
  have "op_optind_val pairs_options = 2" "op_arg_placeholder pairs_options = None"
    "\<not> op_suppress_execution_on_empty_input pairs_options" "command_words 2 pairs_argv = [bytes ''ls'']"
    by (simp_all add: pairs_options_def init_options_def command_words_def pairs_argv_def)
  then show ?thesis
    using pairs_limits
    by (simp add: specified_def pairs_setup verdict_def pairs_tokens Let_def run_plan_def over_size_def
        closes_before_def bytes_def)
qed

lemma pairs_bounds: "run_bounds plain_host (only_stdin pairs_input) pairs_argv pairs_options calm_world"
  by (simp add: start_defs pairs_argv_def pairs_options_def pairs_input_def)

lemma pairs_src: "run_setup plain_host (only_stdin pairs_input) pairs_options pairs_argv = Inr (src, n) \<Longrightarrow>
    src = pairs_input \<and> n = 131072"
  by (simp add: pairs_setup)

section \<open>What the specification guarantees\<close>

definition ordinary_run :: "platform \<Rightarrow> sources \<Rightarrow> cstr list \<Rightarrow> options \<Rightarrow> world \<Rightarrow> bool" where
  "ordinary_run E F argv opts w \<longleftrightarrow> options_create E argv = Inr opts \<and> run_bounds E F argv opts w
     \<and> ample E \<and> (\<forall>k. \<not> w_fork_fails w k)"

definition commands_of :: "(stop \<times> world) + int \<times> world \<Rightarrow> cstr list list" where
  "commands_of r = (case r of Inl (s, w) \<Rightarrow> spawned (w_log w) | Inr (st, w) \<Rightarrow> spawned (w_log w))"

definition completed_run :: "(stop \<times> world) + int \<times> world \<Rightarrow> bool" where
  "completed_run r \<longleftrightarrow> (case r of Inl e \<Rightarrow> False | Inr (st, w) \<Rightarrow> never_halted w)"

lemma run_follows_commands:
  "run_follows opts w v r \<Longrightarrow> prefix (commands_of r) (fst v)"
  "run_follows opts w v r \<Longrightarrow> completed_run r \<Longrightarrow> commands_of r = fst v \<and> snd v = None"
  by (auto simp: run_follows_def commands_of_def completed_run_def split: sum.splits prod.splits)

text \<open>On a host where every command succeeds, a run without a diagnostic is complete.\<close>

lemma calm_never_halts:
  assumes "children_explained opts calm_world w'" and "all_reaped w'"
  shows "never_halted w'"
  by (rule unhalted_host [OF assms]) (simp add: calm_world_def exec_status_def halting_def)

lemma calm_completes:
  assumes "run_follows opts calm_world (xs, None) r"
  shows "completed_run r" and "commands_of r = xs"
proof -
  obtain st w' where r: "r = Inr (st, w')" "children_explained opts calm_world w'" "all_reaped w'"
    using assms by (cases r) (auto simp: run_follows_def)
  from calm_never_halts [OF r(2,3)] show c: "completed_run r" by (simp add: completed_run_def r(1))
  show "commands_of r = xs" using run_follows_commands(2) [OF assms c] by simp
qed

lemma ordinary_follows:
  assumes "ordinary_run E F argv opts w" and "main E F argv w = Some r"
    and "run_setup E F opts argv = Inr (src, n)"
  shows "run_follows opts w (verdict E opts (command_words (op_optind_val opts) argv) n src) r"
  using main_follows [of E argv opts F _ w] assms
  by (auto simp: ordinary_run_def specified_def)

lemma run_plan_all:
  assumes "plan L [] 0 ts = (bs, e)" and "\<forall>b \<in> set bs. P b" and "\<forall>r. e = Open r \<longrightarrow> P r" and "P []"
  shows "\<forall>b \<in> set (fst (run_plan L q (ts, err))). P b"
  using assms by (cases e) (auto simp: run_plan_def)

lemma run_plan_keeps:
  assumes "snd (run_plan L q (ts, err)) = None"
  shows "concat (fst (run_plan L q (ts, err))) = map fst ts"
proof -
  obtain bs e where p: "plan L [] 0 ts = (bs, e)" by fastforce
  with assms obtain cur where e: "e = Open cur" by (cases e) (auto simp: run_plan_def)
  have "concat bs @ cur = map fst ts" using plan_concat [of L "[]" 0 ts bs cur] p e by simp
  then show ?thesis using assms p e by (auto simp: run_plan_def split: if_splits)
qed

lemma run_plan_lines:
  assumes L: "lm_max_lines L = Some k" "0 < k" "lm_max_args L = 0"
    and d: "snd (run_plan L q (ts, err)) = None"
  shows "\<exists>segs. concat segs = ts \<and> fst (run_plan L q (ts, err)) = map (map fst) segs
    \<and> (\<forall>s \<in> set (butlast segs). length (filter snd s) = k \<and> snd (last s))
    \<and> (\<forall>s \<in> set segs. length (filter snd s) \<le> k)"
proof -
  obtain bs e where p: "plan L [] 0 ts = (bs, e)" by fastforce
  with d obtain cur where e: "e = Open cur" by (cases e) (auto simp: run_plan_def)
  obtain segs rest where s: "ts = concat segs @ rest" "bs = map (map fst) segs"
    "\<forall>s \<in> set segs. length (filter snd s) = k \<and> snd (last s)"
    "cur = map fst rest" "length (filter snd rest) < k"
    using plan_lines [OF L p, of "[]"] e L(2) by auto
  show ?thesis
  proof (cases "ts = []")
    case True
    then show ?thesis
      using p e d
      by (intro exI [of _ "if q then [] else [[]]"]) (auto simp: run_plan_def split: if_splits)
  next
    case False
    then have r: "fst (run_plan L q (ts, err)) = (if cur = [] then bs else bs @ [cur])"
      using d p e by (auto simp: run_plan_def split: if_splits)
    show ?thesis
      using s in_set_butlastD [of _ segs] unfolding r
      by (intro exI [of _ "if rest = [] then segs else segs @ [rest]"]) (auto simp: less_imp_le)
  qed
qed

text \<open>Without \<open>-I\<close> every command is the words, then one batch of the plan.\<close>

lemma ordinary_batches:
  assumes r: "ordinary_run E F argv opts w" "main E F argv w = Some r"
    "run_setup E F opts argv = Inr (src, n)" and p: "op_arg_placeholder opts = None"
  defines "ws \<equiv> command_words (op_optind_val opts) argv"
  defines "v \<equiv> run_plan (option_limits E opts ws n) (op_suppress_execution_on_empty_input opts)
    (option_tokens E opts src)"
  shows "prefix (commands_of r) (map (\<lambda>b. ws @ b) (fst v))"
    and "completed_run r \<Longrightarrow> commands_of r = map (\<lambda>b. ws @ b) (fst v) \<and> snd v = None"
proof -
  have "verdict E opts ws n src = (map (\<lambda>b. ws @ b) (fst v), snd v)"
    by (simp add: verdict_def v_def p Let_def split: prod.split)
  then show "prefix (commands_of r) (map (\<lambda>b. ws @ b) (fst v))"
    and "completed_run r \<Longrightarrow> commands_of r = map (\<lambda>b. ws @ b) (fst v) \<and> snd v = None"
    using run_follows_commands [OF ordinary_follows [OF r]] by (simp_all add: ws_def)
qed

lemma options_create_lines:
  assumes "options_create E argv = Inr opts" and "op_line_mode_specified opts"
  shows "op_terminate_on_too_large_command opts \<and> op_max_args_per_command opts = 0
    \<and> 0 < unat (op_max_lines_per_command opts)"
proof -
  from assms obtain opts0 g where p: "parse_options E init_options argv getopt_init = Inr (opts0, g)"
    and c: "configure_options E init_options argv = Inr opts"
    by (auto simp: options_create_def configure_options_def rbind_Inr_iff)
  have "options_invar opts0" using init_options_invar p by (rule parse_options_invar)
  with p c assms(2) show ?thesis
    by (cases "op_arg_placeholder opts0"; cases "op_line_mode_specified opts0")
      (auto simp: configure_options_def Let_def options_accessors option_setters options_invar_def
        split: if_splits)
qed

text \<open>How option parsing can stop.\<close>

lemma options_create_yields: "yields diagnosed (options_create E argv) (\<lambda>_. True)"
proof -
  have "yields diagnosed (configure_options E init_options argv) (\<lambda>_. True)"
    using parse_options_yields [of E init_options argv getopt_init]
    by (auto simp: configure_options_def Let_def elim!: yields_conseq split: prod.split)
  moreover have "yields diagnosed (phxargs_malloc E 96 :: stop + byte block) (\<lambda>_. True)"
    by (simp add: phxargs_malloc_def)
  ultimately show ?thesis by (auto simp: options_create_def elim: yields_conseq)
qed

section \<open>Properties\<close>

text \<open>
  C1. The program follows its specification. On a host with memory and processes to spare it
  always ends; the argument vectors its children assemble are, in order, those of the
  specification, a pure function of the options, the words of the command, the size limit
  and the input. It returns the status of its children with all of them reaped, or exits
  with the diagnostic of the specification after the commands that precede the error; only a
  child that exits with 255 cuts the list short. What the children do is specified too
  (\<open>courses\<close>): without \<open>-p\<close> and \<open>-o\<close> the command of each of them, and nothing else, is executed,
  and the child ends as that command does on this host; with \<open>-p\<close> exactly those commands are
  executed that the next answer at the terminal allows, the other children end with 0; with
  \<open>-p\<close> or \<open>-o\<close> and no terminal a child ends with 1. The traces written are those of the
  commands started, and the rest of the terminal's input is what the answers leave.
\<close>

theorem main_refines_specification:
  assumes "options_create E argv = Inr opts" and "specified E F opts argv = Inr v"
    and "run_bounds E F argv opts w" and "ample E" and "\<forall>k. \<not> w_fork_fails w k"
  shows "\<exists>r. main E F argv w = Some r \<and> (case r of
     Inr (status, w') \<Rightarrow> all_reaped w' \<and> status = final_status w'
       \<and> children_explained opts w w' \<and> prefix (spawned (w_log w')) (fst v)
       \<and> (never_halted w' \<longrightarrow> snd v = None \<and> spawned (w_log w') = fst v)
   | Inl (s, w') \<Rightarrow> children_explained opts w w' \<and> spawned (w_log w') = fst v
       \<and> (\<exists>d. snd v = Some d \<and> s = Exit EXIT_FAILURE d \<and> (d = Input_error \<longrightarrow> all_reaped w')))"
  using main_follows [OF assms] unfolding run_follows_def .

theorem main_refines_specification_witness:
  "\<exists>status w'. main plain_host (only_stdin pairs_input) pairs_argv calm_world = Some (Inr (status, w'))
     \<and> all_reaped w' \<and> map snd (forked (w_log w')) = [Exited 0, Exited 0]
     \<and> execs (w_log w') = [([bytes ''ls'', bytes ''a'', bytes ''b c''], False), ([bytes ''ls'', bytes ''d''], False)]"
proof -
  have "\<forall>k. \<not> w_fork_fails calm_world k" by (simp add: calm_world_def)
  from main_refines_specification [OF pairs_create pairs_specified pairs_bounds ample_plain_host this,
      folded run_follows_def]
  obtain r where r: "main plain_host (only_stdin pairs_input) pairs_argv calm_world = Some r"
    "run_follows pairs_options calm_world
       ([[bytes ''ls'', bytes ''a'', bytes ''b c''], [bytes ''ls'', bytes ''d'']], None) r"
    by blast
  have k: "option_kind pairs_options = \<lparr>ck_prompt = False, ck_open_tty = False, ck_trace = False\<rparr>"
    by (simp add: option_kind_def pairs_options_def init_options_def)
  have "w_exec calm_world = (\<lambda>n as. Runs (Exited 0))" by (simp add: calm_world_def)
  with calm_completes [OF r(2)] r show ?thesis
    by (cases r) (auto simp: run_follows_def commands_of_def completed_run_def children_explained_def k
        child_course_def exec_status_def Let_def)
qed

lemma main_ends_well:
  assumes "\<And>opts. options_create E argv = Inr opts \<Longrightarrow> run_bounds E F argv opts w"
  shows "\<exists>r. main E F argv w = Some r \<and> (case r of
     Inl (s, w') \<Rightarrow> s \<in> diagnosed
   | Inr (status, w') \<Rightarrow> all_reaped w' \<and> status \<in> {0, 123, 124, 125, 126, 127})"
proof (cases "options_create E argv")
  case (Inl s)
  have "yields diagnosed (options_create E argv) (\<lambda>_. True)" by (rule options_create_yields)
  with Inl show ?thesis by (simp add: main_def xargs_create_def)
next
  case (Inr opts)
  note bs = run_boundsD [OF assms [OF Inr] Inr]
  have "resource_stops \<subseteq> diagnosed" by (auto simp: resource_stops_def)
  then have c: "copes E diagnosed (2 ^ 58 + 16)" by simp
  have ends: "{s. run_setup E F opts argv = Inl s} \<subseteq> diagnosed"
    by (auto simp: run_setup_def rbind_Inl_iff arg_source_open_def command_limit_def phxargs_sysconf_def
        Let_def split: option.splits prod.splits if_splits)
  have "\<exists>r. main E F argv w = Some r \<and> yields (diagnosed \<times> UNIV) r (\<lambda>(status, w'). \<exists>src n mode'.
    run_setup E F opts argv = Inr (src, n)
    \<and> runs_as_planned E (option_kind opts) w (verdict E opts (command_words (op_optind_val opts) argv) n src) (status, mode', w'))"
    by (rule main_yields [OF Inr bs(1,2) c bs(4)])
      (use ends in \<open>auto simp: fork_copes_def fails_as_planned_def verdict_def run_plan_def
        replacer_plan_def Let_def split: option.splits prod.splits plan_end.splits if_splits\<close>)
  then obtain r where r: "main E F argv w = Some r" "yields (diagnosed \<times> UNIV) r (\<lambda>(status, w').
      \<exists>src n mode'. run_setup E F opts argv = Inr (src, n)
      \<and> runs_as_planned E (option_kind opts) w (verdict E opts (command_words (op_optind_val opts) argv) n src) (status, mode', w'))"
    by blast
  have "exit_code o' \<in> {0, 123, 124, 125, 126, 127}" for o'
    by (cases o') (simp_all add: exit_codes)
  with r show ?thesis
    by (cases r) (auto simp: runs_as_planned_def final_status_def)
qed

text \<open>
  C2. The program is safe on every host, whatever allocations or forks fail, whatever order
  the children are reaped in, whenever waits are interrupted or signals arrive (at most
  \<open>2 ^ 31 - 1\<close> of each kind, as many as the counters hold; one more would overflow): it always
  ends, never has undefined behaviour, never fails an assertion; it either exits with
  status 1 after a diagnostic, or has reaped every child and returns 0 or one of 123 to 127.
\<close>

theorem main_safe:
  assumes "\<And>opts. options_create E argv = Inr opts \<Longrightarrow> run_bounds E F argv opts w"
  shows "\<exists>r. main E F argv w = Some r \<and> (case r of
     Inl (s, w') \<Rightarrow> s \<in> diagnosed
   | Inr (status, w') \<Rightarrow> all_reaped w' \<and> status \<in> {0, 123, 124, 125, 126, 127})"
  using assms by (rule main_ends_well)

text \<open>A host on which the third allocation already fails.\<close>

definition scarce_host :: platform where
  "scarce_host = plain_host\<lparr>pf_can_alloc := (\<lambda>n. n = 96)\<rparr>"

lemma scarce_create: "options_create scarce_host pairs_argv = Inr pairs_options"
  by code_simp

theorem main_safe_witness:
  "\<exists>r. main scarce_host (only_stdin pairs_input) pairs_argv calm_world = Some r \<and> (case r of
     Inl (s, w') \<Rightarrow> s \<in> diagnosed
   | Inr (status, w') \<Rightarrow> all_reaped w' \<and> status \<in> {0, 123, 124, 125, 126, 127})"
proof (rule main_safe)
  fix opts assume "options_create scarce_host pairs_argv = Inr opts"
  then have "opts = pairs_options" by (simp add: scarce_create)
  then show "run_bounds scarce_host (only_stdin pairs_input) pairs_argv opts calm_world"
    using pairs_bounds by (simp add: run_bounds_def scarce_host_def env_bytes_def)
qed

text \<open>
  C19. What cannot work is refused before anything is started: when the input cannot be
  opened, the host does not tell its limits, or the size asked for with \<open>-s\<close> is below the
  words of the command or above what the host allows, the program exits with that
  diagnostic and the world is as it was, but for the signal handlers.
\<close>

theorem main_reports_setup_failure:
  assumes "options_create E argv = Inr opts" and "run_setup E F opts argv = Inl s"
    and "run_bounds E F argv opts w" and "ample E"
  shows "main E F argv w = Some (Inl (s, process_pool_install_signal_handlers w))"
proof -
  note bs = run_boundsD [OF assms(3,1)]
  have "copes E {} (2 ^ 58 + 16)" using assms(4) by (simp add: copes_ample)
  from xargs_create_yields [OF assms(1) bs(1,2) this, of F] have "xargs_create E F argv w = Inl (s, handling w)"
    using assms(2) by (cases "xargs_create E F argv w") (auto simp: new_mode_def)
  then show ?thesis by (simp add: main_def)
qed

definition tight_argv :: "cstr list" where
  "tight_argv = [bytes ''phxargs'', bytes ''-s2'', bytes ''ls'']"

definition tight_options :: options where
  "tight_options = init_options\<lparr>op_optind_val := 2, op_max_command_length := 2,
     op_max_command_length_specified := True\<rparr>"

lemma tight_create: "options_create plain_host tight_argv = Inr tight_options"
  by code_simp

theorem main_reports_setup_failure_witness:
  "main plain_host (only_stdin pairs_input) tight_argv calm_world
     = Some (Inl (Exit EXIT_FAILURE Command_size_too_small,
         calm_world\<lparr>w_handlers := (\<lambda>sig. case sig of SIGCHLD \<Rightarrow> SIG_DFL
           | SIGUSR1 \<Rightarrow> On_sigusr1 | SIGUSR2 \<Rightarrow> On_sigusr2)\<rparr>))"
proof -
  have "run_setup plain_host (only_stdin pairs_input) tight_options tight_argv
      = Inl (Exit EXIT_FAILURE Command_size_too_small)"
    by (simp add: run_setup_def only_stdin_def tight_options_def init_options_def arg_source_open_def
        command_limit_def plain_host_def phxargs_sysconf_def env_bytes_def command_words_def
        tight_argv_def bytes_def)
  moreover have "run_bounds plain_host (only_stdin pairs_input) tight_argv tight_options calm_world"
    by (simp add: start_defs tight_argv_def tight_options_def pairs_input_def)
  moreover have "process_pool_install_signal_handlers calm_world = calm_world\<lparr>w_handlers := (\<lambda>sig.
      case sig of SIGCHLD \<Rightarrow> SIG_DFL | SIGUSR1 \<Rightarrow> On_sigusr1 | SIGUSR2 \<Rightarrow> On_sigusr2)\<rparr>"
    by (simp add: process_pool_install_signal_handlers_def os_sigaction_def calm_world_def fun_eq_iff
        split: os_signal.split)
  ultimately show ?thesis
    using main_reports_setup_failure [OF tight_create _ _ ample_plain_host] by metis
qed

text \<open>Runs of the program that the following witnesses share.\<close>

lemma ordinary_main:
  assumes "ordinary_run E F argv opts w" and "run_setup E F opts argv = Inr (src, n)"
  shows "\<exists>r. main E F argv w = Some r"
  using main_follows [of E argv opts F _ w] assms by (auto simp: ordinary_run_def specified_def)

lemma ordinary_calm:
  assumes "ordinary_run E F argv opts calm_world" and "specified E F opts argv = Inr (xs, None)"
  shows "\<exists>r. main E F argv calm_world = Some r \<and> completed_run r"
  using main_follows [of E argv opts F _ calm_world] calm_completes(1) assms
  by (fastforce simp: ordinary_run_def)

lemma pairs_ordinary: "ordinary_run plain_host (only_stdin pairs_input) pairs_argv pairs_options calm_world"
  using pairs_create pairs_bounds by (simp add: ordinary_run_def) (simp add: calm_world_def)

lemma pairs_no_placeholder: "op_arg_placeholder pairs_options = None"
  by (simp add: pairs_options_def init_options_def)

text \<open>
  C5. Without \<open>-I\<close> no argument is lost, duplicated or reordered: when the program returns and
  no child asked to halt, every command is the words of the command line followed by some input
  arguments, and these, concatenated over the commands, are the arguments of the input.
\<close>

theorem main_keeps_arguments:
  assumes "ordinary_run E F argv opts w" and "main E F argv w = Some r"
    and "run_setup E F opts argv = Inr (src, n)" and "op_arg_placeholder opts = None"
    and "completed_run r"
  shows "\<exists>bs. commands_of r = map (\<lambda>b. command_words (op_optind_val opts) argv @ b) bs
    \<and> concat bs = map fst (fst (option_tokens E opts src))"
proof -
  obtain ts err where ts: "option_tokens E opts src = (ts, err)" by fastforce
  note b = ordinary_batches(2) [OF assms]
  with run_plan_keeps [of "option_limits E opts (command_words (op_optind_val opts) argv) n"
      "op_suppress_execution_on_empty_input opts" ts err]
  show ?thesis unfolding ts by auto
qed

theorem main_keeps_arguments_witness:
  "\<exists>r bs. main plain_host (only_stdin pairs_input) pairs_argv calm_world = Some r
     \<and> commands_of r = map (\<lambda>b. bytes ''ls'' # b) bs
     \<and> concat bs = [bytes ''a'', bytes ''b c'', bytes ''d'']"
proof -
  obtain r where r: "main plain_host (only_stdin pairs_input) pairs_argv calm_world = Some r"
    "completed_run r" using ordinary_calm [OF pairs_ordinary pairs_specified] by blast
  have "command_words (op_optind_val pairs_options) pairs_argv = [bytes ''ls'']"
    by (simp add: pairs_options_def init_options_def command_words_def pairs_argv_def)
  with r(1) main_keeps_arguments [OF pairs_ordinary r(1) pairs_setup pairs_no_placeholder r(2)]
  show ?thesis by (auto simp: pairs_tokens)
qed

text \<open>
  C9. With \<open>-n k\<close> no command, in a run that completes, halts or fails, gets more than \<open>k\<close>
  arguments from the input.
\<close>

theorem main_argument_limit:
  assumes "ordinary_run E F argv opts w" and "main E F argv w = Some r"
    and "run_setup E F opts argv = Inr (src, n)" and "op_arg_placeholder opts = None"
    and "0 < op_max_args_per_command opts" and "c \<in> set (commands_of r)"
  shows "length c \<le> length (command_words (op_optind_val opts) argv)
    + unat (op_max_args_per_command opts)"
proof -
  let ?ws = "command_words (op_optind_val opts) argv" and ?k = "unat (op_max_args_per_command opts)"
  let ?L = "option_limits E opts ?ws n"
  obtain ts err where ts: "option_tokens E opts src = (ts, err)" by fastforce
  obtain bs e where p: "plan ?L [] 0 ts = (bs, e)" by fastforce
  have k: "lm_max_args ?L = ?k" "0 < lm_max_args ?L"
    using assms(5) by (simp_all add: option_limits_def unat_gt_0)
  have "\<forall>b \<in> set (fst (run_plan ?L (op_suppress_execution_on_empty_input opts) (ts, err))). length b \<le> ?k"
    by (rule run_plan_all [OF p]) (use plan_batch_count [OF k(2) p] k in auto)
  then show ?thesis
    using set_mono_prefix [OF ordinary_batches(1) [OF assms(1-4)]] assms(6) by (auto simp: ts)
qed

theorem main_argument_limit_witness:
  "\<exists>r. main plain_host (only_stdin pairs_input) pairs_argv calm_world = Some r
     \<and> (\<forall>c \<in> set (commands_of r). length c \<le> 3)"
proof -
  obtain r where r: "main plain_host (only_stdin pairs_input) pairs_argv calm_world = Some r"
    using ordinary_main [OF pairs_ordinary pairs_setup] by blast
  have o: "0 < op_max_args_per_command pairs_options" "unat (op_max_args_per_command pairs_options) = 2"
    "length (command_words (op_optind_val pairs_options) pairs_argv) = 1"
    by (simp_all add: pairs_options_def init_options_def command_words_def pairs_argv_def)
  have "length c \<le> 3" if "c \<in> set (commands_of r)" for c
    using main_argument_limit [OF pairs_ordinary r pairs_setup pairs_no_placeholder o(1) that] by (simp add: o)
  with r show ?thesis by blast
qed

text \<open>
  C8. Without \<open>-I\<close> no command exceeds the size limit: if each argument of the input alone fits,
  then the bytes of every command, its environment included, are at most the limit, whichever
  of \<open>-n\<close>, \<open>-L\<close>, \<open>-s\<close> and \<open>-x\<close> are combined. (With \<open>-I\<close> the code checks the template plus one
  copy of the token, and a command in which the token replaces several placeholders can be
  longer.)
\<close>

theorem main_size_limit:
  assumes "ordinary_run E F argv opts w" and "main E F argv w = Some r"
    and "run_setup E F opts argv = Inr (src, n)" and "op_arg_placeholder opts = None"
    and "\<forall>t \<in> fst ` set (fst (option_tokens E opts src)).
      env_bytes E + args_bytes (command_words (op_optind_val opts) argv) + length t + 1 \<le> n"
    and "env_bytes E + args_bytes (command_words (op_optind_val opts) argv) \<le> n"
    and "c \<in> set (commands_of r)"
  shows "env_bytes E + args_bytes c \<le> n"
proof -
  let ?ws = "command_words (op_optind_val opts) argv"
  let ?L = "option_limits E opts ?ws n"
  obtain ts err where ts: "option_tokens E opts src = (ts, err)" by fastforce
  obtain bs e where p: "plan ?L [] 0 ts = (bs, e)" by fastforce
  have o: "options_create E argv = Inr opts" using assms(1) by (simp add: ordinary_run_def)
  have mode: "lm_max_lines ?L = None \<or> lm_terminate ?L"
    using options_create_lines [OF o] by (simp add: option_limits_def)
  have fits: "\<forall>t \<in> fst ` set ts. \<not> over_size ?L [] t" and base: "within_limit ?L []"
    using assms(5,6) ts by (force simp: over_size_def option_limits_def within_limit_def)+
  have "\<forall>b \<in> set (fst (run_plan ?L (op_suppress_execution_on_empty_input opts) (ts, err))). within_limit ?L b"
    by (rule run_plan_all [OF p]) (use plan_batch_size [OF mode p base fits] base in auto)
  then show ?thesis
    using set_mono_prefix [OF ordinary_batches(1) [OF assms(1-4)]] assms(7)
    by (fastforce simp: ts within_limit_def option_limits_def)
qed

theorem main_size_limit_witness:
  "\<exists>r. main plain_host (only_stdin pairs_input) pairs_argv calm_world = Some r
     \<and> (\<forall>c \<in> set (commands_of r). args_bytes c \<le> 131072)"
proof -
  obtain r where r: "main plain_host (only_stdin pairs_input) pairs_argv calm_world = Some r"
    using ordinary_main [OF pairs_ordinary pairs_setup] by blast
  have o: "args_bytes (command_words (op_optind_val pairs_options) pairs_argv) = 3"
    by (simp add: pairs_options_def init_options_def command_words_def pairs_argv_def bytes_def)
  have e: "env_bytes plain_host = 0" by (simp add: env_bytes_def plain_host_def)
  have "args_bytes c \<le> 131072" if "c \<in> set (commands_of r)" for c
    using main_size_limit [OF pairs_ordinary r pairs_setup pairs_no_placeholder _ _ that]
    by (simp add: o e pairs_tokens bytes_def)
  with r show ?thesis by blast
qed

text \<open>
  C16. With \<open>-L k\<close> the input is cut at its lines: when the program returns and no child asked
  to halt, the commands take the arguments of \<open>k\<close> lines each, all but the last exactly \<open>k\<close>,
  and every cut is at the end of a line.
\<close>

theorem main_line_batches:
  assumes "ordinary_run E F argv opts w" and "main E F argv w = Some r"
    and "run_setup E F opts argv = Inr (src, n)" and "op_arg_placeholder opts = None"
    and "completed_run r" and "op_line_mode_specified opts"
  shows "\<exists>segs. concat segs = fst (option_tokens E opts src)
    \<and> commands_of r = map (\<lambda>s. command_words (op_optind_val opts) argv @ map fst s) segs
    \<and> (\<forall>s \<in> set (butlast segs).
        length (filter snd s) = unat (op_max_lines_per_command opts) \<and> snd (last s))
    \<and> (\<forall>s \<in> set segs. length (filter snd s) \<le> unat (op_max_lines_per_command opts))"
proof -
  let ?L = "option_limits E opts (command_words (op_optind_val opts) argv) n"
  obtain ts err where ts: "option_tokens E opts src = (ts, err)" by fastforce
  have o: "options_create E argv = Inr opts" using assms(1) by (simp add: ordinary_run_def)
  have L: "lm_max_lines ?L = Some (unat (op_max_lines_per_command opts))"
    "0 < unat (op_max_lines_per_command opts)" "lm_max_args ?L = 0"
    using options_create_lines [OF o assms(6)] assms(6) by (simp_all add: option_limits_def)
  note b = ordinary_batches(2) [OF assms(1-5), unfolded ts]
  have "snd (run_plan ?L (op_suppress_execution_on_empty_input opts) (ts, err)) = None"
    using b by simp
  from run_plan_lines [OF L this] b show ?thesis by (auto simp: ts)
qed

definition lines_argv :: "cstr list" where
  "lines_argv = [bytes ''phxargs'', bytes ''-L1'', bytes ''ls'']"

definition lines_input :: infile where
  "lines_input = \<lparr>in_rest = bytes ''a b'' @ [cNL] @ bytes ''c'' @ [cNL], in_error = False\<rparr>"

definition lines_options :: options where
  "lines_options = init_options\<lparr>op_optind_val := 2, op_max_lines_per_command := 1,
     op_line_mode_specified := True, op_terminate_on_too_large_command := True\<rparr>"

lemma lines_create: "options_create plain_host lines_argv = Inr lines_options"
  by code_simp

lemma lines_tokens: "option_tokens plain_host lines_options lines_input
    = ([(bytes ''a'', False), (bytes ''b'', True), (bytes ''c'', True)], TOKENIZER_ERR_NONE)"
  by code_simp

lemma lines_setup:
  "run_setup plain_host (only_stdin src) lines_options lines_argv = Inr (src, 131072)"
  by (simp add: run_setup_def only_stdin_def lines_options_def init_options_def arg_source_open_def
      command_limit_def plain_host_def phxargs_sysconf_def env_bytes_def)

lemma lines_ordinary: "ordinary_run plain_host (only_stdin lines_input) lines_argv lines_options calm_world"
  unfolding ordinary_run_def
proof (intro conjI)
  show "options_create plain_host lines_argv = Inr lines_options" by (rule lines_create)
  show "run_bounds plain_host (only_stdin lines_input) lines_argv lines_options calm_world"
    by (simp add: start_defs lines_argv_def lines_options_def lines_input_def)
qed (simp_all add: calm_world_def)

lemma lines_specified:
  "specified plain_host (only_stdin lines_input) lines_options lines_argv
     = Inr ([[bytes ''ls'', bytes ''a'', bytes ''b''], [bytes ''ls'', bytes ''c'']], None)"
proof -
  have "op_optind_val lines_options = 2" "op_arg_placeholder lines_options = None"
    "\<not> op_suppress_execution_on_empty_input lines_options" "command_words 2 lines_argv = [bytes ''ls'']"
    by (simp_all add: lines_options_def init_options_def command_words_def lines_argv_def)
  moreover have "option_limits plain_host lines_options [bytes ''ls''] 131072
     = \<lparr>lm_base = 3, lm_max_length = 131072, lm_max_args = 0, lm_max_lines = Some 1, lm_terminate = True\<rparr>"
    by (simp add: option_limits_def lines_options_def init_options_def env_bytes_def plain_host_def bytes_def)
  ultimately show ?thesis
    by (simp add: specified_def lines_setup verdict_def lines_tokens Let_def run_plan_def over_size_def
        closes_before_def bytes_def)
qed

theorem main_line_batches_witness:
  "\<exists>r segs. main plain_host (only_stdin lines_input) lines_argv calm_world = Some r
     \<and> concat segs = [(bytes ''a'', False), (bytes ''b'', True), (bytes ''c'', True)]
     \<and> commands_of r = map (\<lambda>s. bytes ''ls'' # map fst s) segs
     \<and> (\<forall>s \<in> set segs. length (filter snd s) \<le> 1)"
proof -
  obtain r where r: "main plain_host (only_stdin lines_input) lines_argv calm_world = Some r"
    "completed_run r" using ordinary_calm [OF lines_ordinary lines_specified] by blast
  have o: "op_arg_placeholder lines_options = None" "op_line_mode_specified lines_options"
    "unat (op_max_lines_per_command lines_options) = 1"
    "command_words (op_optind_val lines_options) lines_argv = [bytes ''ls'']"
    by (simp_all add: lines_options_def init_options_def command_words_def lines_argv_def)
  show ?thesis
    using r(1) main_line_batches [OF lines_ordinary r(1) lines_setup o(1) r(2) o(2)]
    unfolding lines_tokens o by auto
qed

text \<open>
  C6. With \<open>-I\<close> the program starts one command per token of the input, in order, the token
  put in the place of every occurrence of the placeholder in the arguments of the command
  (not in its name); it does so for all tokens when it returns and no child asked to halt,
  and for an initial part of them otherwise.
\<close>

theorem main_replaces_placeholder:
  assumes "ordinary_run E F argv opts w" and "main E F argv w = Some r"
    and "run_setup E F opts argv = Inr (src, n)" and "op_arg_placeholder opts = Some p"
  shows "let ws = command_words (op_optind_val opts) argv; ts = map fst (fst (option_tokens E opts src));
      commands = map (\<lambda>t. hd ws # map (replace_all p t) (tl ws)) ts
    in prefix (commands_of r) commands \<and> (completed_run r \<longrightarrow> commands_of r = commands)"
proof -
  let ?ws = "command_words (op_optind_val opts) argv" and ?L = "option_limits E opts
    (command_words (op_optind_val opts) argv) n"
  let ?argv = "\<lambda>t. hd ?ws # map (replace_all p t) (tl ?ws)"
  obtain ts err where ts: "option_tokens E opts src = (ts, err)" by fastforce
  have good: "prefix (accepted ?L ts) (map fst ts)"
    unfolding accepted_def by (rule takeWhile_is_prefix)
  have v: "verdict E opts ?ws n src = (map ?argv (accepted ?L ts),
      if length (accepted ?L ts) < length ts then Some Command_too_long
      else if err \<noteq> TOKENIZER_ERR_NONE then Some Input_error else None)"
    by (simp add: verdict_def assms(4) ts replacer_plan_def Let_def)
  note f = run_follows_commands [OF ordinary_follows [OF assms(1-3)], unfolded v]
  have "prefix (commands_of r) (map ?argv (map fst ts))"
    using f(1) map_mono_prefix [OF good, of ?argv] by (auto intro: prefix_order.trans)
  moreover have "commands_of r = map ?argv (map fst ts)" if c: "completed_run r"
  proof -
    have "\<not> length (accepted ?L ts) < length (map fst ts)" using f(2) [OF c] by (auto split: if_splits)
    then have "accepted ?L ts = map fst ts"
      using good by (metis not_equal_is_parallel parallelD1 prefix_length_less prefix_order.le_imp_less_or_eq)
    then show ?thesis using f(2) [OF c] by simp
  qed
  ultimately show ?thesis by (simp add: Let_def ts)
qed

definition copies_argv :: "cstr list" where
  "copies_argv = [bytes ''phxargs'', bytes ''-I%'', bytes ''cp'', bytes ''%'', bytes ''%.%'']"

definition copies_input :: infile where
  "copies_input = \<lparr>in_rest = bytes ''a b'' @ [cNL] @ bytes ''c'' @ [cNL], in_error = False\<rparr>"

definition copies_options :: options where
  "copies_options = init_options\<lparr>op_optind_val := 2, op_arg_placeholder := Some (bytes ''%''),
     op_max_lines_per_command := 1, op_arg_delimiter := cNL,
     op_terminate_on_too_large_command := True\<rparr>"

lemma copies_create: "options_create plain_host copies_argv = Inr copies_options"
  by code_simp

lemma copies_tokens: "option_tokens plain_host copies_options copies_input
    = ([(bytes ''a b'', True), (bytes ''c'', True)], TOKENIZER_ERR_NONE)"
  by code_simp

lemma copies_setup:
  "run_setup plain_host (only_stdin src) copies_options copies_argv = Inr (src, 131072)"
  by (simp add: run_setup_def only_stdin_def copies_options_def init_options_def arg_source_open_def
      command_limit_def plain_host_def phxargs_sysconf_def env_bytes_def)

lemma copies_ordinary: "ordinary_run plain_host (only_stdin copies_input) copies_argv copies_options calm_world"
  unfolding ordinary_run_def
proof (intro conjI)
  show "options_create plain_host copies_argv = Inr copies_options" by (rule copies_create)
  show "run_bounds plain_host (only_stdin copies_input) copies_argv copies_options calm_world"
    by (simp add: start_defs copies_argv_def copies_options_def copies_input_def)
qed (simp_all add: calm_world_def)

text \<open>A placeholder of one byte, in an argument that is it, and in one that has it twice.\<close>

lemma copies_replaced:
  "replace_all (bytes ''%'') (bytes s) (bytes ''%'') = bytes s"
  "replace_all (bytes ''%'') (bytes s) (bytes ''%.%'') = bytes s @ bytes ''.'' @ bytes s"
  by (simp_all add: bytes_def)

lemma copies_words:
  "command_words (op_optind_val copies_options) copies_argv = [bytes ''cp'', bytes ''%'', bytes ''%.%'']"
  "op_arg_placeholder copies_options = Some (bytes ''%'')"
  by (simp_all add: copies_options_def init_options_def command_words_def copies_argv_def)

lemma copies_specified:
  "\<exists>xs. specified plain_host (only_stdin copies_input) copies_options copies_argv = Inr (xs, None)"
proof -
  have "lm_max_length (option_limits plain_host copies_options ws 131072) = 131072"
    "lm_base (option_limits plain_host copies_options ws 131072) = args_bytes ws" for ws
    by (simp_all add: option_limits_def env_bytes_def plain_host_def)
  then show ?thesis
    by (simp add: specified_def copies_setup verdict_def copies_tokens copies_words replacer_plan_def
        accepted_def over_size_def Let_def bytes_def)
qed

theorem main_replaces_placeholder_witness:
  "\<exists>r. main plain_host (only_stdin copies_input) copies_argv calm_world = Some r
     \<and> commands_of r = [[bytes ''cp'', bytes ''a b'', bytes ''a b.a b''],
         [bytes ''cp'', bytes ''c'', bytes ''c.c'']]"
proof -
  obtain r where r: "main plain_host (only_stdin copies_input) copies_argv calm_world = Some r"
    "completed_run r" using ordinary_calm [OF copies_ordinary] copies_specified by blast
  have "bytes ''a b.a b'' = bytes ''a b'' @ bytes ''.'' @ bytes ''a b''"
    "bytes ''c.c'' = bytes ''c'' @ bytes ''.'' @ bytes ''c''"
    by (simp_all add: bytes_def)
  then show ?thesis
    using r main_replaces_placeholder [OF copies_ordinary r(1) copies_setup copies_words(2)]
    unfolding copies_words(1) copies_tokens by (simp add: Let_def copies_replaced)
qed

text \<open>
  C37. Without \<open>-x\<close>, \<open>-L\<close> and \<open>-I\<close> an argument that is too long by itself is noticed only when
  it is the first of the input. If the first one is too long the program refuses it before it
  starts anything. If the first one fits, the program never stops for a command that is too
  long, and in every run that completes each later argument that is too long is run in a
  command of its own, over the limit.
\<close>

theorem late_argument_over_limit:
  assumes "ordinary_run E F argv opts w" and "main E F argv w = Some r"
    and "run_setup E F opts argv = Inr (src, n)" and "op_arg_placeholder opts = None"
    and "\<not> op_terminate_on_too_large_command opts"
    and "option_tokens E opts src = ((first, b) # later, err)"
  shows "let ws = command_words (op_optind_val opts) argv;
      too_long = (\<lambda>t. n < env_bytes E + args_bytes (ws @ [t]))
    in if too_long first
       then \<exists>w'. r = Inl (Exit EXIT_FAILURE Command_too_long, w') \<and> spawned (w_log w') = [] \<and> forked (w_log w') = []
       else (\<forall>w'. r \<noteq> Inl (Exit EXIT_FAILURE Command_too_long, w'))
         \<and> (completed_run r \<longrightarrow> (\<forall>t \<in> fst ` set later. too_long t \<longrightarrow> ws @ [t] \<in> set (commands_of r)))"
proof -
  let ?ws = "command_words (op_optind_val opts) argv"
  let ?L = "option_limits E opts ?ws n" and ?q = "op_suppress_execution_on_empty_input opts"
  let ?v = "run_plan ?L ?q ((first, b) # later, err)"
  have o: "options_create E argv = Inr opts" using assms(1) by (simp add: ordinary_run_def)
  have L: "\<not> lm_terminate ?L" "lm_max_lines ?L = None"
    using assms(5) options_create_lines [OF o] by (auto simp: option_limits_def)
  have size: "n < env_bytes E + args_bytes (?ws @ [t]) \<longleftrightarrow> over_size ?L [] t" for t
    by (simp add: over_size_def option_limits_def add.assoc)
  have v: "verdict E opts ?ws n src = (map (\<lambda>b. ?ws @ b) (fst ?v), snd ?v)"
    by (simp add: verdict_def assms(4,6) Let_def split: prod.split)
  have f: "run_follows opts w (map (\<lambda>b. ?ws @ b) (fst ?v), snd ?v) r"
    using ordinary_follows [OF assms(1-3)] by (simp add: v)
  show ?thesis
  proof (cases "over_size ?L [] first")
    case True
    then have "?v = ([], Some Command_too_long)" by (simp add: run_plan_def)
    with f have r: "run_follows opts w ([], Some Command_too_long) r" by simp
    have none: "forked (w_log w') = []" if "children_explained opts w w'" "spawned (w_log w') = []" for w'
      using that by (simp add: children_explained_def Let_def)
    have "\<exists>w'. r = Inl (Exit EXIT_FAILURE Command_too_long, w') \<and> spawned (w_log w') = [] \<and> forked (w_log w') = []"
      using r none by (cases r) (auto simp: run_follows_def never_halted_def all_reaped_def)
    with True show ?thesis unfolding Let_def size by simp
  next
    case False
    note late = run_plan_late [OF L False, where q = ?q and b = b and ts = later and err = err]
    have "r \<noteq> Inl (Exit EXIT_FAILURE Command_too_long, w')" for w'
      using f late(1) by (auto simp: run_follows_def split: if_splits)
    moreover have "?ws @ [t] \<in> set (commands_of r)"
      if "completed_run r" "t \<in> fst ` set later" "over_size ?L [] t" for t
    proof -
      have c: "commands_of r = map (\<lambda>b. ?ws @ b) (fst ?v)" "snd ?v = None"
        using run_follows_commands(2) [OF f that(1)] by simp_all
      then have "err = TOKENIZER_ERR_NONE" using late(1) by (simp split: if_splits)
      from late(2) [OF this that(2,3)] show ?thesis by (auto simp: c(1))
    qed
    ultimately show ?thesis using False unfolding Let_def size by simp
  qed
qed

text \<open>\<open>phxargs -s 10 ls\<close>: \<open>bbbbbbbbbb\<close> is refused alone, but run after \<open>a\<close>, in a command of 14 bytes.\<close>

definition small_argv :: "cstr list" where
  "small_argv = [bytes ''phxargs'', bytes ''-s10'', bytes ''ls'']"

definition small_options :: options where
  "small_options = init_options\<lparr>op_optind_val := 2, op_max_command_length := 10,
     op_max_command_length_specified := True\<rparr>"

definition late_input :: infile where
  "late_input = \<lparr>in_rest = bytes ''a bbbbbbbbbb'', in_error = False\<rparr>"

definition early_input :: infile where
  "early_input = \<lparr>in_rest = bytes ''bbbbbbbbbb'', in_error = False\<rparr>"

lemma small_create: "options_create plain_host small_argv = Inr small_options"
  by code_simp

lemma small_tokens:
  "option_tokens plain_host small_options late_input
    = ([(bytes ''a'', False), (bytes ''bbbbbbbbbb'', True)], TOKENIZER_ERR_NONE)"
  "option_tokens plain_host small_options early_input
    = ([(bytes ''bbbbbbbbbb'', True)], TOKENIZER_ERR_NONE)"
  by code_simp+

lemma small_setup:
  "run_setup plain_host (only_stdin src) small_options small_argv = Inr (src, 10)"
  by (simp add: run_setup_def only_stdin_def small_options_def init_options_def arg_source_open_def
      command_limit_def plain_host_def phxargs_sysconf_def env_bytes_def command_words_def small_argv_def
      bytes_def)

lemma small_modes:
  "op_arg_placeholder small_options = None" "\<not> op_terminate_on_too_large_command small_options"
  "command_words (op_optind_val small_options) small_argv = [bytes ''ls'']"
  by (simp_all add: small_options_def init_options_def command_words_def small_argv_def)

lemma small_ordinary:
  assumes "src = late_input \<or> src = early_input"
  shows "ordinary_run plain_host (only_stdin src) small_argv small_options calm_world"
  unfolding ordinary_run_def
proof (intro conjI)
  show "options_create plain_host small_argv = Inr small_options" by (rule small_create)
  show "run_bounds plain_host (only_stdin src) small_argv small_options calm_world"
    using assms by (auto simp: start_defs small_argv_def small_options_def late_input_def early_input_def)
qed (simp_all add: calm_world_def)

lemma small_specified:
  "\<exists>xs. specified plain_host (only_stdin late_input) small_options small_argv = Inr (xs, None)"
proof -
  have "option_limits plain_host small_options [bytes ''ls''] 10
     = \<lparr>lm_base = 3, lm_max_length = 10, lm_max_args = 0, lm_max_lines = None, lm_terminate = False\<rparr>"
    by (simp add: option_limits_def small_options_def init_options_def env_bytes_def plain_host_def bytes_def)
  then show ?thesis
    by (simp add: specified_def small_setup verdict_def small_tokens Let_def run_plan_def small_modes
        over_size_def closes_before_def bytes_def)
qed

theorem late_argument_over_limit_witness:
  "(\<exists>w'. main plain_host (only_stdin early_input) small_argv calm_world
      = Some (Inl (Exit EXIT_FAILURE Command_too_long, w')) \<and> spawned (w_log w') = [])
   \<and> (\<exists>r. main plain_host (only_stdin late_input) small_argv calm_world = Some r \<and> completed_run r
      \<and> [bytes ''ls'', bytes ''bbbbbbbbbb''] \<in> set (commands_of r))
   \<and> args_bytes [bytes ''ls'', bytes ''bbbbbbbbbb''] > 10"
proof -
  have e: "env_bytes plain_host = 0" by (simp add: env_bytes_def plain_host_def)
  note early = small_ordinary [of early_input, simplified] and late = small_ordinary [of late_input, simplified]
  obtain q where q: "main plain_host (only_stdin early_input) small_argv calm_world = Some q"
    using ordinary_main [OF early small_setup] by blast
  obtain r where r: "main plain_host (only_stdin late_input) small_argv calm_world = Some r" "completed_run r"
    using ordinary_calm [OF late] small_specified by blast
  show ?thesis
    using late_argument_over_limit [OF early q small_setup small_modes(1,2) small_tokens(2)]
      late_argument_over_limit [OF late r(1) small_setup small_modes(1,2) small_tokens(1)] q r
    by (simp add: e small_modes(3) Let_def) (auto simp: bytes_def)
qed

section \<open>The modes of a run\<close>

lemma ordinary_mode:
  assumes "ordinary_run E F argv opts w" and "run_setup E F opts argv = Inr (src, n)"
  shows "\<exists>x. new_mode E F (if op_arg_placeholder opts = None
    then Appender (op_suppress_execution_on_empty_input opts) else Replacer) opts argv (handling w) x"
proof -
  have o: "options_create E argv = Inr opts" and "run_bounds E F argv opts w" "ample E"
    using assms(1) by (simp_all add: ordinary_run_def)
  then have b: "within_bounds E opts argv" "pool_bounds opts w" "copes E {} (2 ^ 58 + 16)"
    using run_boundsD [of E F argv opts w] by (simp_all add: copes_ample)
  from xargs_create_yields [OF o b, of F] show ?thesis
    using assms(2) by (cases "xargs_create E F argv w") auto
qed

lemma pairs_mode: "\<exists>x. new_mode plain_host (only_stdin pairs_input) (Appender False) pairs_options
    pairs_argv (handling calm_world) x"
proof -
  have "\<not> op_suppress_execution_on_empty_input pairs_options"
    by (simp add: pairs_options_def init_options_def)
  then show ?thesis
    using ordinary_mode [OF pairs_ordinary pairs_setup] by (simp add: pairs_no_placeholder)
qed

text \<open>
  C29. The loop of the appending mode ends on every host, whatever the host refuses: a value of
  \<open>None\<close>, a loop that never returns, is impossible from any state of a mode.
\<close>

theorem appender_loop_terminates:
  assumes "mode_ok mode w" and "cm_arg_placeholder (md_cmd mode) = None"
    and "\<not> xargs_mode_halted mode" and "budget mode < 2 ^ 57 - 4"
    and "cm_line_count (md_cmd mode) = 0"
  shows "\<exists>r. appender_loop E mode present w = Some r"
proof -
  have a: "appending mode w"
    using assms(1-3) by (simp add: appending_def appendable_def mode_ok_def)
  have l: "unat (cm_line_count (md_cmd mode)) + length (md_rest mode) < 2 ^ 60"
    using assms(4,5) by (simp add: budget_def)
  have "fork_copes UNIV w" by (simp add: fork_copes_def)
  from appender_loop_yields [OF assms(1) a assms(4) l _ _ this, of E resource_stops]
  show ?thesis by auto
qed

theorem appender_loop_terminates_witness:
  "\<exists>mode. in_rest (md_arg_source mode) = bytes ''a 'b c' d''
     \<and> (\<exists>r. appender_loop scarce_host mode False
       (process_pool_install_signal_handlers calm_world) = Some r)"
proof -
  obtain x where x: "new_mode plain_host (only_stdin pairs_input) (Appender False) pairs_options
      pairs_argv (handling calm_world) x" using pairs_mode by blast
  then have m: "mode_ok x (handling calm_world)" "\<not> xargs_mode_halted x" "pool_pids (md_pool x) = []"
    "md_arg_source x = pairs_input" "cm_input (md_cmd x) = []" "cm_line_count (md_cmd x) = 0"
    "cm_arg_placeholder (md_cmd x) = None"
    by (simp_all add: new_mode_def pairs_setup new_command_def fresh_command_def pairs_no_placeholder)
  then have "budget x < 2 ^ 57 - 4" by (simp add: budget_def pairs_input_def bytes_def)
  with m appender_loop_terminates [OF m(1) m(7) m(2)] show ?thesis
    by (intro exI [of _ x]) (simp add: pairs_input_def)
qed

text \<open>
  C30. The loop of the replacing mode ends on every host too, although each token may make the
  command many times longer than its template.
\<close>

theorem replacer_loop_terminates:
  assumes "mode_ok mode w" and "replaceable mode w" and "replacer_room mode"
  shows "\<exists>r. replacer_loop E mode w = Some r"
proof -
  have "fork_copes UNIV w" by (simp add: fork_copes_def)
  from replacer_loop_yields [OF assms _ _ this, of E resource_stops] show ?thesis by auto
qed

theorem replacer_loop_terminates_witness:
  "\<exists>mode. md_arg_source mode = copies_input
     \<and> (\<exists>r. replacer_loop scarce_host mode
       (process_pool_install_signal_handlers calm_world) = Some r)"
proof -
  obtain x where x: "new_mode plain_host (only_stdin copies_input) Replacer copies_options
      copies_argv (handling calm_world) x"
    using ordinary_mode [OF copies_ordinary copies_setup]
    by (auto simp: copies_options_def init_options_def)
  have "op_arg_placeholder copies_options \<noteq> None" "command_words (op_optind_val copies_options) copies_argv
      = [bytes ''cp'', bytes ''%'', bytes ''%.%'']"
    by (simp_all add: copies_options_def init_options_def command_words_def copies_argv_def)
  with x have m: "mode_ok x (handling calm_world)" "replaceable x (handling calm_world)" "pool_pids (md_pool x) = []"
    "md_arg_source x = copies_input"
    "cm_fixed (md_cmd x) = [bytes ''cp'', bytes ''%'', bytes ''%.%'']"
    by (simp_all add: new_mode_def copies_setup new_command_def fresh_command_def replaceable_def mode_ok_def)
  then have "replacer_room x" by (simp add: replacer_room_def copies_input_def bytes_def)
  with m replacer_loop_terminates [OF m(1,2)] show ?thesis by blast
qed

end
