(* ===== verification/Command_Properties.thy ===== *)
theory Command_Properties
  imports Program_Properties
begin

text \<open>
  The properties of \<^verbatim>\<open>src/command.c\<close>: the vector and the trace of a child, what its status
  says, the prompt, and the limits on the size and the number of arguments.
\<close>

section \<open>A command to try\<close>

definition demo_args :: "cstr list \<Rightarrow> command_args" where
  "demo_args ws = \<lparr>ca_count = of_nat (length ws), ca_capacity = of_nat (length ws),
     ca_args = map (Some \<circ> Some) ws, ca_length = of_nat (args_bytes ws)\<rparr>"

definition demo_command :: command where
  "demo_command = \<lparr>cm_max_lines = 0, cm_max_args = 0, cm_max_length = 100, cm_arg_placeholder = None,
     cm_open_tty = False, cm_prompt = False, cm_trace = True, cm_terminate_on_too_large_command = False,
     cm_line_mode = False, cm_line_count = 0, cm_env_length = 0,
     cm_fixed_args = demo_args [bytes ''ls'', bytes ''-l''],
     cm_input_args = demo_args [bytes ''a b'', bytes ''c''], cm_replaced_fixed_args = no_args\<rparr>"

lemma demo_args_laws:
  assumes "\<forall>a \<in> set ws. arg_ok a" and "length ws < 2 ^ 57"
  shows "args_invar (demo_args ws)" "args_list (demo_args ws) = ws"
proof -
  have n: "unat (of_nat (length ws) :: size_t) = length ws" using assms(2) by (intro unat_of_nat_size) simp
  show "args_list (demo_args ws) = ws" by (simp add: demo_args_def args_list_def n o_def)
  then show "args_invar (demo_args ws)"
    using assms by (simp add: args_invar_def) (simp add: demo_args_def n)
qed

lemma demo_command_laws:
  "cmd_invar demo_command" "cmd_argv demo_command = [bytes ''ls'', bytes ''-l'', bytes ''a b'', bytes ''c'']"
proof -
  have f: "args_invar (demo_args [bytes ''ls'', bytes ''-l''])"
    "args_list (demo_args [bytes ''ls'', bytes ''-l'']) = [bytes ''ls'', bytes ''-l'']"
    by (rule demo_args_laws; simp add: bytes_def arg_ok_def)+
  have i: "args_invar (demo_args [bytes ''a b'', bytes ''c''])"
    "args_list (demo_args [bytes ''a b'', bytes ''c'']) = [bytes ''a b'', bytes ''c'']"
    by (rule demo_args_laws; simp add: bytes_def arg_ok_def)+
  show "cmd_invar demo_command"
    by (simp add: cmd_invar_def demo_command_def f i) (simp add: bytes_def)
  show "cmd_argv demo_command = [bytes ''ls'', bytes ''-l'', bytes ''a b'', bytes ''c'']"
    by (simp add: cmd_argv_def fixed_args_in_play_def demo_command_def f i)
qed

lemma demo_command_small:
  "length (cmd_argv demo_command) < 2 ^ 58 - 1" "args_bytes (cmd_argv demo_command) < 2 ^ 62"
  by (simp_all add: demo_command_laws bytes_def)

section \<open>Properties\<close>

text \<open>
  C28. The vector handed to \<open>execvp\<close> is the command line: the fixed arguments (substituted ones
  with \<open>-I\<close>), then the input arguments, then exactly one null pointer, with no slot left over;
  building it succeeds on a host with memory to spare.
\<close>

theorem exec_vector_is_command_line:
  assumes "cmd_invar cmd" and "length (cmd_argv cmd) < 2 ^ 58 - 1" and "ample E"
  shows "\<exists>b n. build_exec_args E cmd = Inr (b, n) \<and> unat n = length (cmd_argv cmd)
    \<and> b = map (Some \<circ> Some) (cmd_argv cmd) @ [Some None]"
  using build_exec_args_yields [OF assms(1,2), of E "{}"] assms(3)
  by (auto simp: yields_empty copes_ample)

theorem exec_vector_is_command_line_witness:
  "\<exists>b n. build_exec_args plain_host demo_command = Inr (b, n)
     \<and> b = [Some (Some (bytes ''ls'')), Some (Some (bytes ''-l'')), Some (Some (bytes ''a b'')),
            Some (Some (bytes ''c'')), Some None]"
  using exec_vector_is_command_line [OF demo_command_laws(1) demo_command_small(1) ample_plain_host]
  by (auto simp: demo_command_laws)



text \<open>
  C32. Tracing is exact: the two passes of \<open>write_trace\<close>, one that measures and one that copies,
  agree, and write the arguments separated by single blanks, with a newline at the end
  unless a prompt follows; the buffer is neither overrun nor written out half filled.
\<close>

theorem trace_joins_arguments:
  assumes "unat n = length as" and "\<forall>a \<in> set as. length a < 2 ^ 64"
    and "length (join_args as) < 2 ^ 62" and "ample E"
  shows "write_trace E (map (Some \<circ> Some) as @ rest) n newline
    = Inr (join_args as @ (if newline then [cNL] else []))"
proof -
  have "copes E {} 0" using assms(4) by (simp add: copes_ample)
  from write_trace_yields [OF assms(1-3) this] show ?thesis
    by (auto simp: yields_empty)
qed

theorem trace_joins_arguments_witness:
  "write_trace plain_host [Some (Some (bytes ''ls'')), Some (Some (bytes ''x'')), Some None] 2 True
     = Inr (bytes ''ls x'' @ [cNL])"
  using trace_joins_arguments [of 2 "[bytes ''ls'', bytes ''x'']" plain_host "[Some None]" True]
  by (simp add: bytes_def)

text \<open>
  C39. An empty answer to a prompt swallows the next line: the newline itself is taken as the
  first character, and the loop that discards the rest of the answer reads on through
  the line after it.
\<close>

theorem empty_answer_swallows_next_line:
  assumes "w_tty w = Some (cNL # answer @ cNL # rest)" and "cNL \<notin> set answer"
  shows "confirm_execution w = Inr (False, w\<lparr>w_tty := Some rest\<rparr>)"
proof -
  have "skip_answer (answer @ cNL # rest) = rest"
    using assms(2) by (induction answer) auto
  with assms(1) show ?thesis by (simp add: confirm_execution_def)
qed

theorem empty_answer_swallows_next_line_witness:
  "confirm_execution (calm_world\<lparr>w_tty := Some (cNL # bytes ''y'' @ cNL # bytes ''z'')\<rparr>)
     = Inr (False, calm_world\<lparr>w_tty := Some (bytes ''z'')\<rparr>)"
  using empty_answer_swallows_next_line [of "calm_world\<lparr>w_tty := Some (cNL # bytes ''y'' @ cNL # bytes ''z'')\<rparr>"
      "bytes ''y''" "bytes ''z''"]
  by (simp add: bytes_def)

text \<open>
  A very large \<open>-n\<close> can never work: from \<open>2 ^ 61\<close> on, the array for the arguments is
  requested in full before the first of them is read and does not fit the address
  space, so on every host the program stops with the diagnostic of a failed allocation.
\<close>

theorem huge_argument_limit_fails:
  assumes "2 ^ 61 \<le> unat (cm_max_args cmd)"
  shows "\<exists>d \<in> {Perror_malloc, Perror_calloc}. new_input_args E cmd = Inl (Exit EXIT_FAILURE d)"
proof -
  have "command_max_args_specified cmd"
    using assms by (auto simp: command_max_args_specified_def word_gt_0 simp flip: unat_gt_0)
  with create_huge_capacity [OF assms, of E] show ?thesis by (simp add: new_input_args_def)
qed

theorem huge_argument_limit_fails_witness:
  "\<exists>d \<in> {Perror_malloc, Perror_calloc}.
     new_input_args plain_host (demo_command\<lparr>cm_max_args := 2305843009213693952\<rparr>) = Inl (Exit EXIT_FAILURE d)"
  by (rule huge_argument_limit_fails) simp

text \<open>
  C27. What \<open>decide_max_length\<close> computes, exactly and without wrapping: the maximum is \<open>ARG_MAX\<close> less
  twice the environment and 2048 bytes, not below zero (128 KB if the host has no limit). Without
  \<open>-s\<close> the limit is that maximum, capped at 128 KB. With \<open>-s\<close> it is the size asked for, which is
  refused above the maximum, and also below the bytes of the environment and of the bare
  command taken together: the code counts the environment in the size of a command, which the
  man page does not say of \<open>-s\<close>.
\<close>

theorem size_limit_exact:
  assumes "cmd_invar cmd" and "cm_input cmd = []" and "unat (cm_env_length cmd) = env_bytes E"
    and "env_bytes E < 2 ^ 56" and "fst (pf_sysconf E SC_ARG_MAX) < 2 ^ 57"
  shows "decide_max_length E cmd opts = rbind (phxargs_sysconf E SC_ARG_MAX) (\<lambda>arg_max.
    let top = (if arg_max > 0 then nat (arg_max - int (2 * env_bytes E + 2048)) else 131072);
        asked = unat (op_max_command_length opts)
    in if \<not> op_max_command_length_specified opts then Inr (of_nat (min 131072 top))
       else if asked < env_bytes E + args_bytes (cm_fixed cmd)
         then Inl (Exit EXIT_FAILURE Command_size_too_small)
       else if asked > top then Inl (Exit EXIT_FAILURE Command_size_too_large)
       else Inr (op_max_command_length opts))"
proof -
  have "unat (command_length cmd) = env_bytes E + args_bytes (cm_fixed cmd)"
    using assms(1-3) by (simp add: unat_command_length cmd_base_def)
  from decide_max_length_eq [OF assms(3,4) this assms(5), of opts] show ?thesis
    by (cases "phxargs_sysconf E SC_ARG_MAX") (simp_all add: command_limit_def Let_def)
qed

theorem size_limit_exact_witness:
  "decide_max_length plain_host (demo_command\<lparr>cm_input_args := no_args\<rparr>)
     (init_options\<lparr>op_max_command_length := 5, op_max_command_length_specified := True\<rparr>)
   = Inl (Exit EXIT_FAILURE Command_size_too_small)"
proof -
  let ?cmd = "demo_command\<lparr>cm_input_args := no_args\<rparr>"
  have f: "args_list (demo_args [bytes ''ls'', bytes ''-l'']) = [bytes ''ls'', bytes ''-l'']"
    by (rule demo_args_laws; simp add: bytes_def arg_ok_def)
  have c: "cmd_invar ?cmd" "cm_input ?cmd = []" "unat (cm_env_length ?cmd) = env_bytes plain_host"
    "env_bytes plain_host = 0" "fst (pf_sysconf plain_host SC_ARG_MAX) < 2 ^ 57"
    "cm_fixed ?cmd = [bytes ''ls'', bytes ''-l'']"
    using demo_command_laws(1)
    by (simp_all add: cmd_invar_def env_bytes_def plain_host_def demo_command_def f)
  have "phxargs_sysconf plain_host SC_ARG_MAX = Inr 2097152"
    by (simp add: phxargs_sysconf_def plain_host_def)
  then show ?thesis
    using size_limit_exact [OF c(1-3) _ c(5)] c(4,6) by (simp add: bytes_def Let_def)
qed

end
