(* ===== verification/Pool_Properties.thy ===== *)
theory Pool_Properties
  imports Program_Properties
begin

text \<open>
  The properties of \<^verbatim>\<open>src/process_pool.c\<close> and of starting commands through it: reaping and the
  exit status, room for a new child, signals, the bound on the children, the halt.
\<close>

section \<open>A pool with three children\<close>

definition busy_pool :: process_pool where
  "busy_pool = \<lparr>pl_max_procs = 3, pl_capacity = 4, pl_child_max = 100, pl_count = 3, pl_status = 0,
     pl_halt = False, pl_pids = [Some 2, Some 3, Some 4, None], pl_sigusr1_count = 0,
     pl_sigusr2_count = 0, pl_applied_sigusr1 = 0, pl_applied_sigusr2 = 0\<rparr>"

definition busy_world :: world where
  "busy_world = \<lparr>w_exec = (\<lambda>n argv. Runs (Exited 0)), w_fork_fails = (\<lambda>n. False), w_forks = 3,
     w_children = [(2, Exited 0), (3, Exited 7), (4, Signaled 9)],
     w_sched = [Interrupted, Deliver 1, Interrupted, Deliver 1], w_signals = [((0, 1), 0, 0)],
     w_handlers = (\<lambda>sig. case sig of SIGCHLD \<Rightarrow> SIG_DFL | SIGUSR1 \<Rightarrow> On_sigusr1 | SIGUSR2 \<Rightarrow> On_sigusr2),
     w_tty = None,
     w_log = [Forked 2 (Exited 0), Forked 3 (Exited 7), Forked 4 (Signaled 9)]\<rparr>"

lemma busy_take: "take 3 [Some 2, Some 3, Some 4, None] = [Some 2, Some 3, Some (4 :: int)]"
  by (simp add: eval_nat_numeral)

lemma busy_pids: "pool_pids busy_pool = [2, 3, 4]"
  by (simp add: pool_pids_def busy_pool_def busy_take)

lemma busy_pool_ok: "pool_ok busy_pool busy_world"
  by (simp add: pool_ok_def pool_invar_def busy_pids pool_world_def pool_room_def usr1_total_def usr2_total_def
      SIG_ATOMIC_MAX_def)
    (simp add: busy_pool_def busy_world_def busy_take handled_def)

lemma busy_pool_laws: "pool_invar busy_pool" "pool_world busy_pool busy_world"
  using busy_pool_ok by (simp_all add: pool_ok_def)

section \<open>Reaping\<close>

text \<open>The status of a list of children, by the README's table and the code's severities.\<close>

definition status_of :: "wstatus set \<Rightarrow> int" where
  "status_of sts = (if Exited 127 \<in> sts then 127 else if Exited 126 \<in> sts then 126
     else if Signaled ` UNIV \<inter> sts \<noteq> {} then 125 else if Exited 255 \<in> sts then 124
     else if sts \<subseteq> {Exited 0} then 0 else 123)"

lemma le_worst: "o' \<le> worst sts \<longleftrightarrow> o' = Success \<or> (\<exists>st \<in> set sts. o' \<le> classify st)"
proof (induction sts rule: rev_induct)
  case Nil
  show ?case by (cases o') (simp_all add: less_eq_outcome_def)
qed (auto simp: le_max_iff_disj)

lemma le_classify:
  "Not_found \<le> classify st \<longleftrightarrow> st = Exited 127"
  "Not_executable \<le> classify st \<longleftrightarrow> st = Exited 127 \<or> st = Exited 126"
  "Killed \<le> classify st \<longleftrightarrow> st = Exited 127 \<or> st = Exited 126 \<or> st \<in> range Signaled"
  "Halted \<le> classify st \<longleftrightarrow> st = Exited 127 \<or> st = Exited 126 \<or> st \<in> range Signaled \<or> st = Exited 255"
  "Child_failed \<le> classify st \<longleftrightarrow> st \<noteq> Exited 0"
  by (cases st; simp add: classify_def less_eq_outcome_def image_iff)+

lemma exit_code_thresholds:
  "exit_code o' = (if Not_found \<le> o' then 127 else if Not_executable \<le> o' then 126
     else if Killed \<le> o' then 125 else if Halted \<le> o' then 124
     else if Child_failed \<le> o' then 123 else 0)"
  by (cases o') (simp_all add: less_eq_outcome_def)

lemma status_of_worst: "exit_code (worst sts) = status_of (set sts)"
  by (auto simp: exit_code_thresholds le_worst le_classify status_of_def)

section \<open>Properties\<close>

text \<open>
  C10. Draining the pool reaps every child that was forked and not yet reaped, in whatever order
  and with whatever interruptions the waits return, and its result is the most severe
  outcome of all children: 127 if one could not find its command, else 126, else 125 if one
  was killed by a signal, else 124 if one exited with 255, else 123 if one failed, else 0.
\<close>

theorem pool_drain_most_severe:
  assumes "pool_invar pool" and "pool_world pool w"
  shows "\<exists>status pool' w'. process_pool_drain E pool w = Inr (status, pool', w')
    \<and> w_children w' = [] \<and> mset (reaped (w_log w')) = mset (forked (w_log w))
    \<and> status = status_of (snd ` set (forked (w_log w)))"
proof -
  obtain st p v where p: "process_pool_drain E pool w = Inr (st, p, v)" "drained pool w st v"
    using process_pool_drain_yields [OF assms, of E] by (auto simp: yields_empty)
  then have m: "mset (reaped (w_log v)) = mset (forked (w_log w))" by (simp add: drained_def)
  then have "set (reaped (w_log v)) = set (forked (w_log w))" by (metis set_mset_mset)
  then have "st = status_of (snd ` set (forked (w_log w)))"
    using p(2) by (simp add: drained_def status_of_worst)
  with p m show ?thesis by (auto simp: drained_def)
qed

theorem pool_drain_most_severe_witness:
  "\<exists>pool' w'. process_pool_drain plain_host busy_pool busy_world = Inr (125, pool', w')
    \<and> w_children w' = []"
  using pool_drain_most_severe [OF busy_pool_laws, of plain_host]
  by (auto simp: status_of_def busy_world_def)

text \<open>
  C23. Waiting makes room: on a host with memory to spare \<open>process_pool_wait_if_full\<close> returns
  with fewer children than the limit (as adjusted by the signals), or with no limit; it
  forks nothing, and keeps the table in step with the children of the process.
\<close>

theorem pool_wait_makes_room:
  assumes "pool_ok pool w" and "ample E"
  shows "\<exists>pool' w'. process_pool_wait_if_full E pool w = Inr (pool', w') \<and> pool_ok pool' w'
    \<and> (pl_max_procs pool' = 0 \<or> length (w_children w') < unat (pl_max_procs pool'))
    \<and> forked (w_log w') = forked (w_log w) \<and> prefix (reaped (w_log w)) (reaped (w_log w'))"
proof -
  have "yields ({} \<times> UNIV) (process_pool_wait_if_full E pool w) (\<lambda>(q, v).
      pool_ok q v \<and> wait_effect w v \<and> (pl_max_procs q = 0 \<longleftrightarrow> pl_max_procs pool = 0)
      \<and> (pl_max_procs q = 0 \<or> pl_count q < pl_max_procs q))"
    using assms by (intro process_pool_wait_if_full_yields) (simp_all add: copes_ample)
  then obtain q v where q: "process_pool_wait_if_full E pool w = Inr (q, v)" "pool_ok q v"
    "wait_effect w v" "pl_max_procs q = 0 \<or> pl_count q < pl_max_procs q"
    by (auto simp: yields_empty)
  have "length (w_children v) = unat (pl_count q)"
    using q(2) by (intro pool_world_children) (simp_all add: pool_ok_def)
  with q show ?thesis by (auto simp: wait_effect_def size_less_unat)
qed

theorem pool_wait_makes_room_witness:
  "\<exists>pool' w'. process_pool_wait_if_full plain_host busy_pool busy_world = Inr (pool', w')
    \<and> (pl_max_procs pool' = 0 \<or> length (w_children w') < unat (pl_max_procs pool'))
    \<and> forked (w_log w') = forked (w_log busy_world)"
  using pool_wait_makes_room [OF busy_pool_ok ample_plain_host] by blast

text \<open>
  Submitting a child appends its process id to the table and changes nothing else that
  matters: when the table is full it is doubled first, and no entry is lost.
\<close>

theorem pool_submit_appends:
  assumes "pool_invar pool" and "length (pool_pids pool) < 2 ^ 59" and "ample E"
  shows "\<exists>pool'. process_pool_submit E pool pid = Inr pool' \<and> pool_invar pool'
    \<and> pool_pids pool' = pool_pids pool @ [pid] \<and> pl_max_procs pool' = pl_max_procs pool
    \<and> pl_status pool' = pl_status pool \<and> pl_halt pool' = pl_halt pool"
proof -
  have "yields {} (process_pool_submit E pool pid) (submitted pool pid)"
    using assms by (intro process_pool_submit_yields) (simp_all add: copes_ample)
  then show ?thesis by (auto simp: yields_empty submitted_def)
qed

theorem pool_submit_appends_witness:
  "\<exists>pool'. process_pool_submit plain_host busy_pool 5 = Inr pool' \<and> pool_pids pool' = [2, 3, 4, 5]"
  using pool_submit_appends [OF busy_pool_laws(1) _ ample_plain_host, of 5] by (auto simp: busy_pids)

text \<open>
  C33. An interrupted wait is repeated: however often signals interrupt \<open>waitpid\<close>, reaping a
  child has the same result as without the interruptions.
\<close>

theorem reaping_ignores_interruptions:
  assumes "w_children w \<noteq> []"
  shows "reap_one E pool (w\<lparr>w_sched := replicate k Interrupted @ s\<rparr>) = reap_one E pool (w\<lparr>w_sched := s\<rparr>)"
proof -
  have "wait_child (w\<lparr>w_sched := replicate k Interrupted @ s\<rparr>) = wait_child (w\<lparr>w_sched := s\<rparr>)"
  proof (induction k)
    case (Suc k)
    have "os_waitpid (w\<lparr>w_sched := replicate (Suc k) Interrupted @ s\<rparr>)
        = (Wait_EINTR, w\<lparr>w_sched := replicate k Interrupted @ s\<rparr>)"
      using assms by (simp add: os_waitpid_def)
    with Suc show ?case by (subst wait_child.simps) simp
  qed simp
  then show ?thesis by (simp add: reap_one_def)
qed

theorem reaping_ignores_interruptions_witness:
  "reap_one plain_host busy_pool (busy_world\<lparr>w_sched := [Interrupted, Interrupted, Deliver 2]\<rparr>)
     = reap_one plain_host busy_pool (busy_world\<lparr>w_sched := [Deliver 2]\<rparr>)"
  using reaping_ignores_interruptions [of busy_world plain_host busy_pool 2 "[Deliver 2]"]
  by (simp add: busy_world_def numeral_2_eq_2)

text \<open>One check of the counters, exactly: the limit, and what is left to apply.\<close>

lemma adjustment_exact:
  assumes "pool_invar pool" and "pool_room pool w" and "ample E" and "handled w"
    and s: "next_signals w = ((before, between), w')"
  defines "u1 \<equiv> pl_sigusr1_count pool + int (fst before) - pl_applied_sigusr1 pool"
    and "u2 \<equiv> pl_sigusr2_count pool + int (snd before) - pl_applied_sigusr2 pool"
    and "m \<equiv> int (unat (pl_max_procs pool))"
  shows "\<exists>q. apply_signal_adjustments E pool w = Inr (q, w') \<and> same_children pool q \<and> pool_invar q
    \<and> int (unat (pl_max_procs q)) = (if m = 0 \<or> (u1 = 0 \<and> u2 = 0) then m else adjusted (pl_child_max pool) m u1 u2)
    \<and> pl_sigusr1_count q = pl_sigusr1_count pool + int (fst before) + int (fst between)
    \<and> pl_sigusr2_count q = pl_sigusr2_count pool + int (snd before) + int (snd between)
    \<and> pl_applied_sigusr1 q = (if u1 = 0 \<and> u2 = 0 then pl_applied_sigusr1 pool else pl_sigusr1_count q)
    \<and> pl_applied_sigusr2 q = (if u1 = 0 \<and> u2 = 0 then pl_applied_sigusr2 pool else pl_sigusr2_count q)"
proof -
  let ?p = "on_signals between (on_signals before pool)"
  let ?N = "word_of_int (adjusted (pl_child_max pool) m u1 u2) :: size_t"
  have b: "m + u1 < 2 ^ 58" "0 \<le> u1" "0 \<le> u2"
    using assms(2) by (simp_all add: pool_room_def next_signals_total [OF s] u1_def u2_def m_def)
  note eq = apply_signal_adjustments_cases [OF s assms(4,2), of E, folded u1_def u2_def m_def]
  show ?thesis
  proof (cases "(u1 = 0 \<and> u2 = 0) \<or> pl_max_procs pool = 0")
    case True
    show ?thesis
    proof (cases "u1 = 0 \<and> u2 = 0")
      case True
      then show ?thesis using eq assms(1) by (simp add: m_def)
    next
      case idle: False
      with True have no: "pl_max_procs pool = 0" by blast
      from eq [unfolded if_not_P [OF idle] if_P [OF no]] no assms(1) show ?thesis
        unfolding if_not_P [OF idle] by (simp add: m_def)
    qed
  next
    case False
    then have no: "\<not> (u1 = 0 \<and> u2 = 0)" "pl_max_procs pool \<noteq> 0" by blast+
    have "0 < unat (pl_max_procs pool)" using no(2) by (simp add: unat_gt_0)
    then have m1: "1 \<le> m" unfolding m_def by linarith
    note a = adjusted_bounds [OF m1 b(2,3), of "pl_child_max pool"]
    have ub: "adjusted (pl_child_max pool) m u1 u2 < 2 ^ 58" using a(2) b(1) by linarith
    have "unat ?N = nat (adjusted (pl_child_max pool) m u1 u2)"
      using a(1) ub by (intro unat_word_of_int_size) simp_all
    then have N: "int (unat ?N) = adjusted (pl_child_max pool) m u1 u2" using a(1) by linarith
    have "int (unat ?N) < int (2 ^ 58)" "int 0 < int (unat ?N)" using N ub a(1) by simp_all
    then have "unat ?N < 2 ^ 58" "0 < unat ?N" by (simp_all only: of_nat_less_iff)
    then have "yields ({} \<times> UNIV) (apply_signal_adjustments E pool w)
      (\<lambda>(q, v). v = w' \<and> pool_invar q \<and> same_children (mark_applied ?p) q \<and> pl_max_procs q = ?N
      \<and> pl_sigusr1_count q = pl_sigusr1_count (mark_applied ?p)
      \<and> pl_applied_sigusr1 q = pl_applied_sigusr1 (mark_applied ?p)
      \<and> pl_sigusr2_count q = pl_sigusr2_count (mark_applied ?p)
      \<and> pl_applied_sigusr2 q = pl_applied_sigusr2 (mark_applied ?p))"
      unfolding eq if_not_P [OF no(1)] if_not_P [OF no(2)]
      using assms(1,3) by (intro resize_pool) (simp_all add: copes_ample)
    then obtain q where q: "apply_signal_adjustments E pool w = Inr (q, w')" "pool_invar q"
      "same_children (mark_applied ?p) q" "pl_max_procs q = ?N"
      "pl_sigusr1_count q = pl_sigusr1_count ?p" "pl_applied_sigusr1 q = pl_sigusr1_count ?p"
      "pl_sigusr2_count q = pl_sigusr2_count ?p" "pl_applied_sigusr2 q = pl_sigusr2_count ?p"
      by (auto simp: yields_empty)
    have "same_children pool q" by (rule same_children_trans [OF _ q(3)]) simp
    moreover have "int (unat (pl_max_procs q)) = adjusted (pl_child_max pool) m u1 u2" unfolding q(4) by (rule N)
    moreover have "m \<noteq> 0" using m1 by simp
    ultimately show ?thesis using q no(1) by auto
  qed
qed

text \<open>
  C22. Signals move the limit: as long as neither counter would overflow (at most \<open>2 ^ 31 - 1\<close>
  signals of each kind), the signals that arrived since the last check and before this one
  raise (\<open>SIGUSR1\<close>) and lower (\<open>SIGUSR2\<close>) the number of parallel processes by one each, kept
  between 1 and the host's limit of children; no step of the arithmetic overflows, unlimited
  parallelism stays so, and the children are left alone.
\<close>

theorem signals_adjust_limit:
  assumes "pool_invar pool" and "pool_room pool w" and "ample E" and "handled w"
    and "next_signals w = ((before, between), w')"
  shows "\<exists>pool'. apply_signal_adjustments E pool w = Inr (pool', w') \<and> same_children pool pool'
    \<and> pool_invar pool'
    \<and> int (unat (pl_max_procs pool')) =
      (let u1 = pl_sigusr1_count pool + int (fst before) - pl_applied_sigusr1 pool;
           u2 = pl_sigusr2_count pool + int (snd before) - pl_applied_sigusr2 pool;
           m = int (unat (pl_max_procs pool))
       in if m = 0 \<or> (u1 = 0 \<and> u2 = 0) then m else adjusted (pl_child_max pool) m u1 u2)"
  using adjustment_exact [OF assms] by (simp only: Let_def) blast

theorem signals_adjust_limit_witness:
  "\<exists>pool'. apply_signal_adjustments plain_host busy_pool busy_world = Inr (pool', busy_world\<lparr>w_signals := []\<rparr>)
    \<and> int (unat (pl_max_procs pool')) = 2"
proof -
  have n: "next_signals busy_world = (((0, 1), (0, 0)), busy_world\<lparr>w_signals := []\<rparr>)"
    by (simp add: next_signals_def busy_world_def)
  have r: "pool_room busy_pool busy_world" using busy_pool_ok by (simp add: pool_ok_def)
  have "handled busy_world" using busy_pool_laws(2) by (simp add: pool_world_def)
  from signals_adjust_limit [OF busy_pool_laws(1) r ample_plain_host this n]
  show ?thesis by (auto simp: busy_pool_def adjusted_def Let_def)
qed

text \<open>
  C38. What becomes of a signal that arrives between the two reads of its counter depends on the
  signals before it. If none was pending at the first read, the check returns early and the
  signal is kept for the next check. If one was, the limit moves by the pending signals only,
  but all are marked as applied: the signal is lost, and a next check without new signals
  changes nothing.
\<close>

theorem signal_between_reads_lost:
  assumes "pool_invar pool" and "pool_room pool w" and "ample E" and "handled w"
    and "next_signals w = ((before, between), w')"
  shows "\<exists>pool'. apply_signal_adjustments E pool w = Inr (pool', w') \<and>
    (let u1 = pl_sigusr1_count pool + int (fst before) - pl_applied_sigusr1 pool;
         u2 = pl_sigusr2_count pool + int (snd before) - pl_applied_sigusr2 pool;
         m = int (unat (pl_max_procs pool))
     in if u1 = 0 \<and> u2 = 0
        then pl_max_procs pool' = pl_max_procs pool
          \<and> pl_sigusr1_count pool' - pl_applied_sigusr1 pool' = int (fst between)
          \<and> pl_sigusr2_count pool' - pl_applied_sigusr2 pool' = int (snd between)
        else int (unat (pl_max_procs pool')) = (if m = 0 then 0 else adjusted (pl_child_max pool) m u1 u2)
          \<and> pl_applied_sigusr1 pool' = pl_sigusr1_count pool + int (fst before) + int (fst between)
          \<and> pl_applied_sigusr2 pool' = pl_sigusr2_count pool + int (snd before) + int (snd between)
          \<and> (w_signals w' = [] \<longrightarrow> apply_signal_adjustments E pool' w' = Inr (pool', w')))"
proof -
  let ?u1 = "pl_sigusr1_count pool + int (fst before) - pl_applied_sigusr1 pool"
  let ?u2 = "pl_sigusr2_count pool + int (snd before) - pl_applied_sigusr2 pool"
  let ?m = "int (unat (pl_max_procs pool))"
  from adjustment_exact [OF assms] obtain q where q: "apply_signal_adjustments E pool w = Inr (q, w')"
    "int (unat (pl_max_procs q)) =
      (if ?m = 0 \<or> (?u1 = 0 \<and> ?u2 = 0) then ?m else adjusted (pl_child_max pool) ?m ?u1 ?u2)"
    "pl_sigusr1_count q = pl_sigusr1_count pool + int (fst before) + int (fst between)"
    "pl_sigusr2_count q = pl_sigusr2_count pool + int (snd before) + int (snd between)"
    "pl_applied_sigusr1 q = (if ?u1 = 0 \<and> ?u2 = 0 then pl_applied_sigusr1 pool else pl_sigusr1_count q)"
    "pl_applied_sigusr2 q = (if ?u1 = 0 \<and> ?u2 = 0 then pl_applied_sigusr2 pool else pl_sigusr2_count q)"
    by (elim exE conjE) (rule that; assumption)
  have again: "apply_signal_adjustments E q w' = Inr (q, w')"
    if "w_signals w' = []" "pl_applied_sigusr1 q = pl_sigusr1_count q" "pl_applied_sigusr2 q = pl_sigusr2_count q"
  proof -
    have "handled w'" using assms(4,5) by (auto simp: next_signals_def handled_def split: list.splits)
    with that show ?thesis
      by (simp add: apply_signal_adjustments_def next_signals_def deliver_signals_def deliver_def [abs_def] handled_def
          sig_atomic_def SIG_ATOMIC_MAX_def)
  qed
  show ?thesis
  proof (cases "?u1 = 0 \<and> ?u2 = 0")
    case True
    from q(2) True have "pl_max_procs q = pl_max_procs pool" by (simp add: word_uint_eq_iff)
    moreover have "pl_sigusr1_count q - pl_applied_sigusr1 q = int (fst between)"
      "pl_sigusr2_count q - pl_applied_sigusr2 q = int (snd between)"
      using True q(3,4) q(5,6) [unfolded if_P [OF True]] by linarith+
    ultimately show ?thesis
      unfolding Let_def if_P [OF True] using q(1) by (intro exI [of _ q] conjI)
  next
    case False
    have m: "int (unat (pl_max_procs q)) = (if ?m = 0 then 0 else adjusted (pl_child_max pool) ?m ?u1 ?u2)"
      using q(2) False by (cases "?m = 0") (simp_all only: simp_thms if_True if_False)
    note a = q(5,6) [unfolded if_not_P [OF False]]
    have "w_signals w' = [] \<longrightarrow> apply_signal_adjustments E q w' = Inr (q, w')" using again a by blast
    then show ?thesis
      unfolding Let_def if_not_P [OF False] using q(1) m a [unfolded q(3,4)]
      by (intro exI [of _ q] conjI)
  qed
qed

theorem signal_between_reads_lost_witness:
  "\<exists>pool' w'. apply_signal_adjustments plain_host busy_pool (busy_world\<lparr>w_signals := [((1, 0), (1, 0))]\<rparr>)
      = Inr (pool', w')
    \<and> int (unat (pl_max_procs pool')) = 4 \<and> pl_applied_sigusr1 pool' = 2
    \<and> apply_signal_adjustments plain_host pool' w' = Inr (pool', w')"
proof -
  let ?w = "busy_world\<lparr>w_signals := [((1, 0), (1, 0))]\<rparr>"
  have n: "next_signals ?w = (((1, 0), (1, 0)), ?w\<lparr>w_signals := []\<rparr>)" by (simp add: next_signals_def)
  have h: "handled ?w" by (simp add: handled_def busy_world_def)
  have r: "pool_room busy_pool ?w"
    by (simp add: pool_room_def usr1_total_def usr2_total_def SIG_ATOMIC_MAX_def) (simp add: busy_pool_def)
  show ?thesis
    using signal_between_reads_lost [OF busy_pool_laws(1) r ample_plain_host h n]
    by (auto simp: busy_pool_def adjusted_def Let_def)
qed

lemma ignored_sigchld_fails:
  "w_handlers w SIGCHLD = SIG_IGN \<Longrightarrow> fst (wait_child w) = Wait_error"
proof (induction w rule: wait_child.induct)
  case (1 w)
  show ?case
  proof (cases "w_children w \<noteq> [] \<and> (\<exists>s. w_sched w = Interrupted # s)")
    case True
    then obtain s where s: "os_waitpid w = (Wait_EINTR, w\<lparr>w_sched := s\<rparr>)"
      by (auto simp: os_waitpid_def)
    show ?thesis
      using "1.IH" [OF s [symmetric] refl] "1.prems" s by (simp add: wait_child.simps [of w])
  next
    case False
    then show ?thesis
      using "1.prems" by (cases "w_sched w"; cases "hd (w_sched w)")
        (auto simp: wait_child.simps [of w] os_waitpid_def collect_child_def)
  qed
qed

text \<open>
  C26. Installing the handlers makes the program independent of the dispositions it inherits: if
  its parent had \<open>SIGCHLD\<close> ignored, every wait would fail although there are children; after
  \<open>process_pool_install_signal_handlers\<close> a wait returns a child of the process, and \<open>SIGUSR1\<close>
  and \<open>SIGUSR2\<close>, which could end the process, are counted, as long as the counters can hold them.
\<close>

theorem inherited_dispositions_undone:
  assumes "w_children w \<noteq> []"
    and "0 \<le> pl_sigusr1_count pool" and "pl_sigusr1_count pool + int i \<le> SIG_ATOMIC_MAX"
    and "0 \<le> pl_sigusr2_count pool" and "pl_sigusr2_count pool + int j \<le> SIG_ATOMIC_MAX"
  shows "(w_handlers w SIGCHLD = SIG_IGN \<longrightarrow> fst (wait_child w) = Wait_error)
    \<and> (let w' = process_pool_install_signal_handlers w in
      (\<exists>pid st. fst (wait_child w') = Waited pid st \<and> (pid, st) \<in> set (w_children w))
      \<and> (\<exists>pool'. deliver_signals w' (i, j) pool = Inr pool'
        \<and> pl_sigusr1_count pool' = pl_sigusr1_count pool + int i
        \<and> pl_sigusr2_count pool' = pl_sigusr2_count pool + int j))"
proof -
  let ?w = "process_pool_install_signal_handlers w"
  have "waits ?w (wait_child ?w)" using assms(1) by (intro wait_child_waits) simp_all
  then have "\<exists>pid st. fst (wait_child ?w) = Waited pid st \<and> (pid, st) \<in> set (w_children w)"
    by (auto simp: waits_def)
  moreover have "deliver_signals ?w (i, j) pool = Inr (on_signals (i, j) pool)"
    by (rule deliver_signals_handled) (use assms in simp_all)
  ultimately show ?thesis by (auto simp: Let_def ignored_sigchld_fails)
qed

theorem inherited_dispositions_undone_witness:
  "let w = busy_world\<lparr>w_handlers := (\<lambda>sig. SIG_IGN)\<rparr> in fst (wait_child w) = Wait_error
     \<and> (\<exists>pid st. fst (wait_child (process_pool_install_signal_handlers w)) = Waited pid st)"
  using inherited_dispositions_undone [where w = "busy_world\<lparr>w_handlers := (\<lambda>sig. SIG_IGN)\<rparr>"
      and i = 0 and j = 0 and pool = busy_pool]
  by (auto simp: Let_def busy_world_def busy_pool_def SIG_ATOMIC_MAX_def)

section \<open>Starting commands\<close>

text \<open>A mode over the pool above.\<close>

lemma busy_mode: "\<exists>mode. md_pool mode = busy_pool \<and> mode_core mode busy_world
    \<and> cmd_argv (md_cmd mode) = [bytes ''ls'']"
proof -
  obtain x where x: "new_mode plain_host (only_stdin pairs_input) (Appender False) pairs_options
      pairs_argv (handling calm_world) x" using pairs_mode by blast
  have "command_words (op_optind_val pairs_options) pairs_argv = [bytes ''ls'']"
    by (simp add: pairs_options_def init_options_def command_words_def pairs_argv_def)
  with x have c: "new_command plain_host pairs_options [bytes ''ls''] (md_cmd x)"
    by (simp add: new_mode_def)
  then have "cm_arg_placeholder (md_cmd x) = None"
    by (simp add: new_command_def pairs_no_placeholder)
  with c have "cmd_argv (md_cmd x) = [bytes ''ls'']"
    by (simp add: cmd_argv_def fixed_args_in_play_def new_command_def fresh_command_def)
  moreover have "mode_core (x\<lparr>md_pool := busy_pool\<rparr>) busy_world"
    using c busy_pool_ok by (simp add: mode_core_def new_command_def)
  ultimately show ?thesis by (intro exI [of _ "x\<lparr>md_pool := busy_pool\<rparr>"]) simp
qed

lemma execute_any_host:
  assumes "mode_core mode w" and "length (cmd_argv (md_cmd mode)) < 2 ^ 58 - 1"
    and "args_bytes (cmd_argv (md_cmd mode)) < 2 ^ 62" and "length (w_children w) < 2 ^ 58"
    and "xargs_mode_execute_command E mode w = Inr (mode', w')"
  shows "executed E mode w mode' w'"
proof -
  have "length (pool_pids (md_pool mode)) < 2 ^ 58"
    using assms(1,4) pool_world_children [of "md_pool mode" w] length_pool_pids [of "md_pool mode"]
    by (simp add: mode_core_def pool_ok_def)
  from execute_command_yields [OF assms(1-3) this, of E resource_stops UNIV] assms(5)
  show ?thesis by (simp add: fork_copes_def)
qed

text \<open>
  C11. The number of parallel processes is bounded: whenever \<open>xargs_mode_execute_command\<close>
  returns, the process has at most as many children as the limit then in force (none, with
  \<open>-P 0\<close>), whatever signals moved it.
\<close>

theorem parallel_children_bounded:
  assumes "mode_core mode w" and "length (cmd_argv (md_cmd mode)) < 2 ^ 58 - 1"
    and "args_bytes (cmd_argv (md_cmd mode)) < 2 ^ 62" and "length (w_children w) < 2 ^ 58"
    and "xargs_mode_execute_command E mode w = Inr (mode', w')"
  shows "pl_max_procs (md_pool mode') = 0
    \<or> length (w_children w') \<le> unat (pl_max_procs (md_pool mode'))"
proof -
  have e: "executed E mode w mode' w'" by (rule execute_any_host [OF assms])
  then have "length (w_children w') = length (pool_pids (md_pool mode'))"
    using pool_world_children [of "md_pool mode'" w'] length_pool_pids [of "md_pool mode'"]
    by (simp add: executed_def mode_core_def pool_ok_def)
  with e show ?thesis by (simp add: executed_def)
qed

theorem parallel_children_bounded_witness:
  "\<exists>mode. md_pool mode = busy_pool \<and> (\<forall>mode' w'.
     xargs_mode_execute_command plain_host mode busy_world = Inr (mode', w')
       \<longrightarrow> pl_max_procs (md_pool mode') = 0 \<or> length (w_children w') \<le> unat (pl_max_procs (md_pool mode')))"
proof -
  obtain mode where m: "md_pool mode = busy_pool" "mode_core mode busy_world"
    "cmd_argv (md_cmd mode) = [bytes ''ls'']" using busy_mode by blast
  have h: "length (w_children busy_world) < 2 ^ 58" "length (cmd_argv (md_cmd mode)) < 2 ^ 58 - 1"
    "args_bytes (cmd_argv (md_cmd mode)) < 2 ^ 62"
    using m(3) by (simp_all add: busy_world_def bytes_def)
  have "pl_max_procs (md_pool mode') = 0 \<or> length (w_children w') \<le> unat (pl_max_procs (md_pool mode'))"
    if "xargs_mode_execute_command plain_host mode busy_world = Inr (mode', w')" for mode' w'
    by (rule parallel_children_bounded [OF m(2) h(2,3,1) that])
  with m(1) show ?thesis by blast
qed

text \<open>
  C13. After a child exited with 255 nothing more is started: once such a child was reaped,
  \<open>xargs_mode_execute_command\<close> forks no child, and the pool stays halted.
\<close>

theorem nothing_started_after_halt:
  assumes "mode_core mode w" and "length (cmd_argv (md_cmd mode)) < 2 ^ 58 - 1"
    and "args_bytes (cmd_argv (md_cmd mode)) < 2 ^ 62" and "length (w_children w) < 2 ^ 58"
    and "xargs_mode_execute_command E mode w = Inr (mode', w')"
    and "Exited 255 \<in> snd ` set (reaped (w_log w))"
  shows "xargs_mode_halted mode' \<and> length (forked (w_log w')) = length (forked (w_log w))
    \<and> md_cmd mode' = md_cmd mode"
proof -
  have e: "executed E mode w mode' w'" by (rule execute_any_host [OF assms(1-5)])
  have "xargs_mode_halted mode"
    using assms(6) by (simp add: halted_iff [OF assms(1)] halting_def)
  then have "xargs_mode_halted mode'"
    using e halted_stays [OF assms(1), of mode' w'] by (simp add: executed_def)
  with e show ?thesis by (auto simp: executed_def dest: spawns_forked)
qed

definition halted_pool :: process_pool where
  "halted_pool = \<lparr>pl_max_procs = 3, pl_capacity = 4, pl_child_max = 100, pl_count = 1, pl_status = 124,
     pl_halt = True, pl_pids = [Some 2, None, None, None], pl_sigusr1_count = 0,
     pl_sigusr2_count = 0, pl_applied_sigusr1 = 0, pl_applied_sigusr2 = 0\<rparr>"

definition halted_world :: world where
  "halted_world = busy_world\<lparr>w_forks := 2, w_children := [(2, Exited 0)], w_signals := [],
     w_log := [Forked 2 (Exited 0), Forked 3 (Exited 255), Reaped 3 (Exited 255)]\<rparr>"

lemma halted_pool_ok: "pool_ok halted_pool halted_world"
  by (simp add: pool_ok_def pool_invar_def pool_pids_def pool_world_def pool_room_def usr1_total_def
      usr2_total_def SIG_ATOMIC_MAX_def halted_pool_def halted_world_def busy_world_def worst_def classify_def halting_def handled_def max_def
      less_eq_outcome_def)

theorem nothing_started_after_halt_witness:
  "\<exists>mode. md_pool mode = halted_pool \<and> (\<forall>mode' w'.
     xargs_mode_execute_command plain_host mode halted_world = Inr (mode', w')
       \<longrightarrow> xargs_mode_halted mode' \<and> length (forked (w_log w')) = 2)"
proof -
  obtain m0 where m: "mode_core m0 busy_world" "cmd_argv (md_cmd m0) = [bytes ''ls'']"
    using busy_mode by blast
  let ?mode = "m0\<lparr>md_pool := halted_pool\<rparr>"
  have c: "mode_core ?mode halted_world" using m(1) halted_pool_ok by (simp add: mode_core_def)
  have h: "length (w_children halted_world) < 2 ^ 58" "Exited 255 \<in> snd ` set (reaped (w_log halted_world))"
    "length (forked (w_log halted_world)) = 2"
    by (simp_all add: halted_world_def)
  have argv: "length (cmd_argv (md_cmd ?mode)) < 2 ^ 58 - 1" "args_bytes (cmd_argv (md_cmd ?mode)) < 2 ^ 62"
    using m(2) by (simp_all add: bytes_def)
  have "xargs_mode_halted mode' \<and> length (forked (w_log w')) = 2"
    if "xargs_mode_execute_command plain_host ?mode halted_world = Inr (mode', w')" for mode' w'
    using nothing_started_after_halt [OF c argv h(1) that h(2)] h(3) by simp
  then show ?thesis by (intro exI [of _ ?mode]) simp
qed

text \<open>
  A command line the kernel refuses as too long makes the child exit with 125, the status of
  an internal error, but the parent reports it as any other failure of a child, with 123.
\<close>

lemma internal_error_reported_as_failure:
  "stop_status (Exit PHXARGS_STATUS_INTERNAL_ERROR Exec_too_long) = Exited 125
   \<and> child_exit_status (Exited 125) h = (PHXARGS_STATUS_CHILD_FAILED, h)"
  by (simp add: stop_status_def child_exit_status_def exit_codes)

end
