(* ===== verification/Memory.thy ===== *)
theory Memory
  imports Xargs
begin

text \<open>
  The allocator of the program and the layout of its objects: the structures of the C files
  with their pointers, and the calculus of footprints with which the theories on top show
  that every object is released exactly once. The other theories of the model treat an
  object as a value; here it is a graph of allocations.
\<close>

section \<open>Structures with their pointers\<close>

text \<open>A pointer is an address, 0 for \<open>NULL\<close>.\<close>

type_synonym ptr = nat

abbreviation (input) NULL :: ptr where "NULL \<equiv> 0"

record buffer_s =
  bs_buf :: ptr
  bs_sz :: size_t
  bs_pos :: size_t

record command_args_s =
  as_count :: size_t
  as_capacity :: size_t
  as_args :: ptr
  as_length :: size_t

record command_s =
  cs_max_lines :: size_t
  cs_max_args :: size_t
  cs_max_length :: size_t
  cs_arg_placeholder :: ptr
  cs_open_tty :: bool
  cs_prompt :: bool
  cs_trace :: bool
  cs_terminate_on_too_large_command :: bool
  cs_line_mode :: bool
  cs_line_count :: size_t
  cs_env_length :: size_t
  cs_fixed_args :: ptr
  cs_input_args :: ptr
  cs_replaced_fixed_args :: ptr

text \<open>The tables of operations are static; a pointer to one is its name.\<close>

datatype tokenizer_ops = space_tokenizer_ops | delim_tokenizer_ops

record tokenizer_s =
  ts_ops :: tokenizer_ops
  ts_buf :: ptr
  ts_impl :: ptr
  ts_err :: tokenizer_error

text \<open>The context of the callback is the command of the mode; the tokenizers do not own it.\<close>

record space_tokenizer_s =
  ss_base :: ptr
  ss_state :: space_tokenizer_state
  ss_quote_char :: int
  ss_token_start :: size_t
  ss_logical_end_of_input_marker :: ptr
  ss_on_input_boundary_ctx :: ptr

record delim_tokenizer_s =
  ds_base :: ptr
  ds_token_start :: size_t
  ds_delim :: byte
  ds_on_input_boundary_ctx :: ptr

record process_pool_s =
  ps_max_procs :: size_t
  ps_capacity :: size_t
  ps_child_max :: int
  ps_count :: size_t
  ps_status :: int
  ps_halt :: bool
  ps_pids :: ptr

datatype xargs_mode_ops = appender_mode_ops | replacer_mode_ops

record xargs_mode_s =
  ms_ops :: xargs_mode_ops
  ms_arg_source :: ptr
  ms_cmd :: ptr
  ms_toker :: ptr
  ms_pool :: ptr
  ms_impl :: ptr

record appender_mode_s =
  am_base :: ptr
  am_suppress_execution_on_empty_input :: bool

record replacer_mode_s =
  rm_base :: ptr

record xargs_s =
  xs_mode :: ptr

section \<open>The memory\<close>

text \<open>
  What an allocation holds: raw or character storage, an array of pointers or of process
  ids, a structure, or an open stream, by the path of its file (\<open>None\<close> for the
  standard input). The \<open>char*\<close> fields of \<open>options\<close> point into
  \<open>argv\<close>, which is never released, so that \<open>options\<close> is kept as it is.
\<close>

datatype object =
    Chars "byte block"
  | Pointers "ptr block"
  | Pids "int block"
  | is_Stream: Stream "cstr option"
  | Buffer buffer_s
  | Args command_args_s
  | Command command_s
  | Tokenizer tokenizer_s
  | Space_tokenizer space_tokenizer_s
  | Delim_tokenizer delim_tokenizer_s
  | Pool process_pool_s
  | Mode xargs_mode_s
  | Appender_mode appender_mode_s
  | Replacer_mode replacer_mode_s
  | Xargs xargs_s
  | Options options

text \<open>
  Addresses are never used twice, so that a use after a release, and a second release, are
  seen wherever they happen.
\<close>

record memory =
  m_heap :: "ptr \<Rightarrow> object option"
  m_next :: ptr

definition mem_new :: "object \<Rightarrow> memory \<Rightarrow> ptr \<times> memory" where
  "mem_new obj m = (m_next m, m\<lparr>m_heap := (m_heap m)(m_next m := Some obj), m_next := m_next m + 1\<rparr>)"

definition mem_load :: "ptr \<Rightarrow> memory \<Rightarrow> stop + object" where
  "mem_load p m = (case m_heap m p of None \<Rightarrow> Inl Undefined | Some obj \<Rightarrow> Inr obj)"

definition mem_store :: "ptr \<Rightarrow> object \<Rightarrow> memory \<Rightarrow> stop + memory" where
  "mem_store p obj m = (case m_heap m p of None \<Rightarrow> Inl Undefined
     | Some _ \<Rightarrow> Inr (m\<lparr>m_heap := (m_heap m)(p := Some obj)\<rparr>))"

text \<open>\<open>free\<close>: nothing for \<open>NULL\<close>, undefined for an address that is not allocated.\<close>

definition mem_free :: "ptr \<Rightarrow> memory \<Rightarrow> stop + memory" where
  "mem_free p m = (if p = NULL then Inr m else case m_heap m p of None \<Rightarrow> Inl Undefined
     | Some _ \<Rightarrow> Inr (m\<lparr>m_heap := (m_heap m)(p := None)\<rparr>))"

text \<open>The standard input is a stream that exists before \<open>main\<close> starts.\<close>

definition stdin_ptr :: ptr where "stdin_ptr = 1"

definition mem_ok :: "memory \<Rightarrow> bool" where
  "mem_ok m \<longleftrightarrow> (\<forall>p. m_heap m p \<noteq> None \<longrightarrow> p \<noteq> NULL \<and> p < m_next m)
     \<and> NULL < m_next m \<and> m_heap m stdin_ptr = Some (Stream None)"

text \<open>A typed access: the object at an address must be of the expected structure.\<close>

definition to_buffer :: "object \<Rightarrow> stop + buffer_s" where
  "to_buffer obj = (case obj of Buffer s \<Rightarrow> Inr s | _ \<Rightarrow> Inl Undefined)"

definition to_args :: "object \<Rightarrow> stop + command_args_s" where
  "to_args obj = (case obj of Args s \<Rightarrow> Inr s | _ \<Rightarrow> Inl Undefined)"

definition to_command :: "object \<Rightarrow> stop + command_s" where
  "to_command obj = (case obj of Command s \<Rightarrow> Inr s | _ \<Rightarrow> Inl Undefined)"

definition to_tokenizer :: "object \<Rightarrow> stop + tokenizer_s" where
  "to_tokenizer obj = (case obj of Tokenizer s \<Rightarrow> Inr s | _ \<Rightarrow> Inl Undefined)"

definition to_space :: "object \<Rightarrow> stop + space_tokenizer_s" where
  "to_space obj = (case obj of Space_tokenizer s \<Rightarrow> Inr s | _ \<Rightarrow> Inl Undefined)"

definition to_delim :: "object \<Rightarrow> stop + delim_tokenizer_s" where
  "to_delim obj = (case obj of Delim_tokenizer s \<Rightarrow> Inr s | _ \<Rightarrow> Inl Undefined)"

definition to_pool :: "object \<Rightarrow> stop + process_pool_s" where
  "to_pool obj = (case obj of Pool s \<Rightarrow> Inr s | _ \<Rightarrow> Inl Undefined)"

definition to_mode :: "object \<Rightarrow> stop + xargs_mode_s" where
  "to_mode obj = (case obj of Mode s \<Rightarrow> Inr s | _ \<Rightarrow> Inl Undefined)"

definition to_xargs :: "object \<Rightarrow> stop + xargs_s" where
  "to_xargs obj = (case obj of Xargs s \<Rightarrow> Inr s | _ \<Rightarrow> Inl Undefined)"

definition to_chars :: "object \<Rightarrow> stop + byte block" where
  "to_chars obj = (case obj of Chars b \<Rightarrow> Inr b | _ \<Rightarrow> Inl Undefined)"

definition to_pointers :: "object \<Rightarrow> stop + ptr block" where
  "to_pointers obj = (case obj of Pointers b \<Rightarrow> Inr b | _ \<Rightarrow> Inl Undefined)"

definition to_pids :: "object \<Rightarrow> stop + int block" where
  "to_pids obj = (case obj of Pids b \<Rightarrow> Inr b | _ \<Rightarrow> Inl Undefined)"

lemmas to_object_defs = to_buffer_def to_args_def to_command_def to_tokenizer_def to_space_def
  to_delim_def to_pool_def to_mode_def to_xargs_def to_chars_def to_pointers_def to_pids_def

definition load_as :: "(object \<Rightarrow> stop + 'a) \<Rightarrow> ptr \<Rightarrow> memory \<Rightarrow> stop + 'a" where
  "load_as k p m = rbind (mem_load p m) k"

section \<open>The allocation functions of \<^verbatim>\<open>src/util.c\<close>\<close>

text \<open>
  Each is the function of \<open>Util\<close> with a place for its result. \<open>realloc\<close> always moves: the old
  address is released.
\<close>

definition mem_malloc :: "platform \<Rightarrow> size_t \<Rightarrow> memory \<Rightarrow> stop + ptr \<times> memory" where
  "mem_malloc E nbytes m = rbind (phxargs_malloc E nbytes) (\<lambda>b. Inr (mem_new (Chars b) m))"

definition mem_calloc :: "platform \<Rightarrow> ('a block \<Rightarrow> object) \<Rightarrow> 'a \<Rightarrow> size_t \<Rightarrow> size_t \<Rightarrow> memory
    \<Rightarrow> stop + ptr \<times> memory" where
  "mem_calloc E mk zero n nbytes m =
     rbind (phxargs_calloc E zero n nbytes) (\<lambda>b. Inr (mem_new (mk b) m))"

definition mem_realloc :: "platform \<Rightarrow> (object \<Rightarrow> stop + 'a block) \<Rightarrow> ('a block \<Rightarrow> object) \<Rightarrow> nat
    \<Rightarrow> ptr \<Rightarrow> size_t \<Rightarrow> memory \<Rightarrow> stop + ptr \<times> memory" where
  "mem_realloc E view mk esz p nbytes m =
     rbind (load_as view p m) (\<lambda>b.
     rbind (phxargs_realloc E esz b nbytes) (\<lambda>b.
     rbind (mem_free p m) (\<lambda>m. Inr (mem_new (mk b) m))))"

text \<open>A C string in storage of its own.\<close>

definition c_block :: "cstr \<Rightarrow> byte block" where
  "c_block s = map Some (s @ [0])"

definition mem_strdup :: "platform \<Rightarrow> cstr option \<Rightarrow> memory \<Rightarrow> stop + ptr \<times> memory" where
  "mem_strdup E s m = rbind (phxargs_strdup E s) (\<lambda>t. case t of
       None \<Rightarrow> Inr (NULL, m)
     | Some t \<Rightarrow> Inr (mem_new (Chars (c_block t)) m))"

section \<open>Footprints\<close>

text \<open>
  A step from \<open>m\<close> to \<open>m'\<close> that may use the addresses \<open>A\<close> and leaves \<open>A'\<close> in their place:
  the rest of the memory is as it was, what is new was not allocated before, what is
  gone has been released.
\<close>

definition moves :: "memory \<Rightarrow> ptr set \<Rightarrow> memory \<Rightarrow> ptr set \<Rightarrow> bool" where
  "moves m A m' A' \<longleftrightarrow> mem_ok m \<and> mem_ok m' \<and> m_next m \<le> m_next m'
     \<and> (\<forall>p. p \<notin> A \<and> p \<notin> A' \<longrightarrow> m_heap m' p = m_heap m p)
     \<and> (\<forall>p \<in> A' - A. m_next m \<le> p) \<and> (\<forall>p \<in> A - A'. m_heap m' p = None)
     \<and> A \<subseteq> dom (m_heap m) \<and> A' \<subseteq> dom (m_heap m')"

definition agree :: "ptr set \<Rightarrow> memory \<Rightarrow> memory \<Rightarrow> bool" where
  "agree F m m' \<longleftrightarrow> (\<forall>p \<in> F. m_heap m' p = m_heap m p)"

lemma mem_okD: "mem_ok m \<Longrightarrow> m_heap m p = Some obj \<Longrightarrow> p < m_next m"
  "mem_ok m \<Longrightarrow> m_heap m p = Some obj \<Longrightarrow> p \<noteq> NULL" "mem_ok m \<Longrightarrow> m_next m \<le> p \<Longrightarrow> m_heap m p = None"
  by (auto simp: mem_ok_def)

lemma moves_refl: "mem_ok m \<Longrightarrow> A \<subseteq> dom (m_heap m) \<Longrightarrow> moves m A m A"
  by (simp add: moves_def)

lemma moves_ok: "moves m A m' A' \<Longrightarrow> mem_ok m'" "moves m A m' A' \<Longrightarrow> A' \<subseteq> dom (m_heap m')"
  by (simp_all add: moves_def)

lemma moves_trans:
  assumes "moves a A b B" and "moves b B c C"
  shows "moves a A c C"
proof -
  have same: "m_heap c p = m_heap a p" if "p \<notin> A" "p \<notin> C" for p
  proof (cases "p \<in> B")
    case True
    then have "m_next a \<le> p" "m_heap c p = None" using assms that by (auto simp: moves_def)
    then show ?thesis using assms(1) mem_okD(3) [of a p] by (simp add: moves_def)
  next
    case False
    then show ?thesis using assms that by (simp add: moves_def)
  qed
  have new: "m_next a \<le> p" if "p \<in> C" "p \<notin> A" for p
    using assms that unfolding moves_def by (metis Diff_iff order_trans)
  have gone: "m_heap c p = None" if "p \<in> A" "p \<notin> C" for p
  proof (cases "p \<in> B")
    case True
    then show ?thesis using assms(2) that by (simp add: moves_def)
  next
    case False
    then show ?thesis using assms that by (simp add: moves_def)
  qed
  show ?thesis
    using assms same new gone unfolding moves_def by auto
qed

text \<open>The frame rule.\<close>

lemma moves_frame:
  assumes "moves m A m' A'" and "A \<inter> F = {}" and "F \<subseteq> dom (m_heap m)"
  shows "A' \<inter> F = {}" and "agree F m m'" and "moves m (A \<union> F) m' (A' \<union> F)"
proof -
  have ok: "mem_ok m" and new: "\<forall>p \<in> A' - A. m_next m \<le> p"
    and rest: "\<forall>p. p \<notin> A \<and> p \<notin> A' \<longrightarrow> m_heap m' p = m_heap m p"
    using assms(1) by (simp_all add: moves_def)
  have old: "p < m_next m" if "p \<in> F" for p
    using that assms(3) mem_okD(1) [OF ok] by blast
  show d: "A' \<inter> F = {}"
  proof (rule ccontr)
    assume "A' \<inter> F \<noteq> {}"
    then obtain p where p: "p \<in> A'" "p \<in> F" by blast
    then have "m_next m \<le> p" using new assms(2) by blast
    with old [OF p(2)] show False by simp
  qed
  show g: "agree F m m'" unfolding agree_def using rest d assms(2) by blast
  then have "F \<subseteq> dom (m_heap m')" using assms(3) by (auto simp: agree_def dom_def)
  moreover have "m_heap m' p = m_heap m p" if "p \<notin> A \<union> F" "p \<notin> A' \<union> F" for p
    using assms(1) that by (simp add: moves_def)
  moreover have "m_next m \<le> p" if "p \<in> (A' \<union> F) - (A \<union> F)" for p
    using assms(1) that by (auto simp: moves_def)
  moreover have "m_heap m' p = None" if "p \<in> (A \<union> F) - (A' \<union> F)" for p
    using assms(1) that by (auto simp: moves_def)
  ultimately show "moves m (A \<union> F) m' (A' \<union> F)"
    using assms(1,3) unfolding moves_def by (intro conjI ballI) auto
qed

lemma moves_restored: "moves m {} m' {} \<Longrightarrow> m_heap m' = m_heap m"
  by (auto simp: moves_def)

section \<open>The steps\<close>

lemma mem_new_moves:
  assumes "mem_ok m" and "mem_new obj m = (p, m')"
  shows "moves m {} m' {p}" and "m_heap m' p = Some obj" and "m_heap m p = None" and "p \<noteq> NULL"
proof -
  have p: "p = m_next m" and m': "m' = m\<lparr>m_heap := (m_heap m)(p := Some obj), m_next := p + 1\<rparr>"
    using assms(2) by (auto simp: mem_new_def)
  show "m_heap m p = None" using mem_okD(3) [OF assms(1)] p by simp
  moreover show "m_heap m' p = Some obj" by (simp add: m')
  moreover show "p \<noteq> NULL" using assms(1) by (simp add: p mem_ok_def)
  moreover have "q < p" "q \<noteq> NULL" if "m_heap m q = Some x" for q x
    using mem_okD(1,2) [OF assms(1) that] by (simp_all add: p)
  then have "mem_ok m'"
    using assms(1) \<open>m_heap m p = None\<close> \<open>p \<noteq> NULL\<close>
    by (auto simp: mem_ok_def m' less_Suc_eq)
  ultimately show "moves m {} m' {p}"
    using assms(1) by (simp add: moves_def m') (simp add: p)
qed

lemma mem_store_moves:
  assumes "mem_ok m" and "m_heap m p \<noteq> None" and "p \<noteq> stdin_ptr"
  shows "\<exists>m'. mem_store p obj m = Inr m' \<and> moves m {p} m' {p} \<and> m_heap m' p = Some obj"
  using assms by (auto simp: mem_store_def moves_def mem_ok_def)

lemma mem_free_moves:
  assumes "mem_ok m" and "m_heap m p \<noteq> None" and "p \<noteq> stdin_ptr"
  shows "\<exists>m'. mem_free p m = Inr m' \<and> moves m {p} m' {}"
  using assms by (auto simp: mem_free_def moves_def mem_ok_def)

lemma mem_free_NULL [simp]: "mem_free NULL m = Inr m"
  by (simp add: mem_free_def)

lemma load_as_Some: "m_heap m p = Some obj \<Longrightarrow> load_as k p m = k obj"
  by (simp add: load_as_def mem_load_def)

lemma agree_sub: "agree F m m' \<Longrightarrow> G \<subseteq> F \<Longrightarrow> agree G m m'"
  by (auto simp: agree_def)

lemma agree_heap: "agree F m m' \<Longrightarrow> p \<in> F \<Longrightarrow> m_heap m' p = m_heap m p"
  by (simp add: agree_def)

lemma agree_refl [simp]: "agree F m m"
  by (simp add: agree_def)

lemma agree_step: "agree F a b \<Longrightarrow> agree X b c \<Longrightarrow> F \<subseteq> X \<Longrightarrow> agree F a c"
  by (auto simp: agree_def)

lemma agree_trans: "agree F a b \<Longrightarrow> agree F b c \<Longrightarrow> agree F a c"
  by (simp add: agree_def)

text \<open>The steps inside a larger footprint, appended to what happened before.\<close>

lemma chain_new:
  assumes "moves m0 A0 m A" and "mem_new obj m = (p, m')"
  shows "moves m0 A0 m' (insert p A)" "p \<notin> A" "p \<noteq> NULL" "m_heap m' p = Some obj" "agree A m m'"
proof -
  have ok: "mem_ok m" and A: "A \<subseteq> dom (m_heap m)" using assms(1) by (simp_all add: moves_def)
  note n = mem_new_moves [OF ok assms(2)]
  from moves_frame [OF n(1) _ A] have f: "{p} \<inter> A = {}" "agree A m m'" "moves m A m' (insert p A)" by simp_all
  then show "moves m0 A0 m' (insert p A)" using moves_trans [OF assms(1)] by simp
  show "p \<notin> A" "p \<noteq> NULL" "m_heap m' p = Some obj" "agree A m m'" using f n by simp_all
qed

lemma chain_store:
  assumes "moves m0 A0 m A" and "p \<in> A" and "p \<noteq> stdin_ptr"
  shows "\<exists>m'. mem_store p obj m = Inr m' \<and> moves m0 A0 m' A \<and> m_heap m' p = Some obj
    \<and> agree (A - {p}) m m'"
proof -
  have ok: "mem_ok m" and A: "A \<subseteq> dom (m_heap m)" using assms(1) by (simp_all add: moves_def)
  then have "m_heap m p \<noteq> None" using assms(2) by auto
  from mem_store_moves [OF ok this assms(3)] obtain m' where m': "mem_store p obj m = Inr m'"
    "moves m {p} m' {p}" "m_heap m' p = Some obj" by blast
  have "moves m A m' A" and "agree (A - {p}) m m'"
    using moves_frame [OF m'(2), of "A - {p}"] A assms(2) by (auto simp: insert_absorb)
  with m' moves_trans [OF assms(1)] show ?thesis by blast
qed

lemma chain_free:
  assumes "moves m0 A0 m A" and "p \<in> A" and "p \<noteq> stdin_ptr"
  shows "\<exists>m'. mem_free p m = Inr m' \<and> moves m0 A0 m' (A - {p}) \<and> agree (A - {p}) m m'"
proof -
  have ok: "mem_ok m" and A: "A \<subseteq> dom (m_heap m)" using assms(1) by (simp_all add: moves_def)
  then have "m_heap m p \<noteq> None" using assms(2) by auto
  from mem_free_moves [OF ok this assms(3)] obtain m' where m': "mem_free p m = Inr m'"
    "moves m {p} m' {}" by blast
  have "moves m A m' (A - {p})" and "agree (A - {p}) m m'"
    using moves_frame [OF m'(2), of "A - {p}"] A assms(2) by (auto simp: insert_absorb)
  with m' moves_trans [OF assms(1)] show ?thesis by blast
qed

text \<open>A step of a part, framed by the rest.\<close>

lemma chain_part:
  assumes "moves m0 A0 m (A \<union> F)" and "A \<inter> F = {}" and "moves m A m' A'"
  shows "moves m0 A0 m' (A' \<union> F)" "A' \<inter> F = {}" "agree F m m'"
proof -
  have "F \<subseteq> dom (m_heap m)" using assms(1) by (simp add: moves_def)
  from moves_frame [OF assms(3,2) this] moves_trans [OF assms(1)]
  show "moves m0 A0 m' (A' \<union> F)" "A' \<inter> F = {}" "agree F m m'" by blast+
qed

lemma heap_not_stdin: "mem_ok m \<Longrightarrow> m_heap m p = Some obj \<Longrightarrow> \<not> is_Stream obj \<Longrightarrow> p \<noteq> stdin_ptr"
  by (auto simp: mem_ok_def)

section \<open>Owners\<close>

text \<open>
  The contract of a kind of object: \<open>rep m p v A\<close> says that at \<open>p\<close> there is an object with the
  value \<open>v\<close> that owns the addresses \<open>A\<close>. Whether this holds depends on \<open>A\<close> alone, and \<open>release\<close>,
  the destructor, gives back \<open>A\<close> and nothing else.
\<close>

locale owner =
  fixes rep :: "memory \<Rightarrow> ptr \<Rightarrow> 'v \<Rightarrow> ptr set \<Rightarrow> bool"
    and release :: "ptr \<Rightarrow> memory \<Rightarrow> stop + memory"
  assumes local: "rep m p v A \<Longrightarrow> agree A m m' \<Longrightarrow> rep m' p v A"
    and allocated: "rep m p v A \<Longrightarrow> A \<subseteq> dom (m_heap m)"
    and releases: "mem_ok m \<Longrightarrow> rep m p v A \<Longrightarrow> \<exists>m'. release p m = Inr m' \<and> moves m A m' {}"
begin

lemma chain_release:
  assumes "moves m0 A0 m (A \<union> F)" and "A \<inter> F = {}" and "rep m p v A"
  shows "\<exists>m'. release p m = Inr m' \<and> moves m0 A0 m' F \<and> agree F m m'"
proof -
  have "mem_ok m" using assms(1) by (simp add: moves_def)
  from releases [OF this assms(3)] obtain m' where m': "release p m = Inr m'" "moves m A m' {}" by blast
  from chain_part [OF assms(1,2) m'(2)] m'(1) show ?thesis by simp
qed

lemma kept:
  assumes "rep m p v A" and "agree F m m'" and "A \<subseteq> F"
  shows "rep m' p v A"
  using assms by (blast intro: local agree_sub)

end

text \<open>
  How a constructor or an operation on memory follows the operation on values: it stops in
  the same way, or leaves an object with the resulting value.
\<close>

definition builds :: "(memory \<Rightarrow> ptr \<Rightarrow> 'v \<Rightarrow> ptr set \<Rightarrow> bool) \<Rightarrow> memory \<Rightarrow> stop + 'v
    \<Rightarrow> stop + ptr \<times> memory \<Rightarrow> bool" where
  "builds rep m mv mh = (case mv of Inl s \<Rightarrow> mh = Inl s
     | Inr v \<Rightarrow> (\<exists>p m' A. mh = Inr (p, m') \<and> moves m {} m' A \<and> rep m' p v A))"

definition updates :: "(memory \<Rightarrow> ptr \<Rightarrow> 'v \<Rightarrow> ptr set \<Rightarrow> bool) \<Rightarrow> memory \<Rightarrow> ptr \<Rightarrow> ptr set \<Rightarrow> stop + 'v
    \<Rightarrow> stop + memory \<Rightarrow> bool" where
  "updates rep m p A mv mh = (case mv of Inl s \<Rightarrow> mh = Inl s
     | Inr v \<Rightarrow> (\<exists>m' A'. mh = Inr m' \<and> moves m A m' A' \<and> rep m' p v A'))"

lemma builds_simps [simp]:
  "builds rep m (Inl s) mh \<longleftrightarrow> mh = Inl s"
  "builds rep m (Inr v) mh \<longleftrightarrow> (\<exists>p m' A. mh = Inr (p, m') \<and> moves m {} m' A \<and> rep m' p v A)"
  by (simp_all add: builds_def)

lemma updates_simps [simp]:
  "updates rep m p A (Inl s) mh \<longleftrightarrow> mh = Inl s"
  "updates rep m p A (Inr v) mh \<longleftrightarrow> (\<exists>m' A'. mh = Inr m' \<and> moves m A m' A' \<and> rep m' p v A')"
  by (simp_all add: updates_def)


section \<open>Following the operations on values\<close>

text \<open>
  Two computations in step: the second stops as the first does, or their results are related.
\<close>

definition follows :: "('v \<Rightarrow> 'y \<Rightarrow> bool) \<Rightarrow> 'e + 'v \<Rightarrow> 'e + 'y \<Rightarrow> bool" where
  "follows R mv mh = (case mv of Inl s \<Rightarrow> mh = Inl s | Inr v \<Rightarrow> (\<exists>y. mh = Inr y \<and> R v y))"

lemma follows_simps [simp]:
  "follows R (Inl s) mh \<longleftrightarrow> mh = Inl s"
  "follows R (Inr v) mh \<longleftrightarrow> (\<exists>y. mh = Inr y \<and> R v y)"
  by (simp_all add: follows_def)

lemma follows_bind:
  assumes "follows R mv mh" and "\<And>v y. mv = Inr v \<Longrightarrow> mh = Inr y \<Longrightarrow> R v y \<Longrightarrow> follows S (f v) (g y)"
  shows "follows S (rbind mv f) (rbind mh g)"
  using assms by (cases mv) auto

lemma follows_bind2:
  assumes "follows R mv mh" and "\<And>v a b. R v (a, b) \<Longrightarrow> follows S (f v) (g a b)"
  shows "follows S (rbind mv f) (rbind mh (\<lambda>(a, b). g a b))"
  by (rule follows_bind [OF assms(1)]) (auto intro: assms(2))

lemma rbind_prod: "rbind (case x of (a, b) \<Rightarrow> f a b) g = (case x of (a, b) \<Rightarrow> rbind (f a b) g)"
  by (simp split: prod.split)

lemma follows_mono: "follows R mv mh \<Longrightarrow> (\<And>v y. R v y \<Longrightarrow> S v y) \<Longrightarrow> follows S mv mh"
  by (cases mv) auto

lemma follows_map: "follows (\<lambda>c. S (f c)) mv mh \<Longrightarrow> follows S (rbind mv (\<lambda>c. Inr (f c))) mh"
  by (cases mv) simp_all

lemma follows_lift: "follows R mv mh \<Longrightarrow> follows R (lift w mv) (lift w mh)"
  by (cases mv) auto

lemma follows_left: "(\<And>v. mv = Inr v \<Longrightarrow> follows S (f v) mh) \<Longrightarrow> (\<And>s. mv = Inl s \<Longrightarrow> mh = Inl s)
    \<Longrightarrow> follows S (rbind mv f) mh"
  by (cases mv) auto

text \<open>The same computation on both sides.\<close>

lemma follows_same: "(\<And>v. mv = Inr v \<Longrightarrow> follows S (f v) (g v)) \<Longrightarrow> follows S (rbind mv f) (rbind mv g)"
  by (cases mv) auto

lemma builds_follows: "builds rep m mv mh \<longleftrightarrow> follows (\<lambda>v (p, m'). \<exists>A. moves m {} m' A \<and> rep m' p v A) mv mh"
  by (cases mv) auto

lemma updates_follows: "updates rep m p A mv mh \<longleftrightarrow> follows (\<lambda>v m'. \<exists>A'. moves m A m' A' \<and> rep m' p v A') mv mh"
  by (cases mv) auto

text \<open>Constructors and operations inside a larger footprint.\<close>

definition placed :: "(memory \<Rightarrow> ptr \<Rightarrow> 'v \<Rightarrow> ptr set \<Rightarrow> bool) \<Rightarrow> memory \<Rightarrow> ptr set \<Rightarrow> memory \<Rightarrow> ptr set
    \<Rightarrow> ptr \<Rightarrow> 'v \<Rightarrow> memory \<Rightarrow> bool" where
  "placed rep m0 A0 m F p v m' \<longleftrightarrow>
     (\<exists>A. moves m0 A0 m' (A \<union> F) \<and> A \<inter> F = {} \<and> agree F m m' \<and> rep m' p v A)"

lemma placedE:
  assumes "placed rep m0 A0 m F p v m'"
  obtains A where "moves m0 A0 m' (A \<union> F)" "A \<inter> F = {}" "agree F m m'" "rep m' p v A"
  using assms by (auto simp: placed_def)

lemma chain_builds:
  assumes "moves m0 A0 m F" and "mem_ok m \<Longrightarrow> builds rep m mv mh"
  shows "follows (\<lambda>v (p, m'). placed rep m0 A0 m F p v m') mv mh"
proof -
  have "mem_ok m" using assms(1) by (simp add: moves_def)
  note b = assms(2) [OF this]
  have "moves m0 A0 m ({} \<union> F)" "{} \<inter> F = {}" using assms(1) by simp_all
  note c = chain_part [OF this]
  show ?thesis
    using b unfolding builds_follows placed_def by (rule follows_mono) (auto dest: c)
qed

lemma chain_updates:
  assumes "moves m0 A0 m X" and "X = A \<union> F" and "A \<inter> F = {}" and "mem_ok m \<Longrightarrow> updates rep m p A mv mh"
  shows "follows (\<lambda>v m'. placed rep m0 A0 m F p v m') mv mh"
proof -
  have "mem_ok m" using assms(1) by (simp add: moves_def)
  note u = assms(4) [OF this]
  note c = chain_part [OF assms(1) [unfolded assms(2)] assms(3)]
  show ?thesis
    using u unfolding updates_follows placed_def by (rule follows_mono) (blast dest: c)
qed

text \<open>A structure is allocated first and filled in later.\<close>

definition raw :: "memory \<Rightarrow> ptr \<Rightarrow> byte block \<Rightarrow> ptr set \<Rightarrow> bool" where
  "raw m p b A \<longleftrightarrow> A = {p} \<and> p \<noteq> stdin_ptr \<and> m_heap m p = Some (Chars b)"

lemma malloc_builds: "mem_ok m \<Longrightarrow> builds raw m (phxargs_malloc E n) (mem_malloc E n m)"
proof (cases "phxargs_malloc E n :: stop + byte block")
  case (Inr b)
  assume ok: "mem_ok m"
  obtain p m' where n: "mem_new (Chars b) m = (p, m')" by fastforce
  note p = mem_new_moves [OF ok n]
  have "p \<noteq> stdin_ptr" using p(3) ok by (auto simp: mem_ok_def)
  with p n Inr show ?thesis by (auto simp: mem_malloc_def raw_def)
qed (simp add: mem_malloc_def)

lemma chain_malloc:
  assumes "moves m0 A0 m F"
  shows "follows (\<lambda>_ (p, m'). moves m0 A0 m' (insert p F) \<and> p \<notin> F \<and> p \<noteq> stdin_ptr \<and> agree F m m')
    (phxargs_malloc E n :: stop + byte block) (mem_malloc E n m)"
  by (rule follows_mono [OF chain_builds [OF assms malloc_builds]]) (auto simp: placed_def raw_def)

lemma chain_fill:
  assumes "moves m0 A0 m X" and "p \<in> X" and "p \<noteq> stdin_ptr"
  obtains m' where "mem_store p obj m = Inr m'" "moves m0 A0 m' X" "m_heap m' p = Some obj"
    "agree (X - {p}) m m'"
  using chain_store [OF assms, of obj] by blast

context owner
begin

lemma chain_free_part:
  assumes "moves m0 A0 m X" and "X = A \<union> F" and "A \<inter> F = {}" and "rep m p v A"
  obtains m' where "release p m = Inr m'" "moves m0 A0 m' F" "agree F m m'"
  using chain_release [OF assms(1) [unfolded assms(2)] assms(3,4)] by blast

end

section \<open>Objects with parts\<close>

text \<open>The footprint of a structure at \<open>p\<close> with something of its own in \<open>S\<close> and parts \<open>L k\<close>.\<close>

definition footprint :: "ptr \<Rightarrow> ptr set \<Rightarrow> ('k \<Rightarrow> ptr set) \<Rightarrow> ptr set" where
  "footprint p S L = insert p (S \<union> (\<Union>k. L k))"

definition apart :: "ptr \<Rightarrow> ptr set \<Rightarrow> ('k \<Rightarrow> ptr set) \<Rightarrow> bool" where
  "apart p S L \<longleftrightarrow> p \<notin> S \<and> (\<forall>k. p \<notin> L k \<and> S \<inter> L k = {}) \<and> (\<forall>j k. j \<noteq> k \<longrightarrow> L j \<inter> L k = {})"

lemma footprint_put: "footprint p S (L(k := Y)) = Y \<union> footprint p S (L(k := {}))"
  by (auto simp: footprint_def split: if_splits)

lemma footprint_part:
  assumes "apart p S L"
  shows "footprint p S L = L k \<union> footprint p S (L(k := {}))" and "L k \<inter> footprint p S (L(k := {})) = {}"
proof -
  show "footprint p S L = L k \<union> footprint p S (L(k := {}))"
    using footprint_put [of p S L k "L k"] by simp
  have "x \<notin> footprint p S (L(k := {}))" if "x \<in> L k" for x
    using assms that unfolding apart_def footprint_def by (auto split: if_splits) blast
  then show "L k \<inter> footprint p S (L(k := {})) = {}" by blast
qed

lemma apart_put:
  "apart p S L \<Longrightarrow> Y \<inter> footprint p S (L(k := {})) = {} \<Longrightarrow> apart p S (L(k := Y))"
  unfolding apart_def footprint_def by (auto split: if_splits)

lemma in_footprint: "p \<in> footprint p S L" "S \<subseteq> footprint p S L" "L k \<subseteq> footprint p S L"
  by (auto simp: footprint_def)

end
