(* ===== verification/Memory_Arrays.thy ===== *)
theory Memory_Arrays
  imports Memory
begin

text \<open>
  The byte buffer (\<^verbatim>\<open>src/buffer.c\<close>) and the argument list (\<^verbatim>\<open>src/command_args.c\<close>) in memory:
  constructors, growth and destructors, what each of them owns, and that they follow the
  operations on values of \<open>Buffer\<close> and \<open>Command_Args\<close>.
\<close>

section \<open>Strings\<close>

definition owns_string :: "memory \<Rightarrow> ptr \<Rightarrow> cstr option \<Rightarrow> ptr set \<Rightarrow> bool" where
  "owns_string m p s A = (case s of None \<Rightarrow> p = NULL \<and> A = {}
     | Some t \<Rightarrow> A = {p} \<and> p \<noteq> NULL \<and> 0 \<notin> set t \<and> m_heap m p = Some (Chars (c_block t)))"

definition read_string :: "ptr \<Rightarrow> memory \<Rightarrow> stop + cstr" where
  "read_string p m = rbind (load_as to_chars p m) c_string"

lemma read_string_block: "0 \<notin> set t \<Longrightarrow> m_heap m p = Some (Chars (c_block t)) \<Longrightarrow> read_string p m = Inr t"
  by (simp add: read_string_def load_as_def mem_load_def to_chars_def c_block_def)

lemma strdup_Some: "phxargs_strdup E s = Inr (Some t) \<Longrightarrow> 0 \<notin> set t"
  by (auto simp: phxargs_strdup_def Let_def rbind_Inr_iff dest: c_string_no_NUL split: option.splits)

lemma strdup_builds: "mem_ok m \<Longrightarrow> builds owns_string m (phxargs_strdup E s) (mem_strdup E s m)"
proof (cases "phxargs_strdup E s")
  case (Inr t)
  assume ok: "mem_ok m"
  then have m0: "moves m {} m {}" by (simp add: moves_refl)
  show ?thesis
  proof (cases t)
    case None
    with Inr m0 show ?thesis by (auto simp: mem_strdup_def owns_string_def)
  next
    case (Some u)
    obtain p m' where n: "mem_new (Chars (c_block u)) m = (p, m')" by fastforce
    from chain_new [OF m0 n] strdup_Some [of E s u] show ?thesis
      using Inr Some n by (auto simp: mem_strdup_def owns_string_def)
  qed
qed (simp add: mem_strdup_def)

interpretation string: owner owns_string mem_free
proof
  fix m m' :: memory and p s A
  assume r: "owns_string m p s A"
  then show "agree A m m' \<Longrightarrow> owns_string m' p s A"
    by (auto simp: owns_string_def agree_def split: option.splits)
  from r show "A \<subseteq> dom (m_heap m)" by (auto simp: owns_string_def split: option.splits)
  assume ok: "mem_ok m"
  show "\<exists>m'. mem_free p m = Inr m' \<and> moves m A m' {}"
  proof (cases s)
    case None
    with r ok show ?thesis by (simp add: owns_string_def moves_refl)
  next
    case (Some t)
    with r have A: "A = {p}" "m_heap m p = Some (Chars (c_block t))" by (simp_all add: owns_string_def)
    have "m_heap m p \<noteq> None" "p \<noteq> stdin_ptr" using A(2) heap_not_stdin [OF ok A(2)] by auto
    from mem_free_moves [OF ok this] show ?thesis by (simp add: A(1))
  qed
qed

section \<open>The byte buffer\<close>

definition buffer_create_mem :: "platform \<Rightarrow> size_t \<Rightarrow> memory \<Rightarrow> stop + ptr \<times> memory" where
  "buffer_create_mem E sz m =
     rbind (mem_malloc E 24 m) (\<lambda>(buf, m).
     rbind (mem_calloc E Chars 0 (sz + 1) 1 m) (\<lambda>(p, m).
     rbind (mem_store buf (Buffer \<lparr>bs_buf = p, bs_sz = sz, bs_pos = 0\<rparr>) m) (\<lambda>m.
     Inr (buf, m))))"

definition buffer_put_mem :: "platform \<Rightarrow> ptr \<Rightarrow> byte \<Rightarrow> memory \<Rightarrow> stop + memory" where
  "buffer_put_mem E p ch m =
     rbind (load_as to_buffer p m) (\<lambda>buf.
     rbind (if bs_pos buf = bs_sz buf
       then rbind (phxargs_double_capacity (bs_sz buf)) (\<lambda>sz.
            rbind (mem_realloc E to_chars Chars 1 (bs_buf buf) (sz + 1) m) (\<lambda>(q, m).
            Inr (buf\<lparr>bs_sz := sz, bs_buf := q\<rparr>, m)))
       else Inr (buf, m)) (\<lambda>(buf, m).
     rbind (load_as to_chars (bs_buf buf) m) (\<lambda>b.
     rbind (blk_store b (unat (bs_pos buf)) ch) (\<lambda>b.
     rbind (mem_store (bs_buf buf) (Chars b) m) (\<lambda>m.
     mem_store p (Buffer (buf\<lparr>bs_pos := bs_pos buf + 1\<rparr>)) m)))))"

definition buffer_destroy :: "ptr \<Rightarrow> memory \<Rightarrow> stop + memory" where
  "buffer_destroy p m =
     rbind (load_as to_buffer p m) (\<lambda>buf.
     rbind (mem_free (bs_buf buf) m) (\<lambda>m.
     mem_free p m))"

definition owns_buffer :: "memory \<Rightarrow> ptr \<Rightarrow> buffer \<Rightarrow> ptr set \<Rightarrow> bool" where
  "owns_buffer m p b A \<longleftrightarrow> (\<exists>q. q \<noteq> p \<and> A = {p, q}
     \<and> m_heap m p = Some (Buffer \<lparr>bs_buf = q, bs_sz = bf_sz b, bs_pos = bf_pos b\<rparr>)
     \<and> m_heap m q = Some (Chars (bf_buf b)))"

lemma mem_malloc_simps [simp]:
  "phxargs_malloc E n = (Inl s :: stop + byte block) \<Longrightarrow> mem_malloc E n m = Inl s"
  "phxargs_malloc E n = (Inr b :: stop + byte block) \<Longrightarrow> mem_malloc E n m = Inr (mem_new (Chars b) m)"
  by (simp_all add: mem_malloc_def)

lemma mem_calloc_simps [simp]:
  "phxargs_calloc E z k n = Inl s \<Longrightarrow> mem_calloc E mk z k n m = Inl s"
  "phxargs_calloc E z k n = Inr b \<Longrightarrow> mem_calloc E mk z k n m = Inr (mem_new (mk b) m)"
  by (simp_all add: mem_calloc_def)

text \<open>The allocation of a structure and of an array for it.\<close>

lemma chain_new2:
  assumes "mem_ok m" and "mem_new o1 m = (p, m1)" and "mem_new o2 m1 = (q, m2)"
  shows "\<exists>m3. mem_store p o3 m2 = Inr m3 \<and> moves m {} m3 {p, q} \<and> q \<noteq> p
    \<and> m_heap m3 p = Some o3 \<and> m_heap m3 q = Some o2"
proof -
  have "moves m {} m {}" using assms(1) by (simp add: moves_refl)
  note 1 = chain_new [OF this assms(2)] and 2 = chain_new [OF chain_new(1) [OF this assms(2)] assms(3)]
  have "p \<noteq> stdin_ptr" using mem_new_moves(3) [OF assms(1,2)] assms(1) by (auto simp: mem_ok_def)
  from chain_store [OF 2(1) _ this, of o3] 2 show ?thesis
    by (auto simp: agree_def insert_commute)
qed

lemma buffer_create_builds:
  assumes "mem_ok m"
  shows "builds owns_buffer m (buffer_create E sz) (buffer_create_mem E sz m)"
proof (cases "phxargs_malloc E 24 :: stop + byte block")
  case (Inr r)
  show ?thesis
  proof (cases "phxargs_calloc E 0 (sz + 1) 1 :: stop + byte block")
    case (Inr b)
    obtain p m1 q m2 where n: "mem_new (Chars r) m = (p, m1)" "mem_new (Chars b) m1 = (q, m2)"
      by (metis prod.exhaust)
    from chain_new2 [OF assms n, of "Buffer \<lparr>bs_buf = q, bs_sz = sz, bs_pos = 0\<rparr>"]
    show ?thesis
      using Inr \<open>_ = Inr r\<close> n by (auto simp: buffer_create_def buffer_create_mem_def owns_buffer_def)
  qed (use \<open>_ = Inr r\<close> in \<open>auto simp: buffer_create_def buffer_create_mem_def split: prod.splits\<close>)
qed (simp add: buffer_create_def buffer_create_mem_def)

text \<open>A structure at \<open>p\<close> with storage at \<open>q\<close>, which is reallocated.\<close>

lemma chain_realloc:
  assumes "moves m0 A0 m (insert q F)" and "q \<notin> F" and "m_heap m q = Some obj" and "\<not> is_Stream obj"
  shows "\<exists>m1. mem_free q m = Inr m1 \<and> moves m0 A0 m1 F \<and> agree F m m1"
proof -
  have "q \<noteq> stdin_ptr" using assms(1,3,4) heap_not_stdin [of m q obj] by (simp add: moves_def)
  from chain_free [OF assms(1) _ this] assms(2) show ?thesis by (auto simp: insert_Diff_if)
qed

lemma buffer_put_updates:
  assumes "mem_ok m" and "owns_buffer m p b A"
  shows "updates owns_buffer m p A (buffer_put E b ch) (buffer_put_mem E p ch m)"
proof -
  obtain q where q: "q \<noteq> p" "A = {p, q}"
    "m_heap m p = Some (Buffer \<lparr>bs_buf = q, bs_sz = bf_sz b, bs_pos = bf_pos b\<rparr>)"
    "m_heap m q = Some (Chars (bf_buf b))"
    using assms(2) by (auto simp: owns_buffer_def)
  have m0: "moves m A m {p, q}" using assms(1) q by (auto intro!: moves_refl)
  have p: "p \<noteq> stdin_ptr" "q \<noteq> stdin_ptr"
    using heap_not_stdin [OF assms(1) q(3)] heap_not_stdin [OF assms(1) q(4)] by simp_all
  have finish: "updates owns_buffer m p A (rbind (blk_store (bf_buf b') (unat (bf_pos b')) ch)
        (\<lambda>c. Inr (b'\<lparr>bf_buf := c, bf_pos := bf_pos b' + 1\<rparr>)))
      (rbind (load_as to_chars r m1) (\<lambda>c.
       rbind (blk_store c (unat (bf_pos b')) ch) (\<lambda>c.
       rbind (mem_store r (Chars c) m1) (\<lambda>m.
       mem_store p (Buffer \<lparr>bs_buf = r, bs_sz = bf_sz b', bs_pos = bf_pos b' + 1\<rparr>) m))))"
    if r: "moves m A m1 {p, r}" "r \<noteq> p" "r \<noteq> stdin_ptr" "m_heap m1 r = Some (Chars (bf_buf b'))" for r m1 b'
  proof (cases "blk_store (bf_buf b') (unat (bf_pos b')) ch")
    case (Inr c)
    from chain_store [OF r(1) _ r(3), of "Chars c"] obtain m2 where m2:
      "mem_store r (Chars c) m1 = Inr m2" "moves m A m2 {p, r}" "m_heap m2 r = Some (Chars c)" by auto
    from chain_store [OF m2(2) _ p(1), of "Buffer \<lparr>bs_buf = r, bs_sz = bf_sz b', bs_pos = bf_pos b' + 1\<rparr>"]
    show ?thesis
      using r m2 Inr by (auto simp: load_as_Some to_chars_def owns_buffer_def agree_def)
  qed (use r in \<open>simp add: load_as_Some to_chars_def\<close>)
  show ?thesis
  proof (cases "bf_pos b = bf_sz b")
    case False
    then show ?thesis
      using finish [OF m0 q(1) p(2) q(4)] q(3)
      by (simp add: buffer_put_def buffer_put_mem_def load_as_Some to_buffer_def)
  next
    case True
    show ?thesis
    proof (cases "phxargs_double_capacity (bf_sz b)")
      case (Inr sz)
      show ?thesis
      proof (cases "phxargs_realloc E 1 (bf_buf b) (sz + 1)")
        case (Inr c)
        have "moves m A m (insert q {p})" using m0 by (simp add: insert_commute)
        from chain_realloc [OF this _ q(4)] q(1) obtain m1 where m1: "mem_free q m = Inr m1"
          "moves m A m1 {p}" "agree {p} m m1" by auto
        obtain r m2 where n: "mem_new (Chars c) m1 = (r, m2)" by fastforce
        note r = chain_new [OF m1(2) n]
        have "r \<noteq> stdin_ptr" using heap_not_stdin [OF moves_ok(1) [OF r(1)] r(4)] by simp
        from finish [OF _ _ this, of m2 "b\<lparr>bf_sz := sz, bf_buf := c\<rparr>"] show ?thesis
          using True q m1 n r Inr \<open>_ = Inr sz\<close>
          by (simp add: buffer_put_def buffer_put_mem_def load_as_Some to_buffer_def mem_realloc_def
              to_chars_def insert_commute)
      qed (use True q \<open>_ = Inr sz\<close> in \<open>simp add: buffer_put_def buffer_put_mem_def load_as_Some
        to_buffer_def mem_realloc_def to_chars_def\<close>)
    qed (use True q in \<open>simp add: buffer_put_def buffer_put_mem_def load_as_Some to_buffer_def\<close>)
  qed
qed

interpretation buf: owner owns_buffer buffer_destroy
proof
  fix m m' :: memory and p b A
  assume r: "owns_buffer m p b A"
  then show "agree A m m' \<Longrightarrow> owns_buffer m' p b A" and A: "A \<subseteq> dom (m_heap m)"
    by (auto simp: owns_buffer_def agree_def)
  assume ok: "mem_ok m"
  obtain q where q: "q \<noteq> p" "A = {p, q}"
    "m_heap m p = Some (Buffer \<lparr>bs_buf = q, bs_sz = bf_sz b, bs_pos = bf_pos b\<rparr>)"
    "m_heap m q = Some (Chars (bf_buf b))"
    using r by (auto simp: owns_buffer_def)
  have "moves m A m (insert q {p})" using moves_refl [OF ok A] q(2) by (simp add: insert_commute)
  from chain_realloc [OF this _ q(4)] q(1) obtain m1 where m1: "mem_free q m = Inr m1"
    "moves m A m1 {p}" "agree {p} m m1" by auto
  then have "m_heap m1 p = m_heap m p" by (simp add: agree_def)
  with chain_realloc [of m A m1 p "{}" "the (m_heap m p)"] m1 q
  show "\<exists>m'. buffer_destroy p m = Inr m' \<and> moves m A m' {}"
    by (auto simp: buffer_destroy_def load_as_Some to_buffer_def)
qed

section \<open>The argument list\<close>

definition reallocate_if_needed_mem :: "platform \<Rightarrow> ptr \<Rightarrow> memory \<Rightarrow> stop + memory" where
  "reallocate_if_needed_mem E p m =
     rbind (load_as to_args p m) (\<lambda>args.
     if as_count args \<ge> as_capacity args
     then rbind (phxargs_double_capacity (as_capacity args)) (\<lambda>capacity.
          rbind (mem_realloc E to_pointers Pointers 8 (as_args args) (capacity * 8) m) (\<lambda>(q, m).
          mem_store p (Args (args\<lparr>as_capacity := capacity, as_args := q\<rparr>)) m))
     else Inr m)"

definition command_args_create_with_capacity_mem :: "platform \<Rightarrow> size_t \<Rightarrow> memory
    \<Rightarrow> stop + ptr \<times> memory" where
  "command_args_create_with_capacity_mem E capacity m =
     rbind (mem_malloc E 32 m) (\<lambda>(p, m).
     rbind (mem_calloc E Pointers NULL capacity 8 m) (\<lambda>(q, m).
     rbind (mem_store p (Args \<lparr>as_count = 0, as_capacity = capacity, as_args = q, as_length = 0\<rparr>) m) (\<lambda>m.
     Inr (p, m))))"

definition command_args_create_mem :: "platform \<Rightarrow> memory \<Rightarrow> stop + ptr \<times> memory" where
  "command_args_create_mem E = command_args_create_with_capacity_mem E 10"

definition command_args_add_mem :: "platform \<Rightarrow> ptr \<Rightarrow> cstr \<Rightarrow> memory \<Rightarrow> stop + memory" where
  "command_args_add_mem E p new_arg m =
     rbind (reallocate_if_needed_mem E p m) (\<lambda>m.
     rbind (mem_strdup E (Some new_arg) m) (\<lambda>(copy, m).
     rbind (load_as to_args p m) (\<lambda>args.
     rbind (load_as to_pointers (as_args args) m) (\<lambda>b.
     rbind (blk_store b (unat (as_count args)) copy) (\<lambda>b.
     rbind (mem_store (as_args args) (Pointers b) m) (\<lambda>m.
     mem_store p (Args (args\<lparr>as_count := as_count args + 1,
       as_length := as_length args + (strlen new_arg + 1)\<rparr>)) m))))))"

definition command_args_at_mem :: "ptr \<Rightarrow> size_t \<Rightarrow> memory \<Rightarrow> stop + ptr" where
  "command_args_at_mem p i m =
     rbind (load_as to_args p m) (\<lambda>args.
     rbind (load_as to_pointers (as_args args) m) (\<lambda>b.
     blk_load b (unat i)))"

text \<open>The loop of \<open>command_args_destroy\<close>; each round reads the structure and its array again.\<close>

definition args_left :: "ptr \<Rightarrow> size_t \<Rightarrow> memory \<Rightarrow> nat" where
  "args_left p i m = (case m_heap m p of Some (Args args) \<Rightarrow> unat (as_count args) - unat i | _ \<Rightarrow> 0)"

function free_args_from :: "ptr \<Rightarrow> size_t \<Rightarrow> memory \<Rightarrow> stop + memory" where
  "free_args_from p i m =
     rbind (load_as to_args p m) (\<lambda>args.
     if i < as_count args then
       rbind (load_as to_pointers (as_args args) m) (\<lambda>b.
       rbind (blk_load b (unat i)) (\<lambda>q.
       rbind (mem_free q m) (\<lambda>m. free_args_from p (i + 1) m)))
     else Inr m)"
  by pat_completeness auto
termination
proof (relation "measure (\<lambda>(p, i, m). args_left p i m)", simp, goal_cases)
  case (1 p i m args b q m')
  from 1(1) have a: "m_heap m p = Some (Args args)"
    by (auto simp: load_as_def mem_load_def to_args_def rbind_Inr_iff split: option.splits object.splits)
  from 1(5) have "m_heap m' p = m_heap m p \<or> m_heap m' p = None"
    by (auto simp: mem_free_def split: if_splits option.splits)
  with a 1(2) show ?case by (auto simp: args_left_def size_up_decreases size_less_unat)
qed

declare free_args_from.simps [simp del]

definition command_args_destroy :: "ptr \<Rightarrow> memory \<Rightarrow> stop + memory" where
  "command_args_destroy p m =
     rbind (free_args_from p 0 m) (\<lambda>m.
     rbind (load_as to_args p m) (\<lambda>args.
     rbind (mem_free (as_args args) m) (\<lambda>m.
     mem_free p m)))"

text \<open>The list at \<open>p\<close> owns its array and one string per argument.\<close>

definition owns_slots :: "memory \<Rightarrow> command_args \<Rightarrow> ptr block \<Rightarrow> ptr list \<Rightarrow> bool" where
  "owns_slots m v b ps \<longleftrightarrow> length b = length (ca_args v) \<and> length b < 2 ^ 61
     \<and> length ps = unat (ca_count v) \<and> take (unat (ca_count v)) b = map Some ps
     \<and> (\<forall>i < length ps. \<exists>s. ca_args v ! i = Some (Some s) \<and> 0 \<notin> set s
         \<and> m_heap m (ps ! i) = Some (Chars (c_block s)))"

definition args_struct :: "command_args \<Rightarrow> ptr \<Rightarrow> command_args_s" where
  "args_struct v q = \<lparr>as_count = ca_count v, as_capacity = ca_capacity v, as_args = q,
     as_length = ca_length v\<rparr>"

lemma args_struct_simps [simp]:
  "as_count (args_struct v q) = ca_count v" "as_capacity (args_struct v q) = ca_capacity v"
  "as_args (args_struct v q) = q" "as_length (args_struct v q) = ca_length v"
  by (simp_all add: args_struct_def)

definition owns_args :: "memory \<Rightarrow> ptr \<Rightarrow> command_args \<Rightarrow> ptr set \<Rightarrow> bool" where
  "owns_args m p v A \<longleftrightarrow> (\<exists>q b ps. A = {p, q} \<union> set ps \<and> q \<noteq> p \<and> distinct (p # q # ps)
     \<and> m_heap m p = Some (Args (args_struct v q)) \<and> m_heap m q = Some (Pointers b)
     \<and> owns_slots m v b ps)"

lemma owns_slots_agree: "owns_slots m v b ps \<Longrightarrow> agree (set ps) m m' \<Longrightarrow> owns_slots m' v b ps"
  by (simp add: owns_slots_def agree_def)

lemma owns_slots_heap:
  "owns_slots m v b ps \<Longrightarrow> r \<in> set ps \<Longrightarrow> \<exists>c. m_heap m r = Some (Chars c)"
  by (fastforce simp: owns_slots_def in_set_conv_nth)

lemma owns_args_dom: "owns_args m p v A \<Longrightarrow> A \<subseteq> dom (m_heap m)"
  by (auto simp: owns_args_def dest: owns_slots_heap)

lemma free_args_from_frees:
  assumes "moves m0 A0 m ({p, q} \<union> set (drop (unat i) ps))" and "distinct (p # q # ps)"
    and "m_heap m p = Some (Args args)" and "as_args args = q" and "m_heap m q = Some (Pointers b)"
    and "unat (as_count args) = length ps" and "take (length ps) b = map Some ps"
    and "\<forall>r \<in> set (drop (unat i) ps). \<exists>c. m_heap m r = Some (Chars c)"
  shows "\<exists>m'. free_args_from p i m = Inr m' \<and> moves m0 A0 m' {p, q} \<and> agree {p, q} m m'"
  using assms
proof (induction "length ps - unat i" arbitrary: i m)
  case 0
  then have "\<not> i < as_count args" by (simp add: size_less_unat)
  with 0 show ?case
    by (simp add: free_args_from.simps [of p i m] load_as_Some to_args_def)
next
  case (Suc n)
  then have i: "unat i < length ps" "i < as_count args" by (simp_all add: size_less_unat)
  then have i1: "unat (i + 1) = Suc (unat i)" by (simp add: size_up_Suc)
  let ?r = "ps ! unat i"
  have d: "drop (unat i) ps = ?r # drop (Suc (unat i)) ps" using i(1) by (simp add: Cons_nth_drop_Suc)
  have "take (length ps) b ! unat i = Some ?r" using Suc.prems(7) i(1) by simp
  moreover have "length ps \<le> length b" using arg_cong [OF Suc.prems(7), of length] by simp
  ultimately have ld: "blk_load b (unat i) = Inr ?r" using i(1) by (simp add: blk_load_def)
  have fresh: "?r \<notin> set (drop (Suc (unat i)) ps)" "?r \<noteq> p" "?r \<noteq> q"
    using Suc.prems(2) i(1) distinct_drop [of ps "unat i"] by (auto simp: d)
  let ?F = "{p, q} \<union> set (drop (Suc (unat i)) ps)"
  obtain c where c: "m_heap m ?r = Some (Chars c)" using Suc.prems(8) d by auto
  have "moves m0 A0 m (insert ?r ?F)" using Suc.prems(1) by (simp add: d insert_commute)
  from chain_realloc [OF this _ c] fresh obtain m1 where m1: "mem_free ?r m = Inr m1"
    "moves m0 A0 m1 ?F" "agree ?F m m1" by auto
  have "\<exists>m'. free_args_from p (i + 1) m1 = Inr m' \<and> moves m0 A0 m' {p, q} \<and> agree {p, q} m1 m'"
    using Suc.prems m1 Suc.hyps(2) by (intro Suc.hyps(1)) (auto simp: i1 agree_def d)
  moreover have "free_args_from p i m = free_args_from p (i + 1) m1"
    using Suc.prems(3-5) i(2) ld m1(1)
    by (simp add: free_args_from.simps [of p i m] load_as_Some to_args_def to_pointers_def)
  moreover have "agree {p, q} m m1" using m1(3) by (auto intro: agree_sub)
  ultimately show ?case by (auto intro: agree_trans)
qed

interpretation args: owner owns_args command_args_destroy
proof
  fix m m' :: memory and p v A
  assume r: "owns_args m p v A"
  show "owns_args m' p v A" if g: "agree A m m'"
  proof -
    obtain q b ps where q: "A = {p, q} \<union> set ps" "q \<noteq> p \<and> distinct (p # q # ps)"
      "m_heap m p = Some (Args (args_struct v q))" "m_heap m q = Some (Pointers b)" "owns_slots m v b ps"
      using r by (auto simp: owns_args_def)
    have "agree (set ps) m m'" "m_heap m' p = m_heap m p" "m_heap m' q = m_heap m q"
      using g q(1) by (simp_all add: agree_def)
    with q owns_slots_agree [OF q(5)] show ?thesis unfolding owns_args_def by metis
  qed
  show A: "A \<subseteq> dom (m_heap m)" by (rule owns_args_dom [OF r])
  assume ok: "mem_ok m"
  obtain q b ps where q: "A = {p, q} \<union> set ps" "q \<noteq> p" "distinct (p # q # ps)"
    "m_heap m p = Some (Args (args_struct v q))" "m_heap m q = Some (Pointers b)" "owns_slots m v b ps"
    using r by (auto simp: owns_args_def)
  have "moves m A m ({p, q} \<union> set (drop (unat 0) ps))" using moves_refl [OF ok A] q(1) by simp
  from free_args_from_frees [OF this q(3) q(4) _ q(5)] q(6) owns_slots_heap [OF q(6)]
  obtain m1 where m1: "free_args_from p 0 m = Inr m1" "moves m A m1 {p, q}" "agree {p, q} m m1"
    by (auto simp: owns_slots_def)
  then have h: "m_heap m1 p = Some (Args (args_struct v q))" "m_heap m1 q = Some (Pointers b)"
    using q by (simp_all add: agree_def)
  have "moves m A m1 (insert q {p})" using m1(2) by (simp add: insert_commute)
  from chain_realloc [OF this _ h(2)] q(2) obtain m2 where m2: "mem_free q m1 = Inr m2"
    "moves m A m2 {p}" "agree {p} m1 m2" by auto
  with chain_realloc [of m A m2 p "{}" "Args (args_struct v q)"] h m1(1)
  show "\<exists>m'. command_args_destroy p m = Inr m' \<and> moves m A m' {}"
    by (auto simp: command_args_destroy_def load_as_Some to_args_def agree_def)
qed

section \<open>The argument list follows its values\<close>

lemma calloc_slots: "phxargs_calloc E z n 8 = Inr b \<Longrightarrow> b = replicate (unat n) (Some z) \<and> length b < 2 ^ 61"
  by (auto simp: phxargs_calloc_def split: if_splits)

text \<open>An allocation of pointers succeeds exactly when one of strings does.\<close>

lemma calloc_any:
  "phxargs_calloc E (z :: 'a) n k = Inl e \<Longrightarrow> phxargs_calloc E (y :: 'b) n k = Inl e"
  "phxargs_calloc E z n k = Inr b \<Longrightarrow> phxargs_calloc E y n k = Inr (replicate (unat n) (Some y))"
  by (auto simp: phxargs_calloc_def split: if_splits)

lemma args_create_builds:
  assumes "mem_ok m"
  shows "builds owns_args m (command_args_create_with_capacity E n) (command_args_create_with_capacity_mem E n m)"
proof (cases "phxargs_malloc E 32 :: stop + byte block")
  case (Inr r)
  show ?thesis
  proof (cases "phxargs_calloc E (None :: cstr option) n 8")
    case (Inl e)
    then show ?thesis
      using \<open>_ = Inr r\<close> calloc_any(1) [OF Inl, of NULL]
      by (auto simp: command_args_create_with_capacity_def command_args_create_with_capacity_mem_def
          split: prod.splits)
  next
    case (Inr b)
    let ?b = "replicate (unat n) (Some NULL)"
    obtain p m1 q m2 where h: "mem_new (Chars r) m = (p, m1)" "mem_new (Pointers ?b) m1 = (q, m2)"
      by (metis prod.exhaust)
    let ?v = "\<lparr>ca_count = 0, ca_capacity = n, ca_args = b, ca_length = 0\<rparr>"
    from chain_new2 [OF assms h, of "Args (args_struct ?v q)"] obtain m3 where m3:
      "mem_store p (Args (args_struct ?v q)) m2 = Inr m3" "moves m {} m3 {p, q}" "q \<noteq> p"
      "m_heap m3 p = Some (Args (args_struct ?v q))" "m_heap m3 q = Some (Pointers ?b)" by auto
    have "owns_slots m3 ?v ?b []"
      using calloc_slots [OF Inr] by (auto simp: owns_slots_def)
    with m3(3-5) have "owns_args m3 p ?v {p, q}"
      unfolding owns_args_def by (intro exI [of _ q] exI [of _ ?b] exI [of _ "[]"]) simp
    then show ?thesis
      using Inr \<open>_ = Inr r\<close> h calloc_any(2) [OF Inr, of NULL] m3(1,2)
      by (auto simp: command_args_create_with_capacity_def command_args_create_with_capacity_mem_def
          args_struct_def)
  qed
qed (simp add: command_args_create_with_capacity_def command_args_create_with_capacity_mem_def)

lemma realloc_any:
  "phxargs_realloc E k (b :: 'a block) n = Inl e \<Longrightarrow> phxargs_realloc E k (c :: 'b block) n = Inl e"
  "phxargs_realloc E 8 b n = Inr b' \<Longrightarrow> length c = length b \<Longrightarrow>
    \<exists>c'. phxargs_realloc E 8 c n = Inr c' \<and> length c' = length b' \<and> length b' < 2 ^ 61
      \<and> (\<forall>k. k \<le> length b \<longrightarrow> k \<le> length b' \<longrightarrow> take k c' = take k c \<and> take k b' = take k b)"
proof -
  have "unat n div 8 < 2 ^ 61" using size_t_bound [of n] by simp
  moreover assume "phxargs_realloc E 8 b n = Inr b'" "length c = length b"
  ultimately show "\<exists>c'. phxargs_realloc E 8 c n = Inr c' \<and> length c' = length b' \<and> length b' < 2 ^ 61
      \<and> (\<forall>k. k \<le> length b \<longrightarrow> k \<le> length b' \<longrightarrow> take k c' = take k c \<and> take k b' = take k b)"
    by (auto simp: phxargs_realloc_def Let_def min_def split: if_splits)
qed (auto simp: phxargs_realloc_def Let_def split: if_splits)

text \<open>
  The state after the reallocation: the first slots are as they were, if there is room for
  one more.
\<close>

definition has_slots :: "memory \<Rightarrow> ptr \<Rightarrow> command_args \<Rightarrow> ptr \<Rightarrow> ptr block \<Rightarrow> ptr list \<Rightarrow> bool" where
  "has_slots m p v q b ps \<longleftrightarrow> q \<noteq> p \<and> distinct (p # q # ps)
     \<and> m_heap m p = Some (Args (args_struct v q)) \<and> m_heap m q = Some (Pointers b)
     \<and> length b = length (ca_args v) \<and> length b < 2 ^ 61
     \<and> (unat (ca_count v) < length b \<longrightarrow> owns_slots m v b ps)"

lemma has_slots_store:
  assumes "moves m0 A0 m ({p, q} \<union> set ps)" and "has_slots m p v q b ps"
  shows "updates owns_args m0 p A0 (rbind (phxargs_strdup E (Some new_arg)) (\<lambda>copy.
       rbind (blk_store (ca_args v) (unat (ca_count v)) copy) (\<lambda>c.
       Inr (v\<lparr>ca_args := c, ca_count := ca_count v + 1,
         ca_length := ca_length v + (strlen new_arg + 1)\<rparr>))))
    (rbind (mem_strdup E (Some new_arg) m) (\<lambda>(copy, m).
     rbind (load_as to_args p m) (\<lambda>args.
     rbind (load_as to_pointers (as_args args) m) (\<lambda>b.
     rbind (blk_store b (unat (as_count args)) copy) (\<lambda>b.
     rbind (mem_store (as_args args) (Pointers b) m) (\<lambda>m.
     mem_store p (Args (args\<lparr>as_count := as_count args + 1,
       as_length := as_length args + (strlen new_arg + 1)\<rparr>)) m))))))"
    (is "updates _ _ _ _ ?v ?h")
proof (cases "phxargs_strdup E (Some new_arg)")
  case (Inl e)
  then show ?thesis by (simp add: mem_strdup_def)
next
  case (Inr copy)
  then obtain t where t: "copy = Some t" "0 \<notin> set t"
    using strdup_Some [of E "Some new_arg"] by (cases copy) (auto simp: phxargs_strdup_def Let_def rbind_Inr_iff)
  obtain r m1 where n: "mem_new (Chars (c_block t)) m = (r, m1)" by fastforce
  let ?A = "{p, q} \<union> set ps" and ?n = "unat (ca_count v)"
  note r = chain_new [OF assms(1) n]
  have hp: "m_heap m1 p = Some (Args (args_struct v q))" "m_heap m1 q = Some (Pointers b)"
    using assms(2) r(5) by (simp_all add: has_slots_def agree_def)
  have lb: "length b = length (ca_args v)" "length b < 2 ^ 61" and d: "distinct (p # q # ps)"
    using assms(2) by (simp_all add: has_slots_def)
  show ?thesis
  proof (cases "?n < length b")
    case False
    then show ?thesis
      using Inr t n hp lb(1) by (simp add: mem_strdup_def load_as_Some to_args_def to_pointers_def blk_store_def)
  next
    case True
    have ok: "mem_ok m1" using r(1) by (simp add: moves_def)
    have ns: "p \<noteq> stdin_ptr" "q \<noteq> stdin_ptr"
      using heap_not_stdin [OF ok hp(1)] heap_not_stdin [OF ok hp(2)] by simp_all
    let ?b = "b[?n := Some r]" and ?B = "insert r ?A"
    let ?v = "v\<lparr>ca_args := (ca_args v)[?n := Some (Some t)], ca_count := ca_count v + 1,
      ca_length := ca_length v + (strlen new_arg + 1)\<rparr>"
    from chain_store [OF r(1) _ ns(2), of "Pointers ?b"] obtain m2 where m2:
      "mem_store q (Pointers ?b) m1 = Inr m2" "moves m0 A0 m2 ?B" "m_heap m2 q = Some (Pointers ?b)"
      "agree (?B - {q}) m1 m2" by auto
    from chain_store [OF m2(2) _ ns(1), of "Args (args_struct ?v q)"] obtain m3 where m3:
      "mem_store p (Args (args_struct ?v q)) m2 = Inr m3" "moves m0 A0 m3 ?B"
      "m_heap m3 p = Some (Args (args_struct ?v q))" "agree (?B - {p}) m2 m3" by auto
    have n1: "unat (ca_count v + 1) = Suc ?n" using True lb(2) by (intro unat_Suc_size) simp
    have s: "owns_slots m v b ps" using assms(2) True by (simp add: has_slots_def)
    have rs: "m_heap m3 r = Some (Chars (c_block t))"
      using r(2,4) m2(4) m3(4) by (auto simp: agree_def)
    have old: "m_heap m3 x = m_heap m x" if "x \<in> set ps" for x
    proof -
      have "x \<noteq> p" "x \<noteq> q" using that d by auto
      then show ?thesis using that r(5) m2(4) m3(4) by (simp add: agree_def)
    qed
    have slots: "\<exists>u. ca_args ?v ! i = Some (Some u) \<and> 0 \<notin> set u
        \<and> m_heap m3 ((ps @ [r]) ! i) = Some (Chars (c_block u))" if "i < length (ps @ [r])" for i
    proof (cases "i < length ps")
      case True
      then obtain u where "ca_args v ! i = Some (Some u)" "0 \<notin> set u"
        "m_heap m (ps ! i) = Some (Chars (c_block u))" using s by (auto simp: owns_slots_def)
      moreover have "i \<noteq> ?n" using True s by (simp add: owns_slots_def)
      ultimately show ?thesis using True old [of "ps ! i"] by (simp add: nth_append)
    next
      case False
      then have "i = ?n" using that s by (simp add: owns_slots_def)
      then show ?thesis using rs t(2) True lb s by (simp add: owns_slots_def nth_append)
    qed
    have "take (Suc ?n) ?b = map Some (ps @ [r])"
      using True s by (intro take_eq_map_Some_snoc) (simp_all add: owns_slots_def)
    then have sl: "owns_slots m3 ?v ?b (ps @ [r])"
      using s lb slots by (simp add: owns_slots_def n1)
    have "distinct (p # q # ps @ [r])" using d r(2) by auto
    moreover have "?B = {p, q} \<union> set (ps @ [r])" by auto
    moreover have "m_heap m3 q = Some (Pointers ?b)" using m2(3) m3(4) d by (auto simp: agree_def)
    ultimately have o: "owns_args m3 p ?v ?B"
      unfolding owns_args_def using m3(3) sl d by (intro exI [of _ q] exI [of _ ?b] exI [of _ "ps @ [r]"]) simp
    have "mem_store p (Args (args_struct ?v q)) m2 = mem_store p (Args ((args_struct v q)\<lparr>as_count := ca_count v + 1,
        as_length := ca_length v + (strlen new_arg + 1)\<rparr>)) m2" by (simp add: args_struct_def)
    then have "?h = Inr m3"
      using Inr t n hp True lb m2(1) m3(1)
      by (simp add: mem_strdup_def load_as_Some to_args_def to_pointers_def blk_store_def)
    then show ?thesis
      using Inr t True lb m3(2) o by (auto simp: blk_store_def)
  qed
qed

lemma command_args_add_updates:
  assumes "mem_ok m" and "owns_args m p v A"
  shows "updates owns_args m p A (command_args_add E v new_arg) (command_args_add_mem E p new_arg m)"
proof -
  obtain q b ps where q: "A = {p, q} \<union> set ps" "q \<noteq> p" "distinct (p # q # ps)"
    "m_heap m p = Some (Args (args_struct v q))" "m_heap m q = Some (Pointers b)" "owns_slots m v b ps"
    using assms(2) by (auto simp: owns_args_def)
  have A: "moves m A m A" by (rule moves_refl [OF assms(1) owns_args_dom [OF assms(2)]])
  show ?thesis
  proof (cases "ca_count v \<ge> ca_capacity v")
    case False
    have "has_slots m p v q b ps" using q by (simp add: has_slots_def owns_slots_def)
    from has_slots_store [OF A [unfolded q(1)] this, of E new_arg] False q show ?thesis
      by (simp add: command_args_add_def reallocate_if_needed_def command_args_add_mem_def
          reallocate_if_needed_mem_def load_as_Some to_args_def)
  next
    case True
    show ?thesis
    proof (cases "phxargs_double_capacity (ca_capacity v)")
      case (Inl e)
      with True q(4) show ?thesis
        by (simp add: command_args_add_def reallocate_if_needed_def command_args_add_mem_def
            reallocate_if_needed_mem_def load_as_Some to_args_def)
    next
      case (Inr k)
      note k = Inr
      show ?thesis
      proof (cases "phxargs_realloc E 8 (ca_args v) (k * 8)")
        case (Inl e)
        with True q(4,5) k realloc_any(1) [OF Inl, of b] show ?thesis
          by (simp add: command_args_add_def reallocate_if_needed_def command_args_add_mem_def
              reallocate_if_needed_mem_def load_as_Some to_args_def to_pointers_def mem_realloc_def)
      next
        case (Inr a)
        have lb: "length b = length (ca_args v)" using q(6) by (simp add: owns_slots_def)
        from realloc_any(2) [OF Inr lb] obtain c where c: "phxargs_realloc E 8 b (k * 8) = Inr c"
          "length c = length a" "length a < 2 ^ 61"
          "\<And>j. j \<le> length (ca_args v) \<Longrightarrow> j \<le> length a \<Longrightarrow> take j c = take j b \<and> take j a = take j (ca_args v)"
          by auto
        have "moves m A m (insert q ({p} \<union> set ps))" using A q(1) by (simp add: insert_commute)
        from chain_realloc [OF this _ q(5)] q(3) obtain m1 where m1: "mem_free q m = Inr m1"
          "moves m A m1 ({p} \<union> set ps)" "agree ({p} \<union> set ps) m m1" by auto
        obtain r m2 where n: "mem_new (Pointers c) m1 = (r, m2)" by fastforce
        note r = chain_new [OF m1(2) n]
        have hp: "m_heap m2 p = Some (Args (args_struct v q))" using q(4) m1(3) r(5) by (simp add: agree_def)
        let ?v = "v\<lparr>ca_capacity := k, ca_args := a\<rparr>"
        have "p \<noteq> stdin_ptr" using heap_not_stdin [OF moves_ok(1) [OF r(1)] hp] by simp
        from chain_store [OF r(1) _ this, of "Args (args_struct ?v r)"] obtain m3 where m3:
          "mem_store p (Args (args_struct ?v r)) m2 = Inr m3" "moves m A m3 (insert r ({p} \<union> set ps))"
          "m_heap m3 p = Some (Args (args_struct ?v r))"
          "agree (insert r ({p} \<union> set ps) - {p}) m2 m3" by auto
        have d: "distinct (p # r # ps)" "r \<noteq> p" using q(3) r(2) by auto
        have old: "m_heap m3 x = m_heap m x" if "x \<in> set ps" for x
        proof -
          have "x \<noteq> p" using that q(3) by auto
          then show ?thesis using that m1(3) r(5) m3(4) by (simp add: agree_def)
        qed
        have "owns_slots m3 ?v c ps" if "unat (ca_count v) < length c"
        proof -
          have "length (take (unat (ca_count v)) b) = unat (ca_count v)"
            using q(6) by (simp only: owns_slots_def length_map)
          then have j: "unat (ca_count v) \<le> length (ca_args v)" using lb by simp
          note t = c(4) [OF j] that c(2)
          have "a ! i = ca_args v ! i" if "i < unat (ca_count v)" for i
            using t that by (metis less_imp_le nth_take)
          then show ?thesis
            using q(6) c(2,3) t old by (auto simp: owns_slots_def)
        qed
        then have "has_slots m3 p ?v r c ps"
          using d m3(3,4) r(4) c(2,3) by (simp add: has_slots_def agree_def)
        moreover have "moves m A m3 ({p, r} \<union> set ps)" using m3(2) by (simp add: insert_commute)
        moreover have e: "(args_struct v q)\<lparr>as_capacity := k, as_args := r\<rparr> = args_struct ?v r"
          by (simp add: args_struct_def)
        ultimately show ?thesis
          using has_slots_store [of m A m3 p r ps ?v c E new_arg] True q(4,5) k Inr c(1) m1(1) n m3(1)
          by (simp add: command_args_add_def reallocate_if_needed_def command_args_add_mem_def
              reallocate_if_needed_mem_def load_as_Some to_args_def to_pointers_def mem_realloc_def
              e)
      qed
    qed
  qed
qed

text \<open>Reading an argument: the address of a string that holds the value.\<close>

lemma command_args_at_reads:
  assumes "owns_args m p v A" and "unat i < unat (ca_count v)"
  shows "\<exists>r s. command_args_at_mem p i m = Inr r \<and> command_args_at v i = Inr (Some s)
    \<and> read_string r m = Inr s"
proof -
  obtain q b ps where q: "m_heap m p = Some (Args (args_struct v q))" "m_heap m q = Some (Pointers b)"
    "owns_slots m v b ps"
    using assms(1) by (auto simp: owns_args_def)
  then have i: "unat i < length ps" "take (length ps) b = map Some ps" using assms(2)
    by (simp_all add: owns_slots_def)
  then obtain s where s: "ca_args v ! unat i = Some (Some s)" "0 \<notin> set s"
    "m_heap m (ps ! unat i) = Some (Chars (c_block s))" using q(3) by (auto simp: owns_slots_def)
  have "length ps \<le> length b" using arg_cong [OF i(2), of length] by simp
  moreover have "b ! unat i = Some (ps ! unat i)" using i by (metis nth_map nth_take)
  ultimately have "blk_load b (unat i) = Inr (ps ! unat i)" "blk_load (ca_args v) (unat i) = Inr (Some s)"
    using i(1) s(1) q(3) by (simp_all add: blk_load_def owns_slots_def)
  then show ?thesis
    using q(1,2) read_string_block [OF s(2,3)]
    by (simp add: command_args_at_mem_def command_args_at_def load_as_Some to_args_def to_pointers_def)
qed

end
