(* ===== verification/Memory_Tokenizer.thy ===== *)
theory Memory_Tokenizer
  imports Memory_Arrays
begin

text \<open>
  The tokenizers in memory (\<^verbatim>\<open>src/tokenizer.c\<close>, \<^verbatim>\<open>src/space_tokenizer.c\<close>,
  \<^verbatim>\<open>src/delim_tokenizer.c\<close>): two structures that point at each other, a buffer, and a command
  that is only borrowed for the callback. Destroying goes through the table of operations.
\<close>

section \<open>The code\<close>

definition buffer_reset_mem :: "ptr \<Rightarrow> memory \<Rightarrow> stop + memory" where
  "buffer_reset_mem p m =
     rbind (load_as to_buffer p m) (\<lambda>buf. mem_store p (Buffer (buf\<lparr>bs_pos := 0\<rparr>)) m)"

definition tokenizer_create_mem :: "platform \<Rightarrow> tokenizer_ops \<Rightarrow> size_t \<Rightarrow> ptr \<Rightarrow> memory
    \<Rightarrow> stop + ptr \<times> memory" where
  "tokenizer_create_mem E ops buffer_size impl m =
     rbind (mem_malloc E 32 m) (\<lambda>(t, m).
     rbind (buffer_create_mem E buffer_size m) (\<lambda>(b, m).
     rbind (mem_store t (Tokenizer \<lparr>ts_ops = ops, ts_buf = b, ts_impl = impl,
       ts_err = TOKENIZER_ERR_NONE\<rparr>) m) (\<lambda>m.
     Inr (t, m))))"

definition tokenizer_impl :: "ptr \<Rightarrow> memory \<Rightarrow> stop + ptr" where
  "tokenizer_impl t m = rbind (load_as to_tokenizer t m) (\<lambda>tk. Inr (ts_impl tk))"

definition tokenizer_add_mem :: "platform \<Rightarrow> ptr \<Rightarrow> byte \<Rightarrow> memory \<Rightarrow> stop + memory" where
  "tokenizer_add_mem E t ch m =
     rbind (load_as to_tokenizer t m) (\<lambda>tk. buffer_put_mem E (ts_buf tk) ch m)"

definition tokenizer_reset_mem :: "ptr \<Rightarrow> memory \<Rightarrow> stop + memory" where
  "tokenizer_reset_mem t m =
     rbind (load_as to_tokenizer t m) (\<lambda>tk. buffer_reset_mem (ts_buf tk) m)"

definition space_tokenizer_destroy_impl :: "ptr \<Rightarrow> memory \<Rightarrow> stop + memory" where
  "space_tokenizer_destroy_impl impl m =
     rbind (load_as to_space impl m) (\<lambda>t.
     rbind (mem_free (ss_logical_end_of_input_marker t) m) (\<lambda>m.
     mem_free impl m))"

definition delim_tokenizer_destroy_impl :: "ptr \<Rightarrow> memory \<Rightarrow> stop + memory" where
  "delim_tokenizer_destroy_impl impl m = mem_free impl m"

text \<open>The entry \<open>destroy_impl\<close> of the two tables.\<close>

definition tokenizer_destroy_impl :: "tokenizer_ops \<Rightarrow> ptr \<Rightarrow> memory \<Rightarrow> stop + memory" where
  "tokenizer_destroy_impl ops = (case ops of
     space_tokenizer_ops \<Rightarrow> space_tokenizer_destroy_impl
   | delim_tokenizer_ops \<Rightarrow> delim_tokenizer_destroy_impl)"

definition tokenizer_destroy :: "ptr \<Rightarrow> memory \<Rightarrow> stop + memory" where
  "tokenizer_destroy t m =
     rbind (load_as to_tokenizer t m) (\<lambda>tk.
     rbind (tokenizer_destroy_impl (ts_ops tk) (ts_impl tk) m) (\<lambda>m.
     rbind (buffer_destroy (ts_buf tk) m) (\<lambda>m.
     mem_free t m)))"

text \<open>Assignments to fields of the structure at \<open>t\<close>.\<close>

definition set_space :: "ptr \<Rightarrow> (space_tokenizer_s \<Rightarrow> space_tokenizer_s) \<Rightarrow> memory \<Rightarrow> stop + memory" where
  "set_space t f m = rbind (load_as to_space t m) (\<lambda>s. mem_store t (Space_tokenizer (f s)) m)"

definition space_tokenizer_no_token_mem :: "ptr \<Rightarrow> memory \<Rightarrow> stop + memory" where
  "space_tokenizer_no_token_mem t m =
     rbind (load_as to_space t m) (\<lambda>s.
     rbind (tokenizer_reset_mem (ss_base s) m) (\<lambda>m.
     set_space t (\<lambda>s. s\<lparr>ss_state := NO_TOKEN, ss_quote_char := 0, ss_token_start := 0\<rparr>) m))"

text \<open>\<open>ctx\<close> is the context of the callback \<open>increment_line_count\<close>.\<close>

definition space_tokenizer_create_mem :: "platform \<Rightarrow> size_t \<Rightarrow> cstr option \<Rightarrow> ptr \<Rightarrow> memory
    \<Rightarrow> stop + ptr \<times> memory" where
  "space_tokenizer_create_mem E buffer_size logical_end_of_input_marker ctx m =
     rbind (mem_malloc E 48 m) (\<lambda>(t, m).
     rbind (mem_strdup E logical_end_of_input_marker m) (\<lambda>(e, m).
     rbind (tokenizer_create_mem E space_tokenizer_ops buffer_size t m) (\<lambda>(b, m).
     rbind (mem_store t (Space_tokenizer \<lparr>ss_base = b, ss_state = NO_TOKEN, ss_quote_char = 0,
       ss_token_start = 0, ss_logical_end_of_input_marker = e, ss_on_input_boundary_ctx = ctx\<rparr>) m) (\<lambda>m.
     rbind (space_tokenizer_no_token_mem t m) (\<lambda>m.
     Inr (t, m))))))"

definition space_tokenizer_as_tokenizer :: "ptr \<Rightarrow> memory \<Rightarrow> stop + ptr" where
  "space_tokenizer_as_tokenizer p m = rbind (load_as to_space p m) (\<lambda>t. Inr (ss_base t))"

definition space_tokenizer_destroy :: "ptr \<Rightarrow> memory \<Rightarrow> stop + memory" where
  "space_tokenizer_destroy p m =
     rbind (load_as to_space p m) (\<lambda>t. tokenizer_destroy (ss_base t) m)"

definition delim_tokenizer_create_mem :: "platform \<Rightarrow> size_t \<Rightarrow> byte \<Rightarrow> ptr \<Rightarrow> memory
    \<Rightarrow> stop + ptr \<times> memory" where
  "delim_tokenizer_create_mem E buffer_size arg_delimiter ctx m =
     rbind (mem_malloc E 40 m) (\<lambda>(t, m).
     rbind (tokenizer_create_mem E delim_tokenizer_ops buffer_size t m) (\<lambda>(b, m).
     rbind (mem_store t (Delim_tokenizer \<lparr>ds_base = b, ds_token_start = 0, ds_delim = arg_delimiter,
       ds_on_input_boundary_ctx = ctx\<rparr>) m) (\<lambda>m.
     Inr (t, m))))"

definition delim_tokenizer_as_tokenizer :: "ptr \<Rightarrow> memory \<Rightarrow> stop + ptr" where
  "delim_tokenizer_as_tokenizer p m = rbind (load_as to_delim p m) (\<lambda>t. Inr (ds_base t))"

definition delim_tokenizer_destroy :: "ptr \<Rightarrow> memory \<Rightarrow> stop + memory" where
  "delim_tokenizer_destroy p m =
     rbind (load_as to_delim p m) (\<lambda>t. tokenizer_destroy (ds_base t) m)"

section \<open>What a tokenizer owns\<close>

text \<open>
  At \<open>p\<close> the shared structure, at \<open>r\<close> the implementation with its string at \<open>e\<close>, at \<open>q\<close> the
  buffer. The context \<open>ctx\<close> is not owned.
\<close>

definition tokenizer_struct :: "toker \<Rightarrow> ptr \<Rightarrow> ptr \<Rightarrow> tokenizer_s" where
  "tokenizer_struct k q r = (case k of
     Space s \<Rightarrow> \<lparr>ts_ops = space_tokenizer_ops, ts_buf = q, ts_impl = r, ts_err = tk_err (st_base s)\<rparr>
   | Delim d \<Rightarrow> \<lparr>ts_ops = delim_tokenizer_ops, ts_buf = q, ts_impl = r, ts_err = tk_err (dt_base d)\<rparr>)"

definition impl_object :: "toker \<Rightarrow> ptr \<Rightarrow> ptr \<Rightarrow> ptr \<Rightarrow> object" where
  "impl_object k p e ctx = (case k of
     Space s \<Rightarrow> Space_tokenizer \<lparr>ss_base = p, ss_state = st_state s, ss_quote_char = st_quote_char s,
       ss_token_start = st_token_start s, ss_logical_end_of_input_marker = e,
       ss_on_input_boundary_ctx = ctx\<rparr>
   | Delim d \<Rightarrow> Delim_tokenizer \<lparr>ds_base = p, ds_token_start = dt_token_start d, ds_delim = dt_delim d,
       ds_on_input_boundary_ctx = ctx\<rparr>)"

definition toker_buffer :: "toker \<Rightarrow> buffer" where
  "toker_buffer k = (case k of Space s \<Rightarrow> tk_buf (st_base s) | Delim d \<Rightarrow> tk_buf (dt_base d))"

definition toker_marker :: "toker \<Rightarrow> cstr option" where
  "toker_marker k = (case k of Space s \<Rightarrow> st_logical_end_of_input_marker s | Delim d \<Rightarrow> None)"

definition toker_at :: "ptr \<Rightarrow> ptr \<Rightarrow> memory \<Rightarrow> ptr \<Rightarrow> toker \<Rightarrow> ptr set \<Rightarrow> bool" where
  "toker_at r ctx m p k A \<longleftrightarrow> (\<exists>q e B S. A = {p, r} \<union> B \<union> S \<and> p \<noteq> r \<and> {p, r} \<inter> (B \<union> S) = {}
     \<and> B \<inter> S = {} \<and> m_heap m p = Some (Tokenizer (tokenizer_struct k q r))
     \<and> m_heap m r = Some (impl_object k p e ctx)
     \<and> owns_buffer m q (toker_buffer k) B \<and> owns_string m e (toker_marker k) S)"

definition owns_toker :: "ptr \<Rightarrow> memory \<Rightarrow> ptr \<Rightarrow> toker \<Rightarrow> ptr set \<Rightarrow> bool" where
  "owns_toker ctx m p k A \<longleftrightarrow> (\<exists>r. toker_at r ctx m p k A)"

lemma to_tokenizer_simp [simp]: "to_tokenizer (Tokenizer s) = Inr s"
  by (simp add: to_tokenizer_def)

lemma tokenizer_struct_simps [simp]:
  "ts_buf (tokenizer_struct k q r) = q" "ts_impl (tokenizer_struct k q r) = r"
  "ts_ops (tokenizer_struct (Space s) q r) = space_tokenizer_ops"
  "ts_ops (tokenizer_struct (Delim d) q r) = delim_tokenizer_ops"
  by (simp_all add: tokenizer_struct_def split: toker.split)

text \<open>The two implementations are released through their tables.\<close>

lemma destroy_impl_releases:
  assumes "moves m0 A0 m (insert r S \<union> F)" and "insert r S \<inter> F = {}" and "r \<notin> S"
    and "m_heap m r = Some (impl_object k p e ctx)" and "owns_string m e (toker_marker k) S"
  shows "\<exists>m'. tokenizer_destroy_impl (ts_ops (tokenizer_struct k q r)) r m = Inr m'
    \<and> moves m0 A0 m' F \<and> agree F m m'"
proof (cases k)
  case (Space s)
  have "moves m0 A0 m (S \<union> insert r F)" "S \<inter> insert r F = {}" using assms(1-3) by auto
  from string.chain_release [OF this assms(5)] obtain m1 where m1: "mem_free e m = Inr m1"
    "moves m0 A0 m1 (insert r F)" "agree (insert r F) m m1" by blast
  then have r: "m_heap m1 r = Some (impl_object k p e ctx)" using assms(4) by (simp add: agree_def)
  from chain_realloc [OF m1(2) _ r] assms(2) Space obtain m2 where
    "mem_free r m1 = Inr m2" "moves m0 A0 m2 F" "agree F m1 m2" by (auto simp: impl_object_def)
  with m1 assms(4) Space show ?thesis
    by (auto simp: tokenizer_destroy_impl_def space_tokenizer_destroy_impl_def load_as_Some impl_object_def
        to_space_def agree_def)
next
  case (Delim d)
  then have "S = {}" using assms(5) by (simp add: owns_string_def toker_marker_def)
  then have "moves m0 A0 m (insert r F)" "r \<notin> F" using assms(1,2) by auto
  from chain_realloc [OF this assms(4)] Delim show ?thesis
    by (auto simp: tokenizer_destroy_impl_def delim_tokenizer_destroy_impl_def impl_object_def)
qed

lemma toker_atE:
  assumes "toker_at r ctx m p k A"
  obtains q e B S where "A = {p, r} \<union> B \<union> S" "p \<noteq> r" "{p, r} \<inter> (B \<union> S) = {}" "B \<inter> S = {}"
    "m_heap m p = Some (Tokenizer (tokenizer_struct k q r))"
    "m_heap m r = Some (impl_object k p e ctx)"
    "owns_buffer m q (toker_buffer k) B" "owns_string m e (toker_marker k) S"
  using assms unfolding toker_at_def by blast

lemma toker_atI:
  assumes "A = {p, r} \<union> B \<union> S" "p \<noteq> r" "{p, r} \<inter> (B \<union> S) = {}" "B \<inter> S = {}"
    "m_heap m p = Some (Tokenizer (tokenizer_struct k q r))"
    "m_heap m r = Some (impl_object k p e ctx)"
    "owns_buffer m q (toker_buffer k) B" "owns_string m e (toker_marker k) S"
  shows "toker_at r ctx m p k A"
  using assms unfolding toker_at_def by blast

lemma owns_tokerE:
  assumes "owns_toker ctx m p k A"
  obtains q r e B S where "A = {p, r} \<union> B \<union> S" "p \<noteq> r" "{p, r} \<inter> (B \<union> S) = {}" "B \<inter> S = {}"
    "m_heap m p = Some (Tokenizer (tokenizer_struct k q r))"
    "m_heap m r = Some (impl_object k p e ctx)"
    "owns_buffer m q (toker_buffer k) B" "owns_string m e (toker_marker k) S"
  using assms unfolding owns_toker_def toker_at_def by blast

lemma owns_tokerI:
  assumes "A = {p, r} \<union> B \<union> S" "p \<noteq> r" "{p, r} \<inter> (B \<union> S) = {}" "B \<inter> S = {}"
    "m_heap m p = Some (Tokenizer (tokenizer_struct k q r))"
    "m_heap m r = Some (impl_object k p e ctx)"
    "owns_buffer m q (toker_buffer k) B" "owns_string m e (toker_marker k) S"
  shows "owns_toker ctx m p k A"
  using toker_atI [OF assms] by (auto simp: owns_toker_def)

lemma toker_at_agree:
  assumes "toker_at r ctx m p k A" and g: "agree A m m'"
  shows "toker_at r ctx m' p k A"
proof -
  obtain q e B S where t: "A = {p, r} \<union> B \<union> S" "p \<noteq> r" "{p, r} \<inter> (B \<union> S) = {}" "B \<inter> S = {}"
    "m_heap m p = Some (Tokenizer (tokenizer_struct k q r))" "m_heap m r = Some (impl_object k p e ctx)"
    "owns_buffer m q (toker_buffer k) B" "owns_string m e (toker_marker k) S" using assms(1) by (rule toker_atE)
  show ?thesis
  proof (rule toker_atI [OF t(1-4)])
    show "m_heap m' p = Some (Tokenizer (tokenizer_struct k q r))" "m_heap m' r = Some (impl_object k p e ctx)"
      using g t(1,5,6) by (simp_all add: agree_def)
    show "owns_buffer m' q (toker_buffer k) B" by (rule buf.kept [OF t(7) g]) (use t(1) in auto)
    show "owns_string m' e (toker_marker k) S" by (rule string.kept [OF t(8) g]) (use t(1) in auto)
  qed
qed

interpretation toker: owner "owns_toker ctx" tokenizer_destroy
proof
  fix m m' :: memory and p k A
  assume t: "owns_toker ctx m p k A"
  then show "owns_toker ctx m' p k A" if g: "agree A m m'"
    using that by (auto simp: owns_toker_def intro: toker_at_agree)
  from t obtain q r e B S where t: "A = {p, r} \<union> B \<union> S" "p \<noteq> r" "{p, r} \<inter> (B \<union> S) = {}" "B \<inter> S = {}"
    "m_heap m p = Some (Tokenizer (tokenizer_struct k q r))"
    "m_heap m r = Some (impl_object k p e ctx)"
    "owns_buffer m q (toker_buffer k) B" "owns_string m e (toker_marker k) S" by (rule owns_tokerE)
  show A: "A \<subseteq> dom (m_heap m)"
    using t buf.allocated [OF t(7)] string.allocated [OF t(8)] by auto
  assume ok: "mem_ok m"
  let ?F = "insert p B"
  have "moves m A m (insert r S \<union> ?F)" "insert r S \<inter> ?F = {}" "r \<notin> S"
    using moves_refl [OF ok A] t(1-4) by (auto simp: insert_commute Un_commute)
  from destroy_impl_releases [OF this t(6,8), of q] obtain m1 where m1:
    "tokenizer_destroy_impl (ts_ops (tokenizer_struct k q r)) r m = Inr m1" "moves m A m1 ?F"
    "agree ?F m m1" by blast
  have b: "owns_buffer m1 q (toker_buffer k) B" by (rule buf.kept [OF t(7) m1(3)]) auto
  have "moves m A m1 (B \<union> {p})" "B \<inter> {p} = {}" using m1(2) t(3) by auto
  from buf.chain_release [OF this b] obtain m2 where m2: "buffer_destroy q m1 = Inr m2"
    "moves m A m2 {p}" "agree {p} m1 m2" by blast
  have "m_heap m2 p = Some (Tokenizer (tokenizer_struct k q r))"
    using t(5) m1(3) m2(3) by (simp add: agree_def)
  with chain_realloc [of m A m2 p "{}"] m2(2) obtain m3 where "mem_free p m2 = Inr m3" "moves m A m3 {}"
    by auto
  with m1(1) m2(1) t(5) show "\<exists>m'. tokenizer_destroy p m = Inr m' \<and> moves m A m' {}"
    by (simp add: tokenizer_destroy_def load_as_Some)
qed

text \<open>
  The casts of the two \<open>next_token\<close> functions: the implementation behind the table is of their type.
\<close>

lemma tokenizer_impl_typed:
  assumes "owns_toker ctx m p k A"
  shows "\<exists>r. tokenizer_impl p m = Inr r \<and> (case k of Space _ \<Rightarrow> \<exists>t. load_as to_space r m = Inr t \<and> ss_base t = p
    | Delim _ \<Rightarrow> \<exists>t. load_as to_delim r m = Inr t \<and> ds_base t = p)"
  using assms by (auto elim!: owns_tokerE simp: tokenizer_impl_def load_as_Some impl_object_def to_space_def
      to_delim_def split: toker.split)

text \<open>Destroying through the implementation is the same.\<close>

lemma destroy_by_implementation:
  "owns_toker ctx m p k A \<Longrightarrow> m_heap m r = Some (impl_object k p e ctx) \<Longrightarrow>
   (case k of Space _ \<Rightarrow> space_tokenizer_destroy r m | Delim _ \<Rightarrow> delim_tokenizer_destroy r m)
     = tokenizer_destroy p m"
  by (cases k) (simp_all add: space_tokenizer_destroy_def delim_tokenizer_destroy_def load_as_Some
      impl_object_def to_space_def to_delim_def)


section \<open>The tokenizers follow their values\<close>

lemma tokenizer_create_follows:
  assumes "moves m0 A0 m F"
  shows "follows (\<lambda>tk (p, m'). \<exists>q B. moves m0 A0 m' (insert p (B \<union> F)) \<and> p \<notin> B \<union> F \<and> B \<inter> F = {}
      \<and> p \<noteq> stdin_ptr \<and> agree F m m' \<and> owns_buffer m' q (tk_buf tk) B
      \<and> m_heap m' p = Some (Tokenizer \<lparr>ts_ops = ops, ts_buf = q, ts_impl = impl, ts_err = tk_err tk\<rparr>))
    (tokenizer_create E sz) (tokenizer_create_mem E ops sz impl m)" (is "follows ?R _ _")
  unfolding tokenizer_create_def tokenizer_create_mem_def
proof (rule follows_bind [OF chain_malloc [OF assms]], clarify)
  fix p m1
  assume 1: "moves m0 A0 m1 (insert p F)" "p \<notin> F" "p \<noteq> stdin_ptr" "agree F m m1"
  show "follows ?R (rbind (buffer_create E sz) (\<lambda>b. Inr \<lparr>tk_buf = b, tk_err = TOKENIZER_ERR_NONE\<rparr>))
    (rbind (buffer_create_mem E sz m1) (\<lambda>(b, m). rbind (mem_store p (Tokenizer \<lparr>ts_ops = ops,
      ts_buf = b, ts_impl = impl, ts_err = TOKENIZER_ERR_NONE\<rparr>) m) (\<lambda>m. Inr (p, m))))"
  proof (rule follows_bind [OF chain_builds [OF 1(1) buffer_create_builds]], simp, clarify)
    fix b q m2
    assume "placed owns_buffer m0 A0 m1 (insert p F) q b m2"
    then obtain B where B: "moves m0 A0 m2 (B \<union> insert p F)" "B \<inter> insert p F = {}"
      "agree (insert p F) m1 m2" "owns_buffer m2 q b B" by (rule placedE)
    let ?o = "Tokenizer \<lparr>ts_ops = ops, ts_buf = q, ts_impl = impl, ts_err = TOKENIZER_ERR_NONE\<rparr>"
    obtain m3 where m3: "mem_store p ?o m2 = Inr m3" "moves m0 A0 m3 (B \<union> insert p F)"
      "m_heap m3 p = Some ?o" "agree (B \<union> insert p F - {p}) m2 m3"
      by (rule chain_fill [OF B(1) _ 1(3)]) auto
    have "owns_buffer m3 q b B" by (rule buf.kept [OF B(4) m3(4)]) (use B(2) in auto)
    moreover have "agree F m m3"
      by (rule agree_step [OF agree_step [OF 1(4) B(3)] m3(4)]) (use 1(2) in auto)
    ultimately show "follows ?R (Inr \<lparr>tk_buf = b, tk_err = TOKENIZER_ERR_NONE\<rparr>)
        (rbind (mem_store p ?o m2) (\<lambda>m. Inr (p, m)))"
      using m3 B 1(2,3) by auto
  qed
qed

lemma buffer_store:
  assumes "moves m0 A0 m X" and "X = A \<union> F" and "A \<inter> F = {}" and "owns_buffer m p b A"
    and "m_heap m p = Some (Buffer s)"
  obtains m' where "mem_store p (Buffer (s\<lparr>bs_sz := n, bs_pos := i\<rparr>)) m = Inr m'" "moves m0 A0 m' X" "agree F m m'"
    "owns_buffer m' p (b\<lparr>bf_sz := n, bf_pos := i\<rparr>) A"
proof -
  obtain q where q: "q \<noteq> p" "A = {p, q}"
    "m_heap m p = Some (Buffer \<lparr>bs_buf = q, bs_sz = bf_sz b, bs_pos = bf_pos b\<rparr>)"
    "m_heap m q = Some (Chars (bf_buf b))"
    using assms(4) by (auto simp: owns_buffer_def)
  have "p \<noteq> stdin_ptr" using heap_not_stdin [OF moves_ok(1) [OF assms(1)] q(3)] by simp
  moreover have "p \<in> X" using assms(2) q(2) by simp
  ultimately obtain m' where m': "mem_store p (Buffer (s\<lparr>bs_sz := n, bs_pos := i\<rparr>)) m = Inr m'"
    "moves m0 A0 m' X" "m_heap m' p = Some (Buffer (s\<lparr>bs_sz := n, bs_pos := i\<rparr>))"
    "agree (X - {p}) m m'" using chain_fill [OF assms(1)] by metis
  show ?thesis
  proof (rule that [OF m'(1,2)])
    show "agree F m m'" by (rule agree_sub [OF m'(4)]) (use assms(2,3) q(2) in auto)
    show "owns_buffer m' p (b\<lparr>bf_sz := n, bf_pos := i\<rparr>) A"
      using q assms(5) m'(3,4) assms(2) by (auto simp: owns_buffer_def agree_def)
  qed
qed

lemma buffer_reset_follows:
  assumes "moves m0 A0 m X" and "X = A \<union> F" and "A \<inter> F = {}" and "owns_buffer m p b A"
  obtains m' where "buffer_reset_mem p m = Inr m'" "moves m0 A0 m' X" "agree F m m'"
    "owns_buffer m' p (buffer_reset b) A"
proof -
  obtain s where s: "m_heap m p = Some (Buffer s)" "bs_sz s = bf_sz b"
    using assms(4) by (auto simp: owns_buffer_def)
  obtain m' where m': "mem_store p (Buffer (s\<lparr>bs_sz := bf_sz b, bs_pos := 0\<rparr>)) m = Inr m'" "moves m0 A0 m' X"
    "agree F m m'" "owns_buffer m' p (b\<lparr>bf_sz := bf_sz b, bf_pos := 0\<rparr>) A"
    by (rule buffer_store [OF assms s(1)])
  moreover have "s\<lparr>bs_sz := bf_sz b, bs_pos := 0\<rparr> = s\<lparr>bs_pos := 0\<rparr>" using s(2) by simp
  moreover have "b\<lparr>bf_sz := bf_sz b, bf_pos := 0\<rparr> = buffer_reset b" by (simp add: buffer_reset_def)
  ultimately show ?thesis
    using s(1) by (intro that [of m']) (simp_all add: buffer_reset_mem_def load_as_Some to_buffer_def)
qed

text \<open>The constructor and \<open>as_tokenizer\<close>, as the mode calls them.\<close>

abbreviation new_space :: "tokenizer \<Rightarrow> cstr option \<Rightarrow> space_tokenizer" where
  "new_space b k \<equiv> space_tokenizer_no_token \<lparr>st_base = b, st_state = NO_TOKEN,
     st_quote_char = 0, st_token_start = 0, st_logical_end_of_input_marker = k\<rparr>"

abbreviation new_space_object :: "ptr \<Rightarrow> ptr \<Rightarrow> ptr \<Rightarrow> object" where
  "new_space_object t e ctx \<equiv> Space_tokenizer \<lparr>ss_base = t, ss_state = NO_TOKEN, ss_quote_char = 0,
     ss_token_start = 0, ss_logical_end_of_input_marker = e, ss_on_input_boundary_ctx = ctx\<rparr>"

lemma space_create_finish:
  assumes 3: "moves m {} m3 (insert t (B \<union> (S \<union> {r})))" "t \<notin> B \<union> (S \<union> {r})" "B \<inter> (S \<union> {r}) = {}"
      "owns_buffer m3 q (tk_buf b) B"
      "m_heap m3 t = Some (Tokenizer \<lparr>ts_ops = space_tokenizer_ops, ts_buf = q, ts_impl = r, ts_err = tk_err b\<rparr>)"
    and r: "r \<notin> S" "r \<noteq> stdin_ptr" and e: "owns_string m3 e k S"
  shows "\<exists>m4 m6 A. mem_store r (new_space_object t e ctx) m3 = Inr m4
    \<and> space_tokenizer_no_token_mem r m4 = Inr m6 \<and> space_tokenizer_as_tokenizer r m6 = Inr t
    \<and> moves m {} m6 A \<and> owns_toker ctx m6 t (Space (new_space b k)) A"
proof -
  let ?s = "new_space_object t e ctx" and ?X = "insert t (B \<union> (S \<union> {r}))"
  obtain m4 where m4: "mem_store r ?s m3 = Inr m4" "moves m {} m4 ?X" "m_heap m4 r = Some ?s"
    "agree (?X - {r}) m3 m4" by (rule chain_fill [OF 3(1) _ r(2)]) auto
  have b: "owns_buffer m4 q (tk_buf b) B" by (rule buf.kept [OF 3(4) m4(4)]) (use 3 in auto)
  obtain m5 where m5: "buffer_reset_mem q m4 = Inr m5" "moves m {} m5 ?X"
    "agree ({t, r} \<union> S) m4 m5" "owns_buffer m5 q (buffer_reset (tk_buf b)) B"
    by (rule buffer_reset_follows [OF m4(2) _ _ b, where F = "{t, r} \<union> S"]) (use 3(2,3) in auto)
  have t: "m_heap m4 t = m_heap m3 t" using 3(2) m4(4) by (auto simp: agree_def)
  have r5: "m_heap m5 r = Some ?s" using m4(3) m5(3) by (simp add: agree_def)
  obtain m6 where m6: "mem_store r ?s m5 = Inr m6" "moves m {} m6 ?X" "m_heap m6 r = Some ?s"
    "agree (?X - {r}) m5 m6" by (rule chain_fill [OF m5(2) _ r(2)]) auto
  have g: "agree (insert t S) m3 m6"
    by (rule agree_step [OF agree_step [OF agree_sub [OF m4(4)] m5(3)] m6(4)]) (use 3(2) r in auto)
  have "owns_string m6 e k S" by (rule string.kept [OF e g]) auto
  moreover have "owns_buffer m6 q (buffer_reset (tk_buf b)) B"
    by (rule buf.kept [OF m5(4) m6(4)]) (use 3(2,3) in auto)
  ultimately have "owns_toker ctx m6 t (Space (new_space b k)) ?X"
    using 3(2,3,5) r m6(3) agree_heap [OF g, of t]
    by (intro owns_tokerI [where r = r and B = B and S = S and q = q and e = e])
      (auto simp: tokenizer_struct_def impl_object_def toker_buffer_def toker_marker_def
        space_tokenizer_no_token_def tokenizer_reset_def)
  then show ?thesis
    using m4(1,3) m5(1) m6(1-3) 3(5) t r5
    by (auto simp: space_tokenizer_no_token_mem_def set_space_def tokenizer_reset_mem_def load_as_Some to_space_def
        space_tokenizer_as_tokenizer_def)
qed

lemma space_create_builds:
  assumes "mem_ok m"
  shows "builds (owns_toker ctx) m
    (rbind (space_tokenizer_create E sz marker) (\<lambda>s. Inr (Space s)))
    (rbind (space_tokenizer_create_mem E sz marker ctx m) (\<lambda>(t, m).
     rbind (space_tokenizer_as_tokenizer t m) (\<lambda>p. Inr (p, m))))"
proof -
  have m0: "moves m {} m {}" using assms by (simp add: moves_refl)
  show ?thesis
    unfolding builds_follows space_tokenizer_create_def space_tokenizer_create_mem_def rbind_assoc rbind_prod
    apply (rule follows_bind2 [OF chain_malloc [OF m0]], unfold prod.case, elim conjE)
    apply (rule follows_bind2 [OF chain_builds [OF _ strdup_builds]], assumption, assumption, unfold prod.case,
        erule placedE)
    apply (rule follows_bind2 [OF tokenizer_create_follows], assumption, unfold prod.case, elim exE conjE)
    subgoal for _ r m1 k e m2 S b t m3 q B
      using space_create_finish [of m m3 t B S r q b e k ctx] string.kept [of m2 e k S "S \<union> {r}" m3]
      by force
    done
qed

lemma delim_create_finish:
  assumes "moves m {} m3 (insert t (B \<union> {r}))" "t \<notin> B \<union> {r}" "B \<inter> {r} = {}"
      "owns_buffer m3 q (tk_buf b) B"
      "m_heap m3 t = Some (Tokenizer \<lparr>ts_ops = delim_tokenizer_ops, ts_buf = q, ts_impl = r, ts_err = tk_err b\<rparr>)"
    and "r \<noteq> stdin_ptr"
  shows "\<exists>m4 A. mem_store r (Delim_tokenizer \<lparr>ds_base = t, ds_token_start = 0, ds_delim = d,
        ds_on_input_boundary_ctx = ctx\<rparr>) m3 = Inr m4
    \<and> delim_tokenizer_as_tokenizer r m4 = Inr t \<and> moves m {} m4 A
    \<and> owns_toker ctx m4 t (Delim \<lparr>dt_base = b, dt_token_start = 0, dt_delim = d\<rparr>) A"
proof -
  let ?s = "Delim_tokenizer \<lparr>ds_base = t, ds_token_start = 0, ds_delim = d, ds_on_input_boundary_ctx = ctx\<rparr>"
  let ?X = "insert t (B \<union> {r})"
  obtain m4 where m4: "mem_store r ?s m3 = Inr m4" "moves m {} m4 ?X" "m_heap m4 r = Some ?s"
    "agree (?X - {r}) m3 m4" by (rule chain_fill [OF assms(1) _ assms(6)]) auto
  have b: "owns_buffer m4 q (tk_buf b) B" by (rule buf.kept [OF assms(4) m4(4)]) (use assms in auto)
  then have "owns_toker ctx m4 t (Delim \<lparr>dt_base = b, dt_token_start = 0, dt_delim = d\<rparr>) ?X"
    using assms(2,3,5) m4(3) agree_heap [OF m4(4), of t]
    by (intro owns_tokerI [where r = r and B = B and S = "{}" and q = q and e = NULL])
      (auto simp: tokenizer_struct_def impl_object_def toker_buffer_def toker_marker_def owns_string_def)
  then show ?thesis
    using m4 by (auto simp: load_as_Some to_delim_def delim_tokenizer_as_tokenizer_def)
qed

lemma delim_create_builds:
  assumes "mem_ok m"
  shows "builds (owns_toker ctx) m
    (rbind (delim_tokenizer_create E sz d) (\<lambda>s. Inr (Delim s)))
    (rbind (delim_tokenizer_create_mem E sz d ctx m) (\<lambda>(t, m).
     rbind (delim_tokenizer_as_tokenizer t m) (\<lambda>p. Inr (p, m))))"
proof -
  have m0: "moves m {} m {}" using assms by (simp add: moves_refl)
  show ?thesis
    unfolding builds_follows delim_tokenizer_create_def delim_tokenizer_create_mem_def rbind_assoc rbind_prod
    apply (rule follows_bind2 [OF chain_malloc [OF m0]], unfold prod.case, elim conjE)
    apply (rule follows_bind2 [OF tokenizer_create_follows], assumption, unfold prod.case, elim exE conjE)
    subgoal for _ r m1 b t m3 q B
      using delim_create_finish [of m m3 t B r q b d ctx] by force
    done
qed

text \<open>Adding a character and forgetting the token, seen through the table.\<close>

definition map_base :: "(tokenizer \<Rightarrow> tokenizer) \<Rightarrow> toker \<Rightarrow> toker" where
  "map_base f k = (case k of Space s \<Rightarrow> Space (s\<lparr>st_base := f (st_base s)\<rparr>)
     | Delim d \<Rightarrow> Delim (d\<lparr>dt_base := f (dt_base d)\<rparr>))"

definition toker_base :: "toker \<Rightarrow> tokenizer" where
  "toker_base k = (case k of Space s \<Rightarrow> st_base s | Delim d \<Rightarrow> dt_base d)"

lemma map_base_simps [simp]:
  "tokenizer_struct (map_base (\<lambda>b. b\<lparr>tk_err := x\<rparr>) k) q r = (tokenizer_struct k q r)\<lparr>ts_err := x\<rparr>"
  "tokenizer_struct (map_base (\<lambda>b. b\<lparr>tk_buf := y b\<rparr>) k) q r = tokenizer_struct k q r"
  "impl_object (map_base f k) p e ctx = impl_object k p e ctx" "toker_marker (map_base f k) = toker_marker k"
  "toker_buffer (map_base (\<lambda>b. b\<lparr>tk_err := x\<rparr>) k) = toker_buffer k"
  "toker_buffer (map_base (\<lambda>b. b\<lparr>tk_buf := y b\<rparr>) k) = y (toker_base k)"
  "tk_buf (toker_base k) = toker_buffer k"
  by (cases k; simp add: map_base_def toker_base_def tokenizer_struct_def impl_object_def toker_marker_def
    toker_buffer_def)+

lemma toker_allocated: "toker_at r ctx m p k A \<Longrightarrow> A \<subseteq> dom (m_heap m)"
  using toker.allocated unfolding owns_toker_def by blast

text \<open>The buffer changes, the structures stay.\<close>

lemma toker_put_buffer:
  assumes t: "toker_at r ctx m p k A" and m: "moves m A m A"
    and "\<And>q B F. owns_buffer m q (toker_buffer k) B \<Longrightarrow> m_heap m p = Some (Tokenizer (tokenizer_struct k q r)) \<Longrightarrow>
      A = B \<union> F \<Longrightarrow> B \<inter> F = {} \<Longrightarrow> follows (\<lambda>b m'. placed owns_buffer m A m F q b m') mv mh"
  shows "updates (toker_at r ctx) m p A (rbind mv (\<lambda>b. Inr (map_base (\<lambda>t. t\<lparr>tk_buf := b\<rparr>) k))) mh"
proof -
  obtain q e B S where t: "A = {p, r} \<union> B \<union> S" "p \<noteq> r" "{p, r} \<inter> (B \<union> S) = {}" "B \<inter> S = {}"
    "m_heap m p = Some (Tokenizer (tokenizer_struct k q r))" "m_heap m r = Some (impl_object k p e ctx)"
    "owns_buffer m q (toker_buffer k) B" "owns_string m e (toker_marker k) S"
    using t by (rule toker_atE)
  let ?F = "{p, r} \<union> S"
  have "follows (\<lambda>b m'. placed owns_buffer m A m ?F q b m') mv mh"
    by (rule assms(3) [OF t(7,5)]) (use t(1,3,4) in auto)
  then have "follows (\<lambda>b m'. \<exists>A'. moves m A m' A' \<and> toker_at r ctx m' p (map_base (\<lambda>t. t\<lparr>tk_buf := b\<rparr>) k) A') mv mh"
  proof (rule follows_mono)
    fix b m'
    assume "placed owns_buffer m A m ?F q b m'"
    then obtain B' where b: "moves m A m' (B' \<union> ?F)" "B' \<inter> ?F = {}" "agree ?F m m'" "owns_buffer m' q b B'"
      by (rule placedE)
    have "m_heap m' p = m_heap m p" "m_heap m' r = m_heap m r" using b(3) by (simp_all add: agree_def)
    moreover have "owns_string m' e (toker_marker k) S" by (rule string.kept [OF t(8) b(3)]) auto
    ultimately have "toker_at r ctx m' p (map_base (\<lambda>t. t\<lparr>tk_buf := b\<rparr>) k) (B' \<union> ?F)"
      using t b(2,4) by (intro toker_atI [where B = B' and S = S and q = q and e = e]) auto
    with b(1) show "\<exists>A'. moves m A m' A' \<and> toker_at r ctx m' p (map_base (\<lambda>t. t\<lparr>tk_buf := b\<rparr>) k) A'" by blast
  qed
  then show ?thesis unfolding updates_follows by (rule follows_map)
qed

lemma map_base_tokenizer: "map_base (\<lambda>_. (toker_base k)\<lparr>tk_buf := b\<rparr>) k = map_base (\<lambda>t. t\<lparr>tk_buf := b\<rparr>) k"
  "map_base (\<lambda>t. t\<lparr>tk_buf := f (toker_buffer k)\<rparr>) k = map_base (\<lambda>t. t\<lparr>tk_buf := f (tk_buf t)\<rparr>) k"
  by (cases k; simp add: map_base_def toker_base_def toker_buffer_def)+

lemma toker_add_updates:
  assumes ok: "mem_ok m" and t: "toker_at r ctx m p k A"
  shows "updates (toker_at r ctx) m p A
    (rbind (tokenizer_add E (toker_base k) ch) (\<lambda>b. Inr (map_base (\<lambda>_. b) k)))
    (tokenizer_add_mem E p ch m)"
proof -
  have A: "moves m A m A" by (rule moves_refl [OF ok toker_allocated [OF t]])
  have "updates (toker_at r ctx) m p A
      (rbind (buffer_put E (toker_buffer k) ch) (\<lambda>b. Inr (map_base (\<lambda>t. t\<lparr>tk_buf := b\<rparr>) k)))
      (tokenizer_add_mem E p ch m)"
  proof (rule toker_put_buffer [OF t A])
    fix q B F
    assume "owns_buffer m q (toker_buffer k) B" "m_heap m p = Some (Tokenizer (tokenizer_struct k q r))"
      "A = B \<union> F" "B \<inter> F = {}"
    with chain_updates [OF A _ _ buffer_put_updates] show
      "follows (\<lambda>b m'. placed owns_buffer m A m F q b m') (buffer_put E (toker_buffer k) ch) (tokenizer_add_mem E p ch m)"
      by (simp add: tokenizer_add_mem_def load_as_Some)
  qed
  then show ?thesis by (simp add: tokenizer_add_def rbind_assoc map_base_tokenizer)
qed

text \<open>Assignments to the structures, and to the position in the buffer.\<close>

lemma toker_not_stdin:
  assumes "mem_ok m" and "toker_at r ctx m p k A"
  shows "p \<noteq> stdin_ptr" "r \<noteq> stdin_ptr"
  using assms heap_not_stdin [OF assms(1), of p] heap_not_stdin [OF assms(1), of r]
  by (auto elim!: toker_atE simp: impl_object_def split: toker.splits)

lemma toker_store_base:
  assumes ok: "mem_ok m" and t: "toker_at r ctx m p k A" and h: "m_heap m p = Some (Tokenizer s)"
  shows "updates (toker_at r ctx) m p A (Inr (map_base (\<lambda>b. b\<lparr>tk_err := x\<rparr>) k))
    (mem_store p (Tokenizer (s\<lparr>ts_err := x\<rparr>)) m)"
proof -
  obtain q e B S where t': "A = {p, r} \<union> B \<union> S" "p \<noteq> r" "{p, r} \<inter> (B \<union> S) = {}" "B \<inter> S = {}"
    "m_heap m p = Some (Tokenizer (tokenizer_struct k q r))" "m_heap m r = Some (impl_object k p e ctx)"
    "owns_buffer m q (toker_buffer k) B" "owns_string m e (toker_marker k) S"
    using t by (rule toker_atE)
  obtain m1 where m1: "mem_store p (Tokenizer (s\<lparr>ts_err := x\<rparr>)) m = Inr m1" "moves m A m1 A"
    "m_heap m1 p = Some (Tokenizer (s\<lparr>ts_err := x\<rparr>))" "agree (A - {p}) m m1"
    by (rule chain_fill [OF moves_refl [OF ok toker_allocated [OF t]] _ toker_not_stdin(1) [OF ok t]])
      (use t'(1) in auto)
  let ?k = "map_base (\<lambda>b. b\<lparr>tk_err := x\<rparr>) k"
  have "toker_at r ctx m1 p ?k A"
  proof (rule toker_atI [OF t'(1-4), where q = q and e = e])
    show "m_heap m1 p = Some (Tokenizer (tokenizer_struct ?k q r))" using m1(3) h t'(5) by simp
    show "m_heap m1 r = Some (impl_object ?k p e ctx)" using m1(4) t'(1,2,6) by (simp add: agree_def)
    show "owns_buffer m1 q (toker_buffer ?k) B"
      using buf.kept [OF t'(7) m1(4)] t'(1,3) by auto
    show "owns_string m1 e (toker_marker ?k) S"
      using string.kept [OF t'(8) m1(4)] t'(1,3) by auto
  qed
  with m1(1,2) show ?thesis by auto
qed

lemma toker_store_impl:
  assumes ok: "mem_ok m" and t: "toker_at r ctx m p k A" and h: "m_heap m r = Some (impl_object k p e ctx)"
    and k': "tokenizer_struct k' = tokenizer_struct k" "toker_buffer k' = toker_buffer k" "toker_marker k' = toker_marker k"
  shows "updates (toker_at r ctx) m p A (Inr k') (mem_store r (impl_object k' p e ctx) m)"
proof -
  obtain q d B S where t': "A = {p, r} \<union> B \<union> S" "p \<noteq> r" "{p, r} \<inter> (B \<union> S) = {}" "B \<inter> S = {}"
    "m_heap m p = Some (Tokenizer (tokenizer_struct k q r))" "m_heap m r = Some (impl_object k p d ctx)"
    "owns_buffer m q (toker_buffer k) B" "owns_string m d (toker_marker k) S"
    using t by (rule toker_atE)
  have "ts_ops (tokenizer_struct k' q r) = ts_ops (tokenizer_struct k q r)" by (simp add: k'(1))
  then have e: "impl_object k' p e ctx = impl_object k' p d ctx"
    using h t'(6) by (cases k; cases k') (simp_all add: impl_object_def)
  obtain m1 where m1: "mem_store r (impl_object k' p e ctx) m = Inr m1" "moves m A m1 A"
    "m_heap m1 r = Some (impl_object k' p e ctx)" "agree (A - {r}) m m1"
    by (rule chain_fill [OF moves_refl [OF ok toker_allocated [OF t]] _ toker_not_stdin(2) [OF ok t]])
      (use t'(1) in auto)
  have "toker_at r ctx m1 p k' A"
  proof (rule toker_atI [OF t'(1-4), where q = q and e = d])
    show "m_heap m1 p = Some (Tokenizer (tokenizer_struct k' q r))"
      using m1(4) t'(1,2,5) k'(1) by (simp add: agree_def)
    show "m_heap m1 r = Some (impl_object k' p d ctx)" using m1(3) e by simp
    show "owns_buffer m1 q (toker_buffer k') B"
      unfolding k'(2) by (rule buf.kept [OF t'(7) m1(4)]) (use t'(1,3) in auto)
    show "owns_string m1 d (toker_marker k') S"
      unfolding k'(3) by (rule string.kept [OF t'(8) m1(4)]) (use t'(1,3) in auto)
  qed
  with m1(1,2) show ?thesis by auto
qed

lemma toker_store_buffer:
  assumes ok: "mem_ok m" and t: "toker_at r ctx m p k A" and h: "m_heap m p = Some (Tokenizer s)"
    and b: "m_heap m (ts_buf s) = Some (Buffer b)"
  shows "updates (toker_at r ctx) m p A (Inr (map_base (\<lambda>t. t\<lparr>tk_buf := (tk_buf t)\<lparr>bf_sz := n, bf_pos := i\<rparr>\<rparr>) k))
    (mem_store (ts_buf s) (Buffer (b\<lparr>bs_sz := n, bs_pos := i\<rparr>)) m)"
proof -
  have A: "moves m A m A" by (rule moves_refl [OF ok toker_allocated [OF t]])
  let ?b = "(toker_buffer k)\<lparr>bf_sz := n, bf_pos := i\<rparr>"
  have "updates (toker_at r ctx) m p A (rbind (Inr ?b) (\<lambda>b. Inr (map_base (\<lambda>t. t\<lparr>tk_buf := b\<rparr>) k)))
    (mem_store (ts_buf s) (Buffer (b\<lparr>bs_sz := n, bs_pos := i\<rparr>)) m)"
  proof (rule toker_put_buffer [OF t A])
    fix q B F
    assume q: "owns_buffer m q (toker_buffer k) B" "m_heap m p = Some (Tokenizer (tokenizer_struct k q r))"
      "A = B \<union> F" "B \<inter> F = {}"
    with h b have q': "ts_buf s = q" "m_heap m q = Some (Buffer b)" by auto
    obtain m' where "mem_store q (Buffer (b\<lparr>bs_sz := n, bs_pos := i\<rparr>)) m = Inr m'" "moves m A m' A" "agree F m m'"
      "owns_buffer m' q ?b B" by (rule buffer_store [OF A q(3,4,1) q'(2)])
    with q(3,4) q'(1) show "follows (\<lambda>b m'. placed owns_buffer m A m F q b m') (Inr ?b)
        (mem_store (ts_buf s) (Buffer (b\<lparr>bs_sz := n, bs_pos := i\<rparr>)) m)" by (auto simp: placed_def)
  qed
  then show ?thesis
    using map_base_tokenizer(2) [of "\<lambda>b. b\<lparr>bf_sz := n, bf_pos := i\<rparr>" k] by simp
qed

text \<open>An update of the implementation behind the table is one of the tokenizer.\<close>

lemma updates_mono:
  assumes "updates R m p A mv mh" and "\<And>m' v A'. R m' p v A' \<Longrightarrow> S m' p v A'"
  shows "updates S m p A mv mh"
  using assms(1) by (cases mv) (auto dest!: assms(2))

lemma owns_toker_updates:
  assumes "owns_toker ctx m p k A" and "\<And>r. toker_at r ctx m p k A \<Longrightarrow> updates (toker_at r ctx) m p A mv mh"
  shows "updates (owns_toker ctx) m p A mv mh"
proof -
  obtain r where "toker_at r ctx m p k A" using assms(1) by (auto simp: owns_toker_def)
  then show ?thesis by (rule updates_mono [OF assms(2)]) (auto simp: owns_toker_def)
qed

lemma tokenizer_add_updates:
  assumes ok: "mem_ok m" and "owns_toker ctx m p k A"
  shows "updates (owns_toker ctx) m p A
    (rbind (tokenizer_add E (toker_base k) ch) (\<lambda>b. Inr (map_base (\<lambda>_. b) k)))
    (tokenizer_add_mem E p ch m)"
  by (rule owns_toker_updates [OF assms(2) toker_add_updates [OF ok]])

end
