(* ===== verification/Memory_Command.thy ===== *)
theory Memory_Command
  imports Memory_Tokenizer
begin

text \<open>
  The command in memory (\<^verbatim>\<open>src/command.c\<close>): three argument lists and a string behind one
  structure. The lists are created, filled, released and replaced while the command lives;
  between a release and the next creation a field holds a stale address.
\<close>

section \<open>The code\<close>

definition add_fixed_argument_mem :: "platform \<Rightarrow> ptr \<Rightarrow> memory \<Rightarrow> cstr \<Rightarrow> stop + memory" where
  "add_fixed_argument_mem E p m new_arg =
     rbind (load_as to_command p m) (\<lambda>cmd. command_args_add_mem E (cs_fixed_args cmd) new_arg m)"

definition new_input_args_mem :: "platform \<Rightarrow> ptr \<Rightarrow> memory \<Rightarrow> stop + memory" where
  "new_input_args_mem E p m =
     rbind (load_as to_command p m) (\<lambda>cmd.
     rbind (if cs_max_args cmd > 0
       then command_args_create_with_capacity_mem E (cs_max_args cmd) m
       else command_args_create_mem E m) (\<lambda>(q, m).
     mem_store p (Command (cmd\<lparr>cs_input_args := q\<rparr>)) m))"

definition command_args_count_mem :: "ptr \<Rightarrow> memory \<Rightarrow> stop + size_t" where
  "command_args_count_mem p m = rbind (load_as to_args p m) (\<lambda>args. Inr (as_count args))"

definition command_args_length_mem :: "ptr \<Rightarrow> memory \<Rightarrow> stop + size_t" where
  "command_args_length_mem p m = rbind (load_as to_args p m) (\<lambda>args. Inr (as_length args))"

text \<open>The limit depends on the command through its lengths alone.\<close>

definition command_sizes :: "size_t \<Rightarrow> size_t \<Rightarrow> size_t \<Rightarrow> command" where
  "command_sizes env_length fixed_length input_length =
     \<lparr>cm_max_lines = 0, cm_max_args = 0, cm_max_length = 0, cm_arg_placeholder = None,
      cm_open_tty = False, cm_prompt = False, cm_trace = False,
      cm_terminate_on_too_large_command = False, cm_line_mode = False, cm_line_count = 0,
      cm_env_length = env_length, cm_fixed_args = no_args\<lparr>ca_length := fixed_length\<rparr>,
      cm_input_args = no_args\<lparr>ca_length := input_length\<rparr>, cm_replaced_fixed_args = no_args\<rparr>"

definition decide_max_length_mem :: "platform \<Rightarrow> ptr \<Rightarrow> options \<Rightarrow> memory \<Rightarrow> stop + size_t" where
  "decide_max_length_mem E p opts m =
     rbind (load_as to_command p m) (\<lambda>cmd.
     rbind (command_args_length_mem (cs_fixed_args cmd) m) (\<lambda>f.
     rbind (command_args_length_mem (cs_input_args cmd) m) (\<lambda>i.
     decide_max_length E (command_sizes (cs_env_length cmd) f i) opts)))"

definition new_replaced_args_mem :: "platform \<Rightarrow> ptr \<Rightarrow> memory \<Rightarrow> stop + memory" where
  "new_replaced_args_mem E p m =
     rbind (load_as to_command p m) (\<lambda>cmd.
     rbind (command_args_count_mem (cs_fixed_args cmd) m) (\<lambda>n.
     rbind (command_args_create_with_capacity_mem E n m) (\<lambda>(q, m).
     mem_store p (Command (cmd\<lparr>cs_replaced_fixed_args := q\<rparr>)) m)))"

definition new_fixed_args_mem :: "platform \<Rightarrow> ptr \<Rightarrow> size_t \<Rightarrow> memory \<Rightarrow> stop + memory" where
  "new_fixed_args_mem E p n m =
     rbind (load_as to_command p m) (\<lambda>cmd.
     rbind (command_args_create_with_capacity_mem E n m) (\<lambda>(q, m).
     mem_store p (Command (cmd\<lparr>cs_fixed_args := q\<rparr>)) m))"

definition command_create_mem :: "platform \<Rightarrow> options \<Rightarrow> nat \<Rightarrow> cstr list \<Rightarrow> memory
    \<Rightarrow> stop + ptr \<times> memory" where
  "command_create_mem E opts arg_index argv m =
     rbind (mem_malloc E 80 m) (\<lambda>(p, m).
     rbind (mem_strdup E (options_arg_placeholder opts) m) (\<lambda>(placeholder, m).
     rbind (mem_store p (Command \<lparr>cs_max_lines = options_max_lines_per_command opts,
           cs_max_args = options_max_args_per_command opts,
           cs_max_length = 0,
           cs_arg_placeholder = placeholder,
           cs_open_tty = options_open_tty opts,
           cs_prompt = options_prompt opts,
           cs_trace = options_trace opts,
           cs_terminate_on_too_large_command = options_terminate_on_too_large_command opts,
           cs_line_mode = options_line_mode opts,
           cs_line_count = 0,
           cs_env_length = calc_env_length E,
           cs_fixed_args = NULL, cs_input_args = NULL, cs_replaced_fixed_args = NULL\<rparr>) m) (\<lambda>m.
     rbind (if arg_index = length argv then
          rbind (new_fixed_args_mem E p 1 m) (\<lambda>m.
          add_fixed_argument_mem E p m DEFAULT_CMD)
        else
          rbind (new_fixed_args_mem E p (word_of_int (int (length argv) - int arg_index)) m) (\<lambda>m.
          put_all (add_fixed_argument_mem E p) m (drop arg_index argv))) (\<lambda>m.
     rbind (new_input_args_mem E p m) (\<lambda>m.
     rbind (decide_max_length_mem E p opts m) (\<lambda>n.
     rbind (load_as to_command p m) (\<lambda>cmd.
     rbind (mem_store p (Command (cmd\<lparr>cs_max_length := n\<rparr>)) m) (\<lambda>m.
     rbind (new_replaced_args_mem E p m) (\<lambda>m.
     Inr (p, m))))))))))"

definition command_add_input_argument_mem :: "platform \<Rightarrow> ptr \<Rightarrow> cstr \<Rightarrow> memory \<Rightarrow> stop + memory" where
  "command_add_input_argument_mem E p new_arg m =
     rbind (load_as to_command p m) (\<lambda>cmd. command_args_add_mem E (cs_input_args cmd) new_arg m)"

definition command_increment_line_count_mem :: "ptr \<Rightarrow> memory \<Rightarrow> stop + memory" where
  "command_increment_line_count_mem p m =
     rbind (load_as to_command p m) (\<lambda>cmd.
     mem_store p (Command (cmd\<lparr>cs_line_count := cs_line_count cmd + 1\<rparr>)) m)"

text \<open>A \<open>char*\<close> parameter that may be \<open>NULL\<close>, and \<open>str_replace\<close> with a place for its result.\<close>

definition read_string_or_null :: "ptr \<Rightarrow> memory \<Rightarrow> stop + cstr option" where
  "read_string_or_null p m = (if p = NULL then Inr None
     else rbind (read_string p m) (\<lambda>s. Inr (Some s)))"

definition str_replace_mem :: "platform \<Rightarrow> ptr \<Rightarrow> ptr \<Rightarrow> cstr \<Rightarrow> memory \<Rightarrow> stop + ptr \<times> memory" where
  "str_replace_mem E s placeholder replacement m =
     rbind (read_string_or_null s m) (\<lambda>s.
     rbind (read_string_or_null placeholder m) (\<lambda>placeholder.
     rbind (str_replace E s placeholder (Some replacement)) (\<lambda>t. case t of
       None \<Rightarrow> Inr (NULL, m)
     | Some t \<Rightarrow> Inr (mem_new (Chars (c_block t)) m))))"

lemma size_up_bounded: "i < n \<Longrightarrow> unat SIZE_MAX - unat (i + 1 :: size_t) < unat SIZE_MAX - unat i"
  using size_t_bound [of n] by (simp add: size_up_Suc size_less_unat)

function replace_from_mem :: "platform \<Rightarrow> ptr \<Rightarrow> cstr \<Rightarrow> size_t \<Rightarrow> memory \<Rightarrow> stop + memory" where
  "replace_from_mem E p new_arg i m =
     rbind (load_as to_command p m) (\<lambda>cmd.
     rbind (command_args_count_mem (cs_fixed_args cmd) m) (\<lambda>n.
     if i < n then
       rbind (command_args_at_mem (cs_fixed_args cmd) i m) (\<lambda>arg.
       rbind (str_replace_mem E arg (cs_arg_placeholder cmd) new_arg m) (\<lambda>(replaced, m).
       rbind (read_string replaced m) (\<lambda>s.
       rbind (command_args_add_mem E (cs_replaced_fixed_args cmd) s m) (\<lambda>m.
       rbind (mem_free replaced m) (\<lambda>m.
       replace_from_mem E p new_arg (i + 1) m)))))
     else Inr m))"
  by pat_completeness auto
termination
  by (relation "measure (\<lambda>(E, p, new_arg, i, m). unat SIZE_MAX - unat i)")
    (simp_all add: size_up_bounded del: unat_SIZE_MAX)

declare replace_from_mem.simps [simp del]

definition command_replace_args_mem :: "platform \<Rightarrow> ptr \<Rightarrow> cstr \<Rightarrow> memory \<Rightarrow> stop + memory" where
  "command_replace_args_mem E p new_arg m =
     rbind (load_as to_command p m) (\<lambda>cmd.
     rbind (command_args_at_mem (cs_fixed_args cmd) 0 m) (\<lambda>word.
     rbind (read_string word m) (\<lambda>s.
     rbind (command_args_add_mem E (cs_replaced_fixed_args cmd) s m) (\<lambda>m.
     replace_from_mem E p new_arg 1 m))))"

definition recycle_command_mem :: "platform \<Rightarrow> ptr \<Rightarrow> memory \<Rightarrow> stop + memory" where
  "recycle_command_mem E p m =
     rbind (load_as to_command p m) (\<lambda>cmd.
     rbind (mem_store p (Command (cmd\<lparr>cs_line_count := 0\<rparr>)) m) (\<lambda>m.
     rbind (command_args_destroy (cs_input_args cmd) m) (\<lambda>m.
     rbind (if cs_arg_placeholder cmd \<noteq> NULL
       then rbind (command_args_destroy (cs_replaced_fixed_args cmd) m) (\<lambda>m.
            new_replaced_args_mem E p m)
       else Inr m) (\<lambda>m.
     new_input_args_mem E p m))))"

definition command_destroy :: "ptr \<Rightarrow> memory \<Rightarrow> stop + memory" where
  "command_destroy p m =
     rbind (load_as to_command p m) (\<lambda>cmd.
     rbind (command_args_destroy (cs_input_args cmd) m) (\<lambda>m.
     rbind (command_args_destroy (cs_fixed_args cmd) m) (\<lambda>m.
     rbind (command_args_destroy (cs_replaced_fixed_args cmd) m) (\<lambda>m.
     rbind (mem_free (cs_arg_placeholder cmd) m) (\<lambda>m.
     mem_free p m)))))"

section \<open>What a command owns\<close>

text \<open>The three lists are treated alike, by the field that points to them.\<close>

datatype args_field = Fixed_args | Input_args | Replaced_args

definition field_args :: "args_field \<Rightarrow> command \<Rightarrow> command_args" where
  "field_args k v = (case k of Fixed_args \<Rightarrow> cm_fixed_args v | Input_args \<Rightarrow> cm_input_args v
     | Replaced_args \<Rightarrow> cm_replaced_fixed_args v)"

definition set_args :: "args_field \<Rightarrow> command_args \<Rightarrow> command \<Rightarrow> command" where
  "set_args k a v = (case k of Fixed_args \<Rightarrow> v\<lparr>cm_fixed_args := a\<rparr> | Input_args \<Rightarrow> v\<lparr>cm_input_args := a\<rparr>
     | Replaced_args \<Rightarrow> v\<lparr>cm_replaced_fixed_args := a\<rparr>)"

definition field_ptr :: "args_field \<Rightarrow> command_s \<Rightarrow> ptr" where
  "field_ptr k s = (case k of Fixed_args \<Rightarrow> cs_fixed_args s | Input_args \<Rightarrow> cs_input_args s
     | Replaced_args \<Rightarrow> cs_replaced_fixed_args s)"

definition command_struct :: "command \<Rightarrow> ptr \<Rightarrow> (args_field \<Rightarrow> ptr) \<Rightarrow> command_s" where
  "command_struct v ph q = \<lparr>cs_max_lines = cm_max_lines v, cs_max_args = cm_max_args v,
     cs_max_length = cm_max_length v, cs_arg_placeholder = ph, cs_open_tty = cm_open_tty v,
     cs_prompt = cm_prompt v, cs_trace = cm_trace v,
     cs_terminate_on_too_large_command = cm_terminate_on_too_large_command v,
     cs_line_mode = cm_line_mode v, cs_line_count = cm_line_count v,
     cs_env_length = cm_env_length v, cs_fixed_args = q Fixed_args, cs_input_args = q Input_args,
     cs_replaced_fixed_args = q Replaced_args\<rparr>"

text \<open>
  At \<open>p\<close> the structure, its string in \<open>S\<close>, and the lists of the fields \<open>K\<close>, each in its own
  part \<open>L k\<close>; the other fields own nothing.
\<close>

definition command_parts :: "args_field set \<Rightarrow> memory \<Rightarrow> ptr \<Rightarrow> command \<Rightarrow> ptr \<Rightarrow> (args_field \<Rightarrow> ptr)
    \<Rightarrow> ptr set \<Rightarrow> (args_field \<Rightarrow> ptr set) \<Rightarrow> bool" where
  "command_parts K m p v ph q S L \<longleftrightarrow> apart p S L \<and> p \<noteq> stdin_ptr
     \<and> m_heap m p = Some (Command (command_struct v ph q)) \<and> owns_string m ph (cm_arg_placeholder v) S
     \<and> (\<forall>k \<in> K. owns_args m (q k) (field_args k v) (L k)) \<and> (\<forall>k. k \<notin> K \<longrightarrow> L k = {})"

definition owns_command :: "memory \<Rightarrow> ptr \<Rightarrow> command \<Rightarrow> ptr set \<Rightarrow> bool" where
  "owns_command m p v A \<longleftrightarrow> 0 < ca_count (cm_fixed_args v)
     \<and> (\<exists>ph q S L. A = footprint p S L \<and> command_parts UNIV m p v ph q S L)"

text \<open>A command under construction, or between two lists, after the steps since \<open>m0\<close>.\<close>

definition has_command :: "args_field set \<Rightarrow> memory \<Rightarrow> ptr set \<Rightarrow> memory \<Rightarrow> ptr \<Rightarrow> command \<Rightarrow> bool" where
  "has_command K m0 A0 m p v \<longleftrightarrow> (\<exists>ph q S L. moves m0 A0 m (footprint p S L) \<and> command_parts K m p v ph q S L)"

lemma field_simps [simp]:
  "field_args k (set_args k a v) = a" "j \<noteq> k \<Longrightarrow> field_args j (set_args k a v) = field_args j v"
  "command_struct (set_args k a v) ph q = command_struct v ph q"
  "cm_arg_placeholder (set_args k a v) = cm_arg_placeholder v"
  "field_ptr k (command_struct v ph q) = q k"
  by (auto simp: field_args_def set_args_def field_ptr_def command_struct_def split: args_field.splits)

lemma struct_simps [simp]:
  "cs_fixed_args (command_struct v ph q) = q Fixed_args"
  "cs_input_args (command_struct v ph q) = q Input_args"
  "cs_replaced_fixed_args (command_struct v ph q) = q Replaced_args"
  "cs_arg_placeholder (command_struct v ph q) = ph"
  "cs_max_args (command_struct v ph q) = cm_max_args v"
  "cs_env_length (command_struct v ph q) = cm_env_length v"
  "field_args Fixed_args v = cm_fixed_args v" "field_args Input_args v = cm_input_args v"
  "field_args Replaced_args v = cm_replaced_fixed_args v"
  "set_args Fixed_args a v = v\<lparr>cm_fixed_args := a\<rparr>" "set_args Input_args a v = v\<lparr>cm_input_args := a\<rparr>"
  "set_args Replaced_args a v = v\<lparr>cm_replaced_fixed_args := a\<rparr>"
  by (simp_all add: command_struct_def field_args_def set_args_def)

lemma to_command_simp [simp]: "to_command (Command s) = Inr s"
  by (simp add: to_command_def)

lemma parts_put:
  assumes "command_parts K m p v ph q S L" and "agree (footprint p S (L(k := {}))) m m'"
    and "owns_args m' (q k) a Y" and "Y \<inter> footprint p S (L(k := {})) = {}"
  shows "command_parts (insert k K) m' p (set_args k a v) ph q S (L(k := Y))"
proof -
  have c: "apart p S L" "p \<noteq> stdin_ptr" "m_heap m p = Some (Command (command_struct v ph q))"
    "owns_string m ph (cm_arg_placeholder v) S" "\<And>j. j \<in> K \<Longrightarrow> owns_args m (q j) (field_args j v) (L j)"
    "\<And>j. j \<notin> K \<Longrightarrow> L j = {}"
    using assms(1) by (auto simp: command_parts_def)
  have "m_heap m' p = m_heap m p" by (rule agree_heap [OF assms(2) in_footprint(1)])
  moreover have "owns_string m' ph (cm_arg_placeholder v) S"
    by (rule string.kept [OF c(4) assms(2) in_footprint(2)])
  moreover have "owns_args m' (q j) (field_args j v) (L j)" if "j \<in> K" "j \<noteq> k" for j
    by (rule args.kept [OF c(5) [OF that(1)] assms(2)]) (use that(2) in \<open>auto simp: footprint_def\<close>)
  ultimately show ?thesis
    using c apart_put [OF c(1) assms(4)] assms(3) by (simp add: command_parts_def)
qed

lemma parts_kept:
  assumes "command_parts K m p v ph q S L" and "agree (footprint p S L) m m'"
  shows "command_parts K m' p v ph q S L"
proof -
  have "m_heap m' p = m_heap m p" by (rule agree_heap [OF assms(2) in_footprint(1)])
  moreover have "owns_string m' ph (cm_arg_placeholder v) S"
    by (rule string.kept [OF _ assms(2) in_footprint(2)]) (use assms(1) in \<open>simp add: command_parts_def\<close>)
  moreover have "owns_args m' (q j) (field_args j v) (L j)" if "j \<in> K" for j
    by (rule args.kept [OF _ assms(2) in_footprint(3)]) (use assms(1) that in \<open>simp add: command_parts_def\<close>)
  ultimately show ?thesis using assms(1) by (simp add: command_parts_def)
qed

lemma parts_store:
  assumes "command_parts K m p v ph q S L" and "moves m0 A0 m X" and "X = footprint p S L \<union> F"
    and "cm_arg_placeholder v' = cm_arg_placeholder v"
    and "\<And>k. k \<in> K \<Longrightarrow> q' k = q k \<and> field_args k v' = field_args k v"
  obtains m' where "mem_store p (Command (command_struct v' ph q')) m = Inr m'" "moves m0 A0 m' X"
    "command_parts K m' p v' ph q' S L" "agree (X - {p}) m m'"
proof -
  have c: "apart p S L" "p \<noteq> stdin_ptr" "owns_string m ph (cm_arg_placeholder v) S"
    "\<And>j. j \<in> K \<Longrightarrow> owns_args m (q j) (field_args j v) (L j)" "\<And>j. j \<notin> K \<Longrightarrow> L j = {}"
    using assms(1) by (auto simp: command_parts_def)
  have X: "S \<union> (\<Union>k. L k) \<subseteq> X - {p}" using c(1) assms(3) by (auto simp: apart_def footprint_def)
  obtain m' where m': "mem_store p (Command (command_struct v' ph q')) m = Inr m'" "moves m0 A0 m' X"
    "m_heap m' p = Some (Command (command_struct v' ph q'))" "agree (X - {p}) m m'"
    by (rule chain_fill [OF assms(2) _ c(2)]) (use assms(3) in_footprint(1) in auto)
  have "owns_string m' ph (cm_arg_placeholder v) S"
    by (rule string.kept [OF c(3) m'(4)]) (use X in auto)
  moreover have "owns_args m' (q j) (field_args j v) (L j)" if "j \<in> K" for j
    by (rule args.kept [OF c(4) [OF that] m'(4)]) (use X in auto)
  ultimately have "command_parts K m' p v' ph q' S L"
    using c m'(3) assms(4,5) by (simp add: command_parts_def)
  with m' show ?thesis by (rule_tac that)
qed

text \<open>The three things that happen to a field.\<close>

lemma parts_struct: "command_parts K m p v ph q S L \<Longrightarrow> m_heap m p = Some (Command (command_struct v ph q))"
  by (simp add: command_parts_def)

lemma release_field:
  assumes "moves m0 A0 m (footprint p S L)" and "command_parts K m p v ph q S L" and "k \<in> K"
  obtains m' where "command_args_destroy (q k) m = Inr m'" "moves m0 A0 m' (footprint p S (L(k := {})))"
    "command_parts (K - {k}) m' p v ph q S (L(k := {}))"
proof -
  have c: "apart p S L" "p \<noteq> stdin_ptr" "m_heap m p = Some (Command (command_struct v ph q))"
    "owns_string m ph (cm_arg_placeholder v) S" "\<And>j. j \<in> K \<Longrightarrow> owns_args m (q j) (field_args j v) (L j)"
    "\<And>j. j \<notin> K \<Longrightarrow> L j = {}"
    using assms(2) by (auto simp: command_parts_def)
  from args.chain_free_part [OF assms(1) footprint_part [OF c(1)] c(5) [OF assms(3)]]
  obtain m' where m': "command_args_destroy (q k) m = Inr m'" "moves m0 A0 m' (footprint p S (L(k := {})))"
    "agree (footprint p S (L(k := {}))) m m'" by blast
  have "m_heap m' p = m_heap m p" by (rule agree_heap [OF m'(3) in_footprint(1)])
  moreover have "owns_string m' ph (cm_arg_placeholder v) S"
    by (rule string.kept [OF c(4) m'(3) in_footprint(2)])
  moreover have "owns_args m' (q j) (field_args j v) (L j)" if "j \<in> K" "j \<noteq> k" for j
    by (rule args.kept [OF c(5) [OF that(1)] m'(3)]) (use that(2) in \<open>auto simp: footprint_def\<close>)
  ultimately have "command_parts (K - {k}) m' p v ph q S (L(k := {}))"
    using c apart_put [OF c(1), of "{}" k] by (simp add: command_parts_def)
  with m' show ?thesis by (rule_tac that)
qed

lemma new_field:
  assumes "moves m0 A0 m (footprint p S L)" and "command_parts K m p v ph q S L" and "k \<notin> K"
  shows "follows (\<lambda>a m'. has_command (insert k K) m0 A0 m' p (set_args k a v))
    (command_args_create_with_capacity E n)
    (rbind (command_args_create_with_capacity_mem E n m) (\<lambda>(r, m).
     mem_store p (Command (command_struct v ph (q(k := r)))) m))"
proof -
  have L: "L(k := {}) = L" using assms(2,3) by (intro fun_upd_idem) (simp add: command_parts_def)
  have "follows (\<lambda>a m'. has_command (insert k K) m0 A0 m' p (set_args k a v))
    (rbind (command_args_create_with_capacity E n) Inr)
    (rbind (command_args_create_with_capacity_mem E n m) (\<lambda>(r, m).
     mem_store p (Command (command_struct v ph (q(k := r)))) m))"
  proof (rule follows_bind2 [OF chain_builds [OF assms(1) args_create_builds]], assumption, unfold prod.case)
    fix a r m1
    assume "placed owns_args m0 A0 m (footprint p S L) r a m1"
    then obtain Y where Y: "moves m0 A0 m1 (Y \<union> footprint p S L)" "Y \<inter> footprint p S L = {}"
      "agree (footprint p S L) m m1" "owns_args m1 r a Y" by (rule placedE)
    obtain m2 where m2: "mem_store p (Command (command_struct v ph (q(k := r)))) m1 = Inr m2"
      "moves m0 A0 m2 (Y \<union> footprint p S L)" "command_parts K m2 p v ph (q(k := r)) S L"
      "agree (Y \<union> footprint p S L - {p}) m1 m2"
      by (rule parts_store [OF parts_kept [OF assms(2) Y(3)] Y(1), where F = Y and v' = v and q' = "q(k := r)"])
        (use assms(3) in auto)
    have "owns_args m2 r a Y" by (rule args.kept [OF Y(4) m2(4)]) (use Y(2) in_footprint(1) in auto)
    then have "command_parts (insert k K) m2 p (set_args k a v) ph (q(k := r)) S (L(k := Y))"
      using parts_put [OF m2(3), of k m2 a Y] Y(2) by (simp add: L)
    moreover have "Y \<union> footprint p S L = footprint p S (L(k := Y))" by (simp add: footprint_put L)
    ultimately have "has_command (insert k K) m0 A0 m2 p (set_args k a v)"
      using m2(2) unfolding has_command_def by metis
    with m2(1) show "follows (\<lambda>a m'. has_command (insert k K) m0 A0 m' p (set_args k a v)) (Inr a)
        (mem_store p (Command (command_struct v ph (q(k := r)))) m1)" by simp
  qed
  then show ?thesis by simp
qed

lemma add_to_field:
  assumes "moves m0 A0 m (footprint p S L)" and "command_parts K m p v ph q S L" and "k \<in> K"
  shows "follows (\<lambda>a m'. has_command K m0 A0 m' p (set_args k a v))
    (command_args_add E (field_args k v) s) (command_args_add_mem E (q k) s m)"
proof -
  have c: "apart p S L" "owns_args m (q k) (field_args k v) (L k)" "insert k K = K"
    using assms(2,3) by (auto simp: command_parts_def)
  have "follows (\<lambda>a m'. placed owns_args m0 A0 m (footprint p S (L(k := {}))) (q k) a m')
      (command_args_add E (field_args k v) s) (command_args_add_mem E (q k) s m)"
    by (rule chain_updates [OF assms(1) footprint_part [OF c(1)] command_args_add_updates [OF _ c(2)]])
  then show ?thesis
  proof (rule follows_mono)
    fix a m'
    assume "placed owns_args m0 A0 m (footprint p S (L(k := {}))) (q k) a m'"
    then obtain Y where Y: "moves m0 A0 m' (Y \<union> footprint p S (L(k := {})))"
      "Y \<inter> footprint p S (L(k := {})) = {}" "agree (footprint p S (L(k := {}))) m m'"
      "owns_args m' (q k) a Y" by (rule placedE)
    from parts_put [OF assms(2) Y(3,4,2)] Y(1)
    show "has_command K m0 A0 m' p (set_args k a v)"
      unfolding has_command_def c(3) footprint_put [of p S L k Y, symmetric] by blast
  qed
qed

lemma footprint_nothing:
  "footprint p S (L(Input_args := {}, Fixed_args := {}, Replaced_args := {})) = S \<union> {p}"
proof -
  have "(L(Input_args := {}, Fixed_args := {}, Replaced_args := {})) k = {}" for k
    by (cases k) simp_all
  then show ?thesis by (auto simp: footprint_def)
qed

interpretation cmd: owner owns_command command_destroy
proof
  fix m m' :: memory and p v A
  assume r: "owns_command m p v A"
  then obtain ph q S L where A: "A = footprint p S L" and c: "command_parts UNIV m p v ph q S L"
    by (auto simp: owns_command_def)
  show "owns_command m' p v A" if "agree A m m'"
    using r A parts_kept [OF c that [unfolded A]] unfolding owns_command_def by blast
  have o: "owns_string m ph (cm_arg_placeholder v) S" "\<And>k. owns_args m (q k) (field_args k v) (L k)"
    using c by (simp_all add: command_parts_def)
  show A': "A \<subseteq> dom (m_heap m)"
    using parts_struct [OF c] string.allocated [OF o(1)] args.allocated [OF o(2)]
    unfolding A footprint_def by auto
  assume "mem_ok m"
  from moves_refl [OF this A'] have "moves m A m (footprint p S L)" by (simp add: A)
  from release_field [OF this c UNIV_I] obtain m1 where m1: "command_args_destroy (q Input_args) m = Inr m1"
    "moves m A m1 (footprint p S (L(Input_args := {})))"
    "command_parts (UNIV - {Input_args}) m1 p v ph q S (L(Input_args := {}))" by metis
  obtain m2 where m2: "command_args_destroy (q Fixed_args) m1 = Inr m2"
    "moves m A m2 (footprint p S (L(Input_args := {}, Fixed_args := {})))"
    "command_parts (UNIV - {Input_args} - {Fixed_args}) m2 p v ph q S (L(Input_args := {}, Fixed_args := {}))"
    by (rule release_field [OF m1(2,3), of Fixed_args]) auto
  obtain m3 where m3: "command_args_destroy (q Replaced_args) m2 = Inr m3"
    "moves m A m3 (footprint p S (L(Input_args := {}, Fixed_args := {}, Replaced_args := {})))"
    "command_parts (UNIV - {Input_args} - {Fixed_args} - {Replaced_args}) m3 p v ph q S
      (L(Input_args := {}, Fixed_args := {}, Replaced_args := {}))"
    by (rule release_field [OF m2(2,3), of Replaced_args]) auto
  have s: "owns_string m3 ph (cm_arg_placeholder v) S" "S \<inter> {p} = {}"
    using m3(3) by (simp_all add: command_parts_def apart_def)
  from string.chain_release [OF m3(2) [unfolded footprint_nothing] s(2,1)] obtain m4 where m4: "mem_free ph m3 = Inr m4"
    "moves m A m4 {p}" "agree {p} m3 m4" by blast
  have "m_heap m4 p = Some (Command (command_struct v ph q))"
    using parts_struct [OF m3(3)] m4(3) by (simp add: agree_def)
  with chain_realloc [of m A m4 p "{}"] m4(2) obtain m5 where "mem_free p m4 = Inr m5" "moves m A m5 {}"
    by auto
  with m1(1) m2(1) m3(1) m4(1) parts_struct [OF c] show "\<exists>m'. command_destroy p m = Inr m' \<and> moves m A m' {}"
    by (simp add: command_destroy_def load_as_Some)
qed

section \<open>The command follows its values\<close>

lemma has_command_intro:
  "mem_ok m \<Longrightarrow> owns_command m p v A \<Longrightarrow> has_command UNIV m A m p v"
  using moves_refl cmd.allocated unfolding has_command_def owns_command_def by metis

lemma has_command_owns:
  assumes "has_command UNIV m0 A0 m p v" and "0 < ca_count (cm_fixed_args v)"
  shows "\<exists>A. moves m0 A0 m A \<and> owns_command m p v A"
  using assms unfolding has_command_def owns_command_def by blast

lemma command_updates:
  assumes "mem_ok m" and "owns_command m p v A"
    and "has_command UNIV m A m p v \<Longrightarrow> follows (\<lambda>v' m'. has_command UNIV m A m' p v'
      \<and> 0 < ca_count (cm_fixed_args v')) mv mh"
  shows "updates owns_command m p A mv mh"
  unfolding updates_follows
  by (rule follows_mono [OF assms(3) [OF has_command_intro [OF assms(1,2)]]]) (blast dest: has_command_owns)

lemma has_commandE:
  assumes "has_command K m0 A0 m p v"
  obtains ph q S L where "moves m0 A0 m (footprint p S L)" "command_parts K m p v ph q S L"
    "load_as to_command p m = Inr (command_struct v ph q)"
  using assms load_as_Some [OF parts_struct, of _ m p v _ _ _ _ to_command]
  by (auto simp: has_command_def)

lemma add_input_follows:
  assumes "has_command K m0 A0 m p v" and "Input_args \<in> K"
  shows "follows (\<lambda>v' m'. has_command K m0 A0 m' p v' \<and> cm_fixed_args v' = cm_fixed_args v)
    (command_add_input_argument E v s) (command_add_input_argument_mem E p s m)"
proof -
  obtain ph q S L where c: "moves m0 A0 m (footprint p S L)" "command_parts K m p v ph q S L"
    "load_as to_command p m = Inr (command_struct v ph q)" by (rule has_commandE [OF assms(1)])
  from follows_bind [OF add_to_field [OF c(1,2) assms(2), of E s], of _ "\<lambda>a. Inr (set_args Input_args a v)" Inr]
  show ?thesis using c(3) by (simp add: command_add_input_argument_def command_add_input_argument_mem_def)
qed

lemma struct_updates [simp]:
  "(command_struct v ph q)\<lparr>cs_fixed_args := r\<rparr> = command_struct v ph (q(Fixed_args := r))"
  "(command_struct v ph q)\<lparr>cs_input_args := r\<rparr> = command_struct v ph (q(Input_args := r))"
  "(command_struct v ph q)\<lparr>cs_replaced_fixed_args := r\<rparr> = command_struct v ph (q(Replaced_args := r))"
  "(command_struct v ph q)\<lparr>cs_line_count := n\<rparr> = command_struct (v\<lparr>cm_line_count := n\<rparr>) ph q"
  "(command_struct v ph q)\<lparr>cs_max_length := n\<rparr> = command_struct (v\<lparr>cm_max_length := n\<rparr>) ph q"
  by (simp_all add: command_struct_def)

lemma parts_args:
  assumes "command_parts K m p v ph q S L" and "k \<in> K"
  shows "owns_args m (q k) (field_args k v) (L k)"
    and "command_args_count_mem (q k) m = Inr (ca_count (field_args k v))"
    and "command_args_length_mem (q k) m = Inr (ca_length (field_args k v))"
proof -
  show o: "owns_args m (q k) (field_args k v) (L k)" using assms by (simp add: command_parts_def)
  then obtain r where "m_heap m (q k) = Some (Args (args_struct (field_args k v) r))"
    by (auto simp: owns_args_def)
  then show "command_args_count_mem (q k) m = Inr (ca_count (field_args k v))"
    "command_args_length_mem (q k) m = Inr (ca_length (field_args k v))"
    by (simp_all add: command_args_count_mem_def command_args_length_mem_def load_as_Some to_args_def)
qed

lemma parts_placeholder:
  "command_parts K m p v ph q S L \<Longrightarrow> ph = NULL \<longleftrightarrow> cm_arg_placeholder v = None"
  by (auto simp: command_parts_def owns_string_def split: option.splits)

lemma new_input_follows:
  assumes "has_command K m0 A0 m p v" and "Input_args \<notin> K"
  shows "follows (\<lambda>a m'. has_command (insert Input_args K) m0 A0 m' p (v\<lparr>cm_input_args := a\<rparr>))
    (new_input_args E v) (new_input_args_mem E p m)"
proof -
  obtain ph q S L where c: "moves m0 A0 m (footprint p S L)" "command_parts K m p v ph q S L"
    "load_as to_command p m = Inr (command_struct v ph q)" by (rule has_commandE [OF assms(1)])
  from new_field [OF c(1,2) assms(2), of E] c(3) show ?thesis
    by (auto simp: new_input_args_def new_input_args_mem_def command_max_args_specified_def
        command_args_create_def command_args_create_mem_def)
qed

lemma new_replaced_follows:
  assumes "has_command K m0 A0 m p v" and "Replaced_args \<notin> K" and "Fixed_args \<in> K"
  shows "follows (\<lambda>a m'. has_command (insert Replaced_args K) m0 A0 m' p (v\<lparr>cm_replaced_fixed_args := a\<rparr>))
    (command_args_create_with_capacity E (command_args_count (cm_fixed_args v))) (new_replaced_args_mem E p m)"
proof -
  obtain ph q S L where c: "moves m0 A0 m (footprint p S L)" "command_parts K m p v ph q S L"
    "load_as to_command p m = Inr (command_struct v ph q)" by (rule has_commandE [OF assms(1)])
  from new_field [OF c(1,2) assms(2), of E] c(3) parts_args(2) [OF c(2) assms(3)] show ?thesis
    by (simp add: new_replaced_args_mem_def command_args_count_def)
qed

lemma recycle_updates:
  assumes ok: "mem_ok m" and o: "owns_command m p v A"
  shows "updates owns_command m p A (recycle_command E v) (recycle_command_mem E p m)"
proof (rule command_updates [OF assms])
  let ?G = "\<lambda>K v' m'. has_command K m A m' p v' \<and> cm_fixed_args v' = cm_fixed_args v"
  let ?v = "v\<lparr>cm_line_count := 0\<rparr>" and ?K = "UNIV - {Input_args}"
  assume "has_command UNIV m A m p v"
  then obtain ph q S L where c: "moves m A m (footprint p S L)" "command_parts UNIV m p v ph q S L"
    "load_as to_command p m = Inr (command_struct v ph q)" by (rule has_commandE)
  obtain m1 where m1: "mem_store p (Command (command_struct ?v ph q)) m = Inr m1"
    "moves m A m1 (footprint p S L)" "command_parts UNIV m1 p ?v ph q S L"
    by (rule parts_store [OF c(2,1), where F = "{}" and v' = ?v and q' = q])
      (auto simp: field_args_def split: args_field.split)
  obtain m2 where m2: "command_args_destroy (q Input_args) m1 = Inr m2"
    "moves m A m2 (footprint p S (L(Input_args := {})))"
    "command_parts ?K m2 p ?v ph q S (L(Input_args := {}))"
    by (rule release_field [OF m1(2,3) UNIV_I]) auto
  have renew: "follows (?G ?K)
      (if cm_arg_placeholder ?v \<noteq> None
       then rbind (command_args_create_with_capacity E (command_args_count (cm_fixed_args ?v)))
         (\<lambda>r. Inr (?v\<lparr>cm_replaced_fixed_args := r\<rparr>)) else Inr ?v)
      (if ph \<noteq> NULL then rbind (command_args_destroy (q Replaced_args) m2) (\<lambda>m. new_replaced_args_mem E p m)
       else Inr m2)"
  proof (cases "ph = NULL")
    case True
    with parts_placeholder [OF c(2)] m2(2,3) show ?thesis by (auto simp: has_command_def)
  next
    case False
    obtain m3 where m3: "command_args_destroy (q Replaced_args) m2 = Inr m3"
      "has_command (?K - {Replaced_args}) m A m3 p ?v"
      by (rule release_field [OF m2(2,3), of Replaced_args]) (auto simp: has_command_def)
    have K: "insert Replaced_args (?K - {Replaced_args}) = ?K" by auto
    show ?thesis
      using follows_bind [OF new_replaced_follows [OF m3(2), of E, unfolded K], of "?G ?K"
        "\<lambda>a. Inr (?v\<lparr>cm_replaced_fixed_args := a\<rparr>)" Inr] False parts_placeholder [OF c(2)] m3(1)
      by simp
  qed
  have K: "insert Input_args ?K = UNIV" by auto
  have rest: "follows (\<lambda>v' m'. has_command UNIV m A m' p v' \<and> 0 < ca_count (cm_fixed_args v'))
     (rbind (new_input_args E v') (\<lambda>a. Inr (v'\<lparr>cm_input_args := a\<rparr>))) (rbind (new_input_args_mem E p m') Inr)"
    if "?G ?K v' m'" for v' m'
    using that o by (intro follows_bind [OF new_input_follows [OF conjunct1 [OF that], of E, unfolded K]])
      (auto simp: owns_command_def)
  have "recycle_command E v = rbind (if cm_arg_placeholder ?v \<noteq> None
       then rbind (command_args_create_with_capacity E (command_args_count (cm_fixed_args ?v)))
         (\<lambda>r. Inr (?v\<lparr>cm_replaced_fixed_args := r\<rparr>)) else Inr ?v)
      (\<lambda>v'. rbind (new_input_args E v') (\<lambda>a. Inr (v'\<lparr>cm_input_args := a\<rparr>)))"
    unfolding recycle_command_def Let_def ..
  moreover have "recycle_command_mem E p m = rbind
      (if ph \<noteq> NULL then rbind (command_args_destroy (q Replaced_args) m2) (\<lambda>m. new_replaced_args_mem E p m)
       else Inr m2) (\<lambda>m'. rbind (new_input_args_mem E p m') Inr)"
    unfolding recycle_command_mem_def using c(3) m1(1) m2(1) by (simp cong: if_cong split del: if_split)
  ultimately show "follows (\<lambda>v' m'. has_command UNIV m A m' p v' \<and> 0 < ca_count (cm_fixed_args v'))
      (recycle_command E v) (recycle_command_mem E p m)"
    by (simp only:) (rule follows_bind [OF renew], rule rest)
qed

text \<open>Construction.\<close>

lemma new_fixed_follows:
  assumes "has_command {} m0 A0 m p v"
  shows "follows (\<lambda>a m'. has_command {Fixed_args} m0 A0 m' p (v\<lparr>cm_fixed_args := a\<rparr>))
    (command_args_create_with_capacity E n) (new_fixed_args_mem E p n m)"
proof -
  obtain ph q S L where c: "moves m0 A0 m (footprint p S L)" "command_parts {} m p v ph q S L"
    "load_as to_command p m = Inr (command_struct v ph q)" by (rule has_commandE [OF assms(1)])
  from new_field [OF c(1,2), of Fixed_args E n] c(3) show ?thesis
    by (simp add: new_fixed_args_mem_def)
qed

lemma args_add_count:
  assumes "owns_args m p v A" and "command_args_add E v s = Inr v'"
  shows "0 < ca_count v'"
proof -
  obtain b ps where "owns_slots m v b ps" using assms(1) by (auto simp: owns_args_def)
  then have "take (unat (ca_count v)) b = map Some ps" "length b < 2 ^ 61" "length ps = unat (ca_count v)"
    by (simp_all add: owns_slots_def)
  then have "unat (ca_count v) < 2 ^ 61" using arg_cong [of _ _ length] by fastforce
  then have "unat (ca_count v + 1) = Suc (unat (ca_count v))" by (simp add: unat_Suc_size)
  moreover have "ca_count v' = ca_count v + 1"
    using assms(2) by (auto simp: command_args_add_def reallocate_if_needed_def rbind_Inr_iff split: if_splits)
  ultimately show ?thesis by (simp add: size_less_unat)
qed

lemma add_fixed_follows:
  assumes "has_command K m0 A0 m p v" and "Fixed_args \<in> K"
  shows "follows (\<lambda>v' m'. has_command K m0 A0 m' p v' \<and> 0 < ca_count (cm_fixed_args v'))
    (add_fixed_argument E v s) (add_fixed_argument_mem E p m s)"
proof -
  obtain ph q S L where c: "moves m0 A0 m (footprint p S L)" "command_parts K m p v ph q S L"
    "load_as to_command p m = Inr (command_struct v ph q)" by (rule has_commandE [OF assms(1)])
  have "follows (\<lambda>v' m'. has_command K m0 A0 m' p v' \<and> 0 < ca_count (cm_fixed_args v'))
    (rbind (command_args_add E (field_args Fixed_args v) s) (\<lambda>a. Inr (set_args Fixed_args a v)))
    (rbind (command_args_add_mem E (q Fixed_args) s m) Inr)"
    using args_add_count [OF parts_args(1) [OF c(2) assms(2)]]
    by (intro follows_bind [OF add_to_field [OF c(1,2) assms(2)]]) auto
  then show ?thesis using c(3) by (simp add: add_fixed_argument_def add_fixed_argument_mem_def)
qed

lemma add_all_fixed_follows:
  assumes "has_command K m0 A0 m p v" and "Fixed_args \<in> K" and "ws \<noteq> [] \<or> 0 < ca_count (cm_fixed_args v)"
  shows "follows (\<lambda>v' m'. has_command K m0 A0 m' p v' \<and> 0 < ca_count (cm_fixed_args v'))
    (put_all (add_fixed_argument E) v ws) (put_all (add_fixed_argument_mem E p) m ws)"
  using assms
proof (induction ws arbitrary: v m)
  case (Cons w ws)
  show ?case
    unfolding put_all.simps by (rule follows_bind [OF add_fixed_follows [OF Cons.prems(1,2)]])
      (simp add: Cons.IH Cons.prems(2))
qed simp

lemma decide_max_length_same:
  assumes "command_parts K m p v ph q S L" and "Fixed_args \<in> K" and "Input_args \<in> K"
  shows "decide_max_length_mem E p opts m = decide_max_length E v opts"
proof -
  let ?c = "command_sizes (cm_env_length v) (ca_length (cm_fixed_args v)) (ca_length (cm_input_args v))"
  have e: "cm_env_length ?c = cm_env_length v" "command_length ?c = command_length v"
    by (simp_all add: command_sizes_def command_length_def command_args_length_def)
  have "decide_max_length E ?c opts = decide_max_length E v opts" unfolding decide_max_length_def e ..
  then show ?thesis
    using parts_args(3) [OF assms(1,2)] parts_args(3) [OF assms(1,3)]
    by (simp add: decide_max_length_mem_def load_as_Some [OF parts_struct [OF assms(1)]])
qed

lemma create_fixed_follows:
  assumes "has_command {} m0 A0 m p v" and "arg_index \<le> length argv"
  shows "follows (\<lambda>v' m'. has_command {Fixed_args} m0 A0 m' p v' \<and> 0 < ca_count (cm_fixed_args v'))
    (if arg_index = length argv then
       rbind (command_args_create_with_capacity E 1) (\<lambda>a.
       add_fixed_argument E (v\<lparr>cm_fixed_args := a\<rparr>) DEFAULT_CMD)
     else
       rbind (command_args_create_with_capacity E (word_of_int (int (length argv) - int arg_index))) (\<lambda>a.
       put_all (add_fixed_argument E) (v\<lparr>cm_fixed_args := a\<rparr>) (drop arg_index argv)))
    (if arg_index = length argv then
       rbind (new_fixed_args_mem E p 1 m) (\<lambda>m. add_fixed_argument_mem E p m DEFAULT_CMD)
     else
       rbind (new_fixed_args_mem E p (word_of_int (int (length argv) - int arg_index)) m) (\<lambda>m.
       put_all (add_fixed_argument_mem E p) m (drop arg_index argv)))"
proof (cases "arg_index = length argv")
  case True
  show ?thesis
    unfolding if_P [OF True]
    by (rule follows_bind [OF new_fixed_follows [OF assms(1)]], rule add_fixed_follows) simp_all
next
  case False
  show ?thesis
    unfolding if_not_P [OF False]
    by (rule follows_bind [OF new_fixed_follows [OF assms(1)]], rule add_all_fixed_follows)
      (use assms(2) False in simp_all)
qed

lemma create_lists_follows:
  assumes "has_command {Fixed_args} m0 A0 m p v" and "0 < ca_count (cm_fixed_args v)"
  shows "follows (\<lambda>v' (p', m'). \<exists>A. moves m0 A0 m' A \<and> owns_command m' p' v' A)
    (rbind (new_input_args E v) (\<lambda>a.
     rbind (decide_max_length E (v\<lparr>cm_input_args := a\<rparr>) opts) (\<lambda>n.
     rbind (command_args_create_with_capacity E (command_args_count
       (cm_fixed_args (v\<lparr>cm_input_args := a, cm_max_length := n\<rparr>)))) (\<lambda>r.
     Inr (v\<lparr>cm_input_args := a, cm_max_length := n, cm_replaced_fixed_args := r\<rparr>)))))
    (rbind (new_input_args_mem E p m) (\<lambda>m.
     rbind (decide_max_length_mem E p opts m) (\<lambda>n.
     rbind (load_as to_command p m) (\<lambda>cmd.
     rbind (mem_store p (Command (cmd\<lparr>cs_max_length := n\<rparr>)) m) (\<lambda>m.
     rbind (new_replaced_args_mem E p m) (\<lambda>m. Inr (p, m)))))))"
proof (rule follows_bind [OF new_input_follows [OF assms(1)]], simp)
  fix a m1
  let ?K = "{Input_args, Fixed_args}" and ?v = "v\<lparr>cm_input_args := a\<rparr>"
  assume "has_command ?K m0 A0 m1 p ?v"
  then obtain ph q S L where c: "moves m0 A0 m1 (footprint p S L)" "command_parts ?K m1 p ?v ph q S L"
    "load_as to_command p m1 = Inr (command_struct ?v ph q)" by (rule has_commandE)
  have K: "insert Replaced_args ?K = UNIV" using args_field.exhaust by auto
  show "follows (\<lambda>v' (p', m'). \<exists>A. moves m0 A0 m' A \<and> owns_command m' p' v' A)
    (rbind (decide_max_length E ?v opts) (\<lambda>n.
     rbind (command_args_create_with_capacity E (command_args_count
       (cm_fixed_args (?v\<lparr>cm_max_length := n\<rparr>)))) (\<lambda>r.
     Inr (?v\<lparr>cm_max_length := n, cm_replaced_fixed_args := r\<rparr>))))
    (rbind (decide_max_length_mem E p opts m1) (\<lambda>n.
     rbind (load_as to_command p m1) (\<lambda>cmd.
     rbind (mem_store p (Command (cmd\<lparr>cs_max_length := n\<rparr>)) m1) (\<lambda>m.
     rbind (new_replaced_args_mem E p m) (\<lambda>m. Inr (p, m))))))"
    unfolding decide_max_length_same [OF c(2) insertI2 [OF insertI1] insertI1] c(3)
  proof (rule follows_same, simp only: rbind_simps struct_updates)
    fix n
    let ?w = "?v\<lparr>cm_max_length := n\<rparr>"
    obtain m2 where m2: "mem_store p (Command (command_struct ?w ph q)) m1 = Inr m2"
      "moves m0 A0 m2 (footprint p S L)" "command_parts ?K m2 p ?w ph q S L"
      by (rule parts_store [OF c(2,1), where F = "{}" and v' = ?w and q' = q]) auto
    then have "has_command ?K m0 A0 m2 p ?w" by (auto simp: has_command_def)
    from new_replaced_follows [OF this, of E, unfolded K]
    have f: "follows (\<lambda>r m'. has_command UNIV m0 A0 m' p (?w\<lparr>cm_replaced_fixed_args := r\<rparr>))
      (command_args_create_with_capacity E (command_args_count (cm_fixed_args ?w)))
      (new_replaced_args_mem E p m2)" by simp
    show "follows (\<lambda>v' (p', m'). \<exists>A. moves m0 A0 m' A \<and> owns_command m' p' v' A)
      (rbind (command_args_create_with_capacity E (command_args_count (cm_fixed_args ?w))) (\<lambda>r.
       Inr (?w\<lparr>cm_replaced_fixed_args := r\<rparr>)))
      (rbind (mem_store p (Command (command_struct ?w ph q)) m1) (\<lambda>m.
       rbind (new_replaced_args_mem E p m) (\<lambda>m. Inr (p, m))))"
      unfolding m2(1) rbind_simps
      by (rule follows_bind [OF f]) (use assms(2) in \<open>auto dest!: has_command_owns\<close>)
  qed
qed

lemma store_empty_command:
  assumes "moves m0 A0 m (S \<union> {p})" and "S \<inter> {p} = {}" and "p \<noteq> stdin_ptr"
    and "owns_string m ph (cm_arg_placeholder v) S"
  shows "\<exists>m'. mem_store p (Command (command_struct v ph (\<lambda>_. NULL))) m = Inr m' \<and> has_command {} m0 A0 m' p v"
proof -
  let ?o = "Command (command_struct v ph (\<lambda>_. NULL))"
  have X: "S \<union> {p} = footprint p S (\<lambda>_. {})" by (simp add: footprint_def)
  obtain m' where m': "mem_store p ?o m = Inr m'" "moves m0 A0 m' (S \<union> {p})" "m_heap m' p = Some ?o"
    "agree (S \<union> {p} - {p}) m m'" by (rule chain_fill [OF assms(1) _ assms(3)]) auto
  have "owns_string m' ph (cm_arg_placeholder v) S"
    by (rule string.kept [OF assms(4) m'(4)]) (use assms(2) in auto)
  then have "command_parts {} m' p v ph (\<lambda>_. NULL) S (\<lambda>_. {})"
    using m'(3) assms(2,3) by (simp add: command_parts_def apart_def)
  with m' X show ?thesis unfolding has_command_def by metis
qed

lemma command_create_builds:
  assumes ok: "mem_ok m" and i: "arg_index \<le> length argv"
  shows "builds owns_command m (command_create E opts arg_index argv) (command_create_mem E opts arg_index argv m)"
proof -
  have m0: "moves m {} m {}" using ok by (simp add: moves_refl)
  show ?thesis
    unfolding builds_follows command_create_def command_create_mem_def Let_def
    apply (rule follows_bind2 [OF chain_malloc [OF m0]], unfold prod.case, elim conjE)
    apply (rule follows_bind2 [OF chain_builds [OF _ strdup_builds]], assumption, assumption, unfold prod.case,
        erule placedE)
    subgoal premises prems for _ p m1 s ph m2 S
    proof -
      let ?v = "\<lparr>cm_max_lines = options_max_lines_per_command opts,
           cm_max_args = options_max_args_per_command opts, cm_max_length = 0, cm_arg_placeholder = s,
           cm_open_tty = options_open_tty opts, cm_prompt = options_prompt opts,
           cm_trace = options_trace opts,
           cm_terminate_on_too_large_command = options_terminate_on_too_large_command opts,
           cm_line_mode = options_line_mode opts, cm_line_count = 0, cm_env_length = calc_env_length E,
           cm_fixed_args = no_args, cm_input_args = no_args, cm_replaced_fixed_args = no_args\<rparr>"
      have "owns_string m2 ph (cm_arg_placeholder ?v) S" using prems by simp
      from store_empty_command [OF _ _ _ this] prems obtain m3 where m3:
        "mem_store p (Command (command_struct ?v ph (\<lambda>_. NULL))) m2 = Inr m3" "has_command {} m {} m3 p ?v"
        by blast
      show ?thesis
        unfolding m3(1) [unfolded command_struct_def command.simps] rbind_simps
        by (rule follows_bind [OF create_fixed_follows [OF m3(2) i]])
          (use create_lists_follows in simp)
    qed
    done
qed

text \<open>Replacement: each round allocates a string, copies it into the list and releases it.\<close>

lemma str_replace_no_NUL: "str_replace E s p r = Inr (Some t) \<Longrightarrow> 0 \<notin> set t"
  by (auto simp: str_replace_def Let_def rbind_Inr_iff dest: strdup_Some c_string_no_NUL
      split: option.splits if_splits prod.splits)

lemma read_NULL: "mem_ok m \<Longrightarrow> read_string NULL m = Inl Undefined"
  by (simp add: read_string_def load_as_def mem_load_def mem_ok_def split: option.split) (metis less_irrefl option.distinct(1))

lemma read_or_null:
  "mem_ok m \<Longrightarrow> read_string r m = Inr s \<Longrightarrow> read_string_or_null r m = Inr (Some s)"
  "owns_string m ph so S \<Longrightarrow> read_string_or_null ph m = Inr so"
  using read_NULL [of m]
  by (cases "r = NULL", auto simp: read_string_or_null_def owns_string_def read_string_block split: option.splits)

text \<open>A round after the replacement \<open>t\<close> has been placed.\<close>

lemma replace_round:
  assumes m: "moves m0 A0 m (footprint p S L)" and c: "command_parts UNIV m p v ph q S L"
    and n: "mem_new (Chars (c_block t)) m = (r, m1)" and t: "0 \<notin> set t"
  shows "follows (\<lambda>a m'. has_command UNIV m0 A0 m' p (v\<lparr>cm_replaced_fixed_args := a\<rparr>))
    (command_args_add E (cm_replaced_fixed_args v) t)
    (rbind (read_string r m1) (\<lambda>s. rbind (command_args_add_mem E (q Replaced_args) s m1) (\<lambda>m. mem_free r m)))"
proof -
  let ?F = "footprint p S L"
  note r = chain_new [OF m n]
  have c1: "command_parts UNIV m1 p v ph q S L" by (rule parts_kept [OF c r(5)])
  have ok: "mem_ok m1" and d: "?F \<subseteq> dom (m_heap m1)" using r(1) by (simp_all add: moves_def)
  have "follows (\<lambda>a m'. has_command UNIV m0 A0 m' p (v\<lparr>cm_replaced_fixed_args := a\<rparr>))
    (rbind (command_args_add E (field_args Replaced_args v) t) Inr)
    (rbind (command_args_add_mem E (q Replaced_args) t m1) (\<lambda>m. mem_free r m))"
  proof (rule follows_bind [OF add_to_field [OF moves_refl [OF ok d] c1 UNIV_I]])
    fix a m2
    assume "has_command UNIV m1 ?F m2 p (set_args Replaced_args a v)"
    then obtain ph' q' S' L' where h: "moves m1 ?F m2 (footprint p S' L')"
      "command_parts UNIV m2 p (set_args Replaced_args a v) ph' q' S' L'" by (auto simp: has_command_def)
    have "moves m0 A0 m1 (?F \<union> {r})" "?F \<inter> {r} = {}" using r(1,2) by simp_all
    note f = chain_part [OF this h(1)]
    have "moves m0 A0 m2 (insert r (footprint p S' L'))" "r \<notin> footprint p S' L'" "m_heap m2 r = Some (Chars (c_block t))"
      using f r(4) by (auto simp: agree_def)
    from chain_realloc [OF this] obtain m3 where m3: "mem_free r m2 = Inr m3"
      "moves m0 A0 m3 (footprint p S' L')" "agree (footprint p S' L') m2 m3" by auto
    then have "has_command UNIV m0 A0 m3 p (set_args Replaced_args a v)"
      using parts_kept [OF h(2)] unfolding has_command_def by blast
    with m3(1) show "follows (\<lambda>a m'. has_command UNIV m0 A0 m' p (v\<lparr>cm_replaced_fixed_args := a\<rparr>))
        (Inr a) (mem_free r m2)" by simp
  qed
  then show ?thesis using read_string_block [OF t r(4)] by simp
qed

lemma replace_from_follows:
  assumes "has_command UNIV m0 A0 m p v"
  shows "follows (\<lambda>v' m'. has_command UNIV m0 A0 m' p v' \<and> cm_fixed_args v' = cm_fixed_args v)
    (replace_from E v s i) (replace_from_mem E p s i m)"
  using assms
proof (induction E v s i arbitrary: m rule: replace_from.induct)
  case (1 E v s i)
  let ?G = "\<lambda>v' m'. has_command UNIV m0 A0 m' p v' \<and> cm_fixed_args v' = cm_fixed_args v"
  obtain ph q S L where c: "moves m0 A0 m (footprint p S L)" "command_parts UNIV m p v ph q S L"
    "load_as to_command p m = Inr (command_struct v ph q)" by (rule has_commandE [OF 1(2)])
  have ok: "mem_ok m" using c(1) by (simp add: moves_def)
  note f = parts_args [OF c(2), of Fixed_args, simplified]
  show ?case
  proof (cases "i < ca_count (cm_fixed_args v)")
    case False
    with c(3) f(2) 1(2) show ?thesis
      by (simp add: replace_from.simps [of E v s i] replace_from_mem.simps [of E p s i m] command_args_count_def)
  next
    case True
    then obtain r w where w: "command_args_at_mem (q Fixed_args) i m = Inr r"
      "command_args_at (cm_fixed_args v) i = Inr (Some w)" "read_string r m = Inr w"
      using command_args_at_reads [OF f(1), of i] by (metis size_less_unat)
    have ph: "read_string_or_null ph m = Inr (cm_arg_placeholder v)"
      using c(2) by (auto simp: command_parts_def intro: read_or_null(2))
    have eqs: "replace_from E v s i = rbind (str_replace E (Some w) (cm_arg_placeholder v) (Some s)) (\<lambda>replaced.
        rbind (deref replaced) (\<lambda>replaced. rbind (command_args_add E (cm_replaced_fixed_args v) replaced) (\<lambda>a.
        replace_from E (v\<lparr>cm_replaced_fixed_args := a\<rparr>) s (i + 1))))"
      "replace_from_mem E p s i m = rbind (str_replace E (Some w) (cm_arg_placeholder v) (Some s)) (\<lambda>t.
        rbind (case t of None \<Rightarrow> Inr (NULL, m) | Some t \<Rightarrow> Inr (mem_new (Chars (c_block t)) m)) (\<lambda>(r, m).
        rbind (rbind (read_string r m) (\<lambda>s. rbind (command_args_add_mem E (q Replaced_args) s m) (\<lambda>m. mem_free r m)))
          (\<lambda>m. replace_from_mem E p s (i + 1) m)))"
      using True w c(3) f(2) ph read_or_null(1) [OF ok w(3)]
      by (simp_all add: replace_from.simps [of E v s i] replace_from_mem.simps [of E p s i m] command_args_count_def
          str_replace_mem_def rbind_assoc)
    show ?thesis unfolding eqs
    proof (rule follows_same)
      fix t
      assume t: "str_replace E (Some w) (cm_arg_placeholder v) (Some s) = Inr t"
      show "follows ?G (rbind (deref t) (\<lambda>t. rbind (command_args_add E (cm_replaced_fixed_args v) t) (\<lambda>a.
          replace_from E (v\<lparr>cm_replaced_fixed_args := a\<rparr>) s (i + 1))))
        (rbind (case t of None \<Rightarrow> Inr (NULL, m) | Some t \<Rightarrow> Inr (mem_new (Chars (c_block t)) m)) (\<lambda>(r, m).
          rbind (rbind (read_string r m) (\<lambda>s. rbind (command_args_add_mem E (q Replaced_args) s m) (\<lambda>m. mem_free r m)))
            (\<lambda>m. replace_from_mem E p s (i + 1) m)))"
      proof (cases t)
        case (Some u)
        obtain r1 m1 where n: "mem_new (Chars (c_block u)) m = (r1, m1)" by fastforce
        from t Some have "0 \<notin> set u" by (auto dest: str_replace_no_NUL)
        note round = replace_round [OF c(1,2) n this, of E]
        have "follows ?G (rbind (command_args_add E (cm_replaced_fixed_args v) u) (\<lambda>a.
            replace_from E (v\<lparr>cm_replaced_fixed_args := a\<rparr>) s (i + 1)))
          (rbind (rbind (read_string r1 m1) (\<lambda>s. rbind (command_args_add_mem E (q Replaced_args) s m1) (\<lambda>m. mem_free r1 m)))
            (\<lambda>m. replace_from_mem E p s (i + 1) m))"
          by (rule follows_bind [OF round], rule follows_mono [OF 1(1)])
            (use True w(2) t Some in \<open>auto simp: command_args_count_def deref_def\<close>)
        with Some n show ?thesis by (simp add: deref_def)
      qed (simp add: deref_def read_NULL [OF ok])
    qed
  qed
qed

lemma replace_args_updates:
  assumes ok: "mem_ok m" and o: "owns_command m p v A"
  shows "updates owns_command m p A (command_replace_args E v s) (command_replace_args_mem E p s m)"
proof (rule command_updates [OF assms])
  assume "has_command UNIV m A m p v"
  then obtain ph q S L where c: "moves m A m (footprint p S L)" "command_parts UNIV m p v ph q S L"
    "load_as to_command p m = Inr (command_struct v ph q)" by (rule has_commandE)
  have n: "unat (0 :: size_t) < unat (ca_count (cm_fixed_args v))"
    using o by (simp add: owns_command_def size_less_unat)
  from command_args_at_reads [OF parts_args(1) [OF c(2), of Fixed_args, simplified] n]
  obtain r w where w: "command_args_at_mem (q Fixed_args) 0 m = Inr r"
    "command_args_at (cm_fixed_args v) 0 = Inr (Some w)" "read_string r m = Inr w" by blast
  have "follows (\<lambda>v' m'. has_command UNIV m A m' p v' \<and> 0 < ca_count (cm_fixed_args v'))
    (rbind (command_args_add E (field_args Replaced_args v) w) (\<lambda>a.
      replace_from E (v\<lparr>cm_replaced_fixed_args := a\<rparr>) s 1))
    (rbind (command_args_add_mem E (q Replaced_args) w m) (\<lambda>m. replace_from_mem E p s 1 m))"
    by (rule follows_bind [OF add_to_field [OF c(1,2) UNIV_I]], rule follows_mono [OF replace_from_follows])
      (use o in \<open>auto simp: owns_command_def\<close>)
  then show "follows (\<lambda>v' m'. has_command UNIV m A m' p v' \<and> 0 < ca_count (cm_fixed_args v'))
      (command_replace_args E v s) (command_replace_args_mem E p s m)"
    using w c(3) by (simp add: command_replace_args_def command_replace_args_mem_def deref_def)
qed

lemma add_input_updates:
  assumes ok: "mem_ok m" and o: "owns_command m p v A"
  shows "updates owns_command m p A (command_add_input_argument E v s) (command_add_input_argument_mem E p s m)"
proof (rule command_updates [OF assms])
  assume "has_command UNIV m A m p v"
  from add_input_follows [OF this UNIV_I] show "follows (\<lambda>v' m'. has_command UNIV m A m' p v'
      \<and> 0 < ca_count (cm_fixed_args v'))
    (command_add_input_argument E v s) (command_add_input_argument_mem E p s m)"
    by (rule follows_mono) (use o in \<open>simp add: owns_command_def\<close>)
qed

lemma increment_line_count_updates:
  assumes ok: "mem_ok m" and o: "owns_command m p v A"
  shows "updates owns_command m p A (Inr (command_increment_line_count v)) (command_increment_line_count_mem p m)"
proof (rule command_updates [OF assms])
  let ?v = "command_increment_line_count v"
  assume "has_command UNIV m A m p v"
  then obtain ph q S L where c: "moves m A m (footprint p S L)" "command_parts UNIV m p v ph q S L"
    "load_as to_command p m = Inr (command_struct v ph q)" by (rule has_commandE)
  obtain m1 where m1: "mem_store p (Command (command_struct ?v ph q)) m = Inr m1"
    "moves m A m1 (footprint p S L)" "command_parts UNIV m1 p ?v ph q S L"
    by (rule parts_store [OF c(2,1), where F = "{}" and v' = ?v and q' = q])
      (auto simp: command_increment_line_count_def field_args_def split: args_field.split)
  have "cs_line_count (command_struct v ph q) = cm_line_count v" by (simp add: command_struct_def)
  with m1 c(3) o show "follows (\<lambda>v' m'. has_command UNIV m A m' p v' \<and> 0 < ca_count (cm_fixed_args v'))
      (Inr ?v) (command_increment_line_count_mem p m)"
    by (auto simp: command_increment_line_count_mem_def has_command_def owns_command_def
        command_increment_line_count_def)
qed

end
