(* ===== verification/Memory_Mode.thy ===== *)
theory Memory_Mode
  imports Memory_Command
begin

text \<open>
  The objects above the command in memory: the pool (\<^verbatim>\<open>src/process_pool.c\<close>), the argument
  source (\<^verbatim>\<open>src/arg_source.c\<close>), the mode with its implementation (\<^verbatim>\<open>src/xargs_mode.c\<close>,
  \<^verbatim>\<open>src/appender_mode.c\<close>, \<^verbatim>\<open>src/replacer_mode.c\<close>), and \<open>xargs\<close> (\<^verbatim>\<open>src/xargs.c\<close>), with their
  constructors and destructors.
\<close>

section \<open>The pool\<close>

definition process_pool_create_mem :: "platform \<Rightarrow> size_t \<Rightarrow> memory \<Rightarrow> stop + ptr \<times> memory" where
  "process_pool_create_mem E max_procs m =
     rbind (mem_malloc E 48 m) (\<lambda>(p, m).
     let capacity = (if max_procs = 0 then 16 else max_procs) in
     rbind (phxargs_sysconf E SC_CHILD_MAX) (\<lambda>child_max.
     rbind (mem_calloc E Pids 0 capacity 4 m) (\<lambda>(q, m).
     rbind (mem_store p (Pool \<lparr>ps_max_procs = max_procs, ps_capacity = capacity, ps_child_max = child_max,
       ps_count = 0, ps_status = 0, ps_halt = False, ps_pids = q\<rparr>) m) (\<lambda>m.
     Inr (p, m)))))"

definition process_pool_submit_mem :: "platform \<Rightarrow> ptr \<Rightarrow> int \<Rightarrow> memory \<Rightarrow> stop + memory" where
  "process_pool_submit_mem E p pid m =
     rbind (load_as to_pool p m) (\<lambda>pool.
     rbind (if ps_count pool = ps_capacity pool
         then rbind (phxargs_double_capacity (ps_capacity pool)) (\<lambda>capacity.
              rbind (mem_realloc E to_pids Pids 4 (ps_pids pool) (capacity * 4) m) (\<lambda>(q, m).
              Inr (pool\<lparr>ps_capacity := capacity, ps_pids := q\<rparr>, m)))
         else Inr (pool, m)) (\<lambda>(pool, m).
     rbind (load_as to_pids (ps_pids pool) m) (\<lambda>b.
     rbind (blk_store b (unat (ps_count pool)) pid) (\<lambda>b.
     rbind (mem_store (ps_pids pool) (Pids b) m) (\<lambda>m.
     mem_store p (Pool (pool\<lparr>ps_count := ps_count pool + 1\<rparr>)) m)))))"

text \<open>The end of \<open>apply_signal_adjustments\<close>, on values and in memory.\<close>

definition resize_pool :: "platform \<Rightarrow> int \<Rightarrow> process_pool \<Rightarrow> stop + process_pool" where
  "resize_pool E new_max pool =
     rbind (if word_of_int new_max > pl_capacity pool
         then rbind (phxargs_realloc E 4 (pl_pids pool) (word_of_int new_max * 4)) (\<lambda>pids.
              Inr (pool\<lparr>pl_pids := pids, pl_capacity := word_of_int new_max\<rparr>))
         else Inr pool) (\<lambda>pool.
     Inr (pool\<lparr>pl_max_procs := word_of_int new_max\<rparr>))"

definition resize_pool_mem :: "platform \<Rightarrow> ptr \<Rightarrow> int \<Rightarrow> memory \<Rightarrow> stop + memory" where
  "resize_pool_mem E p new_max m =
     rbind (load_as to_pool p m) (\<lambda>pool.
     rbind (if word_of_int new_max > ps_capacity pool
         then rbind (mem_realloc E to_pids Pids 4 (ps_pids pool) (word_of_int new_max * 4) m) (\<lambda>(q, m).
              Inr (pool\<lparr>ps_pids := q, ps_capacity := word_of_int new_max\<rparr>, m))
         else Inr (pool, m)) (\<lambda>(pool, m).
     mem_store p (Pool (pool\<lparr>ps_max_procs := word_of_int new_max\<rparr>)) m))"

definition process_pool_destroy :: "ptr \<Rightarrow> memory \<Rightarrow> stop + memory" where
  "process_pool_destroy p m =
     rbind (load_as to_pool p m) (\<lambda>pool.
     rbind (mem_free (ps_pids pool) m) (\<lambda>m.
     mem_free p m))"

definition pool_struct :: "process_pool \<Rightarrow> ptr \<Rightarrow> process_pool_s" where
  "pool_struct v q = \<lparr>ps_max_procs = pl_max_procs v, ps_capacity = pl_capacity v,
     ps_child_max = pl_child_max v, ps_count = pl_count v, ps_status = pl_status v,
     ps_halt = pl_halt v, ps_pids = q\<rparr>"

definition owns_pool :: "memory \<Rightarrow> ptr \<Rightarrow> process_pool \<Rightarrow> ptr set \<Rightarrow> bool" where
  "owns_pool m p v A \<longleftrightarrow> (\<exists>q. q \<noteq> p \<and> A = {p, q} \<and> m_heap m p = Some (Pool (pool_struct v q))
     \<and> m_heap m q = Some (Pids (pl_pids v)))"

lemma pool_struct_simps [simp]:
  "ps_pids (pool_struct v q) = q" "ps_count (pool_struct v q) = pl_count v"
  "ps_capacity (pool_struct v q) = pl_capacity v" "to_pool (Pool s) = Inr s" "to_pids (Pids b) = Inr b"
  "(pool_struct v q)\<lparr>ps_max_procs := n\<rparr> = pool_struct (v\<lparr>pl_max_procs := n\<rparr>) q"
  by (simp_all add: pool_struct_def to_pool_def to_pids_def)

interpretation pool: owner owns_pool process_pool_destroy
proof
  fix m m' :: memory and p v A
  assume r: "owns_pool m p v A"
  then show "agree A m m' \<Longrightarrow> owns_pool m' p v A" and A: "A \<subseteq> dom (m_heap m)"
    by (auto simp: owns_pool_def agree_def)
  assume ok: "mem_ok m"
  obtain q where q: "q \<noteq> p" "A = {p, q}" "m_heap m p = Some (Pool (pool_struct v q))"
    "m_heap m q = Some (Pids (pl_pids v))" using r by (auto simp: owns_pool_def)
  have "moves m A m (insert q {p})" using moves_refl [OF ok A] q(2) by (simp add: insert_commute)
  from chain_realloc [OF this _ q(4)] q(1) obtain m1 where m1: "mem_free q m = Inr m1"
    "moves m A m1 {p}" "agree {p} m m1" by auto
  then have "m_heap m1 p = m_heap m p" by (simp add: agree_def)
  with chain_realloc [of m A m1 p "{}" "the (m_heap m p)"] m1 q
  show "\<exists>m'. process_pool_destroy p m = Inr m' \<and> moves m A m' {}"
    by (auto simp: process_pool_destroy_def load_as_Some)
qed

lemma pool_create_builds:
  assumes "mem_ok m"
  shows "builds owns_pool m (process_pool_create E n) (process_pool_create_mem E n m)"
proof -
  let ?k = "if n = 0 then 16 else n :: size_t"
  have m0: "moves m {} m {}" using assms by (simp add: moves_refl)
  show ?thesis
    unfolding builds_follows process_pool_create_def process_pool_create_mem_def Let_def
  proof (rule follows_bind2 [OF chain_malloc [OF m0]], unfold prod.case, elim conjE, rule follows_same)
    fix p m1 child_max
    let ?s = "\<lambda>q. Pool \<lparr>ps_max_procs = n, ps_capacity = ?k, ps_child_max = child_max, ps_count = 0,
      ps_status = 0, ps_halt = False, ps_pids = q\<rparr>"
    assume p: "moves m {} m1 {p}" "p \<noteq> stdin_ptr"
    show "follows (\<lambda>v (p, m'). \<exists>A. moves m {} m' A \<and> owns_pool m' p v A)
      (rbind (phxargs_calloc E 0 ?k 4) (\<lambda>pids. Inr \<lparr>pl_max_procs = n, pl_capacity = ?k,
         pl_child_max = child_max, pl_count = 0, pl_status = 0, pl_halt = False, pl_pids = pids,
         pl_sigusr1_count = 0, pl_sigusr2_count = 0, pl_applied_sigusr1 = 0, pl_applied_sigusr2 = 0\<rparr>))
      (rbind (mem_calloc E Pids 0 ?k 4 m1) (\<lambda>(q, m). rbind (mem_store p (?s q) m) (\<lambda>m. Inr (p, m))))"
    proof (cases "phxargs_calloc E (0 :: int) ?k 4")
      case (Inr b)
      obtain q m2 where q: "mem_new (Pids b) m1 = (q, m2)" by fastforce
      note q' = chain_new [OF p(1) q]
      from chain_fill [OF q'(1) _ p(2), of "?s q"] obtain m3 where m3: "mem_store p (?s q) m2 = Inr m3"
        "moves m {} m3 {q, p}" "m_heap m3 p = Some (?s q)" "agree ({q, p} - {p}) m2 m3" by auto
      with q' Inr q show ?thesis
        by (auto simp: mem_calloc_def owns_pool_def pool_struct_def agree_def insert_commute)
    qed (simp add: mem_calloc_def)
  qed
qed

lemma pool_realloc:
  assumes "moves m0 A0 m {p, q}" and "q \<noteq> p" and "m_heap m p = Some (Pool s)" and "m_heap m q = Some (Pids a)"
  shows "follows (\<lambda>b (r, m'). moves m0 A0 m' {p, r} \<and> r \<noteq> p \<and> m_heap m' p = Some (Pool s)
      \<and> m_heap m' r = Some (Pids b))
    (phxargs_realloc E 4 a n) (mem_realloc E to_pids Pids 4 q n m)"
proof (cases "phxargs_realloc E 4 a n")
  case (Inr b)
  have "moves m0 A0 m (insert q {p})" using assms(1) by (simp add: insert_commute)
  from chain_realloc [OF this _ assms(4)] assms(2) obtain m1 where m1: "mem_free q m = Inr m1"
    "moves m0 A0 m1 {p}" "agree {p} m m1" by auto
  obtain r m2 where n: "mem_new (Pids b) m1 = (r, m2)" by fastforce
  from chain_new [OF m1(2) n] show ?thesis
    using Inr assms(3,4) m1(1,3) n by (auto simp: mem_realloc_def load_as_Some agree_def insert_commute)
qed (use assms(4) in \<open>simp add: mem_realloc_def load_as_Some\<close>)

lemma pool_not_stdin: "moves m0 A0 m X \<Longrightarrow> m_heap m p = Some (Pool s) \<Longrightarrow> p \<noteq> stdin_ptr"
  "moves m0 A0 m X \<Longrightarrow> m_heap m p = Some (Pids b) \<Longrightarrow> p \<noteq> stdin_ptr"
  using heap_not_stdin [OF moves_ok(1)] by force+

lemma pool_submit_updates:
  assumes ok: "mem_ok m" and "owns_pool m p v A"
  shows "updates owns_pool m p A (process_pool_submit E v pid) (process_pool_submit_mem E p pid m)"
proof -
  obtain q where q: "q \<noteq> p" "A = {p, q}" "m_heap m p = Some (Pool (pool_struct v q))"
    "m_heap m q = Some (Pids (pl_pids v))" using assms(2) by (auto simp: owns_pool_def)
  have A: "moves m A m {p, q}" using moves_refl [OF ok pool.allocated [OF assms(2)]] q(2) by simp
  let ?R = "\<lambda>v m'. \<exists>A'. moves m A m' A' \<and> owns_pool m' p v A'"
  have finish: "follows ?R (rbind (blk_store (pl_pids w) (unat (pl_count w)) pid) (\<lambda>b.
        Inr (w\<lparr>pl_pids := b, pl_count := pl_count w + 1\<rparr>)))
      (rbind (load_as to_pids r m1) (\<lambda>b. rbind (blk_store b (unat (pl_count w)) pid) (\<lambda>b.
       rbind (mem_store r (Pids b) m1) (\<lambda>m. mem_store p (Pool ((pool_struct w r)\<lparr>ps_count := pl_count w + 1\<rparr>)) m))))"
    if w: "moves m A m1 {p, r}" "r \<noteq> p" "m_heap m1 p = Some (Pool s)" "m_heap m1 r = Some (Pids (pl_pids w))"
    for m1 r w s
  proof (cases "blk_store (pl_pids w) (unat (pl_count w)) pid")
    case (Inr b)
    let ?o = "Pool ((pool_struct w r)\<lparr>ps_count := pl_count w + 1\<rparr>)"
    obtain m2 where m2: "mem_store r (Pids b) m1 = Inr m2" "moves m A m2 {p, r}" "m_heap m2 r = Some (Pids b)"
      by (rule chain_fill [OF w(1) _ pool_not_stdin(2) [OF w(1,4)]]) auto
    obtain m3 where m3: "mem_store p ?o m2 = Inr m3" "moves m A m3 {p, r}" "m_heap m3 p = Some ?o"
      "agree ({p, r} - {p}) m2 m3"
      by (rule chain_fill [OF m2(2) _ pool_not_stdin(1) [OF w(1,3)]]) auto
    show ?thesis
      using Inr w(2,4) m2 m3 by (auto simp: load_as_Some owns_pool_def agree_def pool_struct_def)
  qed (use w(4) in \<open>simp add: load_as_Some\<close>)
  show ?thesis
  proof (cases "pl_count v = pl_capacity v")
    case False
    from finish [OF A q(1,3,4)] False q(3) show ?thesis
      by (simp add: updates_follows process_pool_submit_def process_pool_submit_mem_def load_as_Some)
  next
    case True
    have "follows ?R (rbind (phxargs_realloc E 4 (pl_pids v) (k * 4)) (\<lambda>b.
        rbind (blk_store b (unat (pl_capacity v)) pid) (\<lambda>b.
          Inr (v\<lparr>pl_capacity := k, pl_pids := b, pl_count := pl_capacity v + 1\<rparr>))))
      (rbind (mem_realloc E to_pids Pids 4 q (k * 4) m) (\<lambda>(r, m1).
        rbind (load_as to_pids r m1) (\<lambda>b. rbind (blk_store b (unat (pl_capacity v)) pid) (\<lambda>b.
       rbind (mem_store r (Pids b) m1) (\<lambda>m.
       mem_store p (Pool ((pool_struct v q)\<lparr>ps_capacity := k, ps_pids := r, ps_count := pl_capacity v + 1\<rparr>)) m)))))"
      for k
      by (rule follows_bind2 [OF pool_realloc [OF A q(1,3,4)]], unfold prod.case, elim conjE)
        (use finish [of _ _ _ "v\<lparr>pl_capacity := k, pl_pids := _\<rparr>"] True in
          \<open>simp add: pool_struct_def\<close>)
    then show ?thesis
      using True q(3)
      by (auto simp: updates_follows process_pool_submit_def process_pool_submit_mem_def load_as_Some
          rbind_assoc rbind_prod intro: follows_same)
  qed
qed

lemma pool_resize_updates:
  assumes ok: "mem_ok m" and "owns_pool m p v A"
  shows "updates owns_pool m p A (resize_pool E n v) (resize_pool_mem E p n m)"
proof -
  obtain q where q: "q \<noteq> p" "A = {p, q}" "m_heap m p = Some (Pool (pool_struct v q))"
    "m_heap m q = Some (Pids (pl_pids v))" using assms(2) by (auto simp: owns_pool_def)
  have A: "moves m A m {p, q}" using moves_refl [OF ok pool.allocated [OF assms(2)]] q(2) by simp
  let ?R = "\<lambda>v m'. \<exists>A'. moves m A m' A' \<and> owns_pool m' p v A'" and ?n = "word_of_int n :: size_t"
  have finish: "follows ?R (Inr (w\<lparr>pl_max_procs := ?n\<rparr>)) (mem_store p (Pool ((pool_struct w r)\<lparr>ps_max_procs := ?n\<rparr>)) m1)"
    if w: "moves m A m1 {p, r}" "r \<noteq> p" "m_heap m1 p = Some (Pool s)" "m_heap m1 r = Some (Pids (pl_pids w))"
    for m1 r w s
  proof -
    let ?o = "Pool ((pool_struct w r)\<lparr>ps_max_procs := ?n\<rparr>)"
    obtain m3 where m3: "mem_store p ?o m1 = Inr m3" "moves m A m3 {p, r}" "m_heap m3 p = Some ?o"
      "agree ({p, r} - {p}) m1 m3"
      by (rule chain_fill [OF w(1) _ pool_not_stdin(1) [OF w(1,3)]]) auto
    show ?thesis using w(2,4) m3 by (auto simp: owns_pool_def agree_def)
  qed
  show ?thesis
  proof (cases "?n > pl_capacity v")
    case False
    from finish [OF A q(1,3,4)] False q(3) show ?thesis
      by (simp add: updates_follows resize_pool_def resize_pool_mem_def load_as_Some)
  next
    case True
    have "follows ?R (rbind (phxargs_realloc E 4 (pl_pids v) (?n * 4)) (\<lambda>b.
        Inr (v\<lparr>pl_pids := b, pl_capacity := ?n, pl_max_procs := ?n\<rparr>)))
      (rbind (mem_realloc E to_pids Pids 4 q (?n * 4) m) (\<lambda>(r, m1).
       mem_store p (Pool ((pool_struct v q)\<lparr>ps_pids := r, ps_capacity := ?n, ps_max_procs := ?n\<rparr>)) m1))"
      by (rule follows_bind2 [OF pool_realloc [OF A q(1,3,4)]], unfold prod.case, elim conjE)
        (use finish [of _ _ _ "v\<lparr>pl_pids := _, pl_capacity := ?n\<rparr>"] in \<open>simp add: pool_struct_def\<close>)
    then show ?thesis
      using True q(3)
      by (simp add: updates_follows resize_pool_def resize_pool_mem_def load_as_Some rbind_assoc rbind_prod)
  qed
qed

text \<open>The adjustment of the pool by signals ends in this resize.\<close>

lemma lift_rbind: "lift w (rbind a k) = rbind (lift w a) (\<lambda>x. lift w (k x))"
  by (cases a) simp_all

lemma lift_if: "lift w (if c then a else b) = (if c then lift w a else lift w b)"
  by simp

lemma apply_signal_adjustments_resizes:
  "apply_signal_adjustments E pool w = (case next_signals w of ((before, between), w) \<Rightarrow>
     rbind (deliver_signals w before pool) (\<lambda>pool.
     rbind (lift w (sig_atomic (pl_sigusr1_count pool - pl_applied_sigusr1 pool))) (\<lambda>u1.
     rbind (lift w (sig_atomic (pl_sigusr2_count pool - pl_applied_sigusr2 pool))) (\<lambda>u2.
     rbind (deliver_signals w between pool) (\<lambda>pool.
     if u1 = 0 \<and> u2 = 0 then Inr (pool, w)
     else
       let pool = pool\<lparr>pl_applied_sigusr1 := pl_sigusr1_count pool,
             pl_applied_sigusr2 := pl_sigusr2_count pool\<rparr>
       in if pl_max_procs pool = 0 then Inr (pool, w)
          else
            rbind (lift w (signed_long (sint (pl_max_procs pool) + u1))) (\<lambda>raised.
            rbind (lift w (signed_long (raised - u2))) (\<lambda>new_max.
            let new_max = (if new_max < 1 then 1 else new_max);
                new_max = (if pl_child_max pool > 0 \<and> new_max > pl_child_max pool
                           then pl_child_max pool else new_max)
            in rbind (lift w (resize_pool E new_max pool)) (\<lambda>pool. Inr (pool, w)))))))))"
  unfolding apply_signal_adjustments_def resize_pool_def lift_rbind lift_if lift_simps rbind_assoc rbind_simps ..

section \<open>The argument source\<close>

definition arg_source_open_mem :: "sources \<Rightarrow> cstr option \<Rightarrow> memory \<Rightarrow> stop + ptr \<times> memory" where
  "arg_source_open_mem F path m =
     rbind (arg_source_open F path) (\<lambda>_. Inr (if path = None then (stdin_ptr, m) else mem_new (Stream path) m))"

definition to_stream :: "object \<Rightarrow> stop + cstr option" where
  "to_stream obj = (case obj of Stream path \<Rightarrow> Inr path | _ \<Rightarrow> Inl Undefined)"

definition os_fclose :: "ptr \<Rightarrow> memory \<Rightarrow> stop + memory" where
  "os_fclose p m = rbind (load_as to_stream p m) (\<lambda>_. mem_free p m)"

definition arg_source_close :: "ptr \<Rightarrow> memory \<Rightarrow> stop + memory" where
  "arg_source_close p m = (if p \<noteq> stdin_ptr then os_fclose p m else Inr m)"

text \<open>
  The standard input is used, not owned. What is still to be read of a stream is what is left
  of its file in the sources.
\<close>

definition owns_source :: "sources \<Rightarrow> memory \<Rightarrow> ptr \<Rightarrow> infile \<Rightarrow> ptr set \<Rightarrow> bool" where
  "owns_source F m p f A \<longleftrightarrow> (if p = stdin_ptr then A = {} \<and> sr_stdin F = f
     else A = {p} \<and> (\<exists>path. m_heap m p = Some (Stream (Some path)) \<and> sr_files F path = Some f))"

interpretation src: owner "owns_source F" arg_source_close
proof
  fix m m' :: memory and p f A
  assume r: "owns_source F m p f A"
  then show "agree A m m' \<Longrightarrow> owns_source F m' p f A" and "A \<subseteq> dom (m_heap m)"
    by (auto simp: owns_source_def agree_def split: if_splits)
  assume "mem_ok m"
  with r mem_free_moves [of m p] moves_refl [of m "{}"]
  show "\<exists>m'. arg_source_close p m = Inr m' \<and> moves m A m' {}"
    by (auto simp: owns_source_def arg_source_close_def os_fclose_def load_as_Some to_stream_def split: if_splits)
qed

lemma source_open_builds:
  assumes "mem_ok m"
  shows "builds (owns_source F) m (arg_source_open F path) (arg_source_open_mem F path m)"
proof (cases "arg_source_open F path")
  case (Inr f)
  have m0: "moves m {} m {}" using assms by (simp add: moves_refl)
  obtain p m' where n: "mem_new (Stream path) m = (p, m')" by fastforce
  note p = mem_new_moves [OF assms n]
  have "p \<noteq> stdin_ptr" using p(3) assms by (auto simp: mem_ok_def)
  with p n m0 Inr show ?thesis by (auto simp: arg_source_open_mem_def owns_source_def arg_source_open_def
      split: option.splits)
qed (simp add: arg_source_open_mem_def)

section \<open>The mode\<close>

text \<open>The base of both modes, with the table \<open>ops\<close> and the implementation \<open>impl\<close>.\<close>

definition xargs_mode_create_mem :: "platform \<Rightarrow> sources \<Rightarrow> xargs_mode_ops \<Rightarrow> options \<Rightarrow> nat \<Rightarrow> cstr list
    \<Rightarrow> ptr \<Rightarrow> memory \<Rightarrow> stop + ptr \<times> memory" where
  "xargs_mode_create_mem E F ops opts arg_index argv impl m =
     rbind (mem_malloc E 48 m) (\<lambda>(p, m).
     rbind (arg_source_open_mem F (options_arg_file_path opts) m) (\<lambda>(src, m).
     rbind (command_create_mem E opts arg_index argv m) (\<lambda>(cmd, m).
     rbind (process_pool_create_mem E (options_max_procs opts) m) (\<lambda>(pool, m).
     rbind (load_as to_command cmd m) (\<lambda>c.
     rbind (if options_use_nul_char_as_arg_delimiter opts \<or> options_arg_delimiter opts \<noteq> 0
         then rbind (delim_tokenizer_create_mem E (cs_max_length c) (options_arg_delimiter opts) cmd m)
           (\<lambda>(t, m). rbind (delim_tokenizer_as_tokenizer t m) (\<lambda>t. Inr (t, m)))
         else rbind (space_tokenizer_create_mem E (cs_max_length c)
             (options_logical_end_of_input_marker opts) cmd m)
           (\<lambda>(t, m). rbind (space_tokenizer_as_tokenizer t m) (\<lambda>t. Inr (t, m)))) (\<lambda>(toker, m).
     rbind (mem_store p (Mode \<lparr>ms_ops = ops, ms_arg_source = src, ms_cmd = cmd, ms_toker = toker,
       ms_pool = pool, ms_impl = impl\<rparr>) m) (\<lambda>m.
     Inr (p, m))))))))"

definition appender_mode_destroy_impl :: "ptr \<Rightarrow> memory \<Rightarrow> stop + memory" where
  "appender_mode_destroy_impl impl m = mem_free impl m"

definition replacer_mode_destroy_impl :: "ptr \<Rightarrow> memory \<Rightarrow> stop + memory" where
  "replacer_mode_destroy_impl impl m = mem_free impl m"

text \<open>The entry \<open>destroy_impl\<close> of the two tables.\<close>

definition xargs_mode_destroy_impl :: "xargs_mode_ops \<Rightarrow> ptr \<Rightarrow> memory \<Rightarrow> stop + memory" where
  "xargs_mode_destroy_impl ops = (case ops of
     appender_mode_ops \<Rightarrow> appender_mode_destroy_impl
   | replacer_mode_ops \<Rightarrow> replacer_mode_destroy_impl)"

definition xargs_mode_destroy :: "ptr \<Rightarrow> memory \<Rightarrow> stop + memory" where
  "xargs_mode_destroy p m =
     rbind (load_as to_mode p m) (\<lambda>mode.
     rbind (xargs_mode_destroy_impl (ms_ops mode) (ms_impl mode) m) (\<lambda>m.
     rbind (command_destroy (ms_cmd mode) m) (\<lambda>m.
     rbind (tokenizer_destroy (ms_toker mode) m) (\<lambda>m.
     rbind (process_pool_destroy (ms_pool mode) m) (\<lambda>m.
     rbind (arg_source_close (ms_arg_source mode) m) (\<lambda>m.
     mem_free p m))))))"

definition appender_mode_create_mem :: "platform \<Rightarrow> sources \<Rightarrow> options \<Rightarrow> nat \<Rightarrow> cstr list
    \<Rightarrow> memory \<Rightarrow> stop + ptr \<times> memory" where
  "appender_mode_create_mem E F opts arg_index argv m =
     rbind (mem_malloc E 16 m) (\<lambda>(r, m).
     rbind (xargs_mode_create_mem E F appender_mode_ops opts arg_index argv r m) (\<lambda>(base, m).
     rbind (mem_store r (Appender_mode \<lparr>am_base = base,
       am_suppress_execution_on_empty_input = options_suppress_execution_on_empty_input opts\<rparr>) m) (\<lambda>m.
     Inr (r, m))))"

definition replacer_mode_create_mem :: "platform \<Rightarrow> sources \<Rightarrow> options \<Rightarrow> nat \<Rightarrow> cstr list
    \<Rightarrow> memory \<Rightarrow> stop + ptr \<times> memory" where
  "replacer_mode_create_mem E F opts arg_index argv m =
     rbind (mem_malloc E 8 m) (\<lambda>(r, m).
     rbind (xargs_mode_create_mem E F replacer_mode_ops opts arg_index argv r m) (\<lambda>(base, m).
     rbind (mem_store r (Replacer_mode \<lparr>rm_base = base\<rparr>) m) (\<lambda>m.
     Inr (r, m))))"

definition to_appender :: "object \<Rightarrow> stop + appender_mode_s" where
  "to_appender obj = (case obj of Appender_mode s \<Rightarrow> Inr s | _ \<Rightarrow> Inl Undefined)"

definition to_replacer :: "object \<Rightarrow> stop + replacer_mode_s" where
  "to_replacer obj = (case obj of Replacer_mode s \<Rightarrow> Inr s | _ \<Rightarrow> Inl Undefined)"

definition appender_mode_as_xargs_mode :: "ptr \<Rightarrow> memory \<Rightarrow> stop + ptr" where
  "appender_mode_as_xargs_mode p m = rbind (load_as to_appender p m) (\<lambda>mode. Inr (am_base mode))"

definition replacer_mode_as_xargs_mode :: "ptr \<Rightarrow> memory \<Rightarrow> stop + ptr" where
  "replacer_mode_as_xargs_mode p m = rbind (load_as to_replacer p m) (\<lambda>mode. Inr (rm_base mode))"

definition xargs_mode_impl :: "ptr \<Rightarrow> memory \<Rightarrow> stop + ptr" where
  "xargs_mode_impl p m = rbind (load_as to_mode p m) (\<lambda>mode. Inr (ms_impl mode))"

definition appender_mode_destroy :: "ptr \<Rightarrow> memory \<Rightarrow> stop + memory" where
  "appender_mode_destroy p m = rbind (load_as to_appender p m) (\<lambda>mode. xargs_mode_destroy (am_base mode) m)"

definition replacer_mode_destroy :: "ptr \<Rightarrow> memory \<Rightarrow> stop + memory" where
  "replacer_mode_destroy p m = rbind (load_as to_replacer p m) (\<lambda>mode. xargs_mode_destroy (rm_base mode) m)"

section \<open>What a mode owns\<close>

datatype mode_part = Command_part | Tokenizer_part | Pool_part | Source_part

definition impl_ops :: "mode_impl \<Rightarrow> xargs_mode_ops" where
  "impl_ops i = (case i of Appender _ \<Rightarrow> appender_mode_ops | Replacer \<Rightarrow> replacer_mode_ops)"

definition mode_object :: "mode_impl \<Rightarrow> ptr \<Rightarrow> object" where
  "mode_object i p = (case i of
     Appender b \<Rightarrow> Appender_mode \<lparr>am_base = p, am_suppress_execution_on_empty_input = b\<rparr>
   | Replacer \<Rightarrow> Replacer_mode \<lparr>rm_base = p\<rparr>)"

definition mode_struct :: "mode_impl \<Rightarrow> (mode_part \<Rightarrow> ptr) \<Rightarrow> ptr \<Rightarrow> xargs_mode_s" where
  "mode_struct i q r = \<lparr>ms_ops = impl_ops i, ms_arg_source = q Source_part, ms_cmd = q Command_part,
     ms_toker = q Tokenizer_part, ms_pool = q Pool_part, ms_impl = r\<rparr>"

definition owns_part :: "sources \<Rightarrow> memory \<Rightarrow> xargs_mode \<Rightarrow> (mode_part \<Rightarrow> ptr) \<Rightarrow> mode_part \<Rightarrow> ptr set \<Rightarrow> bool" where
  "owns_part F m v q k A = (case k of
     Command_part \<Rightarrow> owns_command m (q Command_part) (md_cmd v) A
   | Tokenizer_part \<Rightarrow> owns_toker (q Command_part) m (q Tokenizer_part) (md_toker v) A
   | Pool_part \<Rightarrow> owns_pool m (q Pool_part) (md_pool v) A
   | Source_part \<Rightarrow> owns_source F m (q Source_part) (md_arg_source v) A)"

definition mode_parts :: "sources \<Rightarrow> memory \<Rightarrow> ptr \<Rightarrow> ptr \<Rightarrow> xargs_mode \<Rightarrow> (mode_part \<Rightarrow> ptr) \<Rightarrow> (mode_part \<Rightarrow> ptr set) \<Rightarrow> bool" where
  "mode_parts F m p r v q L \<longleftrightarrow> apart p {r} L \<and> p \<noteq> stdin_ptr \<and> r \<noteq> stdin_ptr
     \<and> m_heap m p = Some (Mode (mode_struct (md_impl v) q r)) \<and> m_heap m r = Some (mode_object (md_impl v) p)
     \<and> (\<forall>k. owns_part F m v q k (L k))"

definition owns_mode :: "sources \<Rightarrow> memory \<Rightarrow> ptr \<Rightarrow> xargs_mode \<Rightarrow> ptr set \<Rightarrow> bool" where
  "owns_mode F m p v A \<longleftrightarrow> (\<exists>r q L. A = footprint p {r} L \<and> mode_parts F m p r v q L)"

lemma mode_struct_simps [simp]:
  "ms_ops (mode_struct i q r) = impl_ops i" "ms_arg_source (mode_struct i q r) = q Source_part"
  "ms_cmd (mode_struct i q r) = q Command_part" "ms_toker (mode_struct i q r) = q Tokenizer_part"
  "ms_pool (mode_struct i q r) = q Pool_part" "ms_impl (mode_struct i q r) = r" "to_mode (Mode s) = Inr s"
  by (simp_all add: mode_struct_def to_mode_def)

lemma owns_part_simps [simp]:
  "owns_part F m v q Command_part A = owns_command m (q Command_part) (md_cmd v) A"
  "owns_part F m v q Tokenizer_part A = owns_toker (q Command_part) m (q Tokenizer_part) (md_toker v) A"
  "owns_part F m v q Pool_part A = owns_pool m (q Pool_part) (md_pool v) A"
  "owns_part F m v q Source_part A = owns_source F m (q Source_part) (md_arg_source v) A"
  by (simp_all add: owns_part_def)

lemma part_kept: "owns_part F m v q k A \<Longrightarrow> agree X m m' \<Longrightarrow> A \<subseteq> X \<Longrightarrow> owns_part F m' v q k A"
  by (cases k) (auto elim: cmd.kept toker.kept pool.kept src.kept)

lemma part_allocated: "owns_part F m v q k A \<Longrightarrow> A \<subseteq> dom (m_heap m)"
  by (cases k) (auto dest: cmd.allocated toker.allocated pool.allocated src.allocated)

text \<open>One part changes, the others and the structures stay.\<close>

lemma mode_put:
  assumes "mode_parts F m p r v q L" and "agree (footprint p {r} (L(k := {}))) m m'"
    and "owns_part F m' v' q k Y" and "Y \<inter> footprint p {r} (L(k := {})) = {}"
    and "md_impl v' = md_impl v" and "\<And>j A m. j \<noteq> k \<Longrightarrow> owns_part F m v' q j A = owns_part F m v q j A"
  shows "mode_parts F m' p r v' q (L(k := Y))"
proof -
  have c: "apart p {r} L" "p \<noteq> stdin_ptr" "r \<noteq> stdin_ptr"
    "m_heap m p = Some (Mode (mode_struct (md_impl v) q r))" "m_heap m r = Some (mode_object (md_impl v) p)"
    "\<And>j. owns_part F m v q j (L j)"
    using assms(1) by (auto simp: mode_parts_def)
  have "m_heap m' p = m_heap m p" "m_heap m' r = m_heap m r"
    using agree_heap [OF assms(2), of p] agree_heap [OF assms(2), of r] by (auto simp: footprint_def)
  moreover have "owns_part F m' v' q j (L j)" if "j \<noteq> k" for j
    unfolding assms(6) [OF that] by (rule part_kept [OF c(6) assms(2)]) (use that in \<open>auto simp: footprint_def\<close>)
  ultimately show ?thesis
    using c apart_put [OF c(1) assms(4)] assms(3,5) by (simp add: mode_parts_def)
qed

lemma destroy_impl_frees:
  assumes "moves m0 A0 m (insert r F)" and "r \<notin> F" and "m_heap m r = Some (mode_object i p)"
  shows "\<exists>m'. xargs_mode_destroy_impl (impl_ops i) r m = Inr m' \<and> moves m0 A0 m' F \<and> agree F m m'"
proof -
  have "\<not> is_Stream (mode_object i p)" by (simp add: mode_object_def split: mode_impl.split)
  from chain_realloc [OF assms this] show ?thesis
    by (cases i) (simp_all add: xargs_mode_destroy_impl_def impl_ops_def appender_mode_destroy_impl_def
      replacer_mode_destroy_impl_def)
qed

lemma footprint_all_released:
  "footprint p S (L(Command_part := {}, Tokenizer_part := {}, Pool_part := {}, Source_part := {})) = insert p S"
proof -
  have "(L(Command_part := {}, Tokenizer_part := {}, Pool_part := {}, Source_part := {})) k = {}" for k
    by (cases k) simp_all
  then show ?thesis by (simp add: footprint_def)
qed

lemma part_released: "apart p S L \<Longrightarrow> apart p S (L(k := {}))"
  by (rule apart_put) simp_all

interpretation mode: owner "owns_mode F" xargs_mode_destroy
proof
  fix m m' :: memory and p v A
  assume o: "owns_mode F m p v A"
  then obtain r q L where A: "A = footprint p {r} L" and c: "mode_parts F m p r v q L"
    by (auto simp: owns_mode_def)
  have d: "apart p {r} L" and h: "m_heap m p = Some (Mode (mode_struct (md_impl v) q r))"
    "m_heap m r = Some (mode_object (md_impl v) p)" and parts: "\<And>k. owns_part F m v q k (L k)"
    using c by (auto simp: mode_parts_def)
  show "owns_mode F m' p v A" if g: "agree A m m'"
  proof -
    have "owns_part F m' v q k (L k)" for k
      by (rule part_kept [OF parts g]) (simp add: A in_footprint(3))
    moreover have "m_heap m' p = m_heap m p" "m_heap m' r = m_heap m r"
      using agree_heap [OF g, of p] agree_heap [OF g, of r] by (auto simp: A footprint_def)
    ultimately have "mode_parts F m' p r v q L" using c by (simp add: mode_parts_def)
    with A show ?thesis by (auto simp: owns_mode_def)
  qed
  show A': "A \<subseteq> dom (m_heap m)"
    using h part_allocated [OF parts] by (auto simp: A footprint_def)
  assume "mem_ok m"
  from moves_refl [OF this A'] have m0: "moves m A m (insert r (footprint p {} L))"
    by (simp add: A footprint_def insert_commute)
  have d0: "apart p {} L" "r \<notin> footprint p {} L" using d by (auto simp: apart_def footprint_def)
  obtain m1 where m1: "xargs_mode_destroy_impl (impl_ops (md_impl v)) r m = Inr m1"
    "moves m A m1 (footprint p {} L)" "agree (footprint p {} L) m m1"
    using destroy_impl_frees [OF m0 d0(2) h(2)] by blast
  let ?L1 = "L(Command_part := {})" let ?L2 = "?L1(Tokenizer_part := {})" let ?L3 = "?L2(Pool_part := {})"
  note d1 = part_released [OF d0(1), of Command_part] 
  note d2 = part_released [OF d1, of Tokenizer_part]
  note d3 = part_released [OF d2, of Pool_part]
  have at1: "owns_part F m1 v q k (L k)" for k by (rule part_kept [OF parts m1(3) in_footprint(3)])
  obtain m2 where m2: "command_destroy (q Command_part) m1 = Inr m2" "moves m A m2 (footprint p {} ?L1)"
    "agree (footprint p {} ?L1) m1 m2"
    by (rule cmd.chain_free_part [OF m1(2) footprint_part [OF d0(1)] at1 [of Command_part, unfolded owns_part_simps]])
  have at2: "owns_part F m2 v q k (?L1 k)" if "k \<noteq> Command_part" for k
    by (rule part_kept [OF _ m2(3) in_footprint(3)]) (use at1 that in simp)
  obtain m3 where m3: "tokenizer_destroy (q Tokenizer_part) m2 = Inr m3" "moves m A m3 (footprint p {} ?L2)"
    "agree (footprint p {} ?L2) m2 m3"
    by (rule toker.chain_free_part [OF m2(2) footprint_part [OF d1] at2 [of Tokenizer_part, unfolded owns_part_simps]]) simp_all
  have at3: "owns_part F m3 v q k (?L2 k)" if "k \<noteq> Command_part" "k \<noteq> Tokenizer_part" for k
    by (rule part_kept [OF _ m3(3) in_footprint(3)]) (use at2 [of k] that in simp)
  obtain m4 where m4: "process_pool_destroy (q Pool_part) m3 = Inr m4" "moves m A m4 (footprint p {} ?L3)"
    "agree (footprint p {} ?L3) m3 m4"
    by (rule pool.chain_free_part [OF m3(2) footprint_part [OF d2] at3 [of Pool_part, unfolded owns_part_simps]]) simp_all
  have at4: "owns_part F m4 v q Source_part (?L3 Source_part)"
    by (rule part_kept [OF _ m4(3) in_footprint(3)]) (use at3 [of Source_part] in simp)
  obtain m5 where m5: "arg_source_close (q Source_part) m4 = Inr m5" "moves m A m5 {p}" "agree {p} m4 m5"
    using src.chain_free_part [OF m4(2) footprint_part [OF d3] at4 [unfolded owns_part_simps]]
    unfolding footprint_all_released by blast
  have "agree {p} m m5"
    by (intro agree_step [OF agree_step [OF agree_step [OF agree_step [OF agree_sub [OF m1(3)] m2(3)] m3(3)] m4(3)] m5(3)])
      (simp_all add: in_footprint(1))
  then have "m_heap m5 p = Some (Mode (mode_struct (md_impl v) q r))" using h(1) by (simp add: agree_def)
  with chain_realloc [of m A m5 p "{}"] m5(2) obtain m6 where "mem_free p m5 = Inr m6" "moves m A m6 {}"
    by auto
  with m1(1) m2(1) m3(1) m4(1) m5(1) h(1) show "\<exists>m'. xargs_mode_destroy p m = Inr m' \<and> moves m A m' {}"
    by (simp add: xargs_mode_destroy_def load_as_Some)
qed

text \<open>
  The cast in \<^verbatim>\<open>appender_mode_run\<close>, and the destructors of the two modes.
\<close>

lemma xargs_mode_impl_typed:
  assumes "owns_mode F m p v A"
  shows "\<exists>r. xargs_mode_impl p m = Inr r \<and> (case md_impl v of
      Appender b \<Rightarrow> load_as to_appender r m = Inr \<lparr>am_base = p, am_suppress_execution_on_empty_input = b\<rparr>
        \<and> appender_mode_destroy r m = xargs_mode_destroy p m
    | Replacer \<Rightarrow> load_as to_replacer r m = Inr \<lparr>rm_base = p\<rparr> \<and> replacer_mode_destroy r m = xargs_mode_destroy p m)"
  using assms by (auto simp: owns_mode_def mode_parts_def xargs_mode_impl_def load_as_Some mode_object_def
      to_appender_def to_replacer_def appender_mode_destroy_def replacer_mode_destroy_def split: mode_impl.split)

section \<open>The constructors follow their values\<close>

text \<open>The tokenizer of the mode.\<close>

lemma toker_create_builds:
  assumes "mem_ok m"
  shows "builds (owns_toker ctx) m
    (if c then rbind (delim_tokenizer_create E n d) (\<lambda>t. Inr (Delim t))
     else rbind (space_tokenizer_create E n e) (\<lambda>t. Inr (Space t)))
    (if c then rbind (delim_tokenizer_create_mem E n d ctx m)
       (\<lambda>(t, m). rbind (delim_tokenizer_as_tokenizer t m) (\<lambda>t. Inr (t, m)))
     else rbind (space_tokenizer_create_mem E n e ctx m)
       (\<lambda>(t, m). rbind (space_tokenizer_as_tokenizer t m) (\<lambda>t. Inr (t, m))))"
  using space_create_builds [OF assms] delim_create_builds [OF assms] by simp

lemma owns_command_max_length:
  "owns_command m p v A \<Longrightarrow> \<exists>c. load_as to_command p m = Inr c \<and> cs_max_length c = command_max_length v"
  by (auto simp: owns_command_def load_as_Some [OF parts_struct] command_struct_def command_max_length_def)

text \<open>
  The mode after its construction: the implementation at \<open>r\<close>, allocated by the caller, still
  has to be filled in.
\<close>

definition built_mode :: "sources \<Rightarrow> memory \<Rightarrow> ptr \<Rightarrow> memory \<Rightarrow> ptr \<Rightarrow> xargs_mode \<Rightarrow> bool" where
  "built_mode F m0 r m p v \<longleftrightarrow> (\<exists>q L. moves m0 {} m (footprint p {r} L) \<and> apart p {r} L \<and> p \<noteq> stdin_ptr
     \<and> m_heap m p = Some (Mode (mode_struct (md_impl v) q r)) \<and> (\<forall>k. owns_part F m v q k (L k)))"

lemma mode_create_finish:
  assumes p: "p \<noteq> r" "p \<noteq> stdin_ptr"
    and S: "S \<inter> {p, r} = {}" "owns_source F m1 src f S"
    and C: "C \<inter> (S \<union> {p, r}) = {}" "agree (S \<union> {p, r}) m1 m2" "owns_command m2 cmd c C"
    and P: "P \<inter> (C \<union> (S \<union> {p, r})) = {}" "agree (C \<union> (S \<union> {p, r})) m2 m3" "owns_pool m3 pl pool P"
    and T: "moves m0 {} m4 (T \<union> (P \<union> (C \<union> (S \<union> {p, r}))))" "T \<inter> (P \<union> (C \<union> (S \<union> {p, r}))) = {}"
      "agree (P \<union> (C \<union> (S \<union> {p, r}))) m3 m4" "owns_toker cmd m4 t k T"
  shows "\<exists>m5. mem_store p (Mode \<lparr>ms_ops = impl_ops i, ms_arg_source = src, ms_cmd = cmd, ms_toker = t,
       ms_pool = pl, ms_impl = r\<rparr>) m4 = Inr m5
    \<and> built_mode F m0 r m5 p \<lparr>md_impl = i, md_arg_source = f, md_cmd = c, md_toker = k, md_pool = pool\<rparr>"
proof -
  let ?X = "T \<union> (P \<union> (C \<union> (S \<union> {p, r})))"
  let ?q = "case_mode_part cmd t pl src" and ?L = "case_mode_part C T P S"
  let ?v = "\<lparr>md_impl = i, md_arg_source = f, md_cmd = c, md_toker = k, md_pool = pool\<rparr>"
  let ?o = "Mode (mode_struct i ?q r)"
  obtain m5 where m5: "mem_store p ?o m4 = Inr m5" "moves m0 {} m5 ?X" "m_heap m5 p = Some ?o"
    "agree (?X - {p}) m4 m5" by (rule chain_fill [OF T(1) _ p(2)]) auto
  have d: "apart p {r} ?L"
    using p S(1) C(1) P(1) T(2) by (auto simp: apart_def split: mode_part.split)
  have "(\<Union>k. ?L k) = C \<union> T \<union> P \<union> S" by (auto split: mode_part.splits)
  then have X: "?X = footprint p {r} ?L" by (auto simp: footprint_def)
  have sub: "?L k \<subseteq> ?X - {p}" for k
    using d unfolding X by (auto simp: apart_def footprint_def)
  have "owns_source F m4 src f S"
    by (rule src.kept [OF src.kept [OF src.kept [OF S(2) C(2)] P(2)] T(3)]) auto
  moreover have "owns_command m4 cmd c C" by (rule cmd.kept [OF cmd.kept [OF C(3) P(2)] T(3)]) auto
  moreover have "owns_pool m4 pl pool P" by (rule pool.kept [OF P(3) T(3)]) auto
  ultimately have "owns_part F m4 ?v ?q k (?L k)" for k using T(4) by (cases k) simp_all
  then have "owns_part F m5 ?v ?q k (?L k)" for k by (rule part_kept [OF _ m5(4) sub])
  then have "built_mode F m0 r m5 p ?v"
    unfolding built_mode_def using m5(2) [unfolded X] m5(3) d p(2)
    by (intro exI [of _ ?q] exI [of _ ?L]) simp
  with m5(1) show ?thesis by (auto simp: mode_struct_def)
qed

lemma mode_create_follows:
  assumes m: "moves m0 {} m {r}" and i: "arg_index \<le> length argv"
  shows "follows (\<lambda>v (p, m'). md_impl v = i \<and> built_mode F m0 r m' p v)
    (xargs_mode_create E F i opts arg_index argv)
    (xargs_mode_create_mem E F (impl_ops i) opts arg_index argv r m)"
  unfolding xargs_mode_create_def xargs_mode_create_mem_def
  apply (rule follows_bind2 [OF chain_malloc [OF m]], unfold prod.case, elim conjE)
  apply (rule follows_bind2 [OF chain_builds [OF _ source_open_builds]], assumption, assumption, unfold prod.case, erule placedE)
  apply (rule follows_bind2 [OF chain_builds [OF _ command_create_builds [OF _ assms(2)]]], assumption, assumption,
      unfold prod.case, erule placedE)
  apply (rule follows_bind2 [OF chain_builds [OF _ pool_create_builds]], assumption, assumption, unfold prod.case, erule placedE)
  subgoal premises prems for _ p m1 f src m2 S c cmd m3 C pool pl m4 P
  proof -
    have "owns_command m4 cmd c C" by (rule cmd.kept [OF prems(12,15)]) auto
    then obtain cs where cs: "load_as to_command cmd m4 = Inr cs" "cs_max_length cs = command_max_length c"
      using owns_command_max_length by blast
    show ?thesis
      unfolding cs rbind_simps
      apply (rule follows_bind2 [OF chain_builds [OF prems(13) toker_create_builds]], assumption, unfold prod.case, erule placedE)
      subgoal for k t m5 T
        using mode_create_finish [of p r S F m2 src f C m3 cmd c P m4 pl pool m0 m5 T t k i] prems by force
      done
  qed
  done

lemma fill_mode:
  assumes "built_mode F m0 r m p v" and "r \<noteq> stdin_ptr"
  shows "\<exists>m' A. mem_store r (mode_object (md_impl v) p) m = Inr m' \<and> moves m0 {} m' A \<and> owns_mode F m' p v A
    \<and> m_heap m' r = Some (mode_object (md_impl v) p)"
proof -
  obtain q L where b: "moves m0 {} m (footprint p {r} L)" "apart p {r} L" "p \<noteq> stdin_ptr"
    "m_heap m p = Some (Mode (mode_struct (md_impl v) q r))" "\<And>k. owns_part F m v q k (L k)"
    using assms(1) by (auto simp: built_mode_def)
  have r: "r \<in> footprint p {r} L" by (simp add: footprint_def)
  obtain m' where m': "mem_store r (mode_object (md_impl v) p) m = Inr m'" "moves m0 {} m' (footprint p {r} L)"
    "m_heap m' r = Some (mode_object (md_impl v) p)" "agree (footprint p {r} L - {r}) m m'"
    by (rule chain_fill [OF b(1) r assms(2)])
  have "L k \<subseteq> footprint p {r} L - {r}" for k using b(2) by (auto simp: apart_def footprint_def)
  then have "owns_part F m' v q k (L k)" for k by (rule part_kept [OF b(5) m'(4)])
  moreover have "m_heap m' p = m_heap m p"
    by (rule agree_heap [OF m'(4)]) (use b(2) in \<open>auto simp: apart_def footprint_def\<close>)
  ultimately have "mode_parts F m' p r v q L" using b m'(3) assms(2) by (simp add: mode_parts_def)
  with m' show ?thesis unfolding owns_mode_def by blast
qed

lemma appender_create_builds:
  assumes ok: "mem_ok m" and i: "arg_index \<le> length argv"
  shows "builds (owns_mode F) m (appender_mode_create E F opts arg_index argv)
    (rbind (appender_mode_create_mem E F opts arg_index argv m) (\<lambda>(r, m).
     rbind (appender_mode_as_xargs_mode r m) (\<lambda>p. Inr (p, m))))"
proof -
  have m0: "moves m {} m {}" using ok by (simp add: moves_refl)
  let ?i = "Appender (options_suppress_execution_on_empty_input opts)"
  have "follows (\<lambda>v (p, m'). \<exists>A. moves m {} m' A \<and> owns_mode F m' p v A)
    (rbind (phxargs_malloc E 16 :: stop + byte block) (\<lambda>_. rbind (xargs_mode_create E F ?i opts arg_index argv) Inr))
    (rbind (appender_mode_create_mem E F opts arg_index argv m) (\<lambda>(r, m).
     rbind (appender_mode_as_xargs_mode r m) (\<lambda>p. Inr (p, m))))"
    unfolding appender_mode_create_mem_def rbind_assoc rbind_prod
    apply (rule follows_bind2 [OF chain_malloc [OF m0]], unfold prod.case, elim conjE)
    apply (rule follows_bind2 [OF mode_create_follows [OF _ i, where i = ?i, unfolded impl_ops_def mode_impl.case]],
        assumption, unfold prod.case, elim conjE)
    subgoal for _ r m1 v p m2
      using fill_mode [of F m r m2 p v]
      by (auto simp: mode_object_def appender_mode_as_xargs_mode_def load_as_Some to_appender_def)
    done
  then show ?thesis by (simp add: builds_follows appender_mode_create_def)
qed

lemma replacer_create_builds:
  assumes ok: "mem_ok m" and i: "arg_index \<le> length argv"
  shows "builds (owns_mode F) m (replacer_mode_create E F opts arg_index argv)
    (rbind (replacer_mode_create_mem E F opts arg_index argv m) (\<lambda>(r, m).
     rbind (replacer_mode_as_xargs_mode r m) (\<lambda>p. Inr (p, m))))"
proof -
  have m0: "moves m {} m {}" using ok by (simp add: moves_refl)
  have "follows (\<lambda>v (p, m'). \<exists>A. moves m {} m' A \<and> owns_mode F m' p v A)
    (rbind (phxargs_malloc E 8 :: stop + byte block) (\<lambda>_. rbind (xargs_mode_create E F Replacer opts arg_index argv) Inr))
    (rbind (replacer_mode_create_mem E F opts arg_index argv m) (\<lambda>(r, m).
     rbind (replacer_mode_as_xargs_mode r m) (\<lambda>p. Inr (p, m))))"
    unfolding replacer_mode_create_mem_def rbind_assoc rbind_prod
    apply (rule follows_bind2 [OF chain_malloc [OF m0]], unfold prod.case, elim conjE)
    apply (rule follows_bind2 [OF mode_create_follows [OF _ i, where i = Replacer, unfolded impl_ops_def mode_impl.case]],
        assumption, unfold prod.case, elim conjE)
    subgoal for _ r m1 v p m2
      using fill_mode [of F m r m2 p v]
      by (auto simp: mode_object_def replacer_mode_as_xargs_mode_def load_as_Some to_replacer_def)
    done
  then show ?thesis by (simp add: builds_follows replacer_mode_create_def)
qed

end
