(* ===== verification/Memory_Xargs.thy ===== *)
theory Memory_Xargs
  imports Memory_Mode Command_Create
begin

text \<open>
  The whole object graph: \<open>options\<close> while it lives (\<^verbatim>\<open>src/options.c\<close>), \<open>xargs\<close> with its mode
  (\<^verbatim>\<open>src/xargs.c\<close>), how it is created and destroyed.
\<close>

section \<open>Construction and destruction\<close>

definition to_options :: "object \<Rightarrow> stop + options" where
  "to_options obj = (case obj of Options s \<Rightarrow> Inr s | _ \<Rightarrow> Inl Undefined)"

definition options_create_mem :: "platform \<Rightarrow> cstr list \<Rightarrow> memory \<Rightarrow> stop + ptr \<times> memory" where
  "options_create_mem E argv m =
     rbind (mem_malloc E 96 m) (\<lambda>(p, m).
     rbind (configure_options E init_options argv) (\<lambda>opts.
     rbind (mem_store p (Options opts) m) (\<lambda>m.
     Inr (p, m))))"

definition options_destroy :: "ptr \<Rightarrow> memory \<Rightarrow> stop + memory" where
  "options_destroy p m = mem_free p m"

definition xargs_create_mem :: "platform \<Rightarrow> sources \<Rightarrow> cstr list \<Rightarrow> memory \<Rightarrow> stop + ptr \<times> memory" where
  "xargs_create_mem E F argv m =
     rbind (options_create_mem E argv m) (\<lambda>(o', m).
     rbind (load_as to_options o' m) (\<lambda>opts.
     let arg_index = options_index_of_first_arg opts in
     rbind (mem_malloc E 8 m) (\<lambda>(x, m).
     rbind (if options_arg_placeholder opts = None
         then rbind (appender_mode_create_mem E F opts arg_index argv m) (\<lambda>(r, m).
              rbind (appender_mode_as_xargs_mode r m) (\<lambda>p. Inr (p, m)))
         else rbind (replacer_mode_create_mem E F opts arg_index argv m) (\<lambda>(r, m).
              rbind (replacer_mode_as_xargs_mode r m) (\<lambda>p. Inr (p, m)))) (\<lambda>(p, m).
     rbind (mem_store x (Xargs \<lparr>xs_mode = p\<rparr>) m) (\<lambda>m.
     rbind (options_destroy o' m) (\<lambda>m.
     Inr (x, m)))))))"

definition xargs_destroy :: "ptr \<Rightarrow> memory \<Rightarrow> stop + memory" where
  "xargs_destroy x m =
     rbind (load_as to_xargs x m) (\<lambda>s.
     rbind (xargs_mode_destroy (xs_mode s) m) (\<lambda>m.
     mem_free x m))"

definition owns_xargs :: "sources \<Rightarrow> memory \<Rightarrow> ptr \<Rightarrow> xargs_mode \<Rightarrow> ptr set \<Rightarrow> bool" where
  "owns_xargs F m x v A \<longleftrightarrow> (\<exists>p B. A = insert x B \<and> x \<notin> B \<and> x \<noteq> stdin_ptr
     \<and> m_heap m x = Some (Xargs \<lparr>xs_mode = p\<rparr>) \<and> owns_mode F m p v B)"

lemma to_xargs_simp [simp]: "to_xargs (Xargs s) = Inr s"
  by (simp add: to_xargs_def)

interpretation xargs: owner "owns_xargs F" xargs_destroy
proof
  fix m m' :: memory and x v A
  assume "owns_xargs F m x v A"
  then obtain p B where o: "A = insert x B" "x \<notin> B" "x \<noteq> stdin_ptr" "m_heap m x = Some (Xargs \<lparr>xs_mode = p\<rparr>)"
    "owns_mode F m p v B" by (auto simp: owns_xargs_def)
  show "owns_xargs F m' x v A" if g: "agree A m m'"
  proof -
    have "owns_mode F m' p v B" by (rule mode.kept [OF o(5) g]) (simp add: o(1) subset_insertI)
    with o agree_heap [OF g, of x] show ?thesis by (auto simp: owns_xargs_def)
  qed
  show A: "A \<subseteq> dom (m_heap m)" using o(1,4) mode.allocated [OF o(5)] by auto
  assume "mem_ok m"
  from moves_refl [OF this A] have "moves m A m (B \<union> {x})" using o(1) by simp
  from mode.chain_release [OF this _ o(5)] o(2) obtain m1 where m1: "xargs_mode_destroy p m = Inr m1"
    "moves m A m1 {x}" "agree {x} m m1" by auto
  with chain_realloc [of m A m1 x "{}" "Xargs \<lparr>xs_mode = p\<rparr>"] o(4)
  show "\<exists>m'. xargs_destroy x m = Inr m' \<and> moves m A m' {}"
    by (auto simp: xargs_destroy_def load_as_Some agree_def)
qed

text \<open>\<open>xargs_create\<close> without the signal handlers, which touch no object.\<close>

definition xargs_value :: "platform \<Rightarrow> sources \<Rightarrow> cstr list \<Rightarrow> stop + xargs_mode" where
  "xargs_value E F argv =
     rbind (options_create E argv) (\<lambda>opts.
     rbind (phxargs_malloc E 8 :: stop + byte block) (\<lambda>_.
     if options_arg_placeholder opts = None
     then appender_mode_create E F opts (options_index_of_first_arg opts) argv
     else replacer_mode_create E F opts (options_index_of_first_arg opts) argv))"

lemma xargs_create_value:
  "xargs_create E F argv w = (let w = process_pool_install_signal_handlers w in
     rbind (lift w (xargs_value E F argv)) (\<lambda>x. Inr (x, w)))"
  unfolding xargs_create_def xargs_value_def Let_def lift_rbind rbind_assoc ..

lemma options_create_follows:
  assumes "mem_ok m"
  shows "follows (\<lambda>opts (p, m'). moves m {} m' {p} \<and> m_heap m' p = Some (Options opts) \<and> p \<noteq> stdin_ptr)
    (options_create E argv) (options_create_mem E argv m)"
proof -
  have m0: "moves m {} m {}" using assms by (simp add: moves_refl)
  have "follows (\<lambda>opts (p, m'). moves m {} m' {p} \<and> m_heap m' p = Some (Options opts) \<and> p \<noteq> stdin_ptr)
    (rbind (phxargs_malloc E 96 :: stop + byte block) (\<lambda>_. rbind (configure_options E init_options argv) Inr))
    (options_create_mem E argv m)"
    unfolding options_create_mem_def
    apply (rule follows_bind2 [OF chain_malloc [OF m0]], unfold prod.case, elim conjE)
    apply (rule follows_same)
    subgoal for _ p m1 opts
      using chain_store [of m "{}" m1 "{p}" p "Options opts"] by auto
    done
  then show ?thesis by (simp add: options_create_def)
qed

lemma xargs_create_finish:
  assumes B: "moves m0 {} m (B \<union> {x, k})" "B \<inter> {x, k} = {}" "owns_mode F m p v B"
    and x: "x \<noteq> k" "x \<noteq> stdin_ptr" and k: "m_heap m k = Some (Options opts)"
  shows "\<exists>m1 m2 A. mem_store x (Xargs \<lparr>xs_mode = p\<rparr>) m = Inr m1 \<and> options_destroy k m1 = Inr m2
    \<and> moves m0 {} m2 A \<and> owns_xargs F m2 x v A"
proof -
  obtain m1 where m1: "mem_store x (Xargs \<lparr>xs_mode = p\<rparr>) m = Inr m1" "moves m0 {} m1 (B \<union> {x, k})"
    "m_heap m1 x = Some (Xargs \<lparr>xs_mode = p\<rparr>)" "agree (B \<union> {x, k} - {x}) m m1"
    by (rule chain_fill [OF B(1) _ x(2)]) auto
  have "moves m0 {} m1 (insert k (insert x B))" "k \<notin> insert x B" "m_heap m1 k = Some (Options opts)"
    using m1(2,4) B(2) x(1) k by (auto simp: agree_def insert_commute)
  from chain_realloc [OF this] obtain m2 where m2: "mem_free k m1 = Inr m2" "moves m0 {} m2 (insert x B)"
    "agree (insert x B) m1 m2" by auto
  have "owns_mode F m2 p v B"
    by (rule mode.kept [OF mode.kept [OF B(3) m1(4)] m2(3)]) (use B(2) in auto)
  then have "owns_xargs F m2 x v (insert x B)"
    using B(2) x(2) m1(3) agree_heap [OF m2(3), of x] by (auto simp: owns_xargs_def)
  with m1(1) m2 show ?thesis by (auto simp: options_destroy_def)
qed

lemma xargs_create_builds:
  assumes ok: "mem_ok m" and argv: "\<forall>a \<in> set argv. arg_ok a" "argv \<noteq> []"
  shows "builds (owns_xargs F) m (xargs_value E F argv) (xargs_create_mem E F argv m)"
proof -
  let ?R = "\<lambda>v (x, m'). \<exists>A. moves m {} m' A \<and> owns_xargs F m' x v A"
  have "follows ?R (rbind (options_create E argv) (\<lambda>opts.
      rbind (phxargs_malloc E 8 :: stop + byte block) (\<lambda>_.
      rbind (if options_arg_placeholder opts = None
        then appender_mode_create E F opts (options_index_of_first_arg opts) argv
        else replacer_mode_create E F opts (options_index_of_first_arg opts) argv) Inr)))
    (xargs_create_mem E F argv m)"
    unfolding xargs_create_mem_def Let_def
  proof (rule follows_bind [OF options_create_follows [OF ok]], clarify)
    fix opts k m1
    assume v: "options_create E argv = Inr opts" and k: "moves m {} m1 {k}" "m_heap m1 k = Some (Options opts)"
      "k \<noteq> stdin_ptr"
    from options_create_strings [OF argv v] have i: "options_index_of_first_arg opts \<le> length argv"
      by (simp add: options_index_of_first_arg_def)
    have opts: "load_as to_options k m1 = Inr opts" by (simp add: load_as_Some [OF k(2)] to_options_def)
    let ?mk = "\<lambda>m. if options_arg_placeholder opts = None
         then rbind (appender_mode_create_mem E F opts (options_index_of_first_arg opts) argv m) (\<lambda>(r, m).
              rbind (appender_mode_as_xargs_mode r m) (\<lambda>p. Inr (p, m)))
         else rbind (replacer_mode_create_mem E F opts (options_index_of_first_arg opts) argv m) (\<lambda>(r, m).
              rbind (replacer_mode_as_xargs_mode r m) (\<lambda>p. Inr (p, m)))"
    have mk: "mem_ok m \<Longrightarrow> builds (owns_mode F) m (if options_arg_placeholder opts = None
        then appender_mode_create E F opts (options_index_of_first_arg opts) argv
        else replacer_mode_create E F opts (options_index_of_first_arg opts) argv) (?mk m)" for m
      using appender_create_builds [OF _ i] replacer_create_builds [OF _ i] by simp
    show "follows ?R (rbind (phxargs_malloc E 8 :: stop + byte block) (\<lambda>_.
        rbind (if options_arg_placeholder opts = None
          then appender_mode_create E F opts (options_index_of_first_arg opts) argv
          else replacer_mode_create E F opts (options_index_of_first_arg opts) argv) Inr))
      (rbind (load_as to_options k m1) (\<lambda>opts. rbind (mem_malloc E 8 m1) (\<lambda>(x, m).
       rbind (if options_arg_placeholder opts = None
         then rbind (appender_mode_create_mem E F opts (options_index_of_first_arg opts) argv m) (\<lambda>(r, m).
              rbind (appender_mode_as_xargs_mode r m) (\<lambda>p. Inr (p, m)))
         else rbind (replacer_mode_create_mem E F opts (options_index_of_first_arg opts) argv m) (\<lambda>(r, m).
              rbind (replacer_mode_as_xargs_mode r m) (\<lambda>p. Inr (p, m)))) (\<lambda>(p, m).
       rbind (mem_store x (Xargs \<lparr>xs_mode = p\<rparr>) m) (\<lambda>m.
       rbind (options_destroy k m) (\<lambda>m. Inr (x, m)))))))"
      unfolding opts rbind_simps
      apply (rule follows_bind2 [OF chain_malloc [OF k(1)]], unfold prod.case, elim conjE)
      apply (rule follows_bind2 [OF chain_builds [OF _ mk]], assumption, assumption, unfold prod.case, erule placedE)
      subgoal for _ x m2 v p m3 B
        using xargs_create_finish [of m m3 B x k F p v opts] k(2)
        by (auto simp: agree_def)
      done
  qed
  then show ?thesis by (simp add: builds_follows xargs_value_def)
qed

end
