(* ===== verification/Memory_Steps.thy ===== *)
theory Memory_Steps
  imports Memory_Xargs
begin

text \<open>
  What holds of the objects at every moment of a run: each pointer leads to an object of the
  type its structure names, and everything that was allocated can be reached from \<open>xargs\<close>.
  The run is any sequence of the operations that touch memory.
\<close>

section \<open>Typed objects\<close>

text \<open>The pointers of an object.\<close>

fun fields :: "object \<Rightarrow> ptr list" where
  "fields (Chars _) = []"
| "fields (Pointers b) = map (case_option NULL id) b"
| "fields (Pids _) = []"
| "fields (Stream _) = []"
| "fields (Buffer s) = [bs_buf s]"
| "fields (Args s) = [as_args s]"
| "fields (Command s) = [cs_arg_placeholder s, cs_fixed_args s, cs_input_args s, cs_replaced_fixed_args s]"
| "fields (Tokenizer s) = [ts_buf s, ts_impl s]"
| "fields (Space_tokenizer s) = [ss_base s, ss_logical_end_of_input_marker s, ss_on_input_boundary_ctx s]"
| "fields (Delim_tokenizer s) = [ds_base s, ds_on_input_boundary_ctx s]"
| "fields (Pool s) = [ps_pids s]"
| "fields (Mode s) = [ms_arg_source s, ms_cmd s, ms_toker s, ms_pool s, ms_impl s]"
| "fields (Appender_mode s) = [am_base s]"
| "fields (Replacer_mode s) = [rm_base s]"
| "fields (Xargs s) = [xs_mode s]"
| "fields (Options _) = []"

definition points :: "(object \<Rightarrow> stop + 'a) \<Rightarrow> memory \<Rightarrow> ptr \<Rightarrow> bool" where
  "points view m p \<longleftrightarrow> \<not> isl (load_as view p m)"

text \<open>
  The types of the pointers. An implementation is of the type its table of operations
  expects, and the context of a tokenizer's callback is a command. An \<open>options\<close> object has no
  place among the others.
\<close>

fun typed :: "memory \<Rightarrow> object \<Rightarrow> bool" where
  "typed m (Chars _) = True"
| "typed m (Pointers _) = True"
| "typed m (Pids _) = True"
| "typed m (Stream _) = True"
| "typed m (Buffer s) = points to_chars m (bs_buf s)"
| "typed m (Args s) = (case load_as to_pointers (as_args s) m of Inl _ \<Rightarrow> False
     | Inr b \<Rightarrow> unat (as_count s) \<le> length b
         \<and> list_all (\<lambda>q. case q of None \<Rightarrow> False | Some q \<Rightarrow> points to_chars m q) (take (unat (as_count s)) b))"
| "typed m (Command s) = ((cs_arg_placeholder s = NULL \<or> points to_chars m (cs_arg_placeholder s))
     \<and> points to_args m (cs_fixed_args s) \<and> points to_args m (cs_input_args s)
     \<and> points to_args m (cs_replaced_fixed_args s))"
| "typed m (Tokenizer s) = (points to_buffer m (ts_buf s) \<and> (case ts_ops s of
       space_tokenizer_ops \<Rightarrow> points to_space m (ts_impl s)
     | delim_tokenizer_ops \<Rightarrow> points to_delim m (ts_impl s)))"
| "typed m (Space_tokenizer s) = (points to_tokenizer m (ss_base s)
     \<and> (ss_logical_end_of_input_marker s = NULL \<or> points to_chars m (ss_logical_end_of_input_marker s))
     \<and> points to_command m (ss_on_input_boundary_ctx s))"
| "typed m (Delim_tokenizer s) = (points to_tokenizer m (ds_base s)
     \<and> points to_command m (ds_on_input_boundary_ctx s))"
| "typed m (Pool s) = points to_pids m (ps_pids s)"
| "typed m (Mode s) = (points to_stream m (ms_arg_source s) \<and> points to_command m (ms_cmd s)
     \<and> points to_tokenizer m (ms_toker s) \<and> points to_pool m (ms_pool s) \<and> (case ms_ops s of
       appender_mode_ops \<Rightarrow> points to_appender m (ms_impl s)
     | replacer_mode_ops \<Rightarrow> points to_replacer m (ms_impl s)))"
| "typed m (Appender_mode s) = points to_mode m (am_base s)"
| "typed m (Replacer_mode s) = points to_mode m (rm_base s)"
| "typed m (Xargs s) = points to_mode m (xs_mode s)"
| "typed m (Options _) = False"

text \<open>The addresses that can be reached from \<open>x\<close>.\<close>

inductive reach :: "memory \<Rightarrow> ptr \<Rightarrow> ptr \<Rightarrow> bool" for m x where
  here: "reach m x x"
| there: "reach m x a \<Longrightarrow> m_heap m a = Some obj \<Longrightarrow> b \<in> set (fields obj) \<Longrightarrow> b \<noteq> NULL \<Longrightarrow> reach m x b"

lemma reach_trans: "reach m a b \<Longrightarrow> reach m x a \<Longrightarrow> reach m x b"
  by (induction rule: reach.induct) (auto intro: reach.there)

text \<open>Reachable from \<open>p\<close> and well typed.\<close>

definition good :: "memory \<Rightarrow> ptr \<Rightarrow> ptr set \<Rightarrow> bool" where
  "good m p A \<longleftrightarrow> (\<forall>a \<in> A. reach m p a \<and> (\<exists>obj. m_heap m a = Some obj \<and> typed m obj))"

lemma good_Un: "good m p (A \<union> B) \<longleftrightarrow> good m p A \<and> good m p B"
  by (auto simp: good_def)

lemma good_here: "m_heap m p = Some obj \<Longrightarrow> typed m obj \<Longrightarrow> good m p {p}"
  by (auto simp: good_def intro: reach.here)

lemma good_field:
  assumes "good m q A" and "m_heap m p = Some obj" and "q \<in> set (fields obj)" and "q \<noteq> NULL"
  shows "good m p A"
  using assms reach_trans [OF _ reach.there [OF reach.here assms(2-4)]] by (auto simp: good_def)

lemma points_Some: "m_heap m p = Some obj \<Longrightarrow> points view m p \<longleftrightarrow> \<not> isl (view obj)"
  by (simp add: points_def load_as_Some)

lemmas points_simps = points_Some to_object_defs to_stream_def to_appender_def to_replacer_def

lemma allocated_not_NULL: "mem_ok m \<Longrightarrow> m_heap m p = Some obj \<Longrightarrow> p \<noteq> NULL"
  by (rule mem_okD(2))

lemma points_not_NULL: "mem_ok m \<Longrightarrow> points view m p \<Longrightarrow> p \<noteq> NULL"
  by (cases "m_heap m p") (auto simp: points_def load_as_def mem_load_def dest: allocated_not_NULL)

lemma string_good: "owns_string m p s S \<Longrightarrow> good m p S \<and> (p = NULL \<or> points to_chars m p)"
  by (auto simp: owns_string_def good_def points_simps intro: reach.here split: option.splits)

lemma string_field_good:
  "owns_string m q s S \<Longrightarrow> m_heap m p = Some obj \<Longrightarrow> q \<in> set (fields obj) \<Longrightarrow> good m p S"
  using string_good [of m q s S] good_field [of m q S p obj]
  by (cases "q = NULL") (auto simp: owns_string_def good_def split: option.splits)

lemma buffer_good:
  assumes "mem_ok m" and "owns_buffer m p b A"
  shows "good m p A" and "points to_buffer m p"
proof -
  obtain q where q: "A = {p} \<union> {q}" "m_heap m p = Some (Buffer \<lparr>bs_buf = q, bs_sz = bf_sz b, bs_pos = bf_pos b\<rparr>)"
    "m_heap m q = Some (Chars (bf_buf b))" using assms(2) by (auto simp: owns_buffer_def)
  show "good m p A" unfolding q(1) good_Un
    by (intro conjI good_here [OF q(2)] good_field [OF good_here [OF q(3)] q(2)])
      (use allocated_not_NULL [OF assms(1) q(3)] in \<open>simp_all add: points_Some [OF q(3)] to_chars_def\<close>)
  show "points to_buffer m p" by (simp add: points_Some [OF q(2)] to_buffer_def)
qed

lemma args_good:
  assumes "mem_ok m" and "owns_args m p v A"
  shows "good m p A" and "points to_args m p"
proof -
  obtain q b ps where q: "A = {p} \<union> ({q} \<union> set ps)" "m_heap m p = Some (Args (args_struct v q))"
    "m_heap m q = Some (Pointers b)" "owns_slots m v b ps" using assms(2) by (auto simp: owns_args_def)
  have t: "take (unat (ca_count v)) b = map Some ps" "unat (ca_count v) = length ps"
    using q(4) by (simp_all add: owns_slots_def)
  have n: "length ps \<le> length b" using arg_cong [OF t(1), of length] t(2) by simp
  have slot: "points to_chars m r" "good m r {r}" "r \<in> set (fields (Pointers b))" if r: "r \<in> set ps" for r
  proof -
    obtain c where c: "m_heap m r = Some (Chars c)" using owns_slots_heap [OF q(4) r] by blast
    then show "points to_chars m r" "good m r {r}" by (auto simp: points_simps good_def intro: reach.here)
    have "Some r \<in> set (take (unat (ca_count v)) b)" using t(1) r by simp
    then have "Some r \<in> set b" by (rule in_set_takeD)
    then show "r \<in> set (fields (Pointers b))" by (force simp: image_iff)
  qed
  have "good m q (set ps)"
  proof -
    have "good m q {r}" if "r \<in> set ps" for r
      using good_field [OF slot(2) [OF that] q(3) slot(3) [OF that]] owns_slots_heap [OF q(4) that]
        allocated_not_NULL [OF assms(1)] by blast
    then show ?thesis by (auto simp: good_def)
  qed
  moreover have "typed m (Args (args_struct v q))"
    using slot(1) t n by (auto simp: load_as_Some [OF q(3)] to_pointers_def list_all_iff)
  ultimately show "good m p A" unfolding q(1)
    using good_here [OF q(2)] good_here [OF q(3)] good_field [OF _ q(2), of q "{q} \<union> set ps"]
      allocated_not_NULL [OF assms(1) q(3)] unfolding good_Un by simp
  show "points to_args m p" by (simp add: points_Some [OF q(2)] to_args_def)
qed

lemma good_footprint: "good m p (footprint p S L) \<longleftrightarrow> good m p {p} \<and> good m p S \<and> (\<forall>k. good m p (L k))"
  by (auto simp: good_def footprint_def)

lemma command_good:
  assumes ok: "mem_ok m" and "owns_command m p v A"
  shows "good m p A" and "points to_command m p"
proof -
  obtain ph q S L where A: "A = footprint p S L" and c: "command_parts UNIV m p v ph q S L"
    using assms(2) by (auto simp: owns_command_def)
  note h = parts_struct [OF c]
  have o: "owns_string m ph (cm_arg_placeholder v) S" "\<And>k. owns_args m (q k) (field_args k v) (L k)"
    using c by (simp_all add: command_parts_def)
  have "q k \<in> set (fields (Command (command_struct v ph q)))" "q k \<noteq> NULL" for k
    using points_not_NULL [OF ok args_good(2) [OF ok o(2)]] by (cases k, simp_all)
  then have "good m p (L k)" for k using good_field [OF args_good(1) [OF ok o(2)] h] by blast
  moreover have "good m p S" by (rule string_field_good [OF o(1) h]) simp
  moreover have "typed m (Command (command_struct v ph q))"
    using string_good [OF o(1)] args_good(2) [OF ok o(2)] by simp
  ultimately show "good m p A" by (simp add: A good_footprint good_here [OF h])
  show "points to_command m p" by (simp add: points_Some [OF h])
qed

lemma toker_good:
  assumes ok: "mem_ok m" and "owns_toker ctx m p k A" and "points to_command m ctx"
  shows "good m p A" and "points to_tokenizer m p"
proof -
  obtain q r e B S where t: "A = {p, r} \<union> B \<union> S" "m_heap m p = Some (Tokenizer (tokenizer_struct k q r))"
    "m_heap m r = Some (impl_object k p e ctx)" "owns_buffer m q (toker_buffer k) B"
    "owns_string m e (toker_marker k) S" using assms(2) by (auto elim: owns_tokerE)
  have q: "q \<noteq> NULL" "r \<noteq> NULL"
    using t(4) allocated_not_NULL [OF ok] t(3) by (auto simp: owns_buffer_def)
  have impl: "typed m (impl_object k p e ctx)"
    using assms(3) string_good [OF t(5)] t(2) by (cases k) (simp_all add: impl_object_def points_Some)
  have struct: "typed m (Tokenizer (tokenizer_struct k q r))"
    using buffer_good(2) [OF ok t(4)] t(3)
    by (cases k) (simp_all add: tokenizer_struct_def points_Some impl_object_def to_space_def to_delim_def)
  have "good m r S"
  proof (cases k)
    case (Space s)
    with t(3) string_field_good [OF t(5), of r] show ?thesis by (simp add: impl_object_def)
  next
    case (Delim d)
    with t(5) show ?thesis by (simp add: owns_string_def toker_marker_def good_def)
  qed
  then have "good m r ({r} \<union> S)" unfolding good_Un using good_here [OF t(3) impl] by simp
  then have "good m p ({r} \<union> S)" using good_field [OF _ t(2), of r] q(2) by simp
  moreover have "good m p B" using good_field [OF buffer_good(1) [OF ok t(4)] t(2)] q(1) by simp
  ultimately have "good m p ({p} \<union> ({r} \<union> S) \<union> B)" unfolding good_Un using good_here [OF t(2) struct] by simp
  moreover have "{p} \<union> ({r} \<union> S) \<union> B = A" using t(1) by blast
  ultimately show "good m p A" by simp
  show "points to_tokenizer m p" by (simp add: points_Some [OF t(2)])
qed

lemma pool_good:
  assumes ok: "mem_ok m" and "owns_pool m p v A"
  shows "good m p A" and "points to_pool m p"
proof -
  obtain q where q: "A = {p} \<union> {q}" "m_heap m p = Some (Pool (pool_struct v q))"
    "m_heap m q = Some (Pids (pl_pids v))" using assms(2) by (auto simp: owns_pool_def)
  show "good m p A" unfolding q(1) good_Un
    by (intro conjI good_here [OF q(2)] good_field [OF good_here [OF q(3)] q(2)])
      (use allocated_not_NULL [OF ok q(3)] in \<open>simp_all add: points_Some [OF q(3)]\<close>)
  show "points to_pool m p" by (simp add: points_Some [OF q(2)])
qed

lemma source_good:
  assumes "mem_ok m" and "owns_source F m p f A"
  shows "good m p A" and "points to_stream m p"
  using assms by (auto simp: owns_source_def good_def mem_ok_def points_simps intro: reach.here split: if_splits)

lemma mode_good:
  assumes ok: "mem_ok m" and "owns_mode F m p v A"
  shows "good m p A" and "points to_mode m p"
proof -
  obtain r q L where A: "A = footprint p {r} L" and c: "mode_parts F m p r v q L"
    using assms(2) by (auto simp: owns_mode_def)
  have h: "m_heap m p = Some (Mode (mode_struct (md_impl v) q r))"
    "m_heap m r = Some (mode_object (md_impl v) p)" and parts: "\<And>k. owns_part F m v q k (L k)"
    using c by (auto simp: mode_parts_def)
  note cmd = command_good [OF ok parts [of Command_part, unfolded owns_part_simps]]
  note tok = toker_good [OF ok parts [of Tokenizer_part, unfolded owns_part_simps] cmd(2)]
  note pl = pool_good [OF ok parts [of Pool_part, unfolded owns_part_simps]]
  note sr = source_good [OF ok parts [of Source_part, unfolded owns_part_simps]]
  have goods: "good m (q k) (L k)" for k using cmd(1) tok(1) pl(1) sr(1) by (cases k) simp_all
  have "q k \<noteq> NULL" for k
    using points_not_NULL [OF ok cmd(2)] points_not_NULL [OF ok tok(2)] points_not_NULL [OF ok pl(2)]
      points_not_NULL [OF ok sr(2)] by (cases k) simp_all
  then have "good m p (L k)" for k
    using good_field [OF goods [of k] h(1)] by (cases k) simp_all
  moreover have "typed m (mode_object (md_impl v) p)"
    using h(1) by (cases "md_impl v") (simp_all add: mode_object_def points_Some)
  from good_field [OF good_here [OF h(2) this] h(1)] allocated_not_NULL [OF ok h(2)]
  have "good m p {r}" by simp
  moreover have "typed m (Mode (mode_struct (md_impl v) q r))"
    using cmd(2) tok(2) pl(2) sr(2) h(2)
    by (cases "md_impl v") (simp_all add: impl_ops_def mode_object_def points_Some to_appender_def to_replacer_def)
  ultimately show "good m p A" by (simp add: A good_footprint good_here [OF h(1)])
  show "points to_mode m p" by (simp add: points_Some [OF h(1)])
qed

lemma xargs_good:
  assumes ok: "mem_ok m" and "owns_xargs F m x v A"
  shows "good m x A"
proof -
  obtain p B where o: "A = {x} \<union> B" "m_heap m x = Some (Xargs \<lparr>xs_mode = p\<rparr>)" "owns_mode F m p v B"
    using assms(2) by (auto simp: owns_xargs_def)
  have "p \<noteq> NULL"
    using o(3) allocated_not_NULL [OF ok] by (auto simp: owns_mode_def mode_parts_def)
  then show ?thesis unfolding o(1) good_Un
    using good_here [OF o(2)] mode_good [OF ok o(3)] good_field [OF mode_good(1) [OF ok o(3)] o(2)] by simp
qed

section \<open>The operations of a run\<close>

text \<open>
  What a run does to memory: the mode adds characters and arguments, replaces, starts again
  with new lists, enters a child, resizes the pool, and assigns fields that are not
  pointers (\<open>Assign\<close>: error codes, states, positions, counters, the contents of the table of
  process ids).
\<close>

datatype mem_op =
    Add_char byte
  | Add_argument cstr
  | Replace_args cstr
  | Recycle
  | Submit int
  | Resize int
  | is_Assign: Assign ptr object

definition same :: "(object \<Rightarrow> stop + 'a) \<Rightarrow> ('a \<Rightarrow> 'b) \<Rightarrow> 'a \<Rightarrow> object \<Rightarrow> bool" where
  "same view f s obj = (case view obj of Inl _ \<Rightarrow> False | Inr s' \<Rightarrow> f s' = f s)"

fun same_pointers :: "object \<Rightarrow> object \<Rightarrow> bool" where
  "same_pointers (Buffer s) obj = same to_buffer bs_buf s obj"
| "same_pointers (Command s) obj = same to_command (\<lambda>s. (cs_arg_placeholder s, cs_fixed_args s,
     cs_input_args s, cs_replaced_fixed_args s)) s obj"
| "same_pointers (Tokenizer s) obj = same to_tokenizer (\<lambda>s. (ts_ops s, ts_buf s, ts_impl s)) s obj"
| "same_pointers (Space_tokenizer s) obj = same to_space (\<lambda>s. (ss_base s,
     ss_logical_end_of_input_marker s, ss_on_input_boundary_ctx s)) s obj"
| "same_pointers (Delim_tokenizer s) obj = same to_delim (\<lambda>s. (ds_base s, ds_on_input_boundary_ctx s)) s obj"
| "same_pointers (Pool s) obj = same to_pool ps_pids s obj"
| "same_pointers (Pids b) obj = same to_pids length b obj"
| "same_pointers _ obj = False"

definition on_mode :: "ptr \<Rightarrow> (xargs_mode_s \<Rightarrow> memory \<Rightarrow> stop + memory) \<Rightarrow> memory \<Rightarrow> stop + memory" where
  "on_mode x f m =
     rbind (load_as to_xargs x m) (\<lambda>s.
     rbind (load_as to_mode (xs_mode s) m) (\<lambda>mode. f mode m))"

text \<open>The objects whose fields are assigned.\<close>

definition assignable :: "xargs_mode_s \<Rightarrow> memory \<Rightarrow> ptr list" where
  "assignable mode m = [ms_cmd mode, ms_toker mode, ms_pool mode]
     @ (case load_as to_tokenizer (ms_toker mode) m of Inl _ \<Rightarrow> [] | Inr t \<Rightarrow> [ts_buf t, ts_impl t])
     @ (case load_as to_pool (ms_pool mode) m of Inl _ \<Rightarrow> [] | Inr p \<Rightarrow> [ps_pids p])"

fun exec_op :: "platform \<Rightarrow> ptr \<Rightarrow> mem_op \<Rightarrow> memory \<Rightarrow> stop + memory" where
  "exec_op E x (Add_char ch) m = on_mode x (\<lambda>mode. tokenizer_add_mem E (ms_toker mode) ch) m"
| "exec_op E x (Add_argument s) m = on_mode x (\<lambda>mode. command_add_input_argument_mem E (ms_cmd mode) s) m"
| "exec_op E x (Replace_args s) m = on_mode x (\<lambda>mode. command_replace_args_mem E (ms_cmd mode) s) m"
| "exec_op E x Recycle m = on_mode x (\<lambda>mode. recycle_command_mem E (ms_cmd mode)) m"
| "exec_op E x (Submit pid) m = on_mode x (\<lambda>mode. process_pool_submit_mem E (ms_pool mode) pid) m"
| "exec_op E x (Resize n) m = on_mode x (\<lambda>mode. resize_pool_mem E (ms_pool mode) n) m"
| "exec_op E x (Assign a obj) m = on_mode x (\<lambda>mode m.
     if a \<in> set (assignable mode m) then
       rbind (mem_load a m) (\<lambda>old. if same_pointers old obj then mem_store a obj m else Inl Undefined)
     else Inl Undefined) m"

text \<open>The same operations on the value of the mode.\<close>

fun value_op :: "platform \<Rightarrow> mem_op \<Rightarrow> xargs_mode \<Rightarrow> stop + xargs_mode" where
  "value_op E (Add_char ch) v = rbind (tokenizer_add E (toker_base (md_toker v)) ch) (\<lambda>b.
     Inr (v\<lparr>md_toker := map_base (\<lambda>_. b) (md_toker v)\<rparr>))"
| "value_op E (Add_argument s) v = xargs_mode_add_input_argument E v s"
| "value_op E (Replace_args s) v = xargs_replace_args E v s"
| "value_op E Recycle v = rbind (recycle_command E (md_cmd v)) (\<lambda>c. Inr (v\<lparr>md_cmd := c\<rparr>))"
| "value_op E (Submit pid) v = rbind (process_pool_submit E (md_pool v) pid) (\<lambda>p. Inr (v\<lparr>md_pool := p\<rparr>))"
| "value_op E (Resize n) v = rbind (resize_pool E n (md_pool v)) (\<lambda>p. Inr (v\<lparr>md_pool := p\<rparr>))"
| "value_op E (Assign _ _) v = Inr v"

inductive run_from :: "platform \<Rightarrow> ptr \<Rightarrow> memory \<Rightarrow> memory \<Rightarrow> bool" for E x m where
  started: "run_from E x m m"
| stepped: "run_from E x m m1 \<Longrightarrow> exec_op E x op m1 = Inr m2 \<Longrightarrow> run_from E x m m2"

section \<open>The operations keep what the mode owns\<close>

lemma mode_part_updates:
  assumes "mem_ok m" and c: "mode_parts F m p r v q L"
    and part: "follows (\<lambda>v' m'. \<exists>Y. moves m (L k) m' Y \<and> owns_part F m' v' q k Y \<and> md_impl v' = md_impl v
      \<and> (\<forall>j A m. j \<noteq> k \<longrightarrow> owns_part F m v' q j A = owns_part F m v q j A)) mv mh"
  shows "updates (owns_mode F) m p (footprint p {r} L) mv mh"
proof -
  let ?A = "footprint p {r} L"
  have o: "owns_mode F m p v ?A" using c by (auto simp: owns_mode_def)
  have m0: "moves m ?A m ?A" by (rule moves_refl [OF assms(1) mode.allocated [OF o]])
  have d: "apart p {r} L" using c by (simp add: mode_parts_def)
  note f = footprint_part [OF d, of k]
  show ?thesis
    unfolding updates_follows
  proof (rule follows_mono [OF part], elim exE conjE)
    fix v' m' Y
    assume Y: "moves m (L k) m' Y" "owns_part F m' v' q k Y" "md_impl v' = md_impl v"
      "\<forall>j A m. j \<noteq> k \<longrightarrow> owns_part F m v' q j A = owns_part F m v q j A"
    note g = chain_part [OF m0 [unfolded f(1)] f(2) Y(1)]
    have "mode_parts F m' p r v' q (L(k := Y))"
      by (rule mode_put [OF c g(3) Y(2) g(2) Y(3)]) (use Y(4) in blast)
    moreover have "moves m ?A m' (footprint p {r} (L(k := Y)))"
      using g(1) unfolding f(1) [symmetric] footprint_put [of p "{r}" L k Y, symmetric] .
    ultimately show "\<exists>A'. moves m ?A m' A' \<and> owns_mode F m' p v' A'" by (auto simp: owns_mode_def)
  qed
qed

lemma xargs_mode_updates:
  assumes ok: "mem_ok m" and o: "x \<notin> B" "x \<noteq> stdin_ptr" "m_heap m x = Some (Xargs \<lparr>xs_mode = p\<rparr>)"
    and B: "B \<subseteq> dom (m_heap m)" and u: "updates (owns_mode F) m p B mv mh"
  shows "updates (owns_xargs F) m x (insert x B) mv mh"
proof -
  have m0: "moves m (insert x B) m (B \<union> {x})"
    using moves_refl [OF ok, of "insert x B"] B o(3) by auto
  have d: "B \<inter> {x} = {}" using o(1) by simp
  show ?thesis
    using u unfolding updates_follows
  proof (rule follows_mono, elim exE conjE)
    fix v' m' A'
    assume a: "moves m B m' A'" "owns_mode F m' p v' A'"
    note g = chain_part [OF m0 d a(1)]
    have "owns_xargs F m' x v' (insert x A')"
      using g(2) a(2) o(2,3) agree_heap [OF g(3), of x] by (auto simp: owns_xargs_def)
    with g(1) show "\<exists>A''. moves m (insert x B) m' A'' \<and> owns_xargs F m' x v' A''" by auto
  qed
qed

lemma command_part_updates:
  assumes "mem_ok m" and "mode_parts F m p r v q L"
    and "updates owns_command m (q Command_part) (L Command_part) mv mh"
  shows "updates (owns_mode F) m p (footprint p {r} L) (rbind mv (\<lambda>c. Inr (v\<lparr>md_cmd := c\<rparr>))) mh"
  by (rule mode_part_updates [OF assms(1,2), of Command_part], rule follows_map,
      rule follows_mono [OF assms(3) [unfolded updates_follows]])
    (auto simp: owns_part_def split: mode_part.split)

lemma tokenizer_part_updates:
  assumes "mem_ok m" and "mode_parts F m p r v q L"
    and "updates (owns_toker (q Command_part)) m (q Tokenizer_part) (L Tokenizer_part) mv mh"
  shows "updates (owns_mode F) m p (footprint p {r} L) (rbind mv (\<lambda>t. Inr (v\<lparr>md_toker := t\<rparr>))) mh"
  by (rule mode_part_updates [OF assms(1,2), of Tokenizer_part], rule follows_map,
      rule follows_mono [OF assms(3) [unfolded updates_follows]])
    (auto simp: owns_part_def split: mode_part.split)

lemma pool_part_updates:
  assumes "mem_ok m" and "mode_parts F m p r v q L"
    and "updates owns_pool m (q Pool_part) (L Pool_part) mv mh"
  shows "updates (owns_mode F) m p (footprint p {r} L) (rbind mv (\<lambda>t. Inr (v\<lparr>md_pool := t\<rparr>))) mh"
  by (rule mode_part_updates [OF assms(1,2), of Pool_part], rule follows_map,
      rule follows_mono [OF assms(3) [unfolded updates_follows]])
    (auto simp: owns_part_def split: mode_part.split)

lemma owns_xargsE:
  assumes "owns_xargs F m x v A"
  obtains p r q L where "A = insert x (footprint p {r} L)" "x \<notin> footprint p {r} L" "x \<noteq> stdin_ptr"
    "m_heap m x = Some (Xargs \<lparr>xs_mode = p\<rparr>)" "mode_parts F m p r v q L" "owns_mode F m p v (footprint p {r} L)"
    "\<And>f. on_mode x f m = f (mode_struct (md_impl v) q r) m"
proof -
  obtain p B where x: "A = insert x B" "x \<notin> B" "x \<noteq> stdin_ptr" "m_heap m x = Some (Xargs \<lparr>xs_mode = p\<rparr>)"
    "owns_mode F m p v B" using assms by (auto simp: owns_xargs_def)
  moreover from x(5) obtain r q L where c: "B = footprint p {r} L" "mode_parts F m p r v q L"
    by (auto simp: owns_mode_def)
  moreover have "on_mode x f m = f (mode_struct (md_impl v) q r) m" for f
    using x(4) c(2) by (simp add: on_mode_def load_as_Some mode_parts_def)
  ultimately show ?thesis using that [of p r L q] by blast
qed

lemma op_updates:
  assumes ok: "mem_ok m" and "owns_xargs F m x v A" and "\<not> is_Assign op"
  shows "updates (owns_xargs F) m x A (value_op E op v) (exec_op E x op m)"
proof -
  obtain p r q L where x: "A = insert x (footprint p {r} L)" "x \<notin> footprint p {r} L" "x \<noteq> stdin_ptr"
    "m_heap m x = Some (Xargs \<lparr>xs_mode = p\<rparr>)" and c: "mode_parts F m p r v q L"
    and o: "owns_mode F m p v (footprint p {r} L)" and on: "\<And>f. on_mode x f m = f (mode_struct (md_impl v) q r) m"
    using assms(2) by (rule owns_xargsE) blast
  have parts: "owns_part F m v q k (L k)" for k using c by (simp add: mode_parts_def)
  note cmd = parts [of Command_part, simplified] and tok = parts [of Tokenizer_part, simplified]
    and pl = parts [of Pool_part, simplified]
  note lift_x = xargs_mode_updates [OF ok x(2-4) mode.allocated [OF o]]
  note on_cmd = lift_x [OF command_part_updates [OF ok c]]
    and on_tok = lift_x [OF tokenizer_part_updates [OF ok c]] and on_pool = lift_x [OF pool_part_updates [OF ok c]]
  show ?thesis
  proof (cases op)
    case (Add_char ch)
    from on_tok [OF tokenizer_add_updates [OF ok tok]] Add_char x(1) show ?thesis by (simp add: on rbind_assoc)
  next
    case (Add_argument s)
    from on_cmd [OF add_input_updates [OF ok cmd]] Add_argument x(1) show ?thesis
      by (simp add: on xargs_mode_add_input_argument_def)
  next
    case (Replace_args s)
    from on_cmd [OF replace_args_updates [OF ok cmd]] Replace_args x(1) show ?thesis
      by (simp add: on xargs_replace_args_def)
  next
    case Recycle
    from on_cmd [OF recycle_updates [OF ok cmd]] Recycle x(1) show ?thesis by (simp add: on)
  next
    case (Submit pid)
    from on_pool [OF pool_submit_updates [OF ok pl]] Submit x(1) show ?thesis by (simp add: on)
  next
    case (Resize n)
    from on_pool [OF pool_resize_updates [OF ok pl]] Resize x(1) show ?thesis by (simp add: on)
  qed (use assms(3) in simp)
qed

text \<open>Assignments change the value in fields that own nothing.\<close>

lemma same_iff:
  "same to_command f s obj \<longleftrightarrow> (\<exists>s'. obj = Command s' \<and> f s' = f s)"
  "same to_tokenizer g t obj \<longleftrightarrow> (\<exists>t'. obj = Tokenizer t' \<and> g t' = g t)"
  "same to_buffer h b obj \<longleftrightarrow> (\<exists>b'. obj = Buffer b' \<and> h b' = h b)"
  "same to_space i sp obj \<longleftrightarrow> (\<exists>s'. obj = Space_tokenizer s' \<and> i s' = i sp)"
  "same to_delim j d obj \<longleftrightarrow> (\<exists>d'. obj = Delim_tokenizer d' \<and> j d' = j d)"
  "same to_pool k pl obj \<longleftrightarrow> (\<exists>p'. obj = Pool p' \<and> k p' = k pl)"
  "same to_pids l pb obj \<longleftrightarrow> (\<exists>b'. obj = Pids b' \<and> l b' = l pb)"
  by (cases obj; simp add: same_def to_object_defs)+

lemma command_assign:
  assumes ok: "mem_ok m" and o: "owns_command m p v A" and "m_heap m p = Some old" and "same_pointers old obj"
  shows "\<exists>v'. updates owns_command m p A (Inr v') (mem_store p obj m)"
proof -
  obtain ph q S L where A: "A = footprint p S L" and c: "command_parts UNIV m p v ph q S L"
    using o by (auto simp: owns_command_def)
  from parts_struct [OF c] assms(3,4) obtain s where s: "obj = Command s" "cs_arg_placeholder s = ph"
    "cs_fixed_args s = q Fixed_args" "cs_input_args s = q Input_args"
    "cs_replaced_fixed_args s = q Replaced_args" by (auto simp: same_iff)
  let ?v = "v\<lparr>cm_max_lines := cs_max_lines s, cm_max_args := cs_max_args s, cm_max_length := cs_max_length s,
      cm_open_tty := cs_open_tty s, cm_prompt := cs_prompt s, cm_trace := cs_trace s,
      cm_terminate_on_too_large_command := cs_terminate_on_too_large_command s,
      cm_line_mode := cs_line_mode s, cm_line_count := cs_line_count s, cm_env_length := cs_env_length s\<rparr>"
  have obj: "obj = Command (command_struct ?v ph q)" using s by (simp add: command_struct_def)
  have m0: "moves m A m (footprint p S L)" using moves_refl [OF ok cmd.allocated [OF o]] A by simp
  obtain m1 where "mem_store p (Command (command_struct ?v ph q)) m = Inr m1" "moves m A m1 (footprint p S L)"
    "command_parts UNIV m1 p ?v ph q S L"
    by (rule parts_store [OF c m0, where F = "{}" and v' = ?v and q' = q])
      (auto simp: field_args_def split: args_field.split)
  moreover from this have "has_command UNIV m A m1 p ?v" unfolding has_command_def by blast
  moreover have "0 < ca_count (cm_fixed_args ?v)" using o by (simp add: owns_command_def)
  ultimately have "updates owns_command m p A (Inr ?v) (mem_store p obj m)"
    unfolding obj updates_simps by (metis has_command_owns)
  then show ?thesis by blast
qed

lemma pool_assign:
  assumes ok: "mem_ok m" and o: "owns_pool m p v A" and a: "a = p \<or> m_heap m p = Some (Pool s) \<and> a = ps_pids s"
    and "m_heap m a = Some old" and "same_pointers old obj"
  shows "\<exists>v'. updates owns_pool m p A (Inr v') (mem_store a obj m)"
proof -
  obtain q where q: "q \<noteq> p" "A = {p, q}" "m_heap m p = Some (Pool (pool_struct v q))"
    "m_heap m q = Some (Pids (pl_pids v))" using o by (auto simp: owns_pool_def)
  have m0: "moves m A m {p, q}" using moves_refl [OF ok pool.allocated [OF o]] q(2) by simp
  have mem: "a \<in> {p, q}" using a q(3) by auto
  have "\<not> is_Stream old" using mem assms(4) q(3,4) by auto
  from heap_not_stdin [OF ok assms(4) this]
  obtain m1 where m1: "mem_store a obj m = Inr m1" "moves m A m1 {p, q}" "m_heap m1 a = Some obj"
    "agree ({p, q} - {a}) m m1" by (rule chain_fill [OF m0 mem])
  have "\<exists>v'. owns_pool m1 p v' {p, q}"
  proof (cases "a = p")
    case True
    with assms(4,5) q(3) obtain s' where s': "obj = Pool s'" "ps_pids s' = q" by (auto simp: same_iff)
    let ?v = "v\<lparr>pl_max_procs := ps_max_procs s', pl_capacity := ps_capacity s', pl_child_max := ps_child_max s',
      pl_count := ps_count s', pl_status := ps_status s', pl_halt := ps_halt s'\<rparr>"
    have "owns_pool m1 p ?v {p, q}"
      using True q(1,4) m1(3,4) s' by (auto simp: owns_pool_def pool_struct_def agree_def)
    then show ?thesis ..
  next
    case False
    with mem have "a = q" by simp
    with assms(4,5) q(4) obtain b where b: "obj = Pids b" by (auto simp: same_iff)
    have "owns_pool m1 p (v\<lparr>pl_pids := b\<rparr>) {p, q}"
      using \<open>a = q\<close> q(1,3) m1(3,4) b by (auto simp: owns_pool_def pool_struct_def agree_def)
    then show ?thesis ..
  qed
  with m1(1,2) q(2) show ?thesis by auto
qed

lemma toker_assign:
  assumes ok: "mem_ok m" and o: "owns_toker ctx m p k A"
    and a: "a = p \<or> m_heap m p = Some (Tokenizer t) \<and> a \<in> {ts_buf t, ts_impl t}"
    and old: "m_heap m a = Some old" "same_pointers old obj"
  shows "\<exists>k'. updates (owns_toker ctx) m p A (Inr k') (mem_store a obj m)"
proof -
  obtain r where t: "toker_at r ctx m p k A" using o by (auto simp: owns_toker_def)
  obtain q e B S where t': "m_heap m p = Some (Tokenizer (tokenizer_struct k q r))"
    "m_heap m r = Some (impl_object k p e ctx)" "owns_buffer m q (toker_buffer k) B"
    using t by (rule toker_atE)
  have "\<exists>k'. updates (toker_at r ctx) m p A (Inr k') (mem_store a obj m)"
  proof -
    consider "a = p" | "a = r" | "a = q" using a t'(1) by auto
    then show ?thesis
    proof cases
      case 1
      then have "old = Tokenizer (tokenizer_struct k q r)" using old(1) t'(1) by simp
      with old(2) obtain s' where s': "obj = Tokenizer s'" "ts_ops s' = ts_ops (tokenizer_struct k q r)"
        "ts_buf s' = q" "ts_impl s' = r" by (auto simp: same_iff)
      have "s' = (tokenizer_struct k q r)\<lparr>ts_err := ts_err s'\<rparr>"
        using s'(2-4) by (cases s', cases k) (simp_all add: tokenizer_struct_def)
      with toker_store_base [OF ok t t'(1), of "ts_err s'"] s'(1) 1
      have "updates (toker_at r ctx) m p A (Inr (map_base (\<lambda>b. b\<lparr>tk_err := ts_err s'\<rparr>) k)) (mem_store a obj m)"
        by simp
      then show ?thesis ..
    next
      case 2
      have "\<exists>k'. obj = impl_object k' p e ctx \<and> tokenizer_struct k' = tokenizer_struct k
        \<and> toker_buffer k' = toker_buffer k \<and> toker_marker k' = toker_marker k"
      proof (cases k)
        case (Space sp)
        with 2 old t'(2) obtain s' where "obj = Space_tokenizer s'" "ss_base s' = p"
          "ss_logical_end_of_input_marker s' = e" "ss_on_input_boundary_ctx s' = ctx"
          by (auto simp: same_iff impl_object_def)
        with Space show ?thesis
          by (intro exI [of _ "Space (sp\<lparr>st_state := ss_state s', st_quote_char := ss_quote_char s',
              st_token_start := ss_token_start s'\<rparr>)"])
            (simp add: impl_object_def fun_eq_iff tokenizer_struct_def toker_buffer_def toker_marker_def)
      next
        case (Delim d)
        with 2 old t'(2) obtain s' where "obj = Delim_tokenizer s'" "ds_base s' = p"
          "ds_on_input_boundary_ctx s' = ctx"
          by (auto simp: same_iff impl_object_def)
        with Delim show ?thesis
          by (intro exI [of _ "Delim (d\<lparr>dt_token_start := ds_token_start s', dt_delim := ds_delim s'\<rparr>)"])
            (simp add: impl_object_def fun_eq_iff tokenizer_struct_def toker_buffer_def toker_marker_def)
      qed
      then obtain k' where k': "obj = impl_object k' p e ctx" "tokenizer_struct k' = tokenizer_struct k"
        "toker_buffer k' = toker_buffer k" "toker_marker k' = toker_marker k" by blast
      from toker_store_impl [OF ok t t'(2) k'(2-4)] show ?thesis unfolding 2 k'(1) ..
    next
      case 3
      obtain b where b: "m_heap m q = Some (Buffer b)" using t'(3) by (auto simp: owns_buffer_def)
      with 3 old obtain b' where b': "obj = Buffer b'" "bs_buf b' = bs_buf b" by (auto simp: same_iff)
      then have "obj = Buffer (b\<lparr>bs_sz := bs_sz b', bs_pos := bs_pos b'\<rparr>)" by simp
      with toker_store_buffer [OF ok t t'(1), where n = "bs_sz b'" and i = "bs_pos b'"] b
      have "updates (toker_at r ctx) m p A
        (Inr (map_base (\<lambda>t. t\<lparr>tk_buf := (tk_buf t)\<lparr>bf_sz := bs_sz b', bf_pos := bs_pos b'\<rparr>\<rparr>) k)) (mem_store q obj m)"
        by simp
      then show ?thesis unfolding 3 ..
    qed
  qed
  then obtain k' where "updates (toker_at r ctx) m p A (Inr k') (mem_store a obj m)" ..
  then have "updates (owns_toker ctx) m p A (Inr k') (mem_store a obj m)"
    by (rule updates_mono) (auto simp: owns_toker_def)
  then show ?thesis ..
qed

lemma assign_keeps:
  assumes ok: "mem_ok m" and "owns_xargs F m x v A" and e: "exec_op E x (Assign a obj) m = Inr m'"
  shows "\<exists>v' A'. moves m A m' A' \<and> owns_xargs F m' x v' A'"
proof -
  obtain p r q L where x: "A = insert x (footprint p {r} L)" "x \<notin> footprint p {r} L" "x \<noteq> stdin_ptr"
    "m_heap m x = Some (Xargs \<lparr>xs_mode = p\<rparr>)" and c: "mode_parts F m p r v q L"
    and o: "owns_mode F m p v (footprint p {r} L)" and on: "\<And>f. on_mode x f m = f (mode_struct (md_impl v) q r) m"
    using assms(2) by (rule owns_xargsE) blast
  have parts: "owns_part F m v q k (L k)" for k using c by (simp add: mode_parts_def)
  note cmd = parts [of Command_part, simplified] and tok = parts [of Tokenizer_part, simplified]
    and pl = parts [of Pool_part, simplified]
  note lift_x = xargs_mode_updates [OF ok x(2-4) mode.allocated [OF o], folded x(1)]
  have old: "a \<in> set (assignable (mode_struct (md_impl v) q r) m)"
    and "mem_store a obj m = Inr m'" and "\<exists>old. m_heap m a = Some old \<and> same_pointers old obj"
    using e by (auto simp: on rbind_Inr_iff mem_load_def split: if_splits option.splits)
  then obtain old where m': "mem_store a obj m = Inr m'" and h: "m_heap m a = Some old" "same_pointers old obj" by blast
  obtain t where t: "m_heap m (q Tokenizer_part) = Some (Tokenizer t)"
    using tok by (auto elim: owns_tokerE)
  obtain s where s: "m_heap m (q Pool_part) = Some (Pool s)"
    using pl by (auto simp: owns_pool_def)
  have "a = q Command_part \<or> (a = q Tokenizer_part \<or> a \<in> {ts_buf t, ts_impl t}) \<or> (a = q Pool_part \<or> a = ps_pids s)"
    using old by (auto simp: assignable_def load_as_Some [OF t] load_as_Some [OF s])
  then consider "a = q Command_part" | "a = q Tokenizer_part \<or> a \<in> {ts_buf t, ts_impl t}"
    | "a = q Pool_part \<or> a = ps_pids s" by blast
  then show ?thesis
  proof cases
    case 1
    from command_assign [OF ok cmd, of old obj] h 1 obtain w where "updates owns_command m a (L Command_part) (Inr w) (mem_store a obj m)"
      by auto
    from lift_x [OF command_part_updates [OF ok c, of "Inr w" "mem_store a obj m"]] this m' 1 show ?thesis by auto
  next
    case 2
    with toker_assign [OF ok tok _ h, of t] t obtain w where
      "updates (owns_toker (q Command_part)) m (q Tokenizer_part) (L Tokenizer_part) (Inr w) (mem_store a obj m)" by auto
    from lift_x [OF tokenizer_part_updates [OF ok c this]] m' show ?thesis by auto
  next
    case 3
    with pool_assign [OF ok pl _ h, of s] s obtain w where
      "updates owns_pool m (q Pool_part) (L Pool_part) (Inr w) (mem_store a obj m)" by auto
    from lift_x [OF pool_part_updates [OF ok c this]] m' show ?thesis by auto
  qed
qed

lemma op_keeps:
  assumes "mem_ok m" and "owns_xargs F m x v A" and "exec_op E x op m = Inr m'"
  shows "\<exists>v' A'. moves m A m' A' \<and> owns_xargs F m' x v' A'"
proof (cases "is_Assign op")
  case True
  then show ?thesis using assign_keeps [OF assms(1,2)] assms(3) by (cases op) auto
next
  case False
  from op_updates [OF assms(1,2) this, of E] assms(3) show ?thesis
    by (cases "value_op E op v") auto
qed

lemma run_keeps:
  assumes "run_from E x m m'" and "moves m0 {} m A" and "owns_xargs F m x v A"
  shows "\<exists>v' A'. moves m0 {} m' A' \<and> owns_xargs F m' x v' A'"
  using assms(1)
proof induction
  case started
  with assms(2,3) show ?case by blast
next
  case (stepped m1 op m2)
  then obtain v1 A1 where 1: "moves m0 {} m1 A1" "owns_xargs F m1 x v1 A1" by blast
  from op_keeps [OF moves_ok(1) [OF 1(1)] 1(2) stepped.hyps(2)] obtain v2 A2 where
    "moves m1 A1 m2 A2" "owns_xargs F m2 x v2 A2" by blast
  with moves_trans [OF 1(1)] show ?case by blast
qed

lemma created_owns:
  assumes "mem_ok m" and "\<forall>a \<in> set argv. arg_ok a" and "argv \<noteq> []"
    and "xargs_create_mem E F argv m = Inr (x, m')"
  shows "\<exists>v A. xargs_value E F argv = Inr v \<and> moves m {} m' A \<and> owns_xargs F m' x v A"
  using xargs_create_builds [OF assms(1-3), of F E] assms(4)
  by (cases "xargs_value E F argv") auto

end
