(* ===== verification/Memory_Reader.thy ===== *)
theory Memory_Reader
  imports Memory_Tokenizer Memory_Command
begin

text \<open>
  Reading a token on pointers (\<^verbatim>\<open>src/tokenizer.c\<close>, \<^verbatim>\<open>src/space_tokenizer.c\<close>,
  \<^verbatim>\<open>src/delim_tokenizer.c\<close>): the two \<open>next_token\<close> functions as they work on the structures, with
  the callback that changes the command of the mode, and the token they return, which is a
  pointer into the buffer. The lemmas show that they follow the functions on values.
\<close>

section \<open>The shared part\<close>

text \<open>A \<open>char*\<close> into a block: the block and the offset.\<close>

type_synonym text_ptr = "ptr \<times> size_t"

definition read_text :: "text_ptr \<Rightarrow> memory \<Rightarrow> stop + cstr" where
  "read_text s m = rbind (load_as to_chars (fst s) m) (\<lambda>b. c_string (drop (unat (snd s)) b))"

definition read_char :: "text_ptr \<Rightarrow> memory \<Rightarrow> stop + byte" where
  "read_char s m = rbind (load_as to_chars (fst s) m) (\<lambda>b. blk_load (drop (unat (snd s)) b) 0)"

definition buffer_pos_mem :: "ptr \<Rightarrow> memory \<Rightarrow> stop + size_t" where
  "buffer_pos_mem p m = rbind (load_as to_buffer p m) (\<lambda>buf. Inr (bs_pos buf))"

definition buffer_start_mem :: "ptr \<Rightarrow> memory \<Rightarrow> stop + ptr" where
  "buffer_start_mem p m = rbind (load_as to_buffer p m) (\<lambda>buf. Inr (bs_buf buf))"

definition buffer_drop_last_mem :: "ptr \<Rightarrow> memory \<Rightarrow> stop + memory" where
  "buffer_drop_last_mem p m =
     rbind (load_as to_buffer p m) (\<lambda>buf.
     if bs_pos buf > 0 then mem_store p (Buffer (buf\<lparr>bs_pos := bs_pos buf - 1\<rparr>)) m else Inr m)"

definition tokenizer_set_error_mem :: "ptr \<Rightarrow> tokenizer_error \<Rightarrow> memory \<Rightarrow> stop + memory" where
  "tokenizer_set_error_mem t err m =
     rbind (load_as to_tokenizer t m) (\<lambda>tk. mem_store t (Tokenizer (tk\<lparr>ts_err := err\<rparr>)) m)"

definition tokenizer_get_error_mem :: "ptr \<Rightarrow> memory \<Rightarrow> stop + tokenizer_error" where
  "tokenizer_get_error_mem t m = rbind (load_as to_tokenizer t m) (\<lambda>tk. Inr (ts_err tk))"

definition tokenizer_pos_mem :: "ptr \<Rightarrow> memory \<Rightarrow> stop + size_t" where
  "tokenizer_pos_mem t m = rbind (load_as to_tokenizer t m) (\<lambda>tk. buffer_pos_mem (ts_buf tk) m)"

definition tokenizer_drop_last_mem :: "ptr \<Rightarrow> memory \<Rightarrow> stop + memory" where
  "tokenizer_drop_last_mem t m =
     rbind (load_as to_tokenizer t m) (\<lambda>tk. buffer_drop_last_mem (ts_buf tk) m)"

definition tokenizer_token_mem :: "ptr \<Rightarrow> size_t \<Rightarrow> memory \<Rightarrow> stop + text_ptr" where
  "tokenizer_token_mem t pos m =
     rbind (load_as to_tokenizer t m) (\<lambda>tk.
     rbind (buffer_start_mem (ts_buf tk) m) (\<lambda>start. Inr (start, pos)))"

section \<open>The space tokenizer\<close>

definition space_tokenizer_start_quoted_token_mem :: "ptr \<Rightarrow> int \<Rightarrow> memory \<Rightarrow> stop + memory" where
  "space_tokenizer_start_quoted_token_mem t quote_char m =
     rbind (set_space t (\<lambda>s. s\<lparr>ss_state := IN_QUOTED_TOKEN, ss_quote_char := quote_char\<rparr>) m) (\<lambda>m.
     rbind (load_as to_space t m) (\<lambda>s.
     rbind (tokenizer_pos_mem (ss_base s) m) (\<lambda>pos.
     set_space t (\<lambda>s. s\<lparr>ss_token_start := pos\<rparr>) m)))"

definition space_tokenizer_start_no_token_escape_mem :: "ptr \<Rightarrow> memory \<Rightarrow> stop + memory" where
  "space_tokenizer_start_no_token_escape_mem t m =
     rbind (set_space t (\<lambda>s. s\<lparr>ss_state := NO_TOKEN_ESCAPE\<rparr>) m) (\<lambda>m.
     rbind (load_as to_space t m) (\<lambda>s.
     rbind (tokenizer_pos_mem (ss_base s) m) (\<lambda>pos.
     set_space t (\<lambda>s. s\<lparr>ss_token_start := pos\<rparr>) m)))"

definition space_tokenizer_start_in_token_escape_mem :: "ptr \<Rightarrow> memory \<Rightarrow> stop + memory" where
  "space_tokenizer_start_in_token_escape_mem t m = set_space t (\<lambda>s. s\<lparr>ss_state := IN_TOKEN_ESCAPE\<rparr>) m"

definition space_tokenizer_append_to_token_mem :: "platform \<Rightarrow> ptr \<Rightarrow> int \<Rightarrow> memory \<Rightarrow> stop + memory" where
  "space_tokenizer_append_to_token_mem E t ch m =
     rbind (load_as to_space t m) (\<lambda>s. tokenizer_add_mem E (ss_base s) (to_char ch) m)"

definition space_tokenizer_end_escape_mem :: "platform \<Rightarrow> ptr \<Rightarrow> int \<Rightarrow> memory \<Rightarrow> stop + memory" where
  "space_tokenizer_end_escape_mem E t ch m =
     rbind (set_space t (\<lambda>s. s\<lparr>ss_state := IN_TOKEN\<rparr>) m) (\<lambda>m.
     rbind (load_as to_space t m) (\<lambda>s. tokenizer_add_mem E (ss_base s) (to_char ch) m))"

definition space_tokenizer_start_token_mem :: "platform \<Rightarrow> ptr \<Rightarrow> int \<Rightarrow> memory \<Rightarrow> stop + memory" where
  "space_tokenizer_start_token_mem E t ch m =
     rbind (set_space t (\<lambda>s. s\<lparr>ss_state := IN_TOKEN\<rparr>) m) (\<lambda>m.
     rbind (load_as to_space t m) (\<lambda>s.
     rbind (tokenizer_pos_mem (ss_base s) m) (\<lambda>pos.
     rbind (set_space t (\<lambda>s. s\<lparr>ss_token_start := pos\<rparr>) m) (\<lambda>m.
     tokenizer_add_mem E (ss_base s) (to_char ch) m))))"

text \<open>The token is read here, by \<open>strcmp\<close> if there is a marker, and by the caller.\<close>

definition space_tokenizer_end_token_mem :: "platform \<Rightarrow> ptr \<Rightarrow> memory \<Rightarrow> stop + text_ptr option \<times> memory" where
  "space_tokenizer_end_token_mem E t m =
     rbind (load_as to_space t m) (\<lambda>s.
     rbind (tokenizer_add_mem E (ss_base s) 0 m) (\<lambda>m.
     rbind (tokenizer_token_mem (ss_base s) (ss_token_start s) m) (\<lambda>token.
     rbind (space_tokenizer_no_token_mem t m) (\<lambda>m.
     rbind (read_text token m) (\<lambda>text.
     rbind (load_as to_space t m) (\<lambda>s.
     rbind (read_string_or_null (ss_logical_end_of_input_marker s) m) (\<lambda>marker.
     Inr (if marker = Some text then None else Some token, m))))))))"

definition handle_no_token_char_mem :: "platform \<Rightarrow> ptr \<Rightarrow> int \<Rightarrow> bool \<Rightarrow> memory \<Rightarrow> stop + memory \<times> bool" where
  "handle_no_token_char_mem E t ch line_has_token m =
     (if ch = cSPACE \<or> ch = cTAB then Inr (m, line_has_token)
      else if ch = cNL then Inr (m, line_has_token)
      else rbind
        (if ch = cQUOTE \<or> ch = cDQUOTE then space_tokenizer_start_quoted_token_mem t ch m
         else if ch = cBACKSLASH then space_tokenizer_start_no_token_escape_mem t m
         else space_tokenizer_start_token_mem E t ch m) (\<lambda>m. Inr (m, True)))"

text \<open>The call \<open>t->on_input_boundary(t->on_input_boundary_ctx)\<close>.\<close>

definition space_boundary :: "(ptr \<Rightarrow> memory \<Rightarrow> stop + memory) \<Rightarrow> ptr \<Rightarrow> memory \<Rightarrow> stop + memory" where
  "space_boundary on_input_boundary t m =
     rbind (load_as to_space t m) (\<lambda>s. on_input_boundary (ss_on_input_boundary_ctx s) m)"

definition handle_in_token_char_mem :: "platform \<Rightarrow> (ptr \<Rightarrow> memory \<Rightarrow> stop + memory) \<Rightarrow> ptr \<Rightarrow> int \<Rightarrow> bool
    \<Rightarrow> memory \<Rightarrow> stop + text_ptr option option \<times> memory" where
  "handle_in_token_char_mem E on_input_boundary t ch line_has_token m =
     (if ch = cSPACE \<or> ch = cTAB then
        rbind (space_tokenizer_end_token_mem E t m) (\<lambda>(out, m). Inr (Some out, m))
      else if ch = cNL then
        rbind (if line_has_token then space_boundary on_input_boundary t m else Inr m) (\<lambda>m.
        rbind (space_tokenizer_end_token_mem E t m) (\<lambda>(out, m). Inr (Some out, m)))
      else rbind
        (if ch = cQUOTE \<or> ch = cDQUOTE
           then set_space t (\<lambda>s. s\<lparr>ss_state := IN_TOKEN_QUOTED, ss_quote_char := ch\<rparr>) m
         else if ch = cBACKSLASH then space_tokenizer_start_in_token_escape_mem t m
         else space_tokenizer_append_to_token_mem E t ch m) (\<lambda>m. Inr (None, m)))"

definition handle_quoted_char_mem :: "platform \<Rightarrow> ptr \<Rightarrow> int \<Rightarrow> memory
    \<Rightarrow> stop + text_ptr option option \<times> memory" where
  "handle_quoted_char_mem E t ch m =
     rbind (load_as to_space t m) (\<lambda>s.
     if ch = ss_quote_char s then
       rbind (set_space t (\<lambda>s. s\<lparr>ss_state := IN_TOKEN\<rparr>) m) (\<lambda>m. Inr (None, m))
     else if ch = cNL then
       rbind (tokenizer_set_error_mem (ss_base s) TOKENIZER_ERR_UNTERMINATED_QUOTE m) (\<lambda>m. Inr (Some None, m))
     else rbind (space_tokenizer_append_to_token_mem E t ch m) (\<lambda>m. Inr (None, m)))"

definition handle_eof_mem :: "platform \<Rightarrow> (ptr \<Rightarrow> memory \<Rightarrow> stop + memory) \<Rightarrow> ptr \<Rightarrow> infile \<Rightarrow> bool
    \<Rightarrow> memory \<Rightarrow> stop + text_ptr option \<times> memory" where
  "handle_eof_mem E on_input_boundary t token_source line_has_token m =
     rbind (load_as to_space t m) (\<lambda>s.
     if ferror token_source then
       rbind (tokenizer_set_error_mem (ss_base s) TOKENIZER_ERR_IO m) (\<lambda>m. Inr (None, m))
     else if ss_state s = IN_TOKEN_ESCAPE \<or> ss_state s = NO_TOKEN_ESCAPE then
       rbind (tokenizer_set_error_mem (ss_base s) TOKENIZER_ERR_BACKSLASH_AT_EOF m) (\<lambda>m. Inr (None, m))
     else if ss_state s = IN_QUOTED_TOKEN \<or> ss_state s = IN_TOKEN_QUOTED then
       rbind (tokenizer_set_error_mem (ss_base s) TOKENIZER_ERR_UNTERMINATED_QUOTE m) (\<lambda>m. Inr (None, m))
     else if line_has_token then
       rbind (space_boundary on_input_boundary t m) (\<lambda>m. space_tokenizer_end_token_mem E t m)
     else Inr (None, m))"

function next_space_loop_mem :: "platform \<Rightarrow> (ptr \<Rightarrow> memory \<Rightarrow> stop + memory) \<Rightarrow> ptr \<Rightarrow> bool \<Rightarrow> infile
    \<Rightarrow> memory \<Rightarrow> stop + text_ptr option \<times> infile \<times> memory" where
  "next_space_loop_mem E cb t line_has_token f m =
     (case getc f of (ch, f') \<Rightarrow>
      if ch = EOF then
        rbind (handle_eof_mem E cb t f' line_has_token m) (\<lambda>(out, m). Inr (out, f', m))
      else rbind (load_as to_space t m) (\<lambda>s. case ss_state s of
        NO_TOKEN \<Rightarrow>
          rbind (handle_no_token_char_mem E t ch line_has_token m) (\<lambda>(m, line_has_token).
          next_space_loop_mem E cb t line_has_token f' m)
      | NO_TOKEN_ESCAPE \<Rightarrow>
          rbind (space_tokenizer_end_escape_mem E t ch m) (\<lambda>m.
          next_space_loop_mem E cb t line_has_token f' m)
      | IN_TOKEN \<Rightarrow>
          rbind (handle_in_token_char_mem E cb t ch line_has_token m) (\<lambda>(done, m).
          case done of Some out \<Rightarrow> Inr (out, f', m)
          | None \<Rightarrow> next_space_loop_mem E cb t line_has_token f' m)
      | IN_QUOTED_TOKEN \<Rightarrow>
          rbind (handle_quoted_char_mem E t ch m) (\<lambda>(done, m).
          case done of Some out \<Rightarrow> Inr (out, f', m)
          | None \<Rightarrow> next_space_loop_mem E cb t line_has_token f' m)
      | IN_TOKEN_QUOTED \<Rightarrow>
          rbind (handle_quoted_char_mem E t ch m) (\<lambda>(done, m).
          case done of Some out \<Rightarrow> Inr (out, f', m)
          | None \<Rightarrow> next_space_loop_mem E cb t line_has_token f' m)
      | IN_TOKEN_ESCAPE \<Rightarrow>
          rbind (space_tokenizer_end_escape_mem E t ch m) (\<lambda>m.
          next_space_loop_mem E cb t line_has_token f' m)))"
  by pat_completeness auto
termination
  by (relation "measure (\<lambda>(E, cb, t, line_has_token, f, m). length (in_rest f))")
    (auto simp: getc_def split: list.splits)

declare next_space_loop_mem.simps [simp del]

definition next_space_token_mem :: "platform \<Rightarrow> (ptr \<Rightarrow> memory \<Rightarrow> stop + memory) \<Rightarrow> ptr \<Rightarrow> infile
    \<Rightarrow> memory \<Rightarrow> stop + text_ptr option \<times> infile \<times> memory" where
  "next_space_token_mem E on_input_boundary t token_source m =
     rbind (tokenizer_impl t m) (\<lambda>self. next_space_loop_mem E on_input_boundary self False token_source m)"

section \<open>The delimiter tokenizer\<close>

definition delim_tokenizer_start_token_mem :: "ptr \<Rightarrow> memory \<Rightarrow> stop + memory" where
  "delim_tokenizer_start_token_mem t m =
     rbind (load_as to_delim t m) (\<lambda>d.
     rbind (tokenizer_pos_mem (ds_base d) m) (\<lambda>pos.
     mem_store t (Delim_tokenizer (d\<lparr>ds_token_start := pos\<rparr>)) m))"

definition delim_tokenizer_append_to_token_mem :: "platform \<Rightarrow> ptr \<Rightarrow> int \<Rightarrow> memory \<Rightarrow> stop + memory" where
  "delim_tokenizer_append_to_token_mem E t ch m =
     rbind (load_as to_delim t m) (\<lambda>d. tokenizer_add_mem E (ds_base d) (to_char ch) m)"

text \<open>The returned pointer is read here on behalf of the caller.\<close>

definition delim_tokenizer_end_token_mem :: "platform \<Rightarrow> ptr \<Rightarrow> memory \<Rightarrow> stop + text_ptr \<times> memory" where
  "delim_tokenizer_end_token_mem E t m =
     rbind (load_as to_delim t m) (\<lambda>d.
     rbind (tokenizer_add_mem E (ds_base d) 0 m) (\<lambda>m.
     rbind (tokenizer_token_mem (ds_base d) (ds_token_start d) m) (\<lambda>token.
     rbind (read_text token m) (\<lambda>_.
     Inr (token, m)))))"

text \<open>Here \<open>t\<close> is the shared structure and \<open>self\<close> the implementation.\<close>

definition delim_at_eof_mem :: "platform \<Rightarrow> ptr \<Rightarrow> ptr \<Rightarrow> infile \<Rightarrow> memory \<Rightarrow> stop + text_ptr option \<times> memory" where
  "delim_at_eof_mem E t self token_source m =
     rbind (load_as to_delim self m) (\<lambda>d.
     rbind (tokenizer_pos_mem t m) (\<lambda>pos.
     if ferror token_source then
       rbind (tokenizer_set_error_mem t TOKENIZER_ERR_IO m) (\<lambda>m. Inr (None, m))
     else if ds_token_start d = pos then Inr (None, m)
     else rbind
       (if ds_delim d \<noteq> cNL then
          rbind (tokenizer_token_mem t (pos - 1) m) (\<lambda>last.
          rbind (read_char last m) (\<lambda>c.
          if c = cNL then tokenizer_drop_last_mem t m else Inr m))
        else Inr m) (\<lambda>m.
       rbind (delim_tokenizer_end_token_mem E self m) (\<lambda>(token, m). Inr (Some token, m)))))"

function next_delim_loop_mem :: "platform \<Rightarrow> (ptr \<Rightarrow> memory \<Rightarrow> stop + memory) \<Rightarrow> ptr \<Rightarrow> ptr \<Rightarrow> infile
    \<Rightarrow> memory \<Rightarrow> stop + text_ptr option \<times> infile \<times> memory" where
  "next_delim_loop_mem E cb t self f m =
     (case getc f of (ch, f') \<Rightarrow>
      if ch = EOF then rbind (delim_at_eof_mem E t self f' m) (\<lambda>(out, m). Inr (out, f', m))
      else rbind (load_as to_delim self m) (\<lambda>d.
        if ch \<noteq> char_promote E (ds_delim d) then
          rbind (delim_tokenizer_append_to_token_mem E self ch m) (\<lambda>m.
          next_delim_loop_mem E cb t self f' m)
        else
          rbind (cb (ds_on_input_boundary_ctx d) m) (\<lambda>m.
          rbind (delim_tokenizer_end_token_mem E self m) (\<lambda>(token, m). Inr (Some token, f', m)))))"
  by pat_completeness auto
termination
  by (relation "measure (\<lambda>(E, cb, t, self, f, m). length (in_rest f))")
    (auto simp: getc_def split: list.splits)

declare next_delim_loop_mem.simps [simp del]

definition next_delim_token_mem :: "platform \<Rightarrow> (ptr \<Rightarrow> memory \<Rightarrow> stop + memory) \<Rightarrow> ptr \<Rightarrow> infile
    \<Rightarrow> memory \<Rightarrow> stop + text_ptr option \<times> infile \<times> memory" where
  "next_delim_token_mem E on_input_boundary t token_source m =
     rbind (tokenizer_impl t m) (\<lambda>self.
     rbind (tokenizer_reset_mem t m) (\<lambda>m.
     rbind (delim_tokenizer_start_token_mem self m) (\<lambda>m.
     next_delim_loop_mem E on_input_boundary t self token_source m)))"

text \<open>The dispatch \<open>t->ops->next_token(t, arg_source)\<close>.\<close>

definition tokenizer_next_token_mem :: "platform \<Rightarrow> (ptr \<Rightarrow> memory \<Rightarrow> stop + memory) \<Rightarrow> ptr \<Rightarrow> infile
    \<Rightarrow> memory \<Rightarrow> stop + text_ptr option \<times> infile \<times> memory" where
  "tokenizer_next_token_mem E on_input_boundary t arg_source m =
     rbind (load_as to_tokenizer t m) (\<lambda>tk. case ts_ops tk of
       space_tokenizer_ops \<Rightarrow> next_space_token_mem E on_input_boundary t arg_source m
     | delim_tokenizer_ops \<Rightarrow> next_delim_token_mem E on_input_boundary t arg_source m)"

end
