(* ===== verification/Memory_Reading.thy ===== *)
theory Memory_Reading
  imports Memory_Reader
begin

text \<open>
  Reading on pointers follows reading on values: a call of either \<open>next_token\<close> function leaves
  the structures of the tokenizer and of the command with the values that the call of
  \<open>Space_Tokenizer\<close> or \<open>Delim_Tokenizer\<close> returns, and a pointer to the same token.
\<close>

section \<open>A tokenizer with its command\<close>

text \<open>
  After some steps since \<open>m0\<close> there is at \<open>t\<close> a tokenizer with its implementation at \<open>r\<close>, and at \<open>c\<close>
  the command it calls back. \<open>given\<close> also has a token, in the part of the tokenizer.
\<close>

definition given :: "memory \<Rightarrow> ptr set \<Rightarrow> ptr \<Rightarrow> ptr \<Rightarrow> ptr \<Rightarrow> memory \<Rightarrow> toker \<Rightarrow> command \<Rightarrow> cstr option
    \<Rightarrow> text_ptr option \<Rightarrow> bool" where
  "given m0 A0 r c t m k cmd out out' \<longleftrightarrow> (\<exists>A B. moves m0 A0 m (A \<union> B) \<and> A \<inter> B = {} \<and> toker_at r c m t k A
     \<and> owns_command m c cmd B \<and> rel_option (\<lambda>w s. fst s \<in> A \<and> read_text s m = Inr w) out out')"

abbreviation reading :: "memory \<Rightarrow> ptr set \<Rightarrow> ptr \<Rightarrow> ptr \<Rightarrow> ptr \<Rightarrow> memory \<Rightarrow> toker \<Rightarrow> command \<Rightarrow> bool" where
  "reading m0 A0 r c t m k cmd \<equiv> given m0 A0 r c t m k cmd None None"

text \<open>The result of a handler: nothing yet, or the result of the call.\<close>

definition answered :: "memory \<Rightarrow> ptr set \<Rightarrow> ptr \<Rightarrow> ptr \<Rightarrow> ptr \<Rightarrow> memory \<Rightarrow> toker \<Rightarrow> command \<Rightarrow> cstr option option
    \<Rightarrow> text_ptr option option \<Rightarrow> bool" where
  "answered m0 A0 r c t m k cmd d d' \<longleftrightarrow> (case d of None \<Rightarrow> d' = None \<and> reading m0 A0 r c t m k cmd
     | Some out \<Rightarrow> \<exists>out'. d' = Some out' \<and> given m0 A0 r c t m k cmd out out')"

lemma answered_simps [simp]:
  "answered m0 A0 r c t m k cmd None d' \<longleftrightarrow> d' = None \<and> reading m0 A0 r c t m k cmd"
  "answered m0 A0 r c t m k cmd (Some out) (Some out') \<longleftrightarrow> given m0 A0 r c t m k cmd out out'"
  "answered m0 A0 r c t m k cmd (Some out) None \<longleftrightarrow> False"
  by (simp_all add: answered_def)

lemma reading_toker:
  assumes "reading m0 A0 r c t m k cmd"
    and "\<And>A. mem_ok m \<Longrightarrow> toker_at r c m t k A \<Longrightarrow> updates (toker_at r c) m t A mv mh"
  shows "follows (\<lambda>k' m'. reading m0 A0 r c t m' k' cmd) mv mh"
proof -
  obtain A B where g: "moves m0 A0 m (A \<union> B)" "A \<inter> B = {}" "toker_at r c m t k A" "owns_command m c cmd B"
    using assms(1) by (auto simp: given_def)
  have "follows (\<lambda>k' m'. placed (toker_at r c) m0 A0 m B t k' m') mv mh"
    by (rule chain_updates [OF g(1) refl g(2) assms(2) [OF _ g(3)]])
  then show ?thesis
    by (rule follows_mono) (auto elim!: placedE simp: given_def intro: cmd.kept [OF g(4)])
qed

lemma reading_boundary:
  assumes "reading m0 A0 r c t m k cmd"
  shows "\<exists>m'. command_increment_line_count_mem c m = Inr m'
    \<and> reading m0 A0 r c t m' k (command_increment_line_count cmd)"
proof -
  obtain A B where g: "moves m0 A0 m (A \<union> B)" "A \<inter> B = {}" "toker_at r c m t k A" "owns_command m c cmd B"
    using assms(1) by (auto simp: given_def)
  have "follows (\<lambda>c' m'. placed owns_command m0 A0 m A c c' m') (Inr (command_increment_line_count cmd))
      (command_increment_line_count_mem c m)"
    by (rule chain_updates [OF g(1) _ _ increment_line_count_updates [OF _ g(4)]]) (use g(2) in auto)
  then obtain m' B' where m': "command_increment_line_count_mem c m = Inr m'" "moves m0 A0 m' (B' \<union> A)"
    "B' \<inter> A = {}" "agree A m m'" "owns_command m' c (command_increment_line_count cmd) B'"
    by (auto elim!: placedE)
  moreover have "toker_at r c m' t k A" using g(3) toker_at_agree m'(4) by blast
  ultimately show ?thesis by (auto simp: given_def Un_commute)
qed

section \<open>Access to the structures\<close>

definition space_struct :: "space_tokenizer \<Rightarrow> ptr \<Rightarrow> ptr \<Rightarrow> ptr \<Rightarrow> space_tokenizer_s" where
  "space_struct s t e c = \<lparr>ss_base = t, ss_state = st_state s, ss_quote_char = st_quote_char s,
     ss_token_start = st_token_start s, ss_logical_end_of_input_marker = e, ss_on_input_boundary_ctx = c\<rparr>"

definition delim_struct :: "delim_tokenizer \<Rightarrow> ptr \<Rightarrow> ptr \<Rightarrow> delim_tokenizer_s" where
  "delim_struct d t c = \<lparr>ds_base = t, ds_token_start = dt_token_start d, ds_delim = dt_delim d,
     ds_on_input_boundary_ctx = c\<rparr>"

lemma struct_fields [simp]:
  "ss_base (space_struct s t e c) = t" "ss_state (space_struct s t e c) = st_state s"
  "ss_quote_char (space_struct s t e c) = st_quote_char s"
  "ss_token_start (space_struct s t e c) = st_token_start s"
  "ss_logical_end_of_input_marker (space_struct s t e c) = e"
  "ss_on_input_boundary_ctx (space_struct s t e c) = c"
  "ds_base (delim_struct d t c) = t" "ds_token_start (delim_struct d t c) = dt_token_start d"
  "ds_delim (delim_struct d t c) = dt_delim d" "ds_on_input_boundary_ctx (delim_struct d t c) = c"
  "impl_object (Space s) t e c = Space_tokenizer (space_struct s t e c)"
  "impl_object (Delim d) t e c = Delim_tokenizer (delim_struct d t c)"
  "to_space (Space_tokenizer x) = Inr x" "to_delim (Delim_tokenizer y) = Inr y"
  by (simp_all add: space_struct_def delim_struct_def impl_object_def to_space_def to_delim_def)

lemma reading_parts:
  assumes "given m0 A0 r c t m k cmd out out'"
  obtains q e z where "mem_ok m" "m_heap m t = Some (Tokenizer (tokenizer_struct k q r))"
    "m_heap m r = Some (impl_object k t e c)" "read_string_or_null e m = Inr (toker_marker k)"
    "m_heap m q = Some (Buffer \<lparr>bs_buf = z, bs_sz = bf_sz (toker_buffer k), bs_pos = bf_pos (toker_buffer k)\<rparr>)"
    "m_heap m z = Some (Chars (bf_buf (toker_buffer k)))"
proof -
  obtain A B where g: "moves m0 A0 m (A \<union> B)" "toker_at r c m t k A" using assms by (auto simp: given_def)
  obtain q e Q S where t: "m_heap m t = Some (Tokenizer (tokenizer_struct k q r))"
    "m_heap m r = Some (impl_object k t e c)" "owns_buffer m q (toker_buffer k) Q"
    "owns_string m e (toker_marker k) S" using g(2) by (rule toker_atE)
  obtain z where "m_heap m q = Some (Buffer \<lparr>bs_buf = z, bs_sz = bf_sz (toker_buffer k), bs_pos = bf_pos (toker_buffer k)\<rparr>)"
    "m_heap m z = Some (Chars (bf_buf (toker_buffer k)))" using t(3) by (auto simp: owns_buffer_def)
  from that [OF moves_ok(1) [OF g(1)] t(1,2) read_or_null(2) [OF t(4)] this] show ?thesis .
qed

lemma reading_space:
  assumes "reading m0 A0 r c t m (Space s) cmd"
  obtains e where "load_as to_space r m = Inr (space_struct s t e c)"
    "read_string_or_null e m = Inr (st_logical_end_of_input_marker s)"
  by (rule reading_parts [OF assms]) (simp add: load_as_Some toker_marker_def that)

lemma reading_delim:
  "reading m0 A0 r c t m (Delim d) cmd \<Longrightarrow> load_as to_delim r m = Inr (delim_struct d t c)"
  by (rule reading_parts, assumption) (simp add: load_as_Some)

lemma reading_pos:
  "reading m0 A0 r c t m k cmd \<Longrightarrow> tokenizer_pos_mem t m = Inr (tokenizer_pos (toker_base k))"
  by (rule reading_parts, assumption)
    (simp add: tokenizer_pos_mem_def buffer_pos_mem_def load_as_Some to_buffer_def tokenizer_pos_def buffer_pos_def)

lemma reading_impl: "reading m0 A0 r c t m k cmd \<Longrightarrow> tokenizer_impl t m = Inr r"
  by (rule reading_parts, assumption) (simp add: tokenizer_impl_def load_as_Some)

text \<open>Assignments that leave the shared part and the marker.\<close>

lemma set_space_reading:
  assumes g: "reading m0 A0 r c t m (Space s) cmd"
    and f: "\<And>e. f (space_struct s t e c) = space_struct s' t e c" "st_base s' = st_base s"
      "st_logical_end_of_input_marker s' = st_logical_end_of_input_marker s"
  shows "\<exists>m'. set_space r f m = Inr m' \<and> reading m0 A0 r c t m' (Space s') cmd"
proof -
  obtain q e where h: "m_heap m r = Some (impl_object (Space s) t e c)" by (rule reading_parts [OF g])
  have "follows (\<lambda>k' m'. reading m0 A0 r c t m' k' cmd) (Inr (Space s')) (mem_store r (impl_object (Space s') t e c) m)"
    by (rule reading_toker [OF g toker_store_impl [OF _ _ h]])
      (simp_all add: f(2,3) tokenizer_struct_def toker_buffer_def toker_marker_def fun_eq_iff)
  with h show ?thesis by (simp add: set_space_def load_as_Some f(1))
qed

lemma set_delim_reading:
  assumes g: "reading m0 A0 r c t m (Delim d) cmd" and d': "dt_base d' = dt_base d"
  shows "\<exists>m'. mem_store r (Delim_tokenizer (delim_struct d' t c)) m = Inr m' \<and> reading m0 A0 r c t m' (Delim d') cmd"
proof -
  obtain q e where h: "m_heap m r = Some (impl_object (Delim d) t e c)" by (rule reading_parts [OF g])
  have "follows (\<lambda>k' m'. reading m0 A0 r c t m' k' cmd) (Inr (Delim d')) (mem_store r (impl_object (Delim d') t e c) m)"
    by (rule reading_toker [OF g toker_store_impl [OF _ _ h]])
      (simp_all add: d' tokenizer_struct_def toker_buffer_def toker_marker_def fun_eq_iff)
  then show ?thesis by simp
qed

text \<open>The operations of the shared part.\<close>

lemma add_reading:
  assumes "reading m0 A0 r c t m k cmd"
  shows "follows (\<lambda>b m'. reading m0 A0 r c t m' (map_base (\<lambda>_. b) k) cmd)
    (tokenizer_add E (toker_base k) ch) (tokenizer_add_mem E t ch m)"
  using reading_toker [OF assms toker_add_updates [where E = E and ch = ch and k = k]]
  by (cases "tokenizer_add E (toker_base k) ch") simp_all

lemma set_error_reading:
  assumes g: "reading m0 A0 r c t m k cmd"
  shows "\<exists>m'. tokenizer_set_error_mem t x m = Inr m'
    \<and> reading m0 A0 r c t m' (map_base (\<lambda>b. tokenizer_set_error b x) k) cmd"
proof -
  obtain q where h: "m_heap m t = Some (Tokenizer (tokenizer_struct k q r))" by (rule reading_parts [OF g])
  from reading_toker [OF g toker_store_base [OF _ _ h, where x = x and k = k]] h show ?thesis
    by (simp add: tokenizer_set_error_mem_def load_as_Some tokenizer_set_error_def)
qed

lemma buffer_reading:
  assumes g: "reading m0 A0 r c t m k cmd" and h: "m_heap m t = Some (Tokenizer s)"
    "m_heap m (ts_buf s) = Some (Buffer b)"
  shows "\<exists>m'. mem_store (ts_buf s) (Buffer (b\<lparr>bs_pos := i\<rparr>)) m = Inr m'
    \<and> reading m0 A0 r c t m' (map_base (\<lambda>t. t\<lparr>tk_buf := (tk_buf t)\<lparr>bf_pos := i\<rparr>\<rparr>) k) cmd"
proof -
  obtain q z where "m_heap m t = Some (Tokenizer (tokenizer_struct k q r))"
    "m_heap m q = Some (Buffer \<lparr>bs_buf = z, bs_sz = bf_sz (toker_buffer k), bs_pos = bf_pos (toker_buffer k)\<rparr>)"
    by (rule reading_parts [OF g])
  with h have b: "bs_sz b = bf_sz (toker_buffer k)" by auto
  have "map_base (\<lambda>t. t\<lparr>tk_buf := (tk_buf t)\<lparr>bf_sz := bs_sz b, bf_pos := i\<rparr>\<rparr>) k
      = map_base (\<lambda>t. t\<lparr>tk_buf := (tk_buf t)\<lparr>bf_pos := i\<rparr>\<rparr>) k"
    using b by (cases k) (simp_all add: map_base_def toker_buffer_def)
  moreover have "b\<lparr>bs_sz := bs_sz b, bs_pos := i\<rparr> = b\<lparr>bs_pos := i\<rparr>" by simp
  ultimately show ?thesis
    using reading_toker [OF g toker_store_buffer [OF _ _ h, where n = "bs_sz b" and i = i and k = k]] by simp
qed

lemma reset_reading:
  assumes g: "reading m0 A0 r c t m k cmd"
  shows "\<exists>m'. tokenizer_reset_mem t m = Inr m' \<and> reading m0 A0 r c t m' (map_base tokenizer_reset k) cmd"
proof -
  obtain q z where h: "m_heap m t = Some (Tokenizer (tokenizer_struct k q r))"
    "m_heap m q = Some (Buffer \<lparr>bs_buf = z, bs_sz = bf_sz (toker_buffer k), bs_pos = bf_pos (toker_buffer k)\<rparr>)"
    by (rule reading_parts [OF g])
  have "tokenizer_reset = (\<lambda>t. t\<lparr>tk_buf := (tk_buf t)\<lparr>bf_pos := 0\<rparr>\<rparr>)"
    by (simp add: fun_eq_iff tokenizer_reset_def buffer_reset_def)
  with buffer_reading [OF g h(1), of _ 0] h show ?thesis
    by (simp add: tokenizer_reset_mem_def buffer_reset_mem_def load_as_Some to_buffer_def)
qed

lemma drop_last_reading:
  assumes g: "reading m0 A0 r c t m k cmd"
  shows "\<exists>m'. tokenizer_drop_last_mem t m = Inr m' \<and> reading m0 A0 r c t m' (map_base tokenizer_drop_last k) cmd"
proof -
  obtain q z where h: "m_heap m t = Some (Tokenizer (tokenizer_struct k q r))"
    "m_heap m q = Some (Buffer \<lparr>bs_buf = z, bs_sz = bf_sz (toker_buffer k), bs_pos = bf_pos (toker_buffer k)\<rparr>)"
    by (rule reading_parts [OF g])
  have "map_base tokenizer_drop_last k = (if bf_pos (toker_buffer k) > 0
      then map_base (\<lambda>t. t\<lparr>tk_buf := (tk_buf t)\<lparr>bf_pos := bf_pos (toker_buffer k) - 1\<rparr>\<rparr>) k else k)"
    by (cases k) (simp_all add: map_base_def toker_buffer_def tokenizer_drop_last_def buffer_drop_last_def)
  with buffer_reading [OF g h(1), of _ "bf_pos (toker_buffer k) - 1"] h g show ?thesis
    by (simp add: tokenizer_drop_last_mem_def buffer_drop_last_mem_def load_as_Some to_buffer_def)
qed

lemma map_base_constructors [simp]:
  "map_base f (Space s) = Space (s\<lparr>st_base := f (st_base s)\<rparr>)" "map_base f (Delim d) = Delim (d\<lparr>dt_base := f (dt_base d)\<rparr>)"
  "toker_base (Space s) = st_base s" "toker_base (Delim d) = dt_base d"
  by (simp_all add: map_base_def toker_base_def)

text \<open>A pointer into the buffer.\<close>

lemma reading_token:
  assumes g: "reading m0 A0 r c t m k cmd"
  obtains z where "tokenizer_token_mem t pos m = Inr (z, pos)"
    "read_text (z, pos) m = c_string (tokenizer_token (toker_base k) pos)"
    "read_char (z, pos) m = blk_load (tokenizer_token (toker_base k) pos) 0"
    "\<And>w. c_string (tokenizer_token (toker_base k) pos) = Inr w \<Longrightarrow> given m0 A0 r c t m k cmd (Some w) (Some (z, pos))"
proof -
  obtain A B where g: "moves m0 A0 m (A \<union> B)" "A \<inter> B = {}" "toker_at r c m t k A" "owns_command m c cmd B"
    using g by (auto simp: given_def)
  obtain q e Q S where t: "A = {t, r} \<union> Q \<union> S" "m_heap m t = Some (Tokenizer (tokenizer_struct k q r))"
    "owns_buffer m q (toker_buffer k) Q" using g(3) by (rule toker_atE)
  obtain z where z: "z \<in> Q" "m_heap m z = Some (Chars (bf_buf (toker_buffer k)))"
    "m_heap m q = Some (Buffer \<lparr>bs_buf = z, bs_sz = bf_sz (toker_buffer k), bs_pos = bf_pos (toker_buffer k)\<rparr>)"
    using t(3) by (auto simp: owns_buffer_def)
  have "tokenizer_token (toker_base k) pos = drop (unat pos) (bf_buf (toker_buffer k))"
    by (simp add: tokenizer_token_def buffer_start_def)
  moreover have "z \<in> A" using t(1) z(1) by simp
  ultimately show ?thesis
    using g t(2) z(2,3)
    by (intro that [of z]) (auto simp: tokenizer_token_mem_def buffer_start_mem_def load_as_Some to_buffer_def
        read_text_def read_char_def to_chars_def given_def)
qed

lemma no_token_reading:
  assumes g: "reading m0 A0 r c t m (Space s) cmd"
  shows "\<exists>m'. space_tokenizer_no_token_mem r m = Inr m'
    \<and> reading m0 A0 r c t m' (Space (space_tokenizer_no_token s)) cmd
    \<and> tokenizer_token_mem t pos m' = tokenizer_token_mem t pos m"
proof -
  obtain q e z where h: "m_heap m t = Some (Tokenizer (tokenizer_struct (Space s) q r))"
    "m_heap m r = Some (impl_object (Space s) t e c)"
    "m_heap m q = Some (Buffer \<lparr>bs_buf = z, bs_sz = bf_sz (toker_buffer (Space s)),
      bs_pos = bf_pos (toker_buffer (Space s))\<rparr>)" by (rule reading_parts [OF g])
  obtain m1 where m1: "tokenizer_reset_mem t m = Inr m1"
    "reading m0 A0 r c t m1 (Space (s\<lparr>st_base := tokenizer_reset (st_base s)\<rparr>)) cmd"
    using reset_reading [OF g] by auto
  let ?f = "\<lambda>s. s\<lparr>ss_state := NO_TOKEN, ss_quote_char := 0, ss_token_start := 0\<rparr>"
  obtain m2 where m2: "set_space r ?f m1 = Inr m2"
    "reading m0 A0 r c t m2 (Space (space_tokenizer_no_token s)) cmd"
    using set_space_reading [OF m1(2), of ?f "space_tokenizer_no_token s"]
    by (auto simp: space_tokenizer_no_token_def space_struct_def)
  have "space_tokenizer_no_token_mem r m = Inr m2"
    using h(2) m1(1) m2(1) by (simp add: space_tokenizer_no_token_mem_def load_as_Some)
  moreover have "tokenizer_token_mem t pos m2 = tokenizer_token_mem t pos m"
  proof -
    have d: "t \<noteq> q" "t \<noteq> r" "r \<noteq> q" using h by auto
    have "m_heap m1 = (m_heap m)(q \<mapsto> Buffer \<lparr>bs_buf = z, bs_sz = bf_sz (toker_buffer (Space s)), bs_pos = 0\<rparr>)"
      using h(1,3) m1(1)
      by (auto simp: tokenizer_reset_mem_def buffer_reset_mem_def load_as_Some mem_store_def to_buffer_def)
    moreover from this have "\<exists>x. m_heap m2 = (m_heap m1)(r \<mapsto> x)"
      using h(2) d(3) m2(1) by (auto simp: set_space_def load_as_Some mem_store_def)
    ultimately show ?thesis
      using h(1,3) d by (auto simp: tokenizer_token_mem_def buffer_start_mem_def load_as_Some to_buffer_def)
  qed
  ultimately show ?thesis using m2(2) by blast
qed

section \<open>The space tokenizer\<close>

lemma start_reading:
  assumes g: "reading m0 A0 r c t m (Space s) cmd"
    and f: "\<And>e. f (space_struct s t e c) = space_struct s' t e c" "st_base s' = st_base s"
      "st_logical_end_of_input_marker s' = st_logical_end_of_input_marker s"
  shows "\<exists>m1 m2 e. set_space r f m = Inr m1 \<and> load_as to_space r m1 = Inr (space_struct s' t e c)
    \<and> tokenizer_pos_mem t m1 = Inr (tokenizer_pos (st_base s))
    \<and> set_space r (\<lambda>x. x\<lparr>ss_token_start := tokenizer_pos (st_base s)\<rparr>) m1 = Inr m2
    \<and> reading m0 A0 r c t m2 (Space (s'\<lparr>st_token_start := tokenizer_pos (st_base s)\<rparr>)) cmd"
proof -
  obtain m1 where m1: "set_space r f m = Inr m1" "reading m0 A0 r c t m1 (Space s') cmd"
    using set_space_reading [OF g f] by blast
  obtain e where e: "load_as to_space r m1 = Inr (space_struct s' t e c)" by (rule reading_space [OF m1(2)])
  let ?f = "\<lambda>x. x\<lparr>ss_token_start := tokenizer_pos (st_base s)\<rparr>"
  have "\<exists>m2. set_space r ?f m1 = Inr m2
      \<and> reading m0 A0 r c t m2 (Space (s'\<lparr>st_token_start := tokenizer_pos (st_base s)\<rparr>)) cmd"
    by (rule set_space_reading [OF m1(2)]) (simp_all add: space_struct_def)
  with m1(1) e reading_pos [OF m1(2)] f(2) show ?thesis by auto
qed

lemma quoted_reading:
  assumes g: "reading m0 A0 r c t m (Space s) cmd"
  shows "\<exists>m'. space_tokenizer_start_quoted_token_mem r ch m = Inr m'
    \<and> reading m0 A0 r c t m' (Space (space_tokenizer_start_quoted_token s ch)) cmd"
  using start_reading [OF g, of "\<lambda>x. x\<lparr>ss_state := IN_QUOTED_TOKEN, ss_quote_char := ch\<rparr>"
      "s\<lparr>st_state := IN_QUOTED_TOKEN, st_quote_char := ch\<rparr>"]
  by (auto simp: space_tokenizer_start_quoted_token_mem_def space_tokenizer_start_quoted_token_def space_struct_def)

lemma no_token_escape_reading:
  assumes g: "reading m0 A0 r c t m (Space s) cmd"
  shows "\<exists>m'. space_tokenizer_start_no_token_escape_mem r m = Inr m'
    \<and> reading m0 A0 r c t m' (Space (space_tokenizer_start_no_token_escape s)) cmd"
  using start_reading [OF g, of "\<lambda>x. x\<lparr>ss_state := NO_TOKEN_ESCAPE\<rparr>" "s\<lparr>st_state := NO_TOKEN_ESCAPE\<rparr>"]
  by (auto simp: space_tokenizer_start_no_token_escape_mem_def space_tokenizer_start_no_token_escape_def
      space_struct_def)

lemma in_token_escape_reading:
  assumes g: "reading m0 A0 r c t m (Space s) cmd"
  shows "\<exists>m'. space_tokenizer_start_in_token_escape_mem r m = Inr m'
    \<and> reading m0 A0 r c t m' (Space (space_tokenizer_start_in_token_escape s)) cmd"
  unfolding space_tokenizer_start_in_token_escape_mem_def
  by (rule set_space_reading [OF g])
    (simp_all add: space_tokenizer_start_in_token_escape_def space_struct_def)

lemma space_add_reading:
  assumes g: "reading m0 A0 r c t m (Space s) cmd"
  shows "follows (\<lambda>b m'. reading m0 A0 r c t m' (Space (s\<lparr>st_base := b\<rparr>)) cmd)
    (tokenizer_add E (st_base s) ch) (tokenizer_add_mem E t ch m)"
  using add_reading [OF g, of E ch] by simp

lemma space_put_reading:
  assumes g: "reading m0 A0 r c t m (Space s) cmd"
  shows "follows (\<lambda>s' m'. reading m0 A0 r c t m' (Space s') cmd)
    (rbind (tokenizer_add E (st_base s) ch) (\<lambda>b. Inr (s\<lparr>st_base := b\<rparr>))) (tokenizer_add_mem E t ch m)"
  using space_add_reading [OF g, of E ch] by (cases "tokenizer_add E (st_base s) ch") simp_all

lemma append_reading:
  assumes g: "reading m0 A0 r c t m (Space s) cmd"
  shows "follows (\<lambda>s' m'. reading m0 A0 r c t m' (Space s') cmd)
    (space_tokenizer_append_to_token E s ch) (space_tokenizer_append_to_token_mem E r ch m)"
proof -
  obtain e where "load_as to_space r m = Inr (space_struct s t e c)" by (rule reading_space [OF g])
  then show ?thesis
    unfolding space_tokenizer_append_to_token_def space_tokenizer_append_to_token_mem_def
    by (simp add: space_put_reading [OF g])
qed

lemma end_escape_reading:
  assumes g: "reading m0 A0 r c t m (Space s) cmd"
  shows "follows (\<lambda>s' m'. reading m0 A0 r c t m' (Space s') cmd)
    (space_tokenizer_end_escape E s ch) (space_tokenizer_end_escape_mem E r ch m)"
proof -
  let ?s = "s\<lparr>st_state := IN_TOKEN\<rparr>"
  obtain m1 where m1: "set_space r (\<lambda>x. x\<lparr>ss_state := IN_TOKEN\<rparr>) m = Inr m1" "reading m0 A0 r c t m1 (Space ?s) cmd"
    using set_space_reading [OF g, of "\<lambda>x. x\<lparr>ss_state := IN_TOKEN\<rparr>" ?s] by (auto simp: space_struct_def)
  obtain e where "load_as to_space r m1 = Inr (space_struct ?s t e c)" by (rule reading_space [OF m1(2)])
  with m1 space_put_reading [OF m1(2), of E "to_char ch"] show ?thesis
    by (simp add: space_tokenizer_end_escape_def space_tokenizer_end_escape_mem_def)
qed

lemma start_token_reading:
  assumes g: "reading m0 A0 r c t m (Space s) cmd"
  shows "follows (\<lambda>s' m'. reading m0 A0 r c t m' (Space s') cmd)
    (space_tokenizer_start_token E s ch) (space_tokenizer_start_token_mem E r ch m)"
proof -
  let ?s = "s\<lparr>st_state := IN_TOKEN\<rparr>" and ?p = "tokenizer_pos (st_base s)"
  have "\<exists>m1 m2 e. set_space r (\<lambda>x. x\<lparr>ss_state := IN_TOKEN\<rparr>) m = Inr m1
    \<and> load_as to_space r m1 = Inr (space_struct ?s t e c) \<and> tokenizer_pos_mem t m1 = Inr ?p
    \<and> set_space r (\<lambda>x. x\<lparr>ss_token_start := ?p\<rparr>) m1 = Inr m2
    \<and> reading m0 A0 r c t m2 (Space (?s\<lparr>st_token_start := ?p\<rparr>)) cmd"
    by (rule start_reading [OF g]) (simp_all add: space_struct_def)
  then obtain m1 m2 e where m1: "set_space r (\<lambda>x. x\<lparr>ss_state := IN_TOKEN\<rparr>) m = Inr m1"
    "load_as to_space r m1 = Inr (space_struct ?s t e c)" "tokenizer_pos_mem t m1 = Inr ?p"
    "set_space r (\<lambda>x. x\<lparr>ss_token_start := ?p\<rparr>) m1 = Inr m2"
    "reading m0 A0 r c t m2 (Space (?s\<lparr>st_token_start := ?p\<rparr>)) cmd" by blast
  with space_put_reading [OF m1(5), of E "to_char ch"] show ?thesis
    by (simp add: space_tokenizer_start_token_def space_tokenizer_start_token_mem_def)
qed

lemma end_token_reading:
  assumes g: "reading m0 A0 r c t m (Space s) cmd"
  shows "follows (\<lambda>(out, s') (out', m'). given m0 A0 r c t m' (Space s') cmd out out')
    (space_tokenizer_end_token E s) (space_tokenizer_end_token_mem E r m)"
proof -
  obtain e where "load_as to_space r m = Inr (space_struct s t e c)" by (rule reading_space [OF g])
  moreover have "follows (\<lambda>(out, s') (out', m'). given m0 A0 r c t m' (Space s') cmd out out')
    (rbind (tokenizer_add E (st_base s) 0) (\<lambda>b.
       let start = st_token_start s; t' = space_tokenizer_no_token (s\<lparr>st_base := b\<rparr>)
       in rbind (c_string (tokenizer_token (st_base t') start)) (\<lambda>token.
          Inr (if st_logical_end_of_input_marker t' \<noteq> None \<and> the (st_logical_end_of_input_marker t') = token
               then None else Some token, t'))))
    (rbind (tokenizer_add_mem E t 0 m) (\<lambda>m.
     rbind (tokenizer_token_mem t (st_token_start s) m) (\<lambda>token.
     rbind (space_tokenizer_no_token_mem r m) (\<lambda>m.
     rbind (read_text token m) (\<lambda>text.
     rbind (load_as to_space r m) (\<lambda>s.
     rbind (read_string_or_null (ss_logical_end_of_input_marker s) m) (\<lambda>marker.
     Inr (if marker = Some text then None else Some token, m))))))))"
    unfolding Let_def
  proof (rule follows_bind [OF space_add_reading [OF g]])
    fix b m1
    let ?s = "space_tokenizer_no_token (s\<lparr>st_base := b\<rparr>)" and ?n = "st_token_start s"
    assume b: "reading m0 A0 r c t m1 (Space (s\<lparr>st_base := b\<rparr>)) cmd"
    obtain m2 where m2: "space_tokenizer_no_token_mem r m1 = Inr m2" "reading m0 A0 r c t m2 (Space ?s) cmd"
      "tokenizer_token_mem t ?n m2 = tokenizer_token_mem t ?n m1" using no_token_reading [OF b, of ?n] by blast
    obtain z where z: "tokenizer_token_mem t ?n m2 = Inr (z, ?n)"
      "read_text (z, ?n) m2 = c_string (tokenizer_token (st_base ?s) ?n)"
      "\<And>w. c_string (tokenizer_token (st_base ?s) ?n) = Inr w \<Longrightarrow> given m0 A0 r c t m2 (Space ?s) cmd (Some w) (Some (z, ?n))"
      using reading_token [OF m2(2), of ?n] by auto
    obtain e where "load_as to_space r m2 = Inr (space_struct ?s t e c)"
      "read_string_or_null e m2 = Inr (st_logical_end_of_input_marker ?s)" by (rule reading_space [OF m2(2)])
    moreover have "tokenizer_token_mem t ?n m1 = Inr (z, ?n)" using m2(3) z(1) by simp
    ultimately show "follows (\<lambda>(out, s') (out', m'). given m0 A0 r c t m' (Space s') cmd out out')
       (rbind (c_string (tokenizer_token (st_base ?s) ?n)) (\<lambda>token.
          Inr (if st_logical_end_of_input_marker ?s \<noteq> None \<and> the (st_logical_end_of_input_marker ?s) = token
               then None else Some token, ?s)))
      (rbind (tokenizer_token_mem t ?n m1) (\<lambda>token.
     rbind (space_tokenizer_no_token_mem r m1) (\<lambda>m.
     rbind (read_text token m) (\<lambda>text.
     rbind (load_as to_space r m) (\<lambda>s.
     rbind (read_string_or_null (ss_logical_end_of_input_marker s) m) (\<lambda>marker.
     Inr (if marker = Some text then None else Some token, m)))))))"
      using m2(1,2) z(2,3) by (cases "c_string (tokenizer_token (st_base ?s) ?n)") auto
  qed
  ultimately show ?thesis by (simp add: space_tokenizer_end_token_def space_tokenizer_end_token_mem_def Let_def
      space_tokenizer_no_token_def)
qed

lemma space_boundary_reading:
  assumes g: "reading m0 A0 r c t m (Space s) cmd"
  shows "\<exists>m'. space_boundary command_increment_line_count_mem r m = Inr m'
    \<and> reading m0 A0 r c t m' (Space s) (command_increment_line_count cmd)"
proof -
  obtain e where "load_as to_space r m = Inr (space_struct s t e c)" by (rule reading_space [OF g])
  with reading_boundary [OF g] show ?thesis by (simp add: space_boundary_def)
qed

lemma follows_Inr: "\<exists>y. mh = Inr y \<and> R v y \<Longrightarrow> follows R (Inr v) mh"
  by simp

lemma no_token_char_reading:
  assumes g: "reading m0 A0 r c t m (Space s) cmd"
  shows "follows (\<lambda>(s', l) (m', l'). l' = l \<and> reading m0 A0 r c t m' (Space s') cmd)
    (handle_no_token_char E s ch l) (handle_no_token_char_mem E r ch l m)"
proof -
  have "follows (\<lambda>s' m'. reading m0 A0 r c t m' (Space s') cmd)
    (if ch = cQUOTE \<or> ch = cDQUOTE then Inr (space_tokenizer_start_quoted_token s ch)
     else if ch = cBACKSLASH then Inr (space_tokenizer_start_no_token_escape s)
     else space_tokenizer_start_token E s ch)
    (if ch = cQUOTE \<or> ch = cDQUOTE then space_tokenizer_start_quoted_token_mem r ch m
     else if ch = cBACKSLASH then space_tokenizer_start_no_token_escape_mem r m
     else space_tokenizer_start_token_mem E r ch m)"
    using quoted_reading [OF g, of ch] no_token_escape_reading [OF g] start_token_reading [OF g, of E ch] by auto
  then have "follows (\<lambda>(s', l) (m', l'). l' = l \<and> reading m0 A0 r c t m' (Space s') cmd)
    (rbind (if ch = cQUOTE \<or> ch = cDQUOTE then Inr (space_tokenizer_start_quoted_token s ch)
     else if ch = cBACKSLASH then Inr (space_tokenizer_start_no_token_escape s)
     else space_tokenizer_start_token E s ch) (\<lambda>t. Inr (t, True)))
    (rbind (if ch = cQUOTE \<or> ch = cDQUOTE then space_tokenizer_start_quoted_token_mem r ch m
     else if ch = cBACKSLASH then space_tokenizer_start_no_token_escape_mem r m
     else space_tokenizer_start_token_mem E r ch m) (\<lambda>m. Inr (m, True)))"
    by (rule follows_bind) simp
  with g show ?thesis by (simp add: handle_no_token_char_def handle_no_token_char_mem_def)
qed

lemma in_token_char_reading:
  assumes g: "reading m0 A0 r c t m (Space s) cmd"
  shows "follows (\<lambda>(d, s', cmd') (d', m'). answered m0 A0 r c t m' (Space s') cmd' d d')
    (handle_in_token_char E command_increment_line_count s cmd ch l)
    (handle_in_token_char_mem E command_increment_line_count_mem r ch l m)" (is "follows ?R ?v ?h")
proof -
  have fin: "follows ?R (rbind (space_tokenizer_end_token E s) (\<lambda>(out, t). Inr (Some out, t, cmd')))
      (rbind (space_tokenizer_end_token_mem E r m') (\<lambda>(out, m). Inr (Some out, m)))"
    if "reading m0 A0 r c t m' (Space s) cmd'" for m' cmd'
    by (rule follows_bind [OF end_token_reading [OF that]]) auto
  have mid: "follows ?R
      (rbind (if ch = cQUOTE \<or> ch = cDQUOTE then Inr (s\<lparr>st_state := IN_TOKEN_QUOTED, st_quote_char := ch\<rparr>)
         else if ch = cBACKSLASH then Inr (space_tokenizer_start_in_token_escape s)
         else space_tokenizer_append_to_token E s ch) (\<lambda>t. Inr (None, t, cmd)))
      (rbind (if ch = cQUOTE \<or> ch = cDQUOTE
           then set_space r (\<lambda>s. s\<lparr>ss_state := IN_TOKEN_QUOTED, ss_quote_char := ch\<rparr>) m
         else if ch = cBACKSLASH then space_tokenizer_start_in_token_escape_mem r m
         else space_tokenizer_append_to_token_mem E r ch m) (\<lambda>m. Inr (None, m)))"
  proof (rule follows_bind [where R = "\<lambda>s' m'. reading m0 A0 r c t m' (Space s') cmd"])
    have "\<exists>m'. set_space r (\<lambda>x. x\<lparr>ss_state := IN_TOKEN_QUOTED, ss_quote_char := ch\<rparr>) m = Inr m'
      \<and> reading m0 A0 r c t m' (Space (s\<lparr>st_state := IN_TOKEN_QUOTED, st_quote_char := ch\<rparr>)) cmd"
      by (rule set_space_reading [OF g]) (simp_all add: space_struct_def)
    then show "follows (\<lambda>s' m'. reading m0 A0 r c t m' (Space s') cmd)
      (if ch = cQUOTE \<or> ch = cDQUOTE then Inr (s\<lparr>st_state := IN_TOKEN_QUOTED, st_quote_char := ch\<rparr>)
         else if ch = cBACKSLASH then Inr (space_tokenizer_start_in_token_escape s)
         else space_tokenizer_append_to_token E s ch)
      (if ch = cQUOTE \<or> ch = cDQUOTE
           then set_space r (\<lambda>s. s\<lparr>ss_state := IN_TOKEN_QUOTED, ss_quote_char := ch\<rparr>) m
         else if ch = cBACKSLASH then space_tokenizer_start_in_token_escape_mem r m
         else space_tokenizer_append_to_token_mem E r ch m)"
      using in_token_escape_reading [OF g] append_reading [OF g, of E ch] by auto
  qed simp
  from fin [OF g] mid show ?thesis
    using space_boundary_reading [OF g] fin
    by (auto simp: handle_in_token_char_def handle_in_token_char_mem_def Let_def)
qed

lemma set_error_at:
  assumes g: "reading m0 A0 r c t m (Space s) cmd"
  shows "follows (\<lambda>(out, s', cmd') (out', m'). given m0 A0 r c t m' (Space s') cmd' out out')
    (Inr (None, s\<lparr>st_base := tokenizer_set_error (st_base s) x\<rparr>, cmd))
    (rbind (tokenizer_set_error_mem t x m) (\<lambda>m. Inr (None, m)))"
  using set_error_reading [OF g, of x] by auto

lemma quoted_char_reading:
  assumes g: "reading m0 A0 r c t m (Space s) cmd"
  shows "follows (\<lambda>(d, s') (d', m'). answered m0 A0 r c t m' (Space s') cmd d d')
    (handle_quoted_char E s ch) (handle_quoted_char_mem E r ch m)" (is "follows ?R ?v ?h")
proof -
  obtain e where e: "load_as to_space r m = Inr (space_struct s t e c)" by (rule reading_space [OF g])
  have "\<exists>m'. set_space r (\<lambda>x. x\<lparr>ss_state := IN_TOKEN\<rparr>) m = Inr m'
      \<and> reading m0 A0 r c t m' (Space (s\<lparr>st_state := IN_TOKEN\<rparr>)) cmd"
    by (rule set_space_reading [OF g]) (simp_all add: space_struct_def)
  moreover have "follows ?R (rbind (space_tokenizer_append_to_token E s ch) (\<lambda>t. Inr (None, t)))
      (rbind (space_tokenizer_append_to_token_mem E r ch m) (\<lambda>m. Inr (None, m)))"
    by (rule follows_bind [OF append_reading [OF g]]) simp
  ultimately show ?thesis
    using set_error_reading [OF g, of TOKENIZER_ERR_UNTERMINATED_QUOTE] e
    by (auto simp: handle_quoted_char_def handle_quoted_char_mem_def)
qed

lemma eof_reading:
  assumes g: "reading m0 A0 r c t m (Space s) cmd"
  shows "follows (\<lambda>(out, s', cmd') (out', m'). given m0 A0 r c t m' (Space s') cmd' out out')
    (handle_eof E command_increment_line_count s cmd f l)
    (handle_eof_mem E command_increment_line_count_mem r f l m)" (is "follows ?R ?v ?h")
proof -
  obtain e where e: "load_as to_space r m = Inr (space_struct s t e c)" by (rule reading_space [OF g])
  obtain m1 where m1: "space_boundary command_increment_line_count_mem r m = Inr m1"
    "reading m0 A0 r c t m1 (Space s) (command_increment_line_count cmd)" using space_boundary_reading [OF g] by blast
  have "follows ?R (rbind (space_tokenizer_end_token E s) (\<lambda>(out, t). Inr (out, t, command_increment_line_count cmd)))
      (rbind (space_tokenizer_end_token_mem E r m1) Inr)"
    by (rule follows_bind [OF end_token_reading [OF m1(2)]]) auto
  with set_error_at [OF g] e m1(1) g show ?thesis
    by (simp add: handle_eof_def handle_eof_mem_def Let_def)
qed

text \<open>The loop, by induction on what is left of the stream.\<close>

lemma space_loop_reading:
  assumes "reading m0 A0 r c t m (Space s) cmd"
  shows "follows (\<lambda>(out, s', cmd', f') (out', f'', m'). f'' = f' \<and> given m0 A0 r c t m' (Space s') cmd' out out')
    (next_space_loop E command_increment_line_count s cmd l f)
    (next_space_loop_mem E command_increment_line_count_mem r l f m)" (is "follows ?R _ _")
  using assms
proof (induction "length (in_rest f)" arbitrary: m s cmd l f rule: less_induct)
  case less
  obtain e where e: "load_as to_space r m = Inr (space_struct s t e c)" by (rule reading_space [OF less.prems])
  obtain ch f' where f': "getc f = (ch, f')" by fastforce
  have rec: "follows ?R (next_space_loop E command_increment_line_count s' cmd' l' f')
      (next_space_loop_mem E command_increment_line_count_mem r l' f' m')"
    if "ch \<noteq> EOF" "reading m0 A0 r c t m' (Space s') cmd'" for m' s' cmd' l'
    by (rule less.hyps [OF _ that(2)]) (use f' that(1) in \<open>auto simp: getc_def split: list.splits\<close>)
  have answer: "follows ?R (case d of Some out \<Rightarrow> Inr (out, s', cmd', f')
        | None \<Rightarrow> next_space_loop E command_increment_line_count s' cmd' l f')
      (case d' of Some out \<Rightarrow> Inr (out, f', m')
        | None \<Rightarrow> next_space_loop_mem E command_increment_line_count_mem r l f' m')"
    if "ch \<noteq> EOF" "answered m0 A0 r c t m' (Space s') cmd' d d'" for m' s' cmd' d d'
    using that rec by (auto simp: answered_def split: option.splits)
  note loops = next_space_loop.simps [of E command_increment_line_count s cmd l f]
    next_space_loop_mem.simps [of E command_increment_line_count_mem r l f m]
  show ?case
  proof (cases "ch = EOF")
    case True
    have "follows ?R (rbind (handle_eof E command_increment_line_count s cmd f' l) (\<lambda>(out, t, ctx). Inr (out, t, ctx, f')))
        (rbind (handle_eof_mem E command_increment_line_count_mem r f' l m) (\<lambda>(out, m). Inr (out, f', m)))"
      by (rule follows_bind [OF eof_reading [OF less.prems]]) auto
    with True f' show ?thesis by (simp add: loops)
  next
    case False
    note prems = less.prems
    have 1: "follows ?R (rbind (handle_no_token_char E s ch l) (\<lambda>(t, l). next_space_loop E command_increment_line_count t cmd l f'))
        (rbind (handle_no_token_char_mem E r ch l m) (\<lambda>(m, l). next_space_loop_mem E command_increment_line_count_mem r l f' m))"
      by (rule follows_bind [OF no_token_char_reading [OF prems]]) (auto intro: rec [OF False])
    have 2: "follows ?R (rbind (space_tokenizer_end_escape E s ch) (\<lambda>t. next_space_loop E command_increment_line_count t cmd l f'))
        (rbind (space_tokenizer_end_escape_mem E r ch m) (\<lambda>m. next_space_loop_mem E command_increment_line_count_mem r l f' m))"
      by (rule follows_bind [OF end_escape_reading [OF prems]]) (rule rec [OF False])
    have 3: "follows ?R (rbind (handle_in_token_char E command_increment_line_count s cmd ch l) (\<lambda>(d, t, ctx).
          case d of Some out \<Rightarrow> Inr (out, t, ctx, f') | None \<Rightarrow> next_space_loop E command_increment_line_count t ctx l f'))
        (rbind (handle_in_token_char_mem E command_increment_line_count_mem r ch l m) (\<lambda>(d, m).
          case d of Some out \<Rightarrow> Inr (out, f', m) | None \<Rightarrow> next_space_loop_mem E command_increment_line_count_mem r l f' m))"
      by (rule follows_bind [OF in_token_char_reading [OF prems]]) (auto intro!: answer [OF False])
    have 4: "follows ?R (rbind (handle_quoted_char E s ch) (\<lambda>(d, t).
          case d of Some out \<Rightarrow> Inr (out, t, cmd, f') | None \<Rightarrow> next_space_loop E command_increment_line_count t cmd l f'))
        (rbind (handle_quoted_char_mem E r ch m) (\<lambda>(d, m).
          case d of Some out \<Rightarrow> Inr (out, f', m) | None \<Rightarrow> next_space_loop_mem E command_increment_line_count_mem r l f' m))"
      by (rule follows_bind [OF quoted_char_reading [OF prems]]) (auto intro!: answer [OF False])
    from 1 2 3 4 False f' e show ?thesis by (cases "st_state s") (simp_all add: loops)
  qed
qed

section \<open>The delimiter tokenizer\<close>

lemma delim_start_reading:
  assumes g: "reading m0 A0 r c t m (Delim d) cmd"
  shows "\<exists>m'. delim_tokenizer_start_token_mem r m = Inr m'
    \<and> reading m0 A0 r c t m' (Delim (delim_tokenizer_start_token d)) cmd"
proof -
  have "\<exists>m'. mem_store r (Delim_tokenizer (delim_struct (delim_tokenizer_start_token d) t c)) m = Inr m'
      \<and> reading m0 A0 r c t m' (Delim (delim_tokenizer_start_token d)) cmd"
    by (rule set_delim_reading [OF g]) (simp add: delim_tokenizer_start_token_def)
  with reading_delim [OF g] reading_pos [OF g] show ?thesis
    by (simp add: delim_tokenizer_start_token_mem_def delim_tokenizer_start_token_def delim_struct_def)
qed

lemma delim_add_reading:
  assumes g: "reading m0 A0 r c t m (Delim d) cmd"
  shows "follows (\<lambda>b m'. reading m0 A0 r c t m' (Delim (d\<lparr>dt_base := b\<rparr>)) cmd)
    (tokenizer_add E (dt_base d) ch) (tokenizer_add_mem E t ch m)"
  using add_reading [OF g, of E ch] by simp

lemma delim_append_reading:
  assumes g: "reading m0 A0 r c t m (Delim d) cmd"
  shows "follows (\<lambda>d' m'. reading m0 A0 r c t m' (Delim d') cmd)
    (delim_tokenizer_append_to_token E d ch) (delim_tokenizer_append_to_token_mem E r ch m)"
  using delim_add_reading [OF g, of E "to_char ch"] reading_delim [OF g]
  by (cases "tokenizer_add E (dt_base d) (to_char ch)")
    (simp_all add: delim_tokenizer_append_to_token_def delim_tokenizer_append_to_token_mem_def)

lemma delim_end_reading:
  assumes g: "reading m0 A0 r c t m (Delim d) cmd"
  shows "follows (\<lambda>(w, d') (s, m'). given m0 A0 r c t m' (Delim d') cmd (Some w) (Some s))
    (delim_tokenizer_end_token E d) (delim_tokenizer_end_token_mem E r m)"
proof -
  have "follows (\<lambda>(w, d') (s, m'). given m0 A0 r c t m' (Delim d') cmd (Some w) (Some s))
    (rbind (tokenizer_add E (dt_base d) 0) (\<lambda>b. rbind (c_string (tokenizer_token b (dt_token_start d))) (\<lambda>token.
      Inr (token, d\<lparr>dt_base := b\<rparr>))))
    (rbind (tokenizer_add_mem E t 0 m) (\<lambda>m. rbind (tokenizer_token_mem t (dt_token_start d) m) (\<lambda>token.
      rbind (read_text token m) (\<lambda>_. Inr (token, m)))))"
  proof (rule follows_bind [OF delim_add_reading [OF g]])
    fix b m1
    let ?n = "dt_token_start d"
    assume b: "reading m0 A0 r c t m1 (Delim (d\<lparr>dt_base := b\<rparr>)) cmd"
    obtain z where "tokenizer_token_mem t ?n m1 = Inr (z, ?n)"
      "read_text (z, ?n) m1 = c_string (tokenizer_token b ?n)"
      "\<And>w. c_string (tokenizer_token b ?n) = Inr w \<Longrightarrow>
        given m0 A0 r c t m1 (Delim (d\<lparr>dt_base := b\<rparr>)) cmd (Some w) (Some (z, ?n))"
      using reading_token [OF b, of ?n] by auto
    then show "follows (\<lambda>(w, d') (s, m'). given m0 A0 r c t m' (Delim d') cmd (Some w) (Some s))
      (rbind (c_string (tokenizer_token b ?n)) (\<lambda>token. Inr (token, d\<lparr>dt_base := b\<rparr>)))
      (rbind (tokenizer_token_mem t ?n m1) (\<lambda>token. rbind (read_text token m1) (\<lambda>_. Inr (token, m1))))"
      by (cases "c_string (tokenizer_token b ?n)") simp_all
  qed
  with reading_delim [OF g] show ?thesis
    by (simp add: delim_tokenizer_end_token_def delim_tokenizer_end_token_mem_def)
qed

lemma delim_finish_reading:
  assumes g: "reading m0 A0 r c t m (Delim d) cmd"
  shows "follows (\<lambda>(out, d') (out', m'). given m0 A0 r c t m' (Delim d') cmd out out')
    (rbind (delim_tokenizer_end_token E d) (\<lambda>(token, d'). Inr (Some token, d')))
    (rbind (delim_tokenizer_end_token_mem E r m) (\<lambda>(token, m'). Inr (Some token, m')))"
  by (rule follows_bind [OF delim_end_reading [OF g]]) auto

lemma strip_reading:
  assumes g: "reading m0 A0 r c t m (Delim d) cmd"
  shows "follows (\<lambda>d' m'. reading m0 A0 r c t m' (Delim d') cmd)
    (if dt_delim d \<noteq> cNL then
       rbind (blk_load (tokenizer_token (dt_base d) (tokenizer_pos (dt_base d) - 1)) 0) (\<lambda>ch.
       Inr (if ch = cNL then d\<lparr>dt_base := tokenizer_drop_last (dt_base d)\<rparr> else d))
     else Inr d)
    (if dt_delim d \<noteq> cNL then
       rbind (tokenizer_token_mem t (tokenizer_pos (dt_base d) - 1) m) (\<lambda>last.
       rbind (read_char last m) (\<lambda>ch. if ch = cNL then tokenizer_drop_last_mem t m else Inr m))
     else Inr m)"
proof -
  let ?n = "tokenizer_pos (dt_base d) - 1"
  obtain z where "tokenizer_token_mem t ?n m = Inr (z, ?n)"
    "read_char (z, ?n) m = blk_load (tokenizer_token (dt_base d) ?n) 0"
    using reading_token [OF g, of ?n] by auto
  with drop_last_reading [OF g] g show ?thesis
    by (cases "blk_load (tokenizer_token (dt_base d) ?n) 0") auto
qed

lemma delim_eof_reading:
  assumes g: "reading m0 A0 r c t m (Delim d) cmd"
  shows "follows (\<lambda>(out, d') (out', m'). given m0 A0 r c t m' (Delim d') cmd out out')
    (delim_at_eof E d f) (delim_at_eof_mem E t r f m)"
proof -
  have "follows (\<lambda>(out, d') (out', m'). given m0 A0 r c t m' (Delim d') cmd out out')
    (rbind (if dt_delim d \<noteq> cNL then
       rbind (blk_load (tokenizer_token (dt_base d) (tokenizer_pos (dt_base d) - 1)) 0) (\<lambda>ch.
       Inr (if ch = cNL then d\<lparr>dt_base := tokenizer_drop_last (dt_base d)\<rparr> else d))
     else Inr d) (\<lambda>d. rbind (delim_tokenizer_end_token E d) (\<lambda>(token, d'). Inr (Some token, d'))))
    (rbind (if dt_delim d \<noteq> cNL then
       rbind (tokenizer_token_mem t (tokenizer_pos (dt_base d) - 1) m) (\<lambda>last.
       rbind (read_char last m) (\<lambda>ch. if ch = cNL then tokenizer_drop_last_mem t m else Inr m))
     else Inr m) (\<lambda>m. rbind (delim_tokenizer_end_token_mem E r m) (\<lambda>(token, m'). Inr (Some token, m'))))"
    by (rule follows_bind [OF strip_reading [OF g]]) (rule delim_finish_reading)
  with set_error_reading [OF g, of TOKENIZER_ERR_IO] g reading_delim [OF g] reading_pos [OF g] show ?thesis
    by (auto simp: delim_at_eof_def delim_at_eof_mem_def Let_def)
qed

lemma delim_loop_reading:
  assumes "reading m0 A0 r c t m (Delim d) cmd"
  shows "follows (\<lambda>(out, d', cmd', f') (out', f'', m'). f'' = f' \<and> given m0 A0 r c t m' (Delim d') cmd' out out')
    (next_delim_loop E command_increment_line_count d cmd f)
    (next_delim_loop_mem E command_increment_line_count_mem t r f m)" (is "follows ?R _ _")
  using assms
proof (induction "length (in_rest f)" arbitrary: m d cmd f rule: less_induct)
  case less
  note prems = less.prems
  obtain ch f' where f': "getc f = (ch, f')" by fastforce
  have rec: "follows ?R (next_delim_loop E command_increment_line_count d' cmd f')
      (next_delim_loop_mem E command_increment_line_count_mem t r f' m')"
    if "ch \<noteq> EOF" "reading m0 A0 r c t m' (Delim d') cmd" for m' d'
    by (rule less.hyps [OF _ that(2)]) (use f' that(1) in \<open>auto simp: getc_def split: list.splits\<close>)
  note loops = next_delim_loop.simps [of E command_increment_line_count d cmd f]
    next_delim_loop_mem.simps [of E command_increment_line_count_mem t r f m]
  have 1: "follows ?R (rbind (delim_at_eof E d f') (\<lambda>(out, d). Inr (out, d, cmd, f')))
      (rbind (delim_at_eof_mem E t r f' m) (\<lambda>(out, m). Inr (out, f', m)))"
    by (rule follows_bind [OF delim_eof_reading [OF prems]]) auto
  have 2: "ch \<noteq> EOF \<Longrightarrow> follows ?R (rbind (delim_tokenizer_append_to_token E d ch) (\<lambda>d. next_delim_loop E command_increment_line_count d cmd f'))
      (rbind (delim_tokenizer_append_to_token_mem E r ch m) (\<lambda>m. next_delim_loop_mem E command_increment_line_count_mem t r f' m))"
    by (rule follows_bind [OF delim_append_reading [OF prems]]) (rule rec)
  obtain m1 where m1: "command_increment_line_count_mem c m = Inr m1"
    "reading m0 A0 r c t m1 (Delim d) (command_increment_line_count cmd)" using reading_boundary [OF prems] by blast
  have 3: "follows ?R (rbind (delim_tokenizer_end_token E d) (\<lambda>(token, d). Inr (Some token, d, command_increment_line_count cmd, f')))
      (rbind (delim_tokenizer_end_token_mem E r m1) (\<lambda>(token, m). Inr (Some token, f', m)))"
    by (rule follows_bind [OF delim_end_reading [OF m1(2)]]) auto
  from 1 2 3 m1(1) f' reading_delim [OF prems] show ?case by (simp add: loops Let_def)
qed

section \<open>Through the table\<close>

lemma tokenizer_reading:
  assumes g: "reading m0 A0 r c t m k cmd"
  shows "follows (\<lambda>(out, k', cmd', f') (out', f'', m'). f'' = f' \<and> given m0 A0 r c t m' k' cmd' out out')
    (tokenizer_next_token E increment_line_count k cmd f)
    (tokenizer_next_token_mem E command_increment_line_count_mem t f m)" (is "follows ?R _ _")
proof -
  have cb: "increment_line_count = command_increment_line_count" by (simp add: increment_line_count_def fun_eq_iff)
  obtain q where h: "m_heap m t = Some (Tokenizer (tokenizer_struct k q r))" by (rule reading_parts [OF g])
  show ?thesis
  proof (cases k)
    case (Space s)
    with g have s: "reading m0 A0 r c t m (Space s) cmd" by simp
    have "follows ?R (rbind (next_space_loop E command_increment_line_count s cmd False f) (\<lambda>x. Inr (retoker Space x)))
        (rbind (next_space_loop_mem E command_increment_line_count_mem r False f m) Inr)"
      by (rule follows_bind [OF space_loop_reading [OF s]]) (auto simp: retoker_def)
    with Space h reading_impl [OF g] show ?thesis
      by (simp add: tokenizer_next_token_def tokenizer_next_token_mem_def next_space_token_def next_space_token_mem_def
          load_as_Some cb)
  next
    case (Delim d)
    with g have d: "reading m0 A0 r c t m (Delim d) cmd" by simp
    let ?d = "d\<lparr>dt_base := tokenizer_reset (dt_base d)\<rparr>"
    obtain m1 where m1: "tokenizer_reset_mem t m = Inr m1" "reading m0 A0 r c t m1 (Delim ?d) cmd"
      using reset_reading [OF d] by auto
    obtain m2 where m2: "delim_tokenizer_start_token_mem r m1 = Inr m2"
      "reading m0 A0 r c t m2 (Delim (delim_tokenizer_start_token ?d)) cmd" using delim_start_reading [OF m1(2)] by blast
    have "follows ?R (rbind (next_delim_loop E command_increment_line_count (delim_tokenizer_start_token ?d) cmd f)
        (\<lambda>x. Inr (retoker Delim x))) (rbind (next_delim_loop_mem E command_increment_line_count_mem t r f m2) Inr)"
      by (rule follows_bind [OF delim_loop_reading [OF m2(2)]]) (auto simp: retoker_def)
    with Delim h reading_impl [OF g] m1(1) m2(1) show ?thesis
      by (simp add: tokenizer_next_token_def tokenizer_next_token_mem_def next_delim_token_def next_delim_token_mem_def
          load_as_Some cb)
  qed
qed

end
