(* ===== verification/Memory_Child.thy ===== *)
theory Memory_Child
  imports Memory_Command
begin

text \<open>
  The rest of the command on pointers (\<^verbatim>\<open>src/command.c\<close>): the tests of its limits, and the
  child, which copies the arguments into a vector of its own, and releases it when the prompt
  is declined. The child works on a copy of the memory, which nobody else sees.
\<close>

section \<open>The code\<close>

definition command_length_mem :: "ptr \<Rightarrow> memory \<Rightarrow> stop + size_t" where
  "command_length_mem p m =
     rbind (load_as to_command p m) (\<lambda>cmd.
     rbind (command_args_length_mem (cs_fixed_args cmd) m) (\<lambda>f.
     rbind (command_args_length_mem (cs_input_args cmd) m) (\<lambda>i.
     Inr (cs_env_length cmd + f + i))))"

definition command_ensure_length_not_exceeded_mem :: "ptr \<Rightarrow> cstr \<Rightarrow> memory \<Rightarrow> stop + unit" where
  "command_ensure_length_not_exceeded_mem p new_arg m =
     rbind (load_as to_command p m) (\<lambda>cmd.
     rbind (command_args_count_mem (cs_input_args cmd) m) (\<lambda>n.
     if cs_arg_placeholder cmd \<noteq> NULL \<or> n = 0 then
       rbind (command_length_mem p m) (\<lambda>l.
       let new_length = l + strlen new_arg + 1 in
       if new_length > cs_max_length cmd then Inl (Exit EXIT_FAILURE Command_too_long) else Inr ())
     else Inr ()))"

definition command_arg_would_exceed_limits_mem :: "ptr \<Rightarrow> cstr \<Rightarrow> memory \<Rightarrow> stop + bool" where
  "command_arg_would_exceed_limits_mem p new_arg m =
     rbind (command_ensure_length_not_exceeded_mem p new_arg m) (\<lambda>_.
     rbind (load_as to_command p m) (\<lambda>cmd.
     rbind (command_length_mem p m) (\<lambda>l.
     let new_length = l + strlen new_arg + 1;
         would_exceed_size = (\<not> cs_line_mode cmd \<and> new_length > cs_max_length cmd)
     in if cs_max_args cmd > 0 then
          rbind (command_args_count_mem (cs_input_args cmd) m) (\<lambda>n.
          let at_max_args = (n = cs_max_args cmd) in
          if cs_terminate_on_too_large_command cmd then Inr at_max_args
          else Inr (at_max_args \<or> would_exceed_size))
        else Inr would_exceed_size)))"

definition command_should_execute_after_arg_added_mem :: "ptr \<Rightarrow> memory \<Rightarrow> stop + int" where
  "command_should_execute_after_arg_added_mem p m =
     rbind (load_as to_command p m) (\<lambda>cmd.
     rbind (command_length_mem p m) (\<lambda>l.
     Inr (if cs_terminate_on_too_large_command cmd \<and> l > cs_max_length cmd then -1
       else if cs_line_mode cmd then (if cs_line_count cmd = cs_max_lines cmd then 1 else 0)
       else 0)))"

definition command_input_args_remain_mem :: "ptr \<Rightarrow> memory \<Rightarrow> stop + bool" where
  "command_input_args_remain_mem p m =
     rbind (load_as to_command p m) (\<lambda>cmd.
     rbind (command_args_count_mem (cs_input_args cmd) m) (\<lambda>n. Inr (n > 0)))"

text \<open>The copy loop of \<open>build_exec_args\<close>, into the vector at \<open>v\<close>.\<close>

function copy_exec_args_mem :: "platform \<Rightarrow> ptr \<Rightarrow> size_t \<Rightarrow> size_t \<Rightarrow> ptr \<Rightarrow> memory \<Rightarrow> stop + memory" where
  "copy_exec_args_mem E args off i v m =
     rbind (command_args_count_mem args m) (\<lambda>n.
     if i < n then
       rbind (command_args_at_mem args i m) (\<lambda>arg.
       rbind (read_string_or_null arg m) (\<lambda>s.
       rbind (mem_strdup E s m) (\<lambda>(copy, m).
       rbind (load_as to_pointers v m) (\<lambda>b.
       rbind (blk_store b (unat (off + i)) copy) (\<lambda>b.
       rbind (mem_store v (Pointers b) m) (\<lambda>m.
       copy_exec_args_mem E args off (i + 1) v m))))))
     else Inr m)"
  by pat_completeness auto
termination
  by (relation "measure (\<lambda>(E, args, off, i, v, m). unat SIZE_MAX - unat i)")
    (simp_all add: size_up_bounded del: unat_SIZE_MAX)

declare copy_exec_args_mem.simps [simp del]

definition build_exec_args_mem :: "platform \<Rightarrow> ptr \<Rightarrow> memory \<Rightarrow> stop + ptr \<times> size_t \<times> memory" where
  "build_exec_args_mem E p m =
     rbind (load_as to_command p m) (\<lambda>cmd.
     let fixed = (if cs_arg_placeholder cmd \<noteq> NULL then cs_replaced_fixed_args cmd else cs_fixed_args cmd) in
     rbind (command_args_count_mem fixed m) (\<lambda>f.
     rbind (command_args_count_mem (cs_input_args cmd) m) (\<lambda>i.
     let exec_args_count = f + i in
     rbind (mem_calloc E Pointers NULL (exec_args_count + 1) 8 m) (\<lambda>(v, m).
     rbind (copy_exec_args_mem E fixed 0 0 v m) (\<lambda>m.
     rbind (copy_exec_args_mem E (cs_input_args cmd) f 0 v m) (\<lambda>m.
     rbind (load_as to_pointers v m) (\<lambda>b.
     rbind (blk_store b (unat exec_args_count) NULL) (\<lambda>b.
     rbind (mem_store v (Pointers b) m) (\<lambda>m.
     Inr (v, exec_args_count, m))))))))))"

text \<open>What the trace and the host read through the vector.\<close>

fun read_slots :: "memory \<Rightarrow> ptr block \<Rightarrow> stop + cstr option block" where
  "read_slots m [] = Inr []"
| "read_slots m (None # b) = rbind (read_slots m b) (\<lambda>c. Inr (None # c))"
| "read_slots m (Some q # b) = rbind (read_string_or_null q m) (\<lambda>s.
     rbind (read_slots m b) (\<lambda>c. Inr (Some s # c)))"

definition read_vector :: "ptr \<Rightarrow> memory \<Rightarrow> stop + cstr option block" where
  "read_vector v m = rbind (load_as to_pointers v m) (read_slots m)"

text \<open>The trace is put together in a buffer of its own.\<close>

definition write_trace_mem :: "platform \<Rightarrow> ptr \<Rightarrow> size_t \<Rightarrow> bool \<Rightarrow> memory \<Rightarrow> stop + byte list \<times> memory" where
  "write_trace_mem E exec_args exec_args_count with_newline m =
     rbind (read_vector exec_args m) (\<lambda>args.
     rbind (trace_length args exec_args_count 0 0) (\<lambda>trace_len.
     let trace_len = (if with_newline then trace_len + 1 else trace_len) in
     rbind (mem_malloc E (trace_len + 1) m) (\<lambda>(trace_buf, m).
     rbind (load_as to_chars trace_buf m) (\<lambda>b.
     rbind (read_vector exec_args m) (\<lambda>args.
     rbind (trace_fill args exec_args_count 0 b 0) (\<lambda>(b, p).
     rbind (if with_newline then blk_store b p cNL else Inr b) (\<lambda>b.
     rbind (mem_store trace_buf (Chars b) m) (\<lambda>m.
     rbind (load_as to_chars trace_buf m) (\<lambda>b.
     rbind (write_out b trace_len) (\<lambda>written.
     rbind (mem_free trace_buf m) (\<lambda>m.
     Inr (written, m))))))))))))"

text \<open>The loop that releases the copies.\<close>

function free_exec_args :: "ptr \<Rightarrow> size_t \<Rightarrow> size_t \<Rightarrow> memory \<Rightarrow> stop + memory" where
  "free_exec_args v exec_args_count i m =
     (if i < exec_args_count then
        rbind (load_as to_pointers v m) (\<lambda>b.
        rbind (blk_load b (unat i)) (\<lambda>q.
        rbind (mem_free q m) (\<lambda>m.
        free_exec_args v exec_args_count (i + 1) m)))
      else Inr m)"
  by pat_completeness auto
termination
  by (relation "measure (\<lambda>(v, n, i, m). unat n - unat i)") (simp_all add: size_up_decreases)

declare free_exec_args.simps [simp del]

text \<open>The result of the free is the memory of a process that ends here; it is not kept.\<close>

definition exec_child_mem :: "platform \<Rightarrow> nat \<Rightarrow> ptr \<Rightarrow> memory \<Rightarrow> world
    \<Rightarrow> (stop \<times> world) + wstatus \<times> world" where
  "exec_child_mem E n p m w =
     rbind (lift w (build_exec_args_mem E p m)) (\<lambda>(exec_args, exec_args_count, m).
     rbind (lift w (read_vector exec_args m)) (\<lambda>args.
     let w = note_spawn args w in
     rbind (lift w (load_as to_command p m)) (\<lambda>cmd.
     rbind (if cs_trace cmd
         then rbind (lift w (write_trace_mem E exec_args exec_args_count (\<not> cs_prompt cmd) m))
           (\<lambda>(t, m). Inr (m, log_event (Trace t) w))
         else Inr (m, w)) (\<lambda>(m, w).
     rbind (if cs_prompt cmd then confirm_execution (log_event Asked w) else Inr (True, w))
       (\<lambda>(execute, w).
     if execute then rbind (lift w (read_vector exec_args m)) (\<lambda>args. phxargs_exec n args (cs_open_tty cmd) w)
     else rbind (lift w (rbind (free_exec_args exec_args exec_args_count 0 m) (mem_free exec_args)))
       (\<lambda>_. Inr (Exited EXIT_SUCCESS, w)))))))"

definition run_child_mem :: "platform \<Rightarrow> int \<Rightarrow> nat \<Rightarrow> ptr \<Rightarrow> memory \<Rightarrow> world \<Rightarrow> (stop \<times> world) + world" where
  "run_child_mem E pid n p m w = (case exec_child_mem E n p m w of
       Inl (s, w) \<Rightarrow> if s = Undefined then Inl (Undefined, w)
         else Inr (add_child pid (stop_status s) w)
     | Inr (st, w) \<Rightarrow> Inr (add_child pid st w))"

definition command_execute_async_mem :: "platform \<Rightarrow> ptr \<Rightarrow> memory \<Rightarrow> world
    \<Rightarrow> (stop \<times> world) + int \<times> memory \<times> world" where
  "command_execute_async_mem E p m w =
     rbind (phxargs_fork w) (\<lambda>(pid, w').
     rbind (run_child_mem E pid (w_forks w) p m w') (\<lambda>w'.
     rbind (lift w' (recycle_command_mem E p m)) (\<lambda>m.
     Inr (pid, m, w'))))"

section \<open>The tests\<close>

lemma command_fields [simp]:
  "cs_max_length (command_struct v ph q) = cm_max_length v" "cs_max_lines (command_struct v ph q) = cm_max_lines v"
  "cs_line_mode (command_struct v ph q) = cm_line_mode v" "cs_line_count (command_struct v ph q) = cm_line_count v"
  "cs_terminate_on_too_large_command (command_struct v ph q) = cm_terminate_on_too_large_command v"
  "cs_trace (command_struct v ph q) = cm_trace v" "cs_prompt (command_struct v ph q) = cm_prompt v"
  "cs_open_tty (command_struct v ph q) = cm_open_tty v"
  by (simp_all add: command_struct_def)

lemma command_reads:
  assumes "owns_command m p v A"
  obtains ph q where "load_as to_command p m = Inr (command_struct v ph q)" "ph = NULL \<longleftrightarrow> cm_arg_placeholder v = None"
    "\<And>k. \<exists>L. owns_args m (q k) (field_args k v) L \<and> L \<subseteq> A"
    "\<And>k. command_args_count_mem (q k) m = Inr (command_args_count (field_args k v))"
    "\<And>k. command_args_length_mem (q k) m = Inr (command_args_length (field_args k v))"
proof -
  obtain ph q S L where A: "A = footprint p S L" and c: "command_parts UNIV m p v ph q S L"
    using assms by (auto simp: owns_command_def)
  show ?thesis
  proof (rule that [of ph q])
    show "load_as to_command p m = Inr (command_struct v ph q)" by (simp add: load_as_Some [OF parts_struct [OF c]])
    show "ph = NULL \<longleftrightarrow> cm_arg_placeholder v = None"
      by (rule parts_placeholder [OF c])
    show "\<exists>L. owns_args m (q k) (field_args k v) L \<and> L \<subseteq> A" for k
      using parts_args(1) [OF c UNIV_I, of k] in_footprint(3) [of L k p S] A by metis
    show "command_args_count_mem (q k) m = Inr (command_args_count (field_args k v))"
      "command_args_length_mem (q k) m = Inr (command_args_length (field_args k v))" for k
      using parts_args(2,3) [OF c UNIV_I] by (simp_all add: command_args_count_def command_args_length_def)
  qed
qed

lemma command_tests:
  assumes "owns_command m p v A"
  shows "command_length_mem p m = Inr (command_length v)"
    "command_ensure_length_not_exceeded_mem p s m = command_ensure_length_not_exceeded v s"
    "command_arg_would_exceed_limits_mem p s m = command_arg_would_exceed_limits v s"
    "command_should_execute_after_arg_added_mem p m = Inr (command_should_execute_after_arg_added v)"
    "command_input_args_remain_mem p m = Inr (command_input_args_remain v)"
proof -
  obtain ph q where c: "load_as to_command p m = Inr (command_struct v ph q)" "ph = NULL \<longleftrightarrow> cm_arg_placeholder v = None"
    "\<And>k. command_args_count_mem (q k) m = Inr (command_args_count (field_args k v))"
    "\<And>k. command_args_length_mem (q k) m = Inr (command_args_length (field_args k v))"
    using command_reads [OF assms] by metis
  show l: "command_length_mem p m = Inr (command_length v)"
    by (simp add: command_length_mem_def command_length_def c)
  show e: "command_ensure_length_not_exceeded_mem p s m = command_ensure_length_not_exceeded v s"
    using c(2) by (cases "cm_arg_placeholder v")
      (auto simp: command_ensure_length_not_exceeded_mem_def command_ensure_length_not_exceeded_def c(1,3) l Let_def)
  show "command_arg_would_exceed_limits_mem p s m = command_arg_would_exceed_limits v s"
    by (simp add: command_arg_would_exceed_limits_mem_def command_arg_would_exceed_limits_def c l e Let_def
        command_max_args_specified_def)
  show "command_should_execute_after_arg_added_mem p m = Inr (command_should_execute_after_arg_added v)"
    by (simp add: command_should_execute_after_arg_added_mem_def command_should_execute_after_arg_added_def c l)
  show "command_input_args_remain_mem p m = Inr (command_input_args_remain v)"
    by (simp add: command_input_args_remain_mem_def command_input_args_remain_def c)
qed

section \<open>The vector\<close>

text \<open>The vector at \<open>v\<close> while it is filled: copies at \<open>ps\<close> of the strings \<open>ws\<close>, then null pointers.\<close>

definition filled :: "'a list \<Rightarrow> nat \<Rightarrow> 'a \<Rightarrow> 'a block" where
  "filled xs k z = map Some xs @ replicate k (Some z)"

definition vector_at :: "memory \<Rightarrow> ptr \<Rightarrow> ptr list \<Rightarrow> cstr list \<Rightarrow> nat \<Rightarrow> bool" where
  "vector_at m v ps ws k \<longleftrightarrow> distinct (v # ps) \<and> m_heap m v = Some (Pointers (filled ps k NULL))
     \<and> list_all2 (\<lambda>q w. q \<noteq> NULL \<and> 0 \<notin> set w \<and> m_heap m q = Some (Chars (c_block w))) ps ws"

text \<open>After some steps since \<open>m0\<close> there is such a vector besides \<open>A\<close>, which is as in \<open>m1\<close>.\<close>

definition child_has :: "memory \<Rightarrow> ptr set \<Rightarrow> memory \<Rightarrow> ptr set \<Rightarrow> memory \<Rightarrow> ptr \<Rightarrow> ptr list \<Rightarrow> cstr list \<Rightarrow> nat \<Rightarrow> bool" where
  "child_has m0 A0 m1 A m v ps ws k \<longleftrightarrow> moves m0 A0 m (insert v (set ps) \<union> A) \<and> insert v (set ps) \<inter> A = {}
     \<and> agree A m1 m \<and> vector_at m v ps ws k"

lemma filled_store:
  "blk_store (filled xs k z) (length xs) x = (if k = 0 then Inl Undefined else Inr (filled (xs @ [x]) (k - 1) z))"
proof (cases k)
  case (Suc j)
  have "(map Some xs @ Some z # replicate j (Some z))[length xs := Some x] = map Some (xs @ [x]) @ replicate j (Some z)"
    by (simp add: list_update_append)
  with Suc show ?thesis by (simp add: filled_def blk_store_def)
qed (simp add: filled_def blk_store_def)

lemma filled_end: "blk_store (filled xs k z) (length xs) z = (if k = 0 then Inl Undefined else Inr (filled xs k z))"
proof (cases k)
  case (Suc j)
  have "(map Some xs @ Some z # replicate j (Some z))[length xs := Some z] = map Some xs @ Some z # replicate j (Some z)"
    by (simp add: list_update_append)
  with Suc show ?thesis by (simp add: filled_def blk_store_def)
qed (simp add: filled_def blk_store_def)

lemma filled_load: "i < length xs \<Longrightarrow> blk_load (filled xs k z) i = Inr (xs ! i)"
  by (simp add: filled_def blk_load_def nth_append)

lemma strdup_string: "phxargs_strdup E (Some w) = Inr t \<Longrightarrow> \<exists>u. t = Some u \<and> 0 \<notin> set u"
  by (cases t) (auto simp: phxargs_strdup_def Let_def rbind_Inr_iff dest: c_string_no_NUL)

text \<open>A round of a copy loop.\<close>

lemma copy_round:
  assumes "child_has m0 A0 m1 A m v ps ws k" and "0 \<notin> set u" and "mem_new (Chars (c_block u)) m = (x, m2)"
    and "unat j = length ps"
  shows "follows (\<lambda>b m'. b = filled (map Some (ws @ [u])) (k - 1) None \<and> child_has m0 A0 m1 A m' v (ps @ [x]) (ws @ [u]) (k - 1))
    (blk_store (filled (map Some ws) k None) (unat j) (Some u))
    (rbind (load_as to_pointers v m2) (\<lambda>b. rbind (blk_store b (unat j) x) (\<lambda>b. mem_store v (Pointers b) m2)))"
proof -
  have h: "moves m0 A0 m (insert v (set ps) \<union> A)" "insert v (set ps) \<inter> A = {}" "agree A m1 m"
    "distinct (v # ps)" "m_heap m v = Some (Pointers (filled ps k NULL))"
    "list_all2 (\<lambda>q w. q \<noteq> NULL \<and> 0 \<notin> set w \<and> m_heap m q = Some (Chars (c_block w))) ps ws"
    using assms(1) by (simp_all add: child_has_def vector_at_def)
  note x = chain_new [OF h(1) assms(3)]
  have n: "length ws = length ps" using h(6) by (simp add: list_all2_lengthD)
  have v: "m_heap m2 v = Some (Pointers (filled ps k NULL))" using x(5) h(5) by (simp add: agree_def)
  have "v \<noteq> stdin_ptr" using heap_not_stdin [OF moves_ok(1) [OF x(1)] v] by simp
  from chain_store [OF x(1) _ this, of "Pointers (filled (ps @ [x]) (k - 1) NULL)"] obtain m3 where m3:
    "mem_store v (Pointers (filled (ps @ [x]) (k - 1) NULL)) m2 = Inr m3"
    "moves m0 A0 m3 (insert x (insert v (set ps) \<union> A))" "m_heap m3 v = Some (Pointers (filled (ps @ [x]) (k - 1) NULL))"
    "agree (insert x (insert v (set ps) \<union> A) - {v}) m2 m3" by auto
  have "m_heap m3 q = m_heap m q" if "q \<in> set ps \<union> A" for q
  proof -
    have "q \<noteq> v" using that h(2,4) by auto
    then show ?thesis using that m3(4) x(5) by (simp add: agree_def)
  qed
  then have same: "\<forall>q \<in> set ps. m_heap m3 q = m_heap m q" and "agree A m m3" by (simp_all add: agree_def)
  have "list_all2 (\<lambda>q w. q \<noteq> NULL \<and> 0 \<notin> set w \<and> m_heap m3 q = Some (Chars (c_block w))) ps ws"
    using h(6) same by (auto simp: list_all2_conv_all_nth)
  moreover have "m_heap m3 x = Some (Chars (c_block u))" using m3(4) x(2,4) by (auto simp: agree_def)
  ultimately have "vector_at m3 v (ps @ [x]) (ws @ [u]) (k - 1)"
    using h(4) x(2,3) m3(3) assms(2) n by (auto simp: vector_at_def list_all2_append)
  moreover have "insert v (set (ps @ [x])) \<inter> A = {}" "agree A m1 m3"
    using h(2,3) x(2) \<open>agree A m m3\<close> by (auto simp: agree_def)
  ultimately have "child_has m0 A0 m1 A m3 v (ps @ [x]) (ws @ [u]) (k - 1)"
    using m3(2) by (simp add: child_has_def insert_commute)
  with m3(1) filled_store [of "map Some ws" k None "Some u"] filled_store [of ps k NULL x] n v show ?thesis
    by (simp add: assms(4) load_as_Some to_pointers_def)
qed

lemma copy_exec_args_follows:
  assumes "child_has m0 A0 m1 A m v ps ws k" and "length ps + k < 2 ^ 64"
    and "owns_args m1 args a L" and "L \<subseteq> A" and "unat off + unat i = length ps" and "unat i \<le> unat (ca_count a)"
  shows "follows (\<lambda>b m'. \<exists>ps' ws' k'. b = filled (map Some ws') k' None \<and> child_has m0 A0 m1 A m' v ps' ws' k'
      \<and> length ps' = unat off + unat (ca_count a) \<and> length ps' + k' = length ps + k)
    (copy_exec_args E a off i (filled (map Some ws) k None)) (copy_exec_args_mem E args off i v m)"
  using assms
proof (induction E a off i "filled (map Some ws) k None" arbitrary: m ps ws k rule: copy_exec_args.induct)
  case (1 E a off i)
  have g: "moves m0 A0 m (insert v (set ps) \<union> A)" "agree A m1 m" using 1(2) by (simp_all add: child_has_def)
  have o: "owns_args m args a L" by (rule args.kept [OF 1(4) g(2) 1(5)])
  have n: "command_args_count_mem args m = Inr (ca_count a)"
    using o by (auto simp: owns_args_def command_args_count_mem_def load_as_Some to_args_def)
  show ?case
  proof (cases "i < ca_count a")
    case False
    with 1(7) have "unat i = unat (ca_count a)" by (simp add: size_less_unat)
    with False n 1(2,6) show ?thesis
      by (auto simp: copy_exec_args.simps [of E a] copy_exec_args_mem.simps [of E args] command_args_count_def)
  next
    case True
    then obtain r w where w: "command_args_at_mem args i m = Inr r" "command_args_at a i = Inr (Some w)"
      "read_string r m = Inr w" using command_args_at_reads [OF o, of i] by (metis size_less_unat)
    have rn: "read_string_or_null r m = Inr (Some w)" by (rule read_or_null(1) [OF moves_ok(1) [OF g(1)] w(3)])
    have "unat off + unat i < 2 ^ 64" using 1(3,6) by simp
    then have j: "unat (off + i) = length ps" using 1(6) by (simp add: unat_add_size)
    show ?thesis
    proof (cases "phxargs_strdup E (Some w)")
      case (Inl s)
      with True n w rn show ?thesis
        by (simp add: copy_exec_args.simps [of E a] copy_exec_args_mem.simps [of E args] command_args_count_def mem_strdup_def)
    next
      case (Inr t)
      obtain u where u: "t = Some u" "0 \<notin> set u" using strdup_string [OF Inr] by blast
      obtain x m2 where x: "mem_new (Chars (c_block u)) m = (x, m2)" by fastforce
      let ?R = "\<lambda>b m'. \<exists>ps' ws' k'. b = filled (map Some ws') k' None \<and> child_has m0 A0 m1 A m' v ps' ws' k'
        \<and> length ps' = unat off + unat (ca_count a) \<and> length ps' + k' = length ps + k"
      have "follows ?R (rbind (blk_store (filled (map Some ws) k None) (unat (off + i)) (Some u)) (copy_exec_args E a off (i + 1)))
        (rbind (rbind (load_as to_pointers v m2) (\<lambda>b. rbind (blk_store b (unat (off + i)) x) (\<lambda>b. mem_store v (Pointers b) m2)))
          (copy_exec_args_mem E args off (i + 1) v))"
      proof (rule follows_bind [OF copy_round [OF 1(2) u(2) x j]], elim conjE)
        fix b m'
        assume b: "blk_store (filled (map Some ws) k None) (unat (off + i)) (Some u) = Inr b"
          "b = filled (map Some (ws @ [u])) (k - 1) None"
          "child_has m0 A0 m1 A m' v (ps @ [x]) (ws @ [u]) (k - 1)"
        have k: "0 < k"
          using b(1) j filled_store [of "map Some ws" k None "Some u"] 1(2)
          by (auto simp: child_has_def vector_at_def list_all2_lengthD split: if_splits)
        have i: "unat (i + 1) = Suc (unat i)" by (rule size_up_Suc [OF True])
        have "follows (\<lambda>b m'. \<exists>ps' ws' k'. b = filled (map Some ws') k' None \<and> child_has m0 A0 m1 A m' v ps' ws' k'
            \<and> length ps' = unat off + unat (ca_count a) \<and> length ps' + k' = length (ps @ [x]) + (k - 1))
          (copy_exec_args E a off (i + 1) b) (copy_exec_args_mem E args off (i + 1) v m')"
          unfolding b(2)
        proof (rule 1(1))
          show "i < command_args_count a" using True by (simp add: command_args_count_def)
          show "command_args_at a i = Inr (Some w)" "phxargs_strdup E (Some w) = Inr (Some u)"
            using w(2) Inr u(1) by simp_all
          show "blk_store (filled (map Some ws) k None) (unat (off + i)) (Some u)
            = Inr (filled (map Some (ws @ [u])) (k - 1) None)" using b(1,2) by simp
          show "unat (i + 1) \<le> unat (ca_count a)" using True i by (simp add: size_less_unat)
        qed (use b(3) i k 1(3-6) in simp_all)
        then show "follows ?R (copy_exec_args E a off (i + 1) b) (copy_exec_args_mem E args off (i + 1) v m')"
          using k by (auto elim!: follows_mono)
      qed
      with True n w rn Inr u(1) x show ?thesis
        by (simp add: copy_exec_args.simps [of E a] copy_exec_args_mem.simps [of E args] command_args_count_def mem_strdup_def
            rbind_assoc)
    qed
  qed
qed

lemma build_exec_args_follows:
  assumes ok: "mem_ok m" and o: "owns_command m p v A"
  shows "follows (\<lambda>(b, n) (x, n', m'). n' = n \<and> (\<exists>ps ws k. b = filled (map Some ws) k None
      \<and> child_has m A m A m' x ps ws k \<and> length ps = unat n))
    (build_exec_args E v) (build_exec_args_mem E p m)"
proof -
  obtain ph q where c: "load_as to_command p m = Inr (command_struct v ph q)" "ph = NULL \<longleftrightarrow> cm_arg_placeholder v = None"
    "\<And>k. \<exists>L. owns_args m (q k) (field_args k v) L \<and> L \<subseteq> A"
    "\<And>k. command_args_count_mem (q k) m = Inr (command_args_count (field_args k v))"
    using command_reads [OF o] by metis
  have "\<exists>j. fixed_args_in_play v = field_args j v \<and> (if ph \<noteq> NULL then q Replaced_args else q Fixed_args) = q j"
    using c(2) by (cases "cm_arg_placeholder v") (auto simp: fixed_args_in_play_def intro: exI [of _ Fixed_args] exI [of _ Replaced_args])
  then obtain j where fixed: "fixed_args_in_play v = field_args j v"
    "(if ph \<noteq> NULL then q Replaced_args else q Fixed_args) = q j" by blast
  let ?f = "field_args j v" and ?i = "cm_input_args v"
  let ?n = "command_args_count ?f + command_args_count ?i"
  let ?R = "\<lambda>(b, n) (x, n', m'). n' = n \<and> (\<exists>ps ws k. b = filled (map Some ws) k None
      \<and> child_has m A m A m' x ps ws k \<and> length ps = unat n)"
  obtain Lf Li where Lf: "owns_args m (q j) ?f Lf" "Lf \<subseteq> A" and Li: "owns_args m (q Input_args) ?i Li" "Li \<subseteq> A"
    using c(3) [of j] c(3) [of Input_args] by auto
  have eqs: "build_exec_args E v = rbind (phxargs_calloc E None (?n + 1) 8) (\<lambda>b.
      rbind (copy_exec_args E ?f 0 0 b) (\<lambda>b. rbind (copy_exec_args E ?i (command_args_count ?f) 0 b) (\<lambda>b.
      rbind (blk_store b (unat ?n) None) (\<lambda>b. Inr (b, ?n)))))"
    "build_exec_args_mem E p m = rbind (mem_calloc E Pointers NULL (?n + 1) 8 m) (\<lambda>(x, m).
      rbind (copy_exec_args_mem E (q j) 0 0 x m) (\<lambda>m.
      rbind (copy_exec_args_mem E (q Input_args) (command_args_count ?f) 0 x m) (\<lambda>m.
      rbind (load_as to_pointers x m) (\<lambda>b. rbind (blk_store b (unat ?n) NULL) (\<lambda>b.
      rbind (mem_store x (Pointers b) m) (\<lambda>m. Inr (x, ?n, m)))))))"
    unfolding build_exec_args_def build_exec_args_mem_def Let_def fixed(1) c(1) rbind_simps struct_simps fixed(2)
    by (simp_all add: c(4))
  show ?thesis
  proof (cases "phxargs_calloc E (None :: cstr option) (?n + 1) 8")
    case (Inl s)
    then have "phxargs_calloc E NULL (?n + 1) 8 = Inl s" by (simp add: phxargs_calloc_def split: if_splits)
    with Inl show ?thesis unfolding eqs by simp
  next
    case (Inr b)
    then have b: "b = filled (map Some []) (unat (?n + 1)) None"
      and z: "phxargs_calloc E NULL (?n + 1) 8 = Inr (filled [] (unat (?n + 1)) NULL)"
      by (auto simp: phxargs_calloc_def filled_def split: if_splits)
    obtain x m1 where x: "mem_new (Pointers (filled [] (unat (?n + 1)) NULL)) m = (x, m1)" by fastforce
    have "moves m A m A" by (rule moves_refl [OF ok cmd.allocated [OF o]])
    note x' = chain_new [OF this x]
    have h1: "child_has m A m A m1 x [] [] (unat (?n + 1))"
      using x' by (simp add: child_has_def vector_at_def)
    have k: "length ([] :: ptr list) + unat (?n + 1) < 2 ^ 64" using size_t_bound [of "?n + 1"] by simp
    have "follows ?R (rbind (copy_exec_args E ?f 0 0 b) (\<lambda>b. rbind (copy_exec_args E ?i (command_args_count ?f) 0 b) (\<lambda>b.
        rbind (blk_store b (unat ?n) None) (\<lambda>b. Inr (b, ?n)))))
      (rbind (copy_exec_args_mem E (q j) 0 0 x m1) (\<lambda>m.
       rbind (copy_exec_args_mem E (q Input_args) (command_args_count ?f) 0 x m) (\<lambda>m.
       rbind (load_as to_pointers x m) (\<lambda>b. rbind (blk_store b (unat ?n) NULL) (\<lambda>b.
       rbind (mem_store x (Pointers b) m) (\<lambda>m. Inr (x, ?n, m)))))))"
      unfolding b
    proof (rule follows_bind [OF copy_exec_args_follows [OF h1 k Lf]], simp, simp, elim exE conjE)
      fix b2 m2 ps2 ws2 k2
      assume 2: "b2 = filled (map Some ws2) k2 None" "child_has m A m A m2 x ps2 ws2 k2"
        "length ps2 = unat (0 :: size_t) + unat (ca_count ?f)" "length ps2 + k2 = length ([] :: ptr list) + unat (?n + 1)"
      have l2: "length ps2 + k2 < 2 ^ 64" "unat (command_args_count ?f) + unat (0 :: size_t) = length ps2"
        using 2(3,4) k by (simp_all add: command_args_count_def)
      show "follows ?R (rbind (copy_exec_args E ?i (command_args_count ?f) 0 b2) (\<lambda>b.
          rbind (blk_store b (unat ?n) None) (\<lambda>b. Inr (b, ?n))))
        (rbind (copy_exec_args_mem E (q Input_args) (command_args_count ?f) 0 x m2) (\<lambda>m.
         rbind (load_as to_pointers x m) (\<lambda>b. rbind (blk_store b (unat ?n) NULL) (\<lambda>b.
         rbind (mem_store x (Pointers b) m) (\<lambda>m. Inr (x, ?n, m))))))"
        unfolding 2(1)
      proof (rule follows_bind [OF copy_exec_args_follows [OF 2(2) l2(1) Li l2(2)]], simp, elim exE conjE)
        fix b3 m3 ps3 ws3 k3
        assume 3: "b3 = filled (map Some ws3) k3 None" "child_has m A m A m3 x ps3 ws3 k3"
          "length ps3 = unat (command_args_count ?f) + unat (ca_count ?i)" "length ps3 + k3 = length ps2 + k2"
        have "unat ?n = length ps3" using 3(3,4) l2(1) by (simp add: command_args_count_def unat_add_size)
        have h: "moves m A m3 (insert x (set ps3) \<union> A)" "insert x (set ps3) \<inter> A = {}" "agree A m m3"
          "m_heap m3 x = Some (Pointers (filled ps3 k3 NULL))" "length ws3 = length ps3"
          using 3(2) by (auto simp: child_has_def vector_at_def list_all2_lengthD)
        have "x \<noteq> stdin_ptr" using heap_not_stdin [OF moves_ok(1) [OF h(1)] h(4)] by simp
        from chain_store [OF h(1) _ this, of "Pointers (filled ps3 k3 NULL)"] obtain m4 where m4:
          "mem_store x (Pointers (filled ps3 k3 NULL)) m3 = Inr m4" by auto
        then have "m4 = m3" using h(4) by (cases m3) (auto simp: mem_store_def fun_upd_idem)
        with m4 have "mem_store x (Pointers (filled ps3 k3 NULL)) m3 = Inr m3" by simp
        with filled_end [of "map Some ws3" k3 None] filled_end [of ps3 k3 NULL] h(4,5) 3(1,2) \<open>unat ?n = length ps3\<close>
        show "follows ?R (rbind (blk_store b3 (unat ?n) None) (\<lambda>b. Inr (b, ?n)))
          (rbind (load_as to_pointers x m3) (\<lambda>b. rbind (blk_store b (unat ?n) NULL) (\<lambda>b.
           rbind (mem_store x (Pointers b) m3) (\<lambda>m. Inr (x, ?n, m)))))"
          by (auto simp: load_as_Some to_pointers_def)
      qed
    qed
    then show ?thesis unfolding eqs using Inr z x by simp
  qed
qed

text \<open>What is read through the vector.\<close>

lemma read_slots_filled:
  assumes "list_all2 (\<lambda>q w. q \<noteq> NULL \<and> 0 \<notin> set w \<and> m_heap m q = Some (Chars (c_block w))) ps ws"
  shows "read_slots m (filled ps k NULL) = Inr (filled (map Some ws) k None)"
proof -
  have nulls: "read_slots m (replicate k (Some NULL)) = Inr (replicate k (Some None))"
    by (induction k) (simp_all add: read_string_or_null_def)
  show ?thesis
    using assms by induction (auto simp: filled_def nulls read_string_or_null_def read_string_block)
qed

lemma read_vector_child: "child_has m0 A0 m1 A m v ps ws k \<Longrightarrow> read_vector v m = Inr (filled (map Some ws) k None)"
  by (auto simp: child_has_def vector_at_def read_vector_def load_as_Some to_pointers_def read_slots_filled)

text \<open>The release of the copies and of the vector.\<close>

lemma free_exec_args_frees:
  assumes "moves m0 A0 m (insert v (set (drop (unat i) ps)) \<union> A)" and "distinct (v # ps)" and "insert v (set ps) \<inter> A = {}"
    and "m_heap m v = Some (Pointers (filled ps k NULL))" and "\<forall>q \<in> set (drop (unat i) ps). \<exists>b. m_heap m q = Some (Chars b)"
    and "length ps = unat n"
  shows "\<exists>m'. free_exec_args v n i m = Inr m' \<and> moves m0 A0 m' (insert v A) \<and> m_heap m' v = m_heap m v"
  using assms
proof (induction v n i m rule: free_exec_args.induct)
  case (1 v n i m)
  show ?case
  proof (cases "i < n")
    case False
    with 1(2,7) show ?thesis by (simp add: free_exec_args.simps [of v n] size_less_unat)
  next
    case True
    then have i: "unat i < length ps" "unat (i + 1) = Suc (unat i)"
      using 1(7) by (simp_all add: size_less_unat size_up_Suc)
    let ?q = "ps ! unat i" and ?r = "set (drop (unat (i + 1)) ps)"
    have d: "drop (unat i) ps = ?q # drop (unat (i + 1)) ps" using i by (simp add: Cons_nth_drop_Suc)
    have "distinct (drop (unat i) ps)" using 1(3) by simp
    with d have q: "?q \<notin> ?r" by simp
    have "?q \<in> set ps" using i(1) by simp
    then have q': "?q \<notin> insert v ?r \<union> A" using q 1(3,4) by auto
    obtain b where b: "m_heap m ?q = Some (Chars b)" using 1(6) d by auto
    have "moves m0 A0 m (insert ?q (insert v ?r \<union> A))" using 1(2) unfolding d by (simp add: insert_commute)
    from chain_realloc [OF this q' b] obtain m1 where m1: "mem_free ?q m = Inr m1" "moves m0 A0 m1 (insert v ?r \<union> A)"
      "agree (insert v ?r \<union> A) m m1" by auto
    have v: "m_heap m1 v = m_heap m v" by (rule agree_heap [OF m1(3)]) simp
    have "\<exists>m'. free_exec_args v n (i + 1) m1 = Inr m' \<and> moves m0 A0 m' (insert v A) \<and> m_heap m' v = m_heap m1 v"
    proof (rule 1(1) [OF True])
      show "load_as to_pointers v m = Inr (filled ps k NULL)" using 1(5) by (simp add: load_as_Some to_pointers_def)
      show "blk_load (filled ps k NULL) (unat i) = Inr ?q" by (rule filled_load [OF i(1)])
      show "\<forall>q \<in> ?r. \<exists>b. m_heap m1 q = Some (Chars b)" using 1(6) m1(3) unfolding d by (simp add: agree_def)
    qed (use m1 1(3,4,5,7) v in simp_all)
    with True 1(5) m1(1) v i(1) show ?thesis
      by (simp add: free_exec_args.simps [of v n i] load_as_Some to_pointers_def filled_load)
  qed
qed

lemma free_vector:
  assumes "child_has m0 A0 m1 A m v ps ws k" and "length ps = unat n"
  shows "\<exists>m'. rbind (free_exec_args v n 0 m) (mem_free v) = Inr m' \<and> moves m0 A0 m' A"
proof -
  have h: "moves m0 A0 m (insert v (set (drop (unat (0 :: size_t)) ps)) \<union> A)" "distinct (v # ps)" "insert v (set ps) \<inter> A = {}"
    "m_heap m v = Some (Pointers (filled ps k NULL))"
    "\<forall>q \<in> set (drop (unat (0 :: size_t)) ps). \<exists>b. m_heap m q = Some (Chars b)"
    using assms(1) by (auto simp: child_has_def vector_at_def list_all2_conv_all_nth in_set_conv_nth)
  from free_exec_args_frees [OF h assms(2)] obtain m2 where m2: "free_exec_args v n 0 m = Inr m2"
    "moves m0 A0 m2 (insert v A)" "m_heap m2 v = m_heap m v" by blast
  with chain_realloc [OF m2(2), of "Pointers (filled ps k NULL)"] h(3,4) show ?thesis by auto
qed

section \<open>The child\<close>

text \<open>The buffer of the trace is released, and the vector is as it was.\<close>

lemma child_has_agree:
  assumes "child_has m0 A0 m1 A m v ps ws k" and "moves m0 A0 m' (insert v (set ps) \<union> A)"
    and "agree (insert v (set ps) \<union> A) m m'"
  shows "child_has m0 A0 m1 A m' v ps ws k"
proof -
  have "m_heap m' x = m_heap m x" if "x \<in> insert v (set ps) \<union> A" for x by (rule agree_heap [OF assms(3) that])
  then show ?thesis
    using assms(1,2) by (auto simp: child_has_def vector_at_def agree_def list_all2_conv_all_nth)
qed

lemma write_trace_follows:
  assumes h: "child_has m0 A0 m1 A m v ps ws k"
  shows "follows (\<lambda>t (t', m'). t' = t \<and> child_has m0 A0 m1 A m' v ps ws k)
    (write_trace E (filled (map Some ws) k None) n nl) (write_trace_mem E v n nl m)"
proof -
  let ?b = "filled (map Some ws) k None" and ?F = "insert v (set ps) \<union> A"
  let ?R = "\<lambda>t (t', m'). t' = t \<and> child_has m0 A0 m1 A m' v ps ws k"
  have m: "moves m0 A0 m ?F" using h by (simp add: child_has_def)
  show ?thesis
    unfolding write_trace_def write_trace_mem_def read_vector_child [OF h] rbind_simps Let_def
  proof (rule follows_same, rule follows_bind2 [OF chain_builds [OF m malloc_builds]], assumption)
    fix l c z m2
    assume "case (z, m2) of (p, m') \<Rightarrow> placed raw m0 A0 m ?F p c m'"
    then have z: "moves m0 A0 m2 (insert z ?F)" "z \<notin> ?F" "z \<noteq> stdin_ptr" "agree ?F m m2" "m_heap m2 z = Some (Chars c)"
      by (auto simp: placed_def raw_def insert_commute)
    have load: "load_as to_chars z m2 = Inr c" using z(5) by (simp add: load_as_Some to_chars_def)
    have v: "read_vector v m2 = Inr ?b"
    proof -
      have "m_heap m2 x = m_heap m x" if "x \<in> ?F" for x by (rule agree_heap [OF z(4) that])
      then have "list_all2 (\<lambda>q w. q \<noteq> NULL \<and> 0 \<notin> set w \<and> m_heap m2 q = Some (Chars (c_block w))) ps ws"
        "m_heap m2 v = Some (Pointers (filled ps k NULL))"
        using h by (auto simp: child_has_def vector_at_def list_all2_conv_all_nth)
      then show ?thesis by (simp add: read_vector_def load_as_Some to_pointers_def read_slots_filled)
    qed
    have finish: "follows ?R (write_out c' len)
        (rbind (mem_store z (Chars c') m2) (\<lambda>m. rbind (load_as to_chars z m) (\<lambda>b. rbind (write_out b len) (\<lambda>t.
         rbind (mem_free z m) (\<lambda>m. Inr (t, m))))))" for c' len
    proof -
      obtain m3 where m3: "mem_store z (Chars c') m2 = Inr m3" "moves m0 A0 m3 (insert z ?F)"
        "m_heap m3 z = Some (Chars c')" "agree (insert z ?F - {z}) m2 m3"
        using chain_fill [OF z(1) insertI1 z(3)] by metis
      have "\<not> is_Stream (Chars c')" by simp
      from chain_realloc [OF m3(2) z(2) m3(3) this] obtain m4 where m4: "mem_free z m3 = Inr m4"
        "moves m0 A0 m4 ?F" "agree ?F m3 m4" by blast
      have "agree ?F m2 m3" by (rule agree_sub [OF m3(4)]) (use z(2) in blast)
      then have "agree ?F m m4" using z(4) m4(3) by (blast intro: agree_trans)
      from child_has_agree [OF h m4(2) this] m3(1,3) m4(1) show ?thesis
        by (cases "write_out c' len") (simp_all add: load_as_Some to_chars_def)
    qed
    show "follows ?R
        (rbind (trace_fill ?b n 0 c 0) (\<lambda>(c, p). rbind (if nl then blk_store c p cNL else Inr c)
          (\<lambda>c. write_out c (if nl then l + 1 else l))))
        (rbind (load_as to_chars z m2) (\<lambda>c. rbind (read_vector v m2) (\<lambda>args. rbind (trace_fill args n 0 c 0) (\<lambda>(c, p).
         rbind (if nl then blk_store c p cNL else Inr c) (\<lambda>c. rbind (mem_store z (Chars c) m2) (\<lambda>m.
         rbind (load_as to_chars z m) (\<lambda>b. rbind (write_out b (if nl then l + 1 else l)) (\<lambda>t.
         rbind (mem_free z m) (\<lambda>m. Inr (t, m))))))))))"
      unfolding v load rbind_simps
      by (rule follows_same, simp only: split_paired_all prod.case, rule follows_same, rule finish)
  qed
qed

lemma exec_child_same:
  assumes ok: "mem_ok m" and o: "owns_command m p v A"
  shows "exec_child_mem E n p m w = exec_child E n v w"
proof (cases "build_exec_args E v")
  case (Inl s)
  with build_exec_args_follows [OF assms, of E] show ?thesis by (simp add: exec_child_def exec_child_mem_def)
next
  case (Inr r)
  obtain b j where r: "r = (b, j)" by fastforce
  with Inr build_exec_args_follows [OF assms, of E] obtain x m1 ps ws k where x:
    "build_exec_args_mem E p m = Inr (x, j, m1)" "b = filled (map Some ws) k None"
    "child_has m A m A m1 x ps ws k" "length ps = unat j" by auto
  have "owns_command m1 p v A" by (rule cmd.kept [OF o _ subset_refl]) (use x(3) in \<open>simp add: child_has_def\<close>)
  then obtain ph q where c: "load_as to_command p m1 = Inr (command_struct v ph q)" by (rule command_reads)
  have rest: "rbind (if cm_prompt v then confirm_execution (log_event Asked w) else Inr (True, w))
      (\<lambda>(execute, w). if execute then rbind (lift w (read_vector x m2)) (\<lambda>args. phxargs_exec n args (cm_open_tty v) w)
       else rbind (lift w (rbind (free_exec_args x j 0 m2) (mem_free x))) (\<lambda>_. Inr (Exited EXIT_SUCCESS, w)))
    = rbind (if cm_prompt v then confirm_execution (log_event Asked w) else Inr (True, w))
      (\<lambda>(execute, w). if execute then phxargs_exec n b (cm_open_tty v) w else Inr (Exited EXIT_SUCCESS, w))"
    if "child_has m A m A m2 x ps ws k" for m2 w
  proof -
    from free_vector [OF that x(4)] obtain m3 where m3: "rbind (free_exec_args x j 0 m2) (mem_free x) = Inr m3" by blast
    show ?thesis unfolding m3 read_vector_child [OF that] x(2) [symmetric] lift_simps rbind_simps ..
  qed
  note heads = exec_child_def exec_child_mem_def Let_def Inr r x(1) lift_simps rbind_simps prod.case
    read_vector_child [OF x(3)] x(2) [symmetric] c command_fields
  show ?thesis
  proof (cases "cm_trace v")
    case False
    then show ?thesis unfolding heads by (simp only: if_False rbind_simps prod.case rest [OF x(3)])
  next
    case True
    note t = write_trace_follows [OF x(3), of E j "\<not> cm_prompt v", folded x(2)]
    show ?thesis
    proof (cases "write_trace E b j (\<not> cm_prompt v)")
      case (Inl s)
      with t have "write_trace_mem E x j (\<not> cm_prompt v) m1 = Inl s" by simp
      with True Inl show ?thesis unfolding heads by simp
    next
      case (Inr l)
      with t obtain m2 where m2: "write_trace_mem E x j (\<not> cm_prompt v) m1 = Inr (l, m2)"
        "child_has m A m A m2 x ps ws k" by auto
      show ?thesis unfolding heads Inr m2(1) by (simp only: True if_True lift_simps rbind_simps prod.case rest [OF m2(2)])
    qed
  qed
qed

end
