(* ===== verification/Memory_Pool.thy ===== *)
theory Memory_Pool
  imports Memory_Mode
begin

text \<open>
  The rest of the pool on pointers (\<^verbatim>\<open>src/process_pool.c\<close>): reaping in the table of process ids,
  the counters of the signal handlers, which are static variables, and the adjustment they
  lead to.
\<close>

section \<open>The code\<close>

text \<open>As in \<open>Process_Pool\<close> the counters are 32 bits and signed, kept as their values; overflow is undefined.\<close>

record signal_counts =
  sc_sigusr1_count :: int
  sc_sigusr2_count :: int
  sc_applied_sigusr1 :: int
  sc_applied_sigusr2 :: int

definition no_signals :: signal_counts where
  "no_signals = \<lparr>sc_sigusr1_count = 0, sc_sigusr2_count = 0, sc_applied_sigusr1 = 0, sc_applied_sigusr2 = 0\<rparr>"

definition on_sigusr1_mem :: "signal_counts \<Rightarrow> stop + signal_counts" where
  "on_sigusr1_mem c = rbind (sig_atomic (sc_sigusr1_count c + 1)) (\<lambda>n. Inr (c\<lparr>sc_sigusr1_count := n\<rparr>))"

definition on_sigusr2_mem :: "signal_counts \<Rightarrow> stop + signal_counts" where
  "on_sigusr2_mem c = rbind (sig_atomic (sc_sigusr2_count c + 1)) (\<lambda>n. Inr (c\<lparr>sc_sigusr2_count := n\<rparr>))"

definition deliver_counts :: "handler \<Rightarrow> int \<Rightarrow> nat \<Rightarrow> signal_counts \<Rightarrow> stop + signal_counts" where
  "deliver_counts h sig k c = (case h of
       SIG_DFL \<Rightarrow> if k = 0 then Inr c else Inl (Terminated sig)
     | SIG_IGN \<Rightarrow> Inr c
     | On_sigusr1 \<Rightarrow> repeated k on_sigusr1_mem c
     | On_sigusr2 \<Rightarrow> repeated k on_sigusr2_mem c)"

definition deliver_both_counts :: "world \<Rightarrow> nat \<times> nat \<Rightarrow> signal_counts \<Rightarrow> (stop \<times> world) + signal_counts" where
  "deliver_both_counts w k c = lift w (rbind (deliver_counts (w_handlers w SIGUSR1) 10 (fst k) c)
     (deliver_counts (w_handlers w SIGUSR2) 12 (snd k)))"

function find_pid_mem :: "ptr \<Rightarrow> int \<Rightarrow> size_t \<Rightarrow> memory \<Rightarrow> stop + size_t" where
  "find_pid_mem p pid i m =
     rbind (load_as to_pool p m) (\<lambda>pool.
     if i < ps_count pool then
       rbind (load_as to_pids (ps_pids pool) m) (\<lambda>b.
       rbind (blk_load b (unat i)) (\<lambda>x.
       if x = pid then Inr i else find_pid_mem p pid (i + 1) m))
     else Inr i)"
  by pat_completeness auto
termination
  by (relation "measure (\<lambda>(p, pid, i, m). unat SIZE_MAX - unat i)")
    (simp_all add: size_up_bounded del: unat_SIZE_MAX)

declare find_pid_mem.simps [simp del]

definition accumulate_status_mem :: "process_pool_s \<Rightarrow> int \<Rightarrow> process_pool_s" where
  "accumulate_status_mem pool new_status =
     (if severity new_status > severity (ps_status pool) then pool\<lparr>ps_status := new_status\<rparr> else pool)"

definition reap_one_mem :: "platform \<Rightarrow> ptr \<Rightarrow> memory \<Rightarrow> world \<Rightarrow> (stop \<times> world) + memory \<times> world" where
  "reap_one_mem E p m w = (case wait_child w of
       (Waited pid raw_status, w) \<Rightarrow>
         rbind (lift w (find_pid_mem p pid 0 m)) (\<lambda>i.
         rbind (lift w (load_as to_pool p m)) (\<lambda>pool.
         rbind (lift w (if i < ps_count pool
             then rbind (load_as to_pids (ps_pids pool) m) (\<lambda>b.
                  rbind (blk_load b (unat (ps_count pool - 1))) (\<lambda>last.
                  rbind (blk_store b (unat i) last) (\<lambda>b.
                  mem_store (ps_pids pool) (Pids b) m)))
             else Inr m)) (\<lambda>m.
         if \<not> i < ps_count pool \<and> \<not> pf_ndebug E then Inl (Abort, w)
         else
           let (status, halt) = child_exit_status raw_status (ps_halt pool);
               pool = accumulate_status_mem (pool\<lparr>ps_count := ps_count pool - 1, ps_halt := halt\<rparr>) status
           in rbind (lift w (mem_store p (Pool pool) m)) (\<lambda>m. Inr (m, w)))))
     | (_, w) \<Rightarrow> Inl (Exit EXIT_FAILURE Perror_waitpid, w))"

definition count_at :: "ptr \<Rightarrow> memory \<Rightarrow> nat" where
  "count_at p m = (case load_as to_pool p m of Inl _ \<Rightarrow> 0 | Inr pool \<Rightarrow> unat (ps_count pool))"

lemma accumulate_status_mem_fields [simp]:
  "ps_count (accumulate_status_mem s n) = ps_count s" "ps_pids (accumulate_status_mem s n) = ps_pids s"
  by (simp_all add: accumulate_status_mem_def)

lemma store_pool_load: "mem_store p (Pool s) m = Inr m' \<Longrightarrow> load_as to_pool p m' = Inr s"
  by (auto simp: mem_store_def load_as_def mem_load_def split: option.splits)

lemma reap_one_mem_decreases:
  assumes "reap_one_mem E p m w = Inr (m', w')" and "load_as to_pool p m = Inr pool" and "ps_count pool \<noteq> 0"
  shows "count_at p m' < count_at p m"
proof -
  have "\<exists>s m1. mem_store p (Pool s) m1 = Inr m' \<and> ps_count s = ps_count pool - 1"
    using assms(1,2)
    by (auto simp: reap_one_mem_def rbind_Inr_iff Let_def split: wait_result.splits prod.splits if_splits)
  then obtain s where "load_as to_pool p m' = Inr s" "ps_count s = ps_count pool - 1"
    using store_pool_load by blast
  with assms(2) size_down_decreases [OF assms(3)] show ?thesis by (simp add: count_at_def)
qed

function reap_while_full_mem :: "platform \<Rightarrow> ptr \<Rightarrow> memory \<Rightarrow> world \<Rightarrow> (stop \<times> world) + memory \<times> world" where
  "reap_while_full_mem E p m w =
     rbind (lift w (load_as to_pool p m)) (\<lambda>pool.
     if ps_max_procs pool \<noteq> 0 \<and> ps_count pool \<ge> ps_max_procs pool
     then rbind (reap_one_mem E p m w) (\<lambda>(m, w). reap_while_full_mem E p m w)
     else Inr (m, w))"
  by pat_completeness auto
termination
  by (relation "measure (\<lambda>(E, p, m, w). count_at p m)") (auto dest!: reap_one_mem_decreases)

function reap_all_mem :: "platform \<Rightarrow> ptr \<Rightarrow> memory \<Rightarrow> world \<Rightarrow> (stop \<times> world) + memory \<times> world" where
  "reap_all_mem E p m w =
     rbind (lift w (load_as to_pool p m)) (\<lambda>pool.
     if ps_count pool > 0
     then rbind (reap_one_mem E p m w) (\<lambda>(m, w). reap_all_mem E p m w)
     else Inr (m, w))"
  by pat_completeness auto
termination
  by (relation "measure (\<lambda>(E, p, m, w). count_at p m)") (auto dest!: reap_one_mem_decreases)

declare reap_while_full_mem.simps [simp del] reap_all_mem.simps [simp del]

definition apply_signal_adjustments_mem :: "platform \<Rightarrow> ptr \<Rightarrow> signal_counts \<Rightarrow> memory \<Rightarrow> world
    \<Rightarrow> (stop \<times> world) + signal_counts \<times> memory \<times> world" where
  "apply_signal_adjustments_mem E p c m w = (case next_signals w of ((before, between), w) \<Rightarrow>
     rbind (deliver_both_counts w before c) (\<lambda>c.
     rbind (lift w (sig_atomic (sc_sigusr1_count c - sc_applied_sigusr1 c))) (\<lambda>u1.
     rbind (lift w (sig_atomic (sc_sigusr2_count c - sc_applied_sigusr2 c))) (\<lambda>u2.
     rbind (deliver_both_counts w between c) (\<lambda>c.
     if u1 = 0 \<and> u2 = 0 then Inr (c, m, w)
     else
       let c = c\<lparr>sc_applied_sigusr1 := sc_sigusr1_count c, sc_applied_sigusr2 := sc_sigusr2_count c\<rparr>
       in rbind (lift w (load_as to_pool p m)) (\<lambda>pool.
          if ps_max_procs pool = 0 then Inr (c, m, w)
          else
            rbind (lift w (signed_long (sint (ps_max_procs pool) + u1))) (\<lambda>raised.
            rbind (lift w (signed_long (raised - u2))) (\<lambda>new_max.
            let new_max = (if new_max < 1 then 1 else new_max);
                new_max = (if ps_child_max pool > 0 \<and> new_max > ps_child_max pool
                           then ps_child_max pool else new_max)
            in rbind (lift w (resize_pool_mem E p new_max m)) (\<lambda>m. Inr (c, m, w))))))))))"

definition process_pool_halted_mem :: "ptr \<Rightarrow> memory \<Rightarrow> stop + bool" where
  "process_pool_halted_mem p m = rbind (load_as to_pool p m) (\<lambda>pool. Inr (ps_halt pool))"

definition process_pool_wait_if_full_mem :: "platform \<Rightarrow> ptr \<Rightarrow> signal_counts \<Rightarrow> memory \<Rightarrow> world
    \<Rightarrow> (stop \<times> world) + signal_counts \<times> memory \<times> world" where
  "process_pool_wait_if_full_mem E p c m w =
     rbind (apply_signal_adjustments_mem E p c m w) (\<lambda>(c, m, w).
     rbind (reap_while_full_mem E p m w) (\<lambda>(m, w). Inr (c, m, w)))"

definition process_pool_drain_mem :: "platform \<Rightarrow> ptr \<Rightarrow> memory \<Rightarrow> world
    \<Rightarrow> (stop \<times> world) + int \<times> memory \<times> world" where
  "process_pool_drain_mem E p m w =
     rbind (reap_all_mem E p m w) (\<lambda>(m, w).
     rbind (lift w (load_as to_pool p m)) (\<lambda>pool. Inr (ps_status pool, m, w)))"

section \<open>Reaping\<close>

lemma pool_fields [simp]:
  "ps_max_procs (pool_struct v q) = pl_max_procs v" "ps_child_max (pool_struct v q) = pl_child_max v"
  "ps_status (pool_struct v q) = pl_status v" "ps_halt (pool_struct v q) = pl_halt v"
  "(pool_struct v q)\<lparr>ps_count := n, ps_halt := h\<rparr> = pool_struct (v\<lparr>pl_count := n, pl_halt := h\<rparr>) q"
  "pool_struct (v\<lparr>pl_pids := b\<rparr>) q = pool_struct v q"
  "accumulate_status_mem (pool_struct v q) st = pool_struct (accumulate_status v st) q"
  by (simp_all add: pool_struct_def accumulate_status_mem_def accumulate_status_def)

lemma pool_reads:
  assumes "owns_pool m p v A"
  obtains q where "load_as to_pool p m = Inr (pool_struct v q)" "load_as to_pids q m = Inr (pl_pids v)" "q \<noteq> p"
    "A = {p, q}" "m_heap m p = Some (Pool (pool_struct v q))" "m_heap m q = Some (Pids (pl_pids v))"
  using assms by (auto simp: owns_pool_def load_as_Some)

lemma find_pid_same:
  assumes "owns_pool m p v A"
  shows "find_pid_mem p pid i m = find_pid v pid i"
  using assms
proof (induction v pid i rule: find_pid.induct)
  case (1 v pid i)
  obtain q where q: "load_as to_pool p m = Inr (pool_struct v q)" "load_as to_pids q m = Inr (pl_pids v)"
    by (rule pool_reads [OF 1(2)])
  show ?case
  proof (cases "i < pl_count v")
    case True
    with q 1 show ?thesis
      by (cases "blk_load (pl_pids v) (unat i)")
        (simp_all add: find_pid_mem.simps [of p pid i] find_pid.simps [of v pid i])
  qed (use q in \<open>simp add: find_pid_mem.simps [of p pid i] find_pid.simps [of v pid i]\<close>)
qed

text \<open>The pool is changed in place.\<close>

lemma pool_store:
  assumes "moves m0 A0 m {p, q}" and "q \<noteq> p" and "m_heap m p = Some (Pool s)" and "m_heap m q = Some (Pids (pl_pids v))"
  shows "\<exists>m'. mem_store p (Pool (pool_struct v q)) m = Inr m' \<and> moves m0 A0 m' {p, q} \<and> owns_pool m' p v {p, q}"
  using chain_store [OF assms(1) _ pool_not_stdin(1) [OF assms(1,3)], of "Pool (pool_struct v q)"] assms(2,4)
  by (auto simp: owns_pool_def agree_def)

text \<open>The counters in the value of the pool are those of the program.\<close>

definition pool_counts :: "process_pool \<Rightarrow> signal_counts" where
  "pool_counts v = \<lparr>sc_sigusr1_count = pl_sigusr1_count v, sc_sigusr2_count = pl_sigusr2_count v,
     sc_applied_sigusr1 = pl_applied_sigusr1 v, sc_applied_sigusr2 = pl_applied_sigusr2 v\<rparr>"

definition pool_now :: "memory \<Rightarrow> ptr set \<Rightarrow> ptr \<Rightarrow> signal_counts \<Rightarrow> process_pool \<times> world \<Rightarrow> memory \<times> world \<Rightarrow> bool" where
  "pool_now m0 A0 p c = (\<lambda>(v, w) (m, w'). w' = w \<and> pool_counts v = c \<and> (\<exists>A. moves m0 A0 m A \<and> owns_pool m p v A))"

lemma reap_one_follows:
  assumes m: "moves m0 A0 m A" and o: "owns_pool m p v A"
  shows "follows (pool_now m0 A0 p (pool_counts v)) (reap_one E v w) (reap_one_mem E p m w)"
proof -
  obtain q where q: "load_as to_pool p m = Inr (pool_struct v q)" "load_as to_pids q m = Inr (pl_pids v)" "q \<noteq> p"
    "A = {p, q}" "m_heap m p = Some (Pool (pool_struct v q))" "m_heap m q = Some (Pids (pl_pids v))"
    by (rule pool_reads [OF o])
  note m' = m [unfolded q(4)]
  obtain r w' where r: "wait_child w = (r, w')" by fastforce
  show ?thesis
  proof (cases r)
    case (Waited pid raw)
    let ?R = "\<lambda>pids m'. moves m0 A0 m' {p, q} \<and> m_heap m' p = Some (Pool (pool_struct v q)) \<and> m_heap m' q = Some (Pids pids)"
    let ?mv = "\<lambda>i. if i < pl_count v then rbind (blk_load (pl_pids v) (unat (pl_count v - 1))) (\<lambda>last.
        blk_store (pl_pids v) (unat i) last) else Inr (pl_pids v)"
    let ?mh = "\<lambda>i. if i < pl_count v then rbind (blk_load (pl_pids v) (unat (pl_count v - 1))) (\<lambda>last.
        rbind (blk_store (pl_pids v) (unat i) last) (\<lambda>b. mem_store q (Pids b) m)) else Inr m"
    have st: "follows ?R (Inr b) (mem_store q (Pids b) m)" for b
      using chain_store [OF m' _ pool_not_stdin(2) [OF m' q(6)], of "Pids b"] q(3,5) by (auto simp: agree_def)
    have swap: "follows ?R (?mv i) (?mh i)" for i
    proof (cases "i < pl_count v")
      case True
      have "follows ?R (rbind (blk_load (pl_pids v) (unat (pl_count v - 1))) (\<lambda>last. rbind (blk_store (pl_pids v) (unat i) last) Inr))
        (rbind (blk_load (pl_pids v) (unat (pl_count v - 1))) (\<lambda>last. rbind (blk_store (pl_pids v) (unat i) last)
           (\<lambda>b. mem_store q (Pids b) m)))"
        by (rule follows_same, rule follows_same, rule st)
      with True show ?thesis by simp
    qed (use m' q in simp)
    have finish: "follows (pool_now m0 A0 p (pool_counts v))
        (if c then Inl (Abort, w') else let v' = v\<lparr>pl_pids := pids, pl_count := pl_count v - 1\<rparr>;
            (status, halt) = child_exit_status raw (pl_halt v') in Inr (accumulate_status (v'\<lparr>pl_halt := halt\<rparr>) status, w'))
        (if c then Inl (Abort, w') else let (status, halt) = child_exit_status raw (ps_halt (pool_struct v q));
            pool = accumulate_status_mem ((pool_struct v q)\<lparr>ps_count := ps_count (pool_struct v q) - 1, ps_halt := halt\<rparr>) status
          in rbind (lift w' (mem_store p (Pool pool) m1)) (\<lambda>m. Inr (m, w')))" if "?R pids m1" for c pids m1
    proof -
      obtain status halt where h: "child_exit_status raw (pl_halt v) = (status, halt)" by fastforce
      let ?v = "accumulate_status (v\<lparr>pl_count := pl_count v - 1, pl_halt := halt\<rparr>) status"
      have e: "accumulate_status (v\<lparr>pl_pids := pids, pl_count := pl_count v - 1, pl_halt := halt\<rparr>) status = ?v\<lparr>pl_pids := pids\<rparr>"
        by (simp add: accumulate_status_def)
      have "m_heap m1 q = Some (Pids (pl_pids (?v\<lparr>pl_pids := pids\<rparr>)))" using that by simp
      from pool_store [OF _ q(3) _ this, of m0 A0] that obtain m2 where
        "mem_store p (Pool (pool_struct ?v q)) m1 = Inr m2" "moves m0 A0 m2 {p, q}" "owns_pool m2 p (?v\<lparr>pl_pids := pids\<rparr>) {p, q}"
        by auto
      moreover have "pool_counts (?v\<lparr>pl_pids := pids\<rparr>) = pool_counts v" by (simp add: pool_counts_def)
      ultimately show ?thesis using h e by (auto simp: Let_def pool_now_def)
    qed
    show ?thesis
      unfolding reap_one_def reap_one_mem_def r Waited prod.case wait_result.case find_pid_same [OF o] q(1) lift_simps rbind_simps
        pool_struct_simps q(2)
      by (rule follows_same, rule follows_bind [OF follows_lift [OF swap]]) (rule finish [unfolded pool_struct_simps])
  qed (simp_all add: reap_one_def reap_one_mem_def r)
qed

lemma reap_while_full_follows:
  assumes "moves m0 A0 m A" and "owns_pool m p v A" and "pool_counts v = c"
  shows "follows (pool_now m0 A0 p c) (reap_while_full E v w) (reap_while_full_mem E p m w)"
  using assms
proof (induction E v w arbitrary: m A rule: reap_while_full.induct)
  case (1 E v w)
  obtain q where q: "load_as to_pool p m = Inr (pool_struct v q)" by (rule pool_reads [OF 1(3)])
  show ?case
  proof (cases "pl_max_procs v \<noteq> 0 \<and> pl_count v \<ge> pl_max_procs v")
    case True
    have "follows (pool_now m0 A0 p c) (rbind (reap_one E v w) (\<lambda>(v, w). reap_while_full E v w))
        (rbind (reap_one_mem E p m w) (\<lambda>(m, w). reap_while_full_mem E p m w))"
      by (rule follows_bind [OF reap_one_follows [OF 1(2,3), unfolded 1(4)]]) (use 1(1) True in \<open>auto simp: pool_now_def\<close>)
    with True q show ?thesis by (simp add: reap_while_full.simps [of E v] reap_while_full_mem.simps [of E p m])
  next
    case False
    with q 1(2-4) show ?thesis
      by (auto simp: pool_now_def reap_while_full.simps [of E v] reap_while_full_mem.simps [of E p m])
  qed
qed

lemma reap_all_follows:
  assumes "moves m0 A0 m A" and "owns_pool m p v A" and "pool_counts v = c"
  shows "follows (pool_now m0 A0 p c) (reap_all E v w) (reap_all_mem E p m w)"
  using assms
proof (induction E v w arbitrary: m A rule: reap_all.induct)
  case (1 E v w)
  obtain q where q: "load_as to_pool p m = Inr (pool_struct v q)" by (rule pool_reads [OF 1(3)])
  show ?case
  proof (cases "pl_count v > 0")
    case True
    have "follows (pool_now m0 A0 p c) (rbind (reap_one E v w) (\<lambda>(v, w). reap_all E v w))
        (rbind (reap_one_mem E p m w) (\<lambda>(m, w). reap_all_mem E p m w))"
      by (rule follows_bind [OF reap_one_follows [OF 1(2,3), unfolded 1(4)]]) (use 1(1) True in \<open>auto simp: pool_now_def\<close>)
    with True q show ?thesis by (simp add: reap_all.simps [of E v] reap_all_mem.simps [of E p m])
  next
    case False
    with q 1(2-4) show ?thesis
      by (auto simp: pool_now_def reap_all.simps [of E v] reap_all_mem.simps [of E p m])
  qed
qed

section \<open>Signals\<close>

definition with_counts :: "process_pool \<Rightarrow> signal_counts \<Rightarrow> process_pool" where
  "with_counts v c = v\<lparr>pl_sigusr1_count := sc_sigusr1_count c, pl_sigusr2_count := sc_sigusr2_count c,
     pl_applied_sigusr1 := sc_applied_sigusr1 c, pl_applied_sigusr2 := sc_applied_sigusr2 c\<rparr>"

lemma counts_simps [simp]:
  "pool_counts (with_counts v c) = c" "with_counts v (pool_counts v) = v"
  "pool_struct (with_counts v c) q = pool_struct v q" "pl_pids (with_counts v c) = pl_pids v"
  "owns_pool m p (with_counts v c) A = owns_pool m p v A"
  "pool_counts (v\<lparr>pl_max_procs := n, pl_capacity := k, pl_pids := b\<rparr>) = pool_counts v"
  by (simp_all add: pool_counts_def with_counts_def pool_struct_def owns_pool_def)

lemma counts_fields:
  "pl_sigusr1_count (with_counts v c) = sc_sigusr1_count c" "pl_sigusr2_count (with_counts v c) = sc_sigusr2_count c"
  "pl_applied_sigusr1 (with_counts v c) = sc_applied_sigusr1 c"
  "pl_applied_sigusr2 (with_counts v c) = sc_applied_sigusr2 c"
  by (simp_all add: with_counts_def)

lemma on_signal_counts:
  "on_sigusr1 (with_counts v c) = rbind (on_sigusr1_mem c) (\<lambda>c. Inr (with_counts v c))"
  "on_sigusr2 (with_counts v c) = rbind (on_sigusr2_mem c) (\<lambda>c. Inr (with_counts v c))"
  by (cases "sig_atomic (sc_sigusr1_count c + 1)"; cases "sig_atomic (sc_sigusr2_count c + 1)";
    simp add: on_sigusr1_def on_sigusr2_def on_sigusr1_mem_def on_sigusr2_mem_def with_counts_def)+

lemma repeated_follows:
  assumes "\<And>c. f (with_counts v c) = rbind (g c) (\<lambda>c. Inr (with_counts v c))"
  shows "follows (\<lambda>v' c'. v' = with_counts v c') (repeated k f (with_counts v c)) (repeated k g c)"
  by (induction k arbitrary: c) (simp_all add: assms rbind_assoc, rule follows_same)

lemma deliver_follows:
  "follows (\<lambda>v' c'. v' = with_counts v c') (deliver h sig k (with_counts v c)) (deliver_counts h sig k c)"
  by (auto simp: deliver_def deliver_counts_def intro: repeated_follows on_signal_counts split: handler.split)

lemma deliver_signals_follows:
  "follows (\<lambda>v' c'. v' = with_counts v c') (deliver_signals w k (with_counts v c)) (deliver_both_counts w k c)"
  unfolding deliver_signals_def deliver_both_counts_def
  by (rule follows_lift, rule follows_bind [OF deliver_follows]) (use deliver_follows in simp)

lemma resize_counts: "resize_pool E n v = Inr v' \<Longrightarrow> pool_counts v' = pool_counts v"
  by (auto simp: resize_pool_def pool_counts_def rbind_Inr_iff split: if_splits)

text \<open>The pool with the counters of the handlers after some steps since \<open>m0\<close>.\<close>

definition pool_with :: "memory \<Rightarrow> ptr set \<Rightarrow> ptr \<Rightarrow> process_pool \<times> world \<Rightarrow> signal_counts \<times> memory \<times> world \<Rightarrow> bool" where
  "pool_with m0 A0 p = (\<lambda>(v, w) (c, m, w'). pool_now m0 A0 p c (v, w) (m, w'))"

lemma pool_withD: "pool_with m0 A0 p (v, w) (c, m, w') \<Longrightarrow>
    w' = w \<and> pool_counts v = c \<and> (\<exists>A. moves m0 A0 m A \<and> owns_pool m p v A)"
  by (simp add: pool_with_def pool_now_def)

lemma apply_signal_adjustments_follows:
  assumes m: "moves m0 A0 m A" and o: "owns_pool m p v A"
  shows "follows (pool_with m0 A0 p) (apply_signal_adjustments E v w) (apply_signal_adjustments_mem E p (pool_counts v) m w)"
proof -
  obtain before between w1 where n: "next_signals w = ((before, between), w1)" by (metis prod.exhaust)
  note deliver = deliver_signals_follows [of v w1]
  have start: "apply_signal_adjustments E v w = apply_signal_adjustments E (with_counts v (pool_counts v)) w" by simp
  show ?thesis
    unfolding start unfolding apply_signal_adjustments_resizes apply_signal_adjustments_mem_def n prod.case
    apply (rule follows_bind [OF deliver], hypsubst)
    apply (unfold counts_fields, rule follows_same, rule follows_same)
    apply (rule follows_bind [OF deliver], hypsubst, unfold Let_def counts_fields)
    subgoal for v1 c1 u1 u2 v2 c2
    proof -
      let ?c = "c2\<lparr>sc_applied_sigusr1 := sc_sigusr1_count c2, sc_applied_sigusr2 := sc_sigusr2_count c2\<rparr>"
      let ?v = "with_counts v ?c"
      obtain q where q: "load_as to_pool p m = Inr (pool_struct v q)" by (rule pool_reads [OF o])
      have o': "owns_pool m p ?v A" using o by simp
      have "follows (pool_with m0 A0 p) (rbind (lift w1 (resize_pool E k ?v)) (\<lambda>v. Inr (v, w1)))
        (rbind (lift w1 (resize_pool_mem E p k m)) (\<lambda>m. Inr (?c, m, w1)))" for k
        by (rule follows_bind [OF follows_lift [OF pool_resize_updates [OF moves_ok(1) [OF m] o', unfolded updates_follows]]])
          (auto simp: pool_with_def pool_now_def dest: moves_trans [OF m] resize_counts)
      moreover have "pl_max_procs ?v = pl_max_procs v" "pl_child_max ?v = pl_child_max v"
        "(with_counts v c2)\<lparr>pl_applied_sigusr1 := sc_sigusr1_count c2,
           pl_applied_sigusr2 := sc_sigusr2_count c2\<rparr> = ?v"
        by (simp_all add: with_counts_def)
      ultimately show ?thesis
        using m o o' q by (auto simp: pool_with_def pool_now_def intro!: follows_same)
    qed
    done
qed

lemma reap_with_counts:
  assumes "moves m0 A0 m A" and "owns_pool m p v A" and "pool_counts v = c"
  shows "follows (pool_with m0 A0 p) (reap_while_full E v w)
    (rbind (reap_while_full_mem E p m w) (\<lambda>(m, w). Inr (c, m, w)))"
  using reap_while_full_follows [OF assms, of E w]
  by (cases "reap_while_full E v w") (auto simp: pool_with_def pool_now_def)

lemma wait_if_full_follows:
  assumes m: "moves m0 A0 m A" and o: "owns_pool m p v A"
  shows "follows (pool_with m0 A0 p) (process_pool_wait_if_full E v w) (process_pool_wait_if_full_mem E p (pool_counts v) m w)"
  unfolding process_pool_wait_if_full_def process_pool_wait_if_full_mem_def
  by (rule follows_bind [OF apply_signal_adjustments_follows [OF assms]])
    (auto dest!: pool_withD intro: reap_with_counts)

lemma pool_load: "owns_pool m p v A \<Longrightarrow> \<exists>q. load_as to_pool p m = Inr (pool_struct v q)"
  by (rule pool_reads) auto

lemma drain_follows:
  assumes m: "moves m0 A0 m A" and o: "owns_pool m p v A"
  shows "follows (\<lambda>(n, v', w') (n', m', w''). n' = n \<and> pool_now m0 A0 p (pool_counts v) (v', w') (m', w''))
    (process_pool_drain E v w) (process_pool_drain_mem E p m w)"
  unfolding process_pool_drain_def process_pool_drain_mem_def
  by (rule follows_bind [OF reap_all_follows [OF assms refl]]) (fastforce simp: pool_now_def dest: pool_load)

lemma halted_same: "owns_pool m p v A \<Longrightarrow> process_pool_halted_mem p m = Inr (process_pool_halted v)"
  by (auto simp: process_pool_halted_mem_def process_pool_halted_def elim!: pool_reads)

lemma submit_counts: "process_pool_submit E v pid = Inr v' \<Longrightarrow> pool_counts v' = pool_counts v"
  by (auto simp: process_pool_submit_def pool_counts_def rbind_Inr_iff split: if_splits)

end
