(* ===== verification/Memory_Run.thy ===== *)
theory Memory_Run
  imports Memory_Reading Memory_Child Memory_Pool Memory_Xargs
begin

text \<open>
  The run on pointers (\<^verbatim>\<open>src/xargs_mode.c\<close>, \<^verbatim>\<open>src/appender_mode.c\<close>, \<^verbatim>\<open>src/replacer_mode.c\<close>,
  \<^verbatim>\<open>src/xargs.c\<close>, \<^verbatim>\<open>src/main.c\<close>): the operations of the mode, its two loops and the program, each
  reading its objects from memory and leaving them there.
\<close>

section \<open>The operations of the mode\<close>

text \<open>What a process can change: its memory, what is left of its input, and its static variables.\<close>

record machine =
  mc_mem :: memory
  mc_src :: sources
  mc_counts :: signal_counts

text \<open>A stream reads on where it stopped.\<close>

definition stream_input :: "cstr option \<Rightarrow> sources \<Rightarrow> stop + infile" where
  "stream_input path F = (case path of
       None \<Rightarrow> Inr (sr_stdin F)
     | Some p \<Rightarrow> (case sr_files F p of None \<Rightarrow> Inl Undefined | Some f \<Rightarrow> Inr f))"

definition stream_rest :: "cstr option \<Rightarrow> infile \<Rightarrow> sources \<Rightarrow> sources" where
  "stream_rest path f F = (case path of
       None \<Rightarrow> F\<lparr>sr_stdin := f\<rparr>
     | Some p \<Rightarrow> F\<lparr>sr_files := (sr_files F)(p := Some f)\<rparr>)"

definition increment_line_count_mem :: "ptr \<Rightarrow> memory \<Rightarrow> stop + memory" where
  "increment_line_count_mem ctx m = command_increment_line_count_mem ctx m"

definition xargs_mode_next_token_mem :: "platform \<Rightarrow> ptr \<Rightarrow> machine \<Rightarrow> stop + text_ptr option \<times> machine" where
  "xargs_mode_next_token_mem E p s =
     rbind (load_as to_mode p (mc_mem s)) (\<lambda>mode.
     rbind (load_as to_stream (ms_arg_source mode) (mc_mem s)) (\<lambda>path.
     rbind (stream_input path (mc_src s)) (\<lambda>f.
     rbind (tokenizer_next_token_mem E increment_line_count_mem (ms_toker mode) f (mc_mem s)) (\<lambda>(out, f, m).
     Inr (out, s\<lparr>mc_mem := m, mc_src := stream_rest path f (mc_src s)\<rparr>)))))"

definition xargs_mode_tokenizer_errored_mem :: "ptr \<Rightarrow> machine \<Rightarrow> stop + bool" where
  "xargs_mode_tokenizer_errored_mem p s =
     rbind (load_as to_mode p (mc_mem s)) (\<lambda>mode.
     rbind (tokenizer_get_error_mem (ms_toker mode) (mc_mem s)) (\<lambda>err.
     Inr (err \<noteq> TOKENIZER_ERR_NONE)))"

text \<open>The token is read anew at each use.\<close>

definition xargs_mode_arg_would_exceed_limits_mem :: "ptr \<Rightarrow> text_ptr \<Rightarrow> machine \<Rightarrow> stop + bool" where
  "xargs_mode_arg_would_exceed_limits_mem p new_arg s =
     rbind (load_as to_mode p (mc_mem s)) (\<lambda>mode.
     rbind (read_text new_arg (mc_mem s)) (\<lambda>text.
     command_arg_would_exceed_limits_mem (ms_cmd mode) text (mc_mem s)))"

definition xargs_mode_drain_mem :: "platform \<Rightarrow> ptr \<Rightarrow> machine \<Rightarrow> world
    \<Rightarrow> (stop \<times> world) + int \<times> machine \<times> world" where
  "xargs_mode_drain_mem E p s w =
     rbind (lift w (load_as to_mode p (mc_mem s))) (\<lambda>mode.
     rbind (process_pool_drain_mem E (ms_pool mode) (mc_mem s) w) (\<lambda>(status, m, w).
     Inr (status, s\<lparr>mc_mem := m\<rparr>, w)))"

definition drain_and_exit_mem :: "platform \<Rightarrow> ptr \<Rightarrow> diagnostic \<Rightarrow> machine \<Rightarrow> world \<Rightarrow> (stop \<times> world) + 'a" where
  "drain_and_exit_mem E p d s w =
     rbind (xargs_mode_drain_mem E p s w) (\<lambda>(_, _, w). Inl (Exit EXIT_FAILURE d, w))"

definition xargs_mode_should_execute_command_after_arg_added_mem :: "platform \<Rightarrow> ptr \<Rightarrow> machine \<Rightarrow> world
    \<Rightarrow> (stop \<times> world) + bool" where
  "xargs_mode_should_execute_command_after_arg_added_mem E p s w =
     rbind (lift w (load_as to_mode p (mc_mem s))) (\<lambda>mode.
     rbind (lift w (command_should_execute_after_arg_added_mem (ms_cmd mode) (mc_mem s))) (\<lambda>result.
     if result < 0 then drain_and_exit_mem E p Command_too_long s w else Inr (result > 0)))"

definition xargs_mode_halted_mem :: "ptr \<Rightarrow> machine \<Rightarrow> stop + bool" where
  "xargs_mode_halted_mem p s =
     rbind (load_as to_mode p (mc_mem s)) (\<lambda>mode. process_pool_halted_mem (ms_pool mode) (mc_mem s))"

definition xargs_mode_execute_command_mem :: "platform \<Rightarrow> ptr \<Rightarrow> machine \<Rightarrow> world
    \<Rightarrow> (stop \<times> world) + machine \<times> world" where
  "xargs_mode_execute_command_mem E p s w =
     rbind (lift w (load_as to_mode p (mc_mem s))) (\<lambda>mode.
     rbind (process_pool_wait_if_full_mem E (ms_pool mode) (mc_counts s) (mc_mem s) w) (\<lambda>(c, m, w).
     let s = s\<lparr>mc_mem := m, mc_counts := c\<rparr> in
     rbind (lift w (process_pool_halted_mem (ms_pool mode) (mc_mem s))) (\<lambda>halted.
     if halted then Inr (s, w)
     else rbind (command_execute_async_mem E (ms_cmd mode) (mc_mem s) w) (\<lambda>(pid, m, w).
          rbind (lift w (process_pool_submit_mem E (ms_pool mode) pid m)) (\<lambda>m.
          Inr (s\<lparr>mc_mem := m\<rparr>, w))))))"

definition xargs_mode_add_input_argument_mem :: "platform \<Rightarrow> ptr \<Rightarrow> text_ptr \<Rightarrow> machine \<Rightarrow> stop + machine" where
  "xargs_mode_add_input_argument_mem E p new_arg s =
     rbind (load_as to_mode p (mc_mem s)) (\<lambda>mode.
     rbind (read_text new_arg (mc_mem s)) (\<lambda>text.
     rbind (command_add_input_argument_mem E (ms_cmd mode) text (mc_mem s)) (\<lambda>m.
     Inr (s\<lparr>mc_mem := m\<rparr>))))"

definition xargs_mode_input_args_remain_mem :: "ptr \<Rightarrow> machine \<Rightarrow> stop + bool" where
  "xargs_mode_input_args_remain_mem p s =
     rbind (load_as to_mode p (mc_mem s)) (\<lambda>mode. command_input_args_remain_mem (ms_cmd mode) (mc_mem s))"

definition xargs_mode_ensure_command_length_not_exceeded_mem :: "ptr \<Rightarrow> text_ptr \<Rightarrow> machine \<Rightarrow> stop + unit" where
  "xargs_mode_ensure_command_length_not_exceeded_mem p new_arg s =
     rbind (load_as to_mode p (mc_mem s)) (\<lambda>mode.
     rbind (read_text new_arg (mc_mem s)) (\<lambda>text.
     command_ensure_length_not_exceeded_mem (ms_cmd mode) text (mc_mem s)))"

definition xargs_replace_args_mem :: "platform \<Rightarrow> ptr \<Rightarrow> text_ptr \<Rightarrow> machine \<Rightarrow> stop + machine" where
  "xargs_replace_args_mem E p new_arg s =
     rbind (load_as to_mode p (mc_mem s)) (\<lambda>mode.
     rbind (read_text new_arg (mc_mem s)) (\<lambda>text.
     rbind (command_replace_args_mem E (ms_cmd mode) text (mc_mem s)) (\<lambda>m.
     Inr (s\<lparr>mc_mem := m\<rparr>))))"

section \<open>The two modes\<close>

definition appender_step_mem :: "platform \<Rightarrow> ptr \<Rightarrow> text_ptr \<Rightarrow> machine \<Rightarrow> world
    \<Rightarrow> (stop \<times> world) + bool \<times> machine \<times> world" where
  "appender_step_mem E p token s w =
     rbind (lift w (xargs_mode_arg_would_exceed_limits_mem p token s)) (\<lambda>exceeds.
     rbind (if exceeds then xargs_mode_execute_command_mem E p s w else Inr (s, w)) (\<lambda>(s, w).
     rbind (if exceeds then lift w (xargs_mode_halted_mem p s) else Inr False) (\<lambda>halted.
     if halted then Inr (True, s, w)
     else
       rbind (lift w (xargs_mode_add_input_argument_mem E p token s)) (\<lambda>s.
       rbind (xargs_mode_should_execute_command_after_arg_added_mem E p s w) (\<lambda>now.
       if now
       then rbind (xargs_mode_execute_command_mem E p s w) (\<lambda>(s, w).
            rbind (lift w (xargs_mode_halted_mem p s)) (\<lambda>halted. Inr (halted, s, w)))
       else Inr (False, s, w))))))"

partial_function (option) appender_loop_mem :: "platform \<Rightarrow> ptr \<Rightarrow> machine \<Rightarrow> bool \<Rightarrow> world
    \<Rightarrow> ((stop \<times> world) + machine \<times> bool \<times> world) option" where
  "appender_loop_mem E p s input_present w =
     (case xargs_mode_next_token_mem E p s of
        Inl e \<Rightarrow> Some (Inl (e, w))
      | Inr (out, s) \<Rightarrow> (case out of
          None \<Rightarrow> Some (Inr (s, input_present, w))
        | Some token \<Rightarrow> (case appender_step_mem E p token s w of
            Inl e \<Rightarrow> Some (Inl e)
          | Inr (stopped, s, w) \<Rightarrow>
              if stopped then Some (Inr (s, True, w))
              else appender_loop_mem E p s True w)))"

definition appender_finish_mem :: "platform \<Rightarrow> ptr \<Rightarrow> ptr \<Rightarrow> machine \<Rightarrow> bool \<Rightarrow> world
    \<Rightarrow> (stop \<times> world) + int \<times> machine \<times> world" where
  "appender_finish_mem E self p s input_present w =
     rbind (lift w (xargs_mode_tokenizer_errored_mem p s)) (\<lambda>errored.
     if errored then drain_and_exit_mem E p Input_error s w
     else
       rbind (if \<not> input_present then
           rbind (lift w (load_as to_appender self (mc_mem s))) (\<lambda>mode.
           if \<not> am_suppress_execution_on_empty_input mode then xargs_mode_execute_command_mem E p s w
           else Inr (s, w))
         else
           rbind (lift w (xargs_mode_input_args_remain_mem p s)) (\<lambda>remain.
           if remain then xargs_mode_execute_command_mem E p s w else Inr (s, w))) (\<lambda>(s, w).
       rbind (xargs_mode_drain_mem E p s w) (\<lambda>(status, s, w).
       Inr (or EXIT_SUCCESS status, s, w))))"

definition appender_mode_run_mem :: "platform \<Rightarrow> ptr \<Rightarrow> machine \<Rightarrow> world
    \<Rightarrow> ((stop \<times> world) + int \<times> machine \<times> world) option" where
  "appender_mode_run_mem E p s w = (case xargs_mode_impl p (mc_mem s) of
       Inl e \<Rightarrow> Some (Inl (e, w))
     | Inr self \<Rightarrow> map_option (\<lambda>r. rbind r (\<lambda>(s, input_present, w).
           appender_finish_mem E self p s input_present w)) (appender_loop_mem E p s False w))"

definition replacer_step_mem :: "platform \<Rightarrow> ptr \<Rightarrow> text_ptr \<Rightarrow> machine \<Rightarrow> world
    \<Rightarrow> (stop \<times> world) + bool \<times> machine \<times> world" where
  "replacer_step_mem E p token s w =
     rbind (lift w (xargs_mode_ensure_command_length_not_exceeded_mem p token s)) (\<lambda>_.
     rbind (lift w (xargs_replace_args_mem E p token s)) (\<lambda>s.
     rbind (xargs_mode_execute_command_mem E p s w) (\<lambda>(s, w).
     rbind (lift w (xargs_mode_halted_mem p s)) (\<lambda>halted. Inr (halted, s, w)))))"

partial_function (option) replacer_loop_mem :: "platform \<Rightarrow> ptr \<Rightarrow> machine \<Rightarrow> world
    \<Rightarrow> ((stop \<times> world) + machine \<times> world) option" where
  "replacer_loop_mem E p s w =
     (case xargs_mode_next_token_mem E p s of
        Inl e \<Rightarrow> Some (Inl (e, w))
      | Inr (out, s) \<Rightarrow> (case out of
          None \<Rightarrow> Some (Inr (s, w))
        | Some token \<Rightarrow> (case replacer_step_mem E p token s w of
            Inl e \<Rightarrow> Some (Inl e)
          | Inr (stopped, s, w) \<Rightarrow>
              if stopped then Some (Inr (s, w)) else replacer_loop_mem E p s w)))"

definition replacer_mode_run_mem :: "platform \<Rightarrow> ptr \<Rightarrow> machine \<Rightarrow> world
    \<Rightarrow> ((stop \<times> world) + int \<times> machine \<times> world) option" where
  "replacer_mode_run_mem E p s w =
     map_option (\<lambda>r. rbind r (\<lambda>(s, w).
         rbind (lift w (xargs_mode_tokenizer_errored_mem p s)) (\<lambda>errored.
         if errored then drain_and_exit_mem E p Input_error s w
         else rbind (xargs_mode_drain_mem E p s w) (\<lambda>(status, s, w).
              Inr (or EXIT_SUCCESS status, s, w)))))
       (replacer_loop_mem E p s w)"

section \<open>The program\<close>

text \<open>The dispatch \<open>mode->ops->run(mode)\<close>.\<close>

definition xargs_mode_run_mem :: "platform \<Rightarrow> ptr \<Rightarrow> machine \<Rightarrow> world
    \<Rightarrow> ((stop \<times> world) + int \<times> machine \<times> world) option" where
  "xargs_mode_run_mem E p s w = (case load_as to_mode p (mc_mem s) of
       Inl e \<Rightarrow> Some (Inl (e, w))
     | Inr mode \<Rightarrow> (case ms_ops mode of
         appender_mode_ops \<Rightarrow> appender_mode_run_mem E p s w
       | replacer_mode_ops \<Rightarrow> replacer_mode_run_mem E p s w))"

definition xargs_run_mem :: "platform \<Rightarrow> ptr \<Rightarrow> machine \<Rightarrow> world
    \<Rightarrow> ((stop \<times> world) + int \<times> machine \<times> world) option" where
  "xargs_run_mem E x s w = (case load_as to_xargs x (mc_mem s) of
       Inl e \<Rightarrow> Some (Inl (e, w))
     | Inr x \<Rightarrow> xargs_mode_run_mem E (xs_mode x) s w)"

text \<open>The last component of the result is the memory after \<open>xargs_destroy\<close>.\<close>

definition main_mem :: "platform \<Rightarrow> sources \<Rightarrow> cstr list \<Rightarrow> memory \<Rightarrow> world
    \<Rightarrow> ((stop \<times> world) + int \<times> world \<times> memory) option" where
  "main_mem E F argv m w =
     (let w = process_pool_install_signal_handlers w in
      case lift w (xargs_create_mem E F argv m) of
        Inl e \<Rightarrow> Some (Inl e)
      | Inr (x, m) \<Rightarrow> map_option (\<lambda>r. rbind r (\<lambda>(execution_status, s, w).
            rbind (lift w (xargs_destroy x (mc_mem s))) (\<lambda>m. Inr (execution_status, w, m))))
          (xargs_run_mem E x \<lparr>mc_mem = m, mc_src = F, mc_counts = no_signals\<rparr> w))"

end
