(* ===== verification/Memory_Running.thy ===== *)
theory Memory_Running
  imports Memory_Run
begin

text \<open>
  The run on pointers follows the run on values: it takes the same steps, ends in the same way,
  and leaves the objects of the mode with the resulting value. With the constructors and
  destructors this gives the whole program.
\<close>

section \<open>A mode that is served\<close>

text \<open>
  After some steps since \<open>m0\<close> there is at \<open>p\<close> the mode \<open>v\<close> with its implementation at \<open>r\<close> and its
  parts at \<open>q\<close>; the token, if there is one, can be read at its place in the buffer of the
  tokenizer.
\<close>

definition token_at :: "memory \<Rightarrow> ptr set \<Rightarrow> cstr option \<Rightarrow> text_ptr option \<Rightarrow> bool" where
  "token_at m A = rel_option (\<lambda>w t. fst t \<in> A \<and> read_text t m = Inr w)"

definition serving :: "memory \<Rightarrow> ptr set \<Rightarrow> ptr \<Rightarrow> ptr \<Rightarrow> (mode_part \<Rightarrow> ptr) \<Rightarrow> xargs_mode \<Rightarrow> cstr option
    \<Rightarrow> machine \<Rightarrow> text_ptr option \<Rightarrow> bool" where
  "serving m0 A0 p r q v tok s tok' \<longleftrightarrow> (\<exists>L. moves m0 A0 (mc_mem s) (footprint p {r} L)
     \<and> mode_parts (mc_src s) (mc_mem s) p r v q L \<and> pool_counts (md_pool v) = mc_counts s
     \<and> token_at (mc_mem s) (L Tokenizer_part) tok tok')"

lemma token_at_simps [simp]:
  "token_at m A None o' \<longleftrightarrow> o' = None"
  "token_at m A (Some w) (Some t) \<longleftrightarrow> fst t \<in> A \<and> read_text t m = Inr w"
  by (auto simp: token_at_def)

lemma token_at_kept:
  assumes "token_at m A tok tok'" and "agree X m m'" and "A \<subseteq> X"
  shows "token_at m' A tok tok'"
proof -
  have "read_text t m' = read_text t m" if "fst t \<in> A" for t
    using agree_heap [OF assms(2), of "fst t"] that assms(3)
    by (auto simp: read_text_def load_as_def mem_load_def)
  with assms(1) show ?thesis by (auto simp: token_at_def elim!: option.rel_mono_strong)
qed

lemma mode_part_owned: "mode_parts F m p r v q L \<Longrightarrow> owns_part F m v q k (L k)"
  unfolding mode_parts_def by blast

lemma serving_forget: "serving m0 A0 p r q v tok s tok' \<Longrightarrow> serving m0 A0 p r q v None s None"
  by (auto simp: serving_def)

lemma serving_ok: "serving m0 A0 p r q v tok s tok' \<Longrightarrow> mem_ok (mc_mem s)"
  by (auto simp: serving_def dest: moves_ok)

lemma serving_mode: "serving m0 A0 p r q v tok s tok' \<Longrightarrow> load_as to_mode p (mc_mem s) = Inr (mode_struct (md_impl v) q r)"
  by (auto simp: serving_def mode_parts_def load_as_Some)

lemma serving_impl: "serving m0 A0 p r q v tok s tok' \<Longrightarrow> m_heap (mc_mem s) r = Some (mode_object (md_impl v) p)"
  by (auto simp: serving_def mode_parts_def)

lemma serving_text: "serving m0 A0 p r q v (Some w) s (Some t) \<Longrightarrow> read_text t (mc_mem s) = Inr w"
  by (auto simp: serving_def)

lemma serving_parts:
  assumes "serving m0 A0 p r q v tok s tok'"
  obtains L where "owns_command (mc_mem s) (q Command_part) (md_cmd v) (L Command_part)"
    "owns_toker (q Command_part) (mc_mem s) (q Tokenizer_part) (md_toker v) (L Tokenizer_part)"
    "owns_pool (mc_mem s) (q Pool_part) (md_pool v) (L Pool_part)" "pool_counts (md_pool v) = mc_counts s"
proof -
  from assms obtain L where "mode_parts (mc_src s) (mc_mem s) p r v q L" "pool_counts (md_pool v) = mc_counts s"
    by (auto simp: serving_def)
  then have "owns_part (mc_src s) (mc_mem s) v q k (L k)" for k by (simp add: mode_parts_def)
  from this [of Command_part] this [of Tokenizer_part] this [of Pool_part] \<open>pool_counts _ = _\<close> show ?thesis
    by (intro that) simp_all
qed

text \<open>A step of one part.\<close>

lemma serving_put:
  assumes m: "moves m0 A0 m (footprint p {r} L)" and c: "mode_parts F m p r v q L"
    and t: "token_at m (L Tokenizer_part) tok tok'" and k: "k \<noteq> Tokenizer_part"
    and Y: "moves m (L k) m' Y" "owns_part F m' v' q k Y" "md_impl v' = md_impl v"
    and others: "\<And>j A m. j \<noteq> k \<Longrightarrow> owns_part F m v' q j A = owns_part F m v q j A"
  shows "serving m0 A0 p r q v' tok \<lparr>mc_mem = m', mc_src = F, mc_counts = pool_counts (md_pool v')\<rparr> tok'"
proof -
  have d: "apart p {r} L" using c by (simp add: mode_parts_def)
  note f = footprint_part [OF d, of k]
  note g = chain_part [OF m [unfolded f(1)] f(2) Y(1)]
  have "mode_parts F m' p r v' q (L(k := Y))" by (rule mode_put [OF c g(3) Y(2) g(2) Y(3) others])
  moreover have "moves m0 A0 m' (footprint p {r} (L(k := Y)))"
    using g(1) unfolding footprint_put [of p "{r}" L k Y, symmetric] .
  moreover have "token_at m' ((L(k := Y)) Tokenizer_part) tok tok'"
  proof -
    have "L Tokenizer_part \<subseteq> footprint p {r} (L(k := {}))" using k by (auto simp: footprint_def)
    from token_at_kept [OF t g(3) this] k show ?thesis by simp
  qed
  ultimately show ?thesis unfolding serving_def by (intro exI [of _ "L(k := Y)"]) simp
qed

lemma command_serving:
  assumes "serving m0 A0 p r q v tok s tok'"
    and "\<And>A. mem_ok (mc_mem s) \<Longrightarrow> owns_command (mc_mem s) (q Command_part) (md_cmd v) A
      \<Longrightarrow> updates owns_command (mc_mem s) (q Command_part) A mv mh"
  shows "follows (\<lambda>cmd m. serving m0 A0 p r q (v\<lparr>md_cmd := cmd\<rparr>) tok (s\<lparr>mc_mem := m\<rparr>) tok') mv mh"
proof -
  from assms(1) obtain L where L: "moves m0 A0 (mc_mem s) (footprint p {r} L)"
    "mode_parts (mc_src s) (mc_mem s) p r v q L" "pool_counts (md_pool v) = mc_counts s"
    "token_at (mc_mem s) (L Tokenizer_part) tok tok'" by (auto simp: serving_def)
  have "owns_part (mc_src s) (mc_mem s) v q Command_part (L Command_part)" by (rule mode_part_owned [OF L(2)])
  then have u: "updates owns_command (mc_mem s) (q Command_part) (L Command_part) mv mh"
    using assms(2) [OF moves_ok(1) [OF L(1)]] by simp
  show ?thesis
    using u unfolding updates_follows
  proof (rule follows_mono, elim exE conjE)
    fix cmd m Y
    assume "moves (mc_mem s) (L Command_part) m Y" "owns_command m (q Command_part) cmd Y"
    then have "serving m0 A0 p r q (v\<lparr>md_cmd := cmd\<rparr>) tok
        \<lparr>mc_mem = m, mc_src = mc_src s, mc_counts = pool_counts (md_pool (v\<lparr>md_cmd := cmd\<rparr>))\<rparr> tok'"
      by (intro serving_put [OF L(1,2,4), of Command_part]) (simp_all add: owns_part_def split: mode_part.split)
    then show "serving m0 A0 p r q (v\<lparr>md_cmd := cmd\<rparr>) tok (s\<lparr>mc_mem := m\<rparr>) tok'" using L(3) by (cases s) simp
  qed
qed

lemma pool_serving:
  assumes "serving m0 A0 p r q v tok s tok'"
    and "\<And>A. moves (mc_mem s) A (mc_mem s) A \<Longrightarrow> owns_pool (mc_mem s) (q Pool_part) (md_pool v) A
      \<Longrightarrow> follows (\<lambda>x y. S x y \<and> (\<exists>A'. moves (mc_mem s) A (mem y) A' \<and> owns_pool (mem y) (q Pool_part) (pool x) A')) mv mh"
  shows "follows (\<lambda>x y. S x y \<and> serving m0 A0 p r q (v\<lparr>md_pool := pool x\<rparr>) tok
    (s\<lparr>mc_mem := mem y, mc_counts := pool_counts (pool x)\<rparr>) tok') mv mh"
proof -
  from assms(1) obtain L where L: "moves m0 A0 (mc_mem s) (footprint p {r} L)"
    "mode_parts (mc_src s) (mc_mem s) p r v q L" "pool_counts (md_pool v) = mc_counts s"
    "token_at (mc_mem s) (L Tokenizer_part) tok tok'" by (auto simp: serving_def)
  have o: "owns_part (mc_src s) (mc_mem s) v q Pool_part (L Pool_part)" by (rule mode_part_owned [OF L(2)])
  note u = assms(2) [OF moves_refl [OF moves_ok(1) [OF L(1)] part_allocated [OF o]] o [simplified]]
  show ?thesis
  proof (rule follows_mono [OF u], elim exE conjE, rule conjI)
    fix x y Y
    assume "moves (mc_mem s) (L Pool_part) (mem y) Y" "owns_pool (mem y) (q Pool_part) (pool x) Y"
    then have "serving m0 A0 p r q (v\<lparr>md_pool := pool x\<rparr>) tok
        \<lparr>mc_mem = mem y, mc_src = mc_src s, mc_counts = pool_counts (md_pool (v\<lparr>md_pool := pool x\<rparr>))\<rparr> tok'"
      by (intro serving_put [OF L(1,2,4), of Pool_part]) (simp_all add: owns_part_def split: mode_part.split)
    then show "serving m0 A0 p r q (v\<lparr>md_pool := pool x\<rparr>) tok
        (s\<lparr>mc_mem := mem y, mc_counts := pool_counts (pool x)\<rparr>) tok'" by (cases s) simp
  qed
qed

section \<open>Reading a token\<close>

lemma source_reads:
  assumes "mem_ok m" and "owns_source F m a f A"
  obtains path where "load_as to_stream a m = Inr path" "stream_input path F = Inr f"
    "\<And>f' m'. agree A m m' \<Longrightarrow> owns_source (stream_rest path f' F) m' a f' A"
proof (cases "a = stdin_ptr")
  case True
  with assms show ?thesis
    by (intro that [of None])
      (simp_all add: owns_source_def mem_ok_def load_as_Some to_stream_def stream_input_def stream_rest_def)
next
  case False
  with assms obtain x where x: "A = {a}" "m_heap m a = Some (Stream (Some x))" "sr_files F x = Some f"
    by (auto simp: owns_source_def)
  with False show ?thesis
    by (intro that [of "Some x"])
      (simp_all add: owns_source_def load_as_Some to_stream_def stream_input_def stream_rest_def agree_def)
qed

text \<open>The tokenizer and the command change together, and the input is read on.\<close>

lemma serving_read:
  assumes m: "moves m0 A0 m (footprint p {r} L)" and c: "mode_parts F m p r v q L"
    and X: "moves m (L Tokenizer_part \<union> L Command_part) m' (A \<union> B)" "A \<inter> B = {}"
    and t: "owns_toker (q Command_part) m' (q Tokenizer_part) k A" and b: "owns_command m' (q Command_part) cmd B"
    and f: "\<And>m'. agree (L Source_part) m m' \<Longrightarrow> owns_source F' m' (q Source_part) f (L Source_part)"
    and out: "token_at m' A out out'"
  shows "serving m0 A0 p r q (v\<lparr>md_toker := k, md_cmd := cmd, md_arg_source := f\<rparr>) out
    \<lparr>mc_mem = m', mc_src = F', mc_counts = pool_counts (md_pool v)\<rparr> out'"
proof -
  let ?L1 = "L(Tokenizer_part := {})" and ?L0 = "L(Tokenizer_part := {}, Command_part := {})"
  let ?L' = "L(Tokenizer_part := A, Command_part := B)" and ?v = "v\<lparr>md_toker := k, md_cmd := cmd, md_arg_source := f\<rparr>"
  let ?rest = "footprint p {r} ?L0"
  have d: "apart p {r} L" using c by (simp add: mode_parts_def)
  note d1 = part_released [OF d, of Tokenizer_part]
  note d0 = part_released [OF d1, of Command_part]
  note f1 = footprint_part [OF d, of Tokenizer_part] and f0 = footprint_part [OF d1, of Command_part]
  have cmd1: "?L1 Command_part = L Command_part" by simp
  have fp: "footprint p {r} L = (L Tokenizer_part \<union> L Command_part) \<union> ?rest"
    using f1(1) f0(1) unfolding cmd1 by (simp add: Un_assoc)
  have dis: "(L Tokenizer_part \<union> L Command_part) \<inter> ?rest = {}"
    using f1(2) f0 unfolding cmd1 by auto
  note g = chain_part [OF m [unfolded fp] dis X(1)]
  have put: "footprint p {r} ?L' = A \<union> B \<union> ?rest"
    using footprint_put [of p "{r}" "L(Tokenizer_part := A)" Command_part B]
      footprint_put [of p "{r}" "L(Command_part := {})" Tokenizer_part A] by (auto simp: fun_upd_twist)
  have "apart p {r} (?L0(Tokenizer_part := A))"
    by (rule apart_put [OF d0]) (use g(2) in \<open>auto simp: fun_upd_twist\<close>)
  moreover have "B \<inter> footprint p {r} ((?L0(Tokenizer_part := A))(Command_part := {})) = {}"
    using footprint_put [of p "{r}" ?L0 Tokenizer_part A] g(2) X(2) by (auto simp: fun_upd_twist)
  ultimately have a: "apart p {r} ?L'" using apart_put [of p "{r}" "?L0(Tokenizer_part := A)" B Command_part]
    by (simp add: fun_upd_twist)
  have same: "m_heap m' p = m_heap m p" "m_heap m' r = m_heap m r"
    using agree_heap [OF g(3), of p] agree_heap [OF g(3), of r] by (auto simp: footprint_def)
  have rest: "L j \<subseteq> ?rest" if "j \<noteq> Tokenizer_part" "j \<noteq> Command_part" for j using that by (auto simp: footprint_def)
  have "owns_pool m' (q Pool_part) (md_pool v) (L Pool_part)"
    using pool.kept [OF mode_part_owned [OF c, of Pool_part, simplified] g(3)] rest [of Pool_part] by simp
  moreover have "owns_source F' m' (q Source_part) f (L Source_part)"
    by (rule f [OF agree_sub [OF g(3)]]) (rule rest, simp_all)
  ultimately have "owns_part F' m' ?v q j (?L' j)" for j using t b by (cases j) simp_all
  then have "mode_parts F' m' p r ?v q ?L'" using a c same by (simp add: mode_parts_def)
  with g(1) put out show ?thesis unfolding serving_def by (intro exI [of _ ?L']) simp
qed

lemma next_token_serving:
  assumes "serving m0 A0 p r q v None s None"
  shows "follows (\<lambda>(out, v') (out', s'). serving m0 A0 p r q v' out s' out' \<and> md_impl v' = md_impl v)
    (xargs_mode_next_token E v) (xargs_mode_next_token_mem E p s)"
proof -
  let ?m = "mc_mem s"
  from assms obtain L where L: "moves m0 A0 ?m (footprint p {r} L)" "mode_parts (mc_src s) ?m p r v q L"
    "pool_counts (md_pool v) = mc_counts s" by (auto simp: serving_def)
  have ok: "mem_ok ?m" by (rule moves_ok(1) [OF L(1)])
  note parts = mode_part_owned [OF L(2)]
  note t = parts [of Tokenizer_part, simplified] and b = parts [of Command_part, simplified]
  obtain z where z: "toker_at z (q Command_part) ?m (q Tokenizer_part) (md_toker v) (L Tokenizer_part)"
    using t by (auto simp: owns_toker_def)
  have "L Tokenizer_part \<inter> L Command_part = {}" using L(2) by (simp add: mode_parts_def apart_def)
  moreover have "moves ?m (L Tokenizer_part \<union> L Command_part) ?m (L Tokenizer_part \<union> L Command_part)"
    by (rule moves_refl [OF ok]) (use toker.allocated [OF t] cmd.allocated [OF b] in simp)
  ultimately have g: "reading ?m (L Tokenizer_part \<union> L Command_part) z (q Command_part) (q Tokenizer_part) ?m (md_toker v) (md_cmd v)"
    using z b by (auto simp: given_def)
  obtain path where path: "load_as to_stream (q Source_part) ?m = Inr path"
    "stream_input path (mc_src s) = Inr (md_arg_source v)"
    "\<And>f' m'. agree (L Source_part) ?m m' \<Longrightarrow> owns_source (stream_rest path f' (mc_src s)) m' (q Source_part) f' (L Source_part)"
    by (rule source_reads [OF ok parts [of Source_part, simplified]]) blast
  have cb: "increment_line_count_mem = command_increment_line_count_mem" by (simp add: increment_line_count_mem_def fun_eq_iff)
  show ?thesis
    unfolding xargs_mode_next_token_def xargs_mode_next_token_mem_def serving_mode [OF assms] rbind_simps mode_struct_simps
      path(1,2) cb
  proof (rule follows_bind [OF tokenizer_reading [OF g]], clarsimp)
    fix out k cmd f' out' m'
    assume "given ?m (L Tokenizer_part \<union> L Command_part) z (q Command_part) (q Tokenizer_part) m' k cmd out out'"
    then obtain A B where AB: "moves ?m (L Tokenizer_part \<union> L Command_part) m' (A \<union> B)" "A \<inter> B = {}"
      "toker_at z (q Command_part) m' (q Tokenizer_part) k A" "owns_command m' (q Command_part) cmd B"
      "token_at m' A out out'" by (auto simp: given_def token_at_def)
    have "owns_toker (q Command_part) m' (q Tokenizer_part) k A" using AB(3) by (auto simp: owns_toker_def)
    from serving_read [OF L(1,2) AB(1,2) this AB(4) path(3) AB(5)]
    show "serving m0 A0 p r q (v\<lparr>md_toker := k, md_cmd := cmd, md_arg_source := f'\<rparr>) out
        (s\<lparr>mc_mem := m', mc_src := stream_rest path f' (mc_src s)\<rparr>) out'"
      using L(3) by (cases s) simp
  qed
qed

section \<open>The operations of the mode\<close>

text \<open>The results of a step: the same world, and a mode of the same kind.\<close>

definition served :: "memory \<Rightarrow> ptr set \<Rightarrow> ptr \<Rightarrow> ptr \<Rightarrow> (mode_part \<Rightarrow> ptr) \<Rightarrow> mode_impl \<Rightarrow> cstr option \<Rightarrow> text_ptr option
    \<Rightarrow> xargs_mode \<times> world \<Rightarrow> machine \<times> world \<Rightarrow> bool" where
  "served m0 A0 p r q i tok tok' = (\<lambda>(v, w) (s, w'). w' = w \<and> md_impl v = i \<and> serving m0 A0 p r q v tok s tok')"

lemma error_read: "owns_toker ctx m t k A \<Longrightarrow> tokenizer_get_error_mem t m = Inr (toker_error k)"
  by (erule owns_tokerE, cases k) (simp_all add: tokenizer_get_error_mem_def load_as_Some to_tokenizer_def
    tokenizer_struct_def toker_error_def space_error_def delim_error_def tokenizer_get_error_def)

lemma mode_reads:
  assumes "serving m0 A0 p r q v tok s tok'"
  shows "xargs_mode_tokenizer_errored_mem p s = Inr (xargs_mode_tokenizer_errored v)"
    "xargs_mode_halted_mem p s = Inr (xargs_mode_halted v)"
    "xargs_mode_input_args_remain_mem p s = Inr (xargs_mode_input_args_remain v)"
    "command_should_execute_after_arg_added_mem (q Command_part) (mc_mem s) = Inr (command_should_execute_after_arg_added (md_cmd v))"
proof -
  obtain L where L: "owns_command (mc_mem s) (q Command_part) (md_cmd v) (L Command_part)"
    "owns_toker (q Command_part) (mc_mem s) (q Tokenizer_part) (md_toker v) (L Tokenizer_part)"
    "owns_pool (mc_mem s) (q Pool_part) (md_pool v) (L Pool_part)" by (rule serving_parts [OF assms])
  note m = serving_mode [OF assms]
  show "xargs_mode_tokenizer_errored_mem p s = Inr (xargs_mode_tokenizer_errored v)"
    by (simp add: xargs_mode_tokenizer_errored_mem_def xargs_mode_tokenizer_errored_def m error_read [OF L(2)])
  show "xargs_mode_halted_mem p s = Inr (xargs_mode_halted v)"
    by (simp add: xargs_mode_halted_mem_def xargs_mode_halted_def m halted_same [OF L(3)])
  show "xargs_mode_input_args_remain_mem p s = Inr (xargs_mode_input_args_remain v)"
    by (simp add: xargs_mode_input_args_remain_mem_def xargs_mode_input_args_remain_def m command_tests [OF L(1)])
  show "command_should_execute_after_arg_added_mem (q Command_part) (mc_mem s) = Inr (command_should_execute_after_arg_added (md_cmd v))"
    by (rule command_tests [OF L(1)])
qed

lemma token_reads:
  assumes "serving m0 A0 p r q v (Some w) s (Some t)"
  shows "xargs_mode_arg_would_exceed_limits_mem p t s = xargs_mode_arg_would_exceed_limits v w"
    "xargs_mode_ensure_command_length_not_exceeded_mem p t s = xargs_mode_ensure_command_length_not_exceeded v w"
proof -
  obtain L where L: "owns_command (mc_mem s) (q Command_part) (md_cmd v) (L Command_part)"
    by (rule serving_parts [OF assms])
  show "xargs_mode_arg_would_exceed_limits_mem p t s = xargs_mode_arg_would_exceed_limits v w"
    "xargs_mode_ensure_command_length_not_exceeded_mem p t s = xargs_mode_ensure_command_length_not_exceeded v w"
    by (simp_all add: xargs_mode_arg_would_exceed_limits_mem_def xargs_mode_arg_would_exceed_limits_def
        xargs_mode_ensure_command_length_not_exceeded_mem_def xargs_mode_ensure_command_length_not_exceeded_def
        serving_mode [OF assms] serving_text [OF assms] command_tests [OF L])
qed

lemma add_input_serving:
  assumes "serving m0 A0 p r q v (Some w) s (Some t)"
  shows "follows (\<lambda>v' s'. serving m0 A0 p r q v' (Some w) s' (Some t) \<and> md_impl v' = md_impl v)
    (xargs_mode_add_input_argument E v w) (xargs_mode_add_input_argument_mem E p t s)"
  unfolding xargs_mode_add_input_argument_def xargs_mode_add_input_argument_mem_def serving_mode [OF assms] serving_text [OF assms]
    rbind_simps mode_struct_simps
  by (rule follows_bind [OF command_serving [OF assms add_input_updates]]) simp_all

lemma replace_serving:
  assumes "serving m0 A0 p r q v (Some w) s (Some t)"
  shows "follows (\<lambda>v' s'. serving m0 A0 p r q v' (Some w) s' (Some t) \<and> md_impl v' = md_impl v)
    (xargs_replace_args E v w) (xargs_replace_args_mem E p t s)"
  unfolding xargs_replace_args_def xargs_replace_args_mem_def serving_mode [OF assms] serving_text [OF assms]
    rbind_simps mode_struct_simps
  by (rule follows_bind [OF command_serving [OF assms replace_args_updates]]) simp_all

lemma drain_serving:
  assumes g: "serving m0 A0 p r q v tok s tok'"
  shows "follows (\<lambda>(n, v', w') (n', s', w''). n' = n \<and> served m0 A0 p r q (md_impl v) tok tok' (v', w') (s', w''))
    (xargs_mode_drain E v w) (xargs_mode_drain_mem E p s w)"
proof -
  let ?S = "\<lambda>(n, v', w') (n', m', w''). n' = n \<and> w'' = w' \<and> pool_counts v' = mc_counts s"
  have c: "pool_counts (md_pool v) = mc_counts s" by (rule serving_parts [OF g])
  have d: "follows (\<lambda>x y. ?S x y \<and> (\<exists>A'. moves (mc_mem s) A (fst (snd y)) A' \<and> owns_pool (fst (snd y)) (q Pool_part) (fst (snd x)) A'))
    (process_pool_drain E (md_pool v) w) (process_pool_drain_mem E (q Pool_part) (mc_mem s) w)"
    if "moves (mc_mem s) A (mc_mem s) A" "owns_pool (mc_mem s) (q Pool_part) (md_pool v) A" for A
    by (rule follows_mono [OF drain_follows [OF that]]) (auto simp: pool_now_def c)
  show ?thesis
    unfolding xargs_mode_drain_def xargs_mode_drain_mem_def serving_mode [OF g] lift_simps rbind_simps mode_struct_simps
    by (rule follows_bind [OF pool_serving [OF g d]]) (auto simp: served_def)
qed

lemma drain_and_exit_serving:
  "serving m0 A0 p r q v tok s tok' \<Longrightarrow> follows R (drain_and_exit E v d w) (drain_and_exit_mem E p d s w)"
  unfolding drain_and_exit_def drain_and_exit_mem_def
  by (rule follows_bind [OF drain_serving], assumption) (auto simp: served_def)

lemma should_execute_serving:
  assumes g: "serving m0 A0 p r q v tok s tok'"
  shows "follows (=) (xargs_mode_should_execute_command_after_arg_added E v w)
    (xargs_mode_should_execute_command_after_arg_added_mem E p s w)"
  by (simp add: drain_and_exit_serving [OF g] xargs_mode_should_execute_command_after_arg_added_def mode_reads(4) [OF g] Let_def
      xargs_mode_should_execute_command_after_arg_added_mem_def serving_mode [OF g])

lemma wait_serving:
  assumes g: "serving m0 A0 p r q v tok s tok'"
  shows "follows (\<lambda>(pool, w') (c, m, w''). w'' = w' \<and> serving m0 A0 p r q (v\<lparr>md_pool := pool\<rparr>) tok
      (s\<lparr>mc_mem := m, mc_counts := c\<rparr>) tok')
    (process_pool_wait_if_full E (md_pool v) w) (process_pool_wait_if_full_mem E (q Pool_part) (mc_counts s) (mc_mem s) w)"
proof -
  let ?S = "\<lambda>(v', w') (c, m', w''). w'' = w' \<and> pool_counts v' = c"
  have c: "pool_counts (md_pool v) = mc_counts s" by (rule serving_parts [OF g])
  have d: "follows (\<lambda>x y. ?S x y \<and> (\<exists>A'. moves (mc_mem s) A (fst (snd y)) A' \<and> owns_pool (fst (snd y)) (q Pool_part) (fst x) A'))
    (process_pool_wait_if_full E (md_pool v) w) (process_pool_wait_if_full_mem E (q Pool_part) (mc_counts s) (mc_mem s) w)"
    if "moves (mc_mem s) A (mc_mem s) A" "owns_pool (mc_mem s) (q Pool_part) (md_pool v) A" for A
    by (rule follows_mono [OF wait_if_full_follows [OF that, unfolded c]]) (auto dest!: pool_withD)
  show ?thesis by (rule follows_mono [OF pool_serving [OF g d]]) auto
qed

lemma submit_serving:
  assumes g: "serving m0 A0 p r q v tok s tok'"
  shows "follows (\<lambda>pool m. serving m0 A0 p r q (v\<lparr>md_pool := pool\<rparr>) tok (s\<lparr>mc_mem := m\<rparr>) tok')
    (process_pool_submit E (md_pool v) pid) (process_pool_submit_mem E (q Pool_part) pid (mc_mem s))"
proof -
  have c: "pool_counts (md_pool v) = mc_counts s" by (rule serving_parts [OF g])
  have d: "follows (\<lambda>x y. pool_counts x = mc_counts s \<and> (\<exists>A'. moves (mc_mem s) A (id y) A' \<and> owns_pool (id y) (q Pool_part) (id x) A'))
    (process_pool_submit E (md_pool v) pid) (process_pool_submit_mem E (q Pool_part) pid (mc_mem s))"
    if "moves (mc_mem s) A (mc_mem s) A" "owns_pool (mc_mem s) (q Pool_part) (md_pool v) A" for A
    using pool_submit_updates [OF serving_ok [OF g] that(2), of E pid] submit_counts [of E "md_pool v" pid] c
    by (cases "process_pool_submit E (md_pool v) pid") auto
  show ?thesis by (rule follows_mono [OF pool_serving [OF g d]]) auto
qed

lemma child_serving:
  assumes g: "serving m0 A0 p r q v tok s tok'"
  shows "follows (\<lambda>(pid, cmd, w') (pid', m, w''). pid' = pid \<and> w'' = w'
      \<and> serving m0 A0 p r q (v\<lparr>md_cmd := cmd\<rparr>) tok (s\<lparr>mc_mem := m\<rparr>) tok')
    (command_execute_async E (md_cmd v) w) (command_execute_async_mem E (q Command_part) (mc_mem s) w)"
proof -
  obtain A where o: "owns_command (mc_mem s) (q Command_part) (md_cmd v) A" by (rule serving_parts [OF g])
  have child: "run_child_mem E pid n (q Command_part) (mc_mem s) w = run_child E pid n (md_cmd v) w" for pid n w
    by (simp add: run_child_mem_def run_child_def exec_child_same [OF serving_ok [OF g] o])
  show ?thesis
    unfolding command_execute_async_def command_execute_async_mem_def child
    apply (rule follows_same, unfold split_paired_all prod.case)
    apply (rule follows_same)
    apply (rule follows_bind [OF follows_lift [OF command_serving [OF g recycle_updates]]])
    by simp_all
qed

lemma execute_serving:
  assumes g: "serving m0 A0 p r q v tok s tok'"
  shows "follows (served m0 A0 p r q (md_impl v) tok tok')
    (xargs_mode_execute_command E v w) (xargs_mode_execute_command_mem E p s w)"
  unfolding xargs_mode_execute_command_def xargs_mode_execute_command_mem_def serving_mode [OF g] lift_simps rbind_simps
    mode_struct_simps Let_def
proof (rule follows_bind [OF wait_serving [OF g]], unfold split_paired_all prod.case, elim conjE, hypsubst)
  fix pool c m w1
  let ?v = "v\<lparr>md_pool := pool\<rparr>" and ?s = "s\<lparr>mc_mem := m, mc_counts := c\<rparr>"
  assume g1: "serving m0 A0 p r q ?v tok ?s tok'"
  obtain A where o: "owns_pool (mc_mem ?s) (q Pool_part) (md_pool ?v) A" by (rule serving_parts [OF g1])
  have "follows (served m0 A0 p r q (md_impl v) tok tok')
    (rbind (command_execute_async E (md_cmd ?v) w1) (\<lambda>(pid, cmd, w). rbind (lift w (process_pool_submit E pool pid)) (\<lambda>pool.
      Inr (?v\<lparr>md_cmd := cmd, md_pool := pool\<rparr>, w))))
    (rbind (command_execute_async_mem E (q Command_part) (mc_mem ?s) w1) (\<lambda>(pid, m, w).
      rbind (lift w (process_pool_submit_mem E (q Pool_part) pid m)) (\<lambda>m. Inr (?s\<lparr>mc_mem := m\<rparr>, w))))"
  proof (rule follows_bind [OF child_serving [OF g1]], unfold split_paired_all prod.case, elim conjE, hypsubst)
    fix pid cmd w2 m2
    assume g2: "serving m0 A0 p r q (?v\<lparr>md_cmd := cmd\<rparr>) tok (?s\<lparr>mc_mem := m2\<rparr>) tok'"
    from submit_serving [OF g2, of E pid]
    show "follows (served m0 A0 p r q (md_impl v) tok tok')
      (rbind (lift w2 (process_pool_submit E pool pid)) (\<lambda>pool. Inr (?v\<lparr>md_cmd := cmd, md_pool := pool\<rparr>, w2)))
      (rbind (lift w2 (process_pool_submit_mem E (q Pool_part) pid m2)) (\<lambda>m. Inr (?s\<lparr>mc_mem := m\<rparr>, w2)))"
      by (cases "process_pool_submit E pool pid") (auto simp: served_def)
  qed
  with g1 halted_same [OF o] show "follows (served m0 A0 p r q (md_impl v) tok tok')
    (if process_pool_halted pool then Inr (?v, w1)
     else rbind (command_execute_async E (md_cmd ?v) w1) (\<lambda>(pid, cmd, w). rbind (lift w (process_pool_submit E pool pid)) (\<lambda>pool.
       Inr (?v\<lparr>md_cmd := cmd, md_pool := pool\<rparr>, w))))
    (rbind (lift w1 (process_pool_halted_mem (q Pool_part) (mc_mem ?s))) (\<lambda>halted.
      if halted then Inr (?s, w1)
      else rbind (command_execute_async_mem E (q Command_part) (mc_mem ?s) w1) (\<lambda>(pid, m, w).
        rbind (lift w (process_pool_submit_mem E (q Pool_part) pid m)) (\<lambda>m. Inr (?s\<lparr>mc_mem := m\<rparr>, w)))))"
    by (simp add: served_def)
qed

section \<open>The loops\<close>

text \<open>What the body of a loop returns.\<close>

definition stepped :: "memory \<Rightarrow> ptr set \<Rightarrow> ptr \<Rightarrow> ptr \<Rightarrow> (mode_part \<Rightarrow> ptr) \<Rightarrow> mode_impl
    \<Rightarrow> bool \<times> xargs_mode \<times> world \<Rightarrow> bool \<times> machine \<times> world \<Rightarrow> bool" where
  "stepped m0 A0 p r q i = (\<lambda>(b, v, w) (b', s, w'). b' = b \<and> served m0 A0 p r q i None None (v, w) (s, w'))"

lemma execute_and_look:
  assumes g: "serving m0 A0 p r q v tok s tok'"
  shows "follows (\<lambda>(b, v', w') (b', s', w''). b' = b \<and> served m0 A0 p r q (md_impl v) tok tok' (v', w') (s', w''))
    (rbind (xargs_mode_execute_command E v w) (\<lambda>(v, w). Inr (xargs_mode_halted v, v, w)))
    (rbind (xargs_mode_execute_command_mem E p s w) (\<lambda>(s, w). rbind (lift w (xargs_mode_halted_mem p s)) (\<lambda>b. Inr (b, s, w))))"
  by (rule follows_bind [OF execute_serving [OF g]]) (auto simp: served_def mode_reads)

lemma appender_add_serving:
  assumes g: "serving m0 A0 p r q v (Some token) s (Some t)"
  shows "follows (stepped m0 A0 p r q (md_impl v))
    (rbind (lift w (xargs_mode_add_input_argument E v token)) (\<lambda>v.
     rbind (xargs_mode_should_execute_command_after_arg_added E v w) (\<lambda>now.
     if now then rbind (xargs_mode_execute_command E v w) (\<lambda>(v, w). Inr (xargs_mode_halted v, v, w))
     else Inr (False, v, w))))
    (rbind (lift w (xargs_mode_add_input_argument_mem E p t s)) (\<lambda>s.
     rbind (xargs_mode_should_execute_command_after_arg_added_mem E p s w) (\<lambda>now.
     if now then rbind (xargs_mode_execute_command_mem E p s w) (\<lambda>(s, w). rbind (lift w (xargs_mode_halted_mem p s)) (\<lambda>b. Inr (b, s, w)))
     else Inr (False, s, w))))"
proof (rule follows_bind [OF follows_lift [OF add_input_serving [OF g]]], elim conjE,
    rule follows_bind [OF should_execute_serving], assumption, hypsubst)
  fix v1 s1 now
  assume "serving m0 A0 p r q v1 (Some token) s1 (Some t)" and i: "md_impl v1 = md_impl v"
  then have g1: "serving m0 A0 p r q v1 None s1 None" by (rule_tac serving_forget)
  show "follows (stepped m0 A0 p r q (md_impl v))
    (if now then rbind (xargs_mode_execute_command E v1 w) (\<lambda>(v, w). Inr (xargs_mode_halted v, v, w))
     else Inr (False, v1, w))
    (if now then rbind (xargs_mode_execute_command_mem E p s1 w) (\<lambda>(s, w). rbind (lift w (xargs_mode_halted_mem p s)) (\<lambda>b. Inr (b, s, w)))
     else Inr (False, s1, w))"
    using execute_and_look [OF g1, of E w] g1 i by (simp add: stepped_def served_def)
qed

lemma appender_step_serving:
  assumes g: "serving m0 A0 p r q v (Some token) s (Some t)"
  shows "follows (stepped m0 A0 p r q (md_impl v)) (appender_step E v token w) (appender_step_mem E p t s w)"
proof (cases "xargs_mode_arg_would_exceed_limits v token")
  case (Inl e)
  then show ?thesis by (simp add: appender_step_def appender_step_mem_def token_reads [OF g])
next
  case (Inr exceeds)
  have first: "follows (served m0 A0 p r q (md_impl v) (Some token) (Some t))
    (if exceeds then xargs_mode_execute_command E v w else Inr (v, w))
    (if exceeds then xargs_mode_execute_command_mem E p s w else Inr (s, w))"
    using execute_serving [OF g, of E w] g by (simp add: served_def)
  show ?thesis
    unfolding appender_step_def appender_step_mem_def token_reads [OF g] Inr lift_simps rbind_simps
  proof (rule follows_bind [OF first], unfold split_paired_all prod.case)
    fix v1 w1 s1 w1'
    assume "served m0 A0 p r q (md_impl v) (Some token) (Some t) (v1, w1) (s1, w1')"
    then have g1: "serving m0 A0 p r q v1 (Some token) s1 (Some t)" and i: "md_impl v1 = md_impl v" and w: "w1' = w1"
      by (auto simp: served_def)
    from appender_add_serving [OF g1, of w1 E] serving_forget [OF g1] i
    show "follows (stepped m0 A0 p r q (md_impl v))
      (if exceeds \<and> xargs_mode_halted v1 then Inr (True, v1, w1)
       else rbind (lift w1 (xargs_mode_add_input_argument E v1 token)) (\<lambda>v.
        rbind (xargs_mode_should_execute_command_after_arg_added E v w1) (\<lambda>now.
        if now then rbind (xargs_mode_execute_command E v w1) (\<lambda>(v, w). Inr (xargs_mode_halted v, v, w))
        else Inr (False, v, w1))))
      (rbind (if exceeds then lift w1' (xargs_mode_halted_mem p s1) else Inr False) (\<lambda>halted.
       if halted then Inr (True, s1, w1')
       else rbind (lift w1' (xargs_mode_add_input_argument_mem E p t s1)) (\<lambda>s.
        rbind (xargs_mode_should_execute_command_after_arg_added_mem E p s w1') (\<lambda>now.
        if now then rbind (xargs_mode_execute_command_mem E p s w1') (\<lambda>(s, w). rbind (lift w (xargs_mode_halted_mem p s)) (\<lambda>b. Inr (b, s, w)))
        else Inr (False, s, w1')))))"
      unfolding w by (cases exceeds) (simp_all add: stepped_def served_def mode_reads(2) [OF g1])
  qed
qed

lemma replacer_step_serving:
  assumes g: "serving m0 A0 p r q v (Some token) s (Some t)"
  shows "follows (stepped m0 A0 p r q (md_impl v)) (replacer_step E v token w) (replacer_step_mem E p t s w)"
  unfolding replacer_step_def replacer_step_mem_def token_reads [OF g]
proof (rule follows_same, rule follows_bind [OF follows_lift [OF replace_serving [OF g]]], elim conjE)
  fix v1 s1
  assume "serving m0 A0 p r q v1 (Some token) s1 (Some t)" and i: "md_impl v1 = md_impl v"
  then have "serving m0 A0 p r q v1 None s1 None" by (rule_tac serving_forget)
  from execute_and_look [OF this, of E w] i
  show "follows (stepped m0 A0 p r q (md_impl v))
    (rbind (xargs_mode_execute_command E v1 w) (\<lambda>(v, w). Inr (xargs_mode_halted v, v, w)))
    (rbind (xargs_mode_execute_command_mem E p s1 w) (\<lambda>(s, w). rbind (lift w (xargs_mode_halted_mem p s)) (\<lambda>b. Inr (b, s, w))))"
    by (simp add: stepped_def)
qed

text \<open>
  A round of either loop: \<open>None\<close> at the end of the input, otherwise what the body says about
  stopping.
\<close>

definition loop_round :: "(xargs_mode \<Rightarrow> cstr \<Rightarrow> world \<Rightarrow> (stop \<times> world) + bool \<times> xargs_mode \<times> world) \<Rightarrow> platform
    \<Rightarrow> xargs_mode \<Rightarrow> world \<Rightarrow> (stop \<times> world) + bool option \<times> xargs_mode \<times> world" where
  "loop_round body E v w = rbind (lift w (xargs_mode_next_token E v)) (\<lambda>(out, v). case out of
     None \<Rightarrow> Inr (None, v, w)
   | Some token \<Rightarrow> rbind (body v token w) (\<lambda>(b, v, w). Inr (Some b, v, w)))"

definition loop_round_mem :: "(text_ptr \<Rightarrow> machine \<Rightarrow> world \<Rightarrow> (stop \<times> world) + bool \<times> machine \<times> world) \<Rightarrow> platform
    \<Rightarrow> ptr \<Rightarrow> machine \<Rightarrow> world \<Rightarrow> (stop \<times> world) + bool option \<times> machine \<times> world" where
  "loop_round_mem body E p s w = rbind (lift w (xargs_mode_next_token_mem E p s)) (\<lambda>(out, s). case out of
     None \<Rightarrow> Inr (None, s, w)
   | Some token \<Rightarrow> rbind (body token s w) (\<lambda>(b, s, w). Inr (Some b, s, w)))"

definition rounded :: "memory \<Rightarrow> ptr set \<Rightarrow> ptr \<Rightarrow> ptr \<Rightarrow> (mode_part \<Rightarrow> ptr) \<Rightarrow> mode_impl
    \<Rightarrow> 'b \<times> xargs_mode \<times> world \<Rightarrow> 'b \<times> machine \<times> world \<Rightarrow> bool" where
  "rounded m0 A0 p r q i = (\<lambda>(b, v, w) (b', s, w'). b' = b \<and> served m0 A0 p r q i None None (v, w) (s, w'))"

lemma round_serving:
  assumes g: "serving m0 A0 p r q v None s None"
    and body: "\<And>v s token t. serving m0 A0 p r q v (Some token) s (Some t)
      \<Longrightarrow> follows (stepped m0 A0 p r q (md_impl v)) (body v token w) (body' t s w)"
  shows "follows (rounded m0 A0 p r q (md_impl v)) (loop_round body E v w) (loop_round_mem body' E p s w)"
  unfolding loop_round_def loop_round_mem_def
proof (rule follows_bind [OF follows_lift [OF next_token_serving [OF g]]], unfold split_paired_all prod.case, elim conjE)
  fix out v1 out' s1
  assume g1: "serving m0 A0 p r q v1 out s1 out'" and i: "md_impl v1 = md_impl v"
  show "follows (rounded m0 A0 p r q (md_impl v))
    (case out of None \<Rightarrow> Inr (None, v1, w) | Some token \<Rightarrow> rbind (body v1 token w) (\<lambda>(b, v, w). Inr (Some b, v, w)))
    (case out' of None \<Rightarrow> Inr (None, s1, w) | Some token \<Rightarrow> rbind (body' token s1 w) (\<lambda>(b, s, w). Inr (Some b, s, w)))"
  proof (cases out)
    case None
    with g1 have "out' = None" by (auto simp: serving_def)
    with None g1 i show ?thesis by (simp add: rounded_def served_def)
  next
    case (Some token)
    with g1 obtain t where t: "out' = Some t" by (cases out') (auto simp: serving_def token_at_def)
    show ?thesis
      unfolding Some t option.case
      by (rule follows_bind [OF body [OF g1 [unfolded Some t]]]) (auto simp: stepped_def rounded_def i)
  qed
qed

lemma appender_loop_rounds:
  "(case xargs_mode_next_token E v of Inl s \<Rightarrow> Some (Inl (s, w))
     | Inr (out, v) \<Rightarrow> (case out of None \<Rightarrow> Some (Inr (v, b, w))
       | Some token \<Rightarrow> (case appender_step E v token w of Inl e \<Rightarrow> Some (Inl e)
         | Inr (stopped, v, w) \<Rightarrow> if stopped then Some (Inr (v, True, w)) else loop E v True w)))
   = (case loop_round (appender_step E) E v w of Inl e \<Rightarrow> Some (Inl e)
     | Inr (None, v, w) \<Rightarrow> Some (Inr (v, b, w))
     | Inr (Some stopped, v, w) \<Rightarrow> if stopped then Some (Inr (v, True, w)) else loop E v True w)"
  by (auto simp: loop_round_def split: sum.split option.split)

lemma appender_loop_mem_rounds:
  "appender_loop_mem E p s b w = (case loop_round_mem (appender_step_mem E p) E p s w of Inl e \<Rightarrow> Some (Inl e)
     | Inr (None, s, w) \<Rightarrow> Some (Inr (s, b, w))
     | Inr (Some stopped, s, w) \<Rightarrow> if stopped then Some (Inr (s, True, w)) else appender_loop_mem E p s True w)"
  unfolding appender_loop_mem.simps [of E p s b w]
  by (auto simp: loop_round_mem_def split: sum.split option.split)

lemma replacer_loop_rounds:
  "(case xargs_mode_next_token E v of Inl s \<Rightarrow> Some (Inl (s, w))
     | Inr (out, v) \<Rightarrow> (case out of None \<Rightarrow> Some (Inr (v, w))
       | Some token \<Rightarrow> (case replacer_step E v token w of Inl e \<Rightarrow> Some (Inl e)
         | Inr (stopped, v, w) \<Rightarrow> if stopped then Some (Inr (v, w)) else loop E v w)))
   = (case loop_round (replacer_step E) E v w of Inl e \<Rightarrow> Some (Inl e)
     | Inr (None, v, w) \<Rightarrow> Some (Inr (v, w))
     | Inr (Some stopped, v, w) \<Rightarrow> if stopped then Some (Inr (v, w)) else loop E v w)"
  by (auto simp: loop_round_def split: sum.split option.split)

lemma replacer_loop_mem_rounds:
  "replacer_loop_mem E p s w = (case loop_round_mem (replacer_step_mem E p) E p s w of Inl e \<Rightarrow> Some (Inl e)
     | Inr (None, s, w) \<Rightarrow> Some (Inr (s, w))
     | Inr (Some stopped, s, w) \<Rightarrow> if stopped then Some (Inr (s, w)) else replacer_loop_mem E p s w)"
  unfolding replacer_loop_mem.simps [of E p s w]
  by (auto simp: loop_round_mem_def split: sum.split option.split)

definition looped :: "memory \<Rightarrow> ptr set \<Rightarrow> ptr \<Rightarrow> ptr \<Rightarrow> (mode_part \<Rightarrow> ptr) \<Rightarrow> mode_impl
    \<Rightarrow> xargs_mode \<times> bool \<times> world \<Rightarrow> machine \<times> bool \<times> world \<Rightarrow> bool" where
  "looped m0 A0 p r q i = (\<lambda>(v, b, w) (s, b', w'). b' = b \<and> served m0 A0 p r q i None None (v, w) (s, w'))"

lemma appender_loop_serving:
  assumes "appender_loop E v b w = Some y" and "serving m0 A0 p r q v None s None"
  shows "\<exists>y'. appender_loop_mem E p s b w = Some y' \<and> follows (looped m0 A0 p r q (md_impl v)) y y'"
  using assms
proof (induction arbitrary: s rule: appender_loop.raw_induct [rotated, consumes 1, case_names 1])
  case (1 loop E v b w y)
  note turn = round_serving [where body = "appender_step E" and body' = "appender_step_mem E p", OF 1(3) appender_step_serving, of E w]
  note y = 1(2) [unfolded appender_loop_rounds]
  show ?case
  proof (cases "loop_round (appender_step E) E v w")
    case (Inl e)
    with turn y show ?thesis by (auto simp: appender_loop_mem_rounds [of E p s b w])
  next
    case (Inr x)
    obtain out v1 w1 where x: "x = (out, v1, w1)" by (metis prod.exhaust)
    with turn Inr obtain s1 where s1: "loop_round_mem (appender_step_mem E p) E p s w = Inr (out, s1, w1)"
      "serving m0 A0 p r q v1 None s1 None" "md_impl v1 = md_impl v" by (auto simp: rounded_def served_def)
    show ?thesis
    proof (cases "out = Some False")
      case True
      with y Inr x have "loop E v1 True w1 = Some y" by simp
      from 1(1) [OF this s1(2)] True s1(1,3) show ?thesis by (simp add: appender_loop_mem_rounds [of E p s b w])
    next
      case False
      with y Inr x s1 show ?thesis
        by (auto simp: appender_loop_mem_rounds [of E p s b w] looped_def served_def split: option.splits)
    qed
  qed
qed

lemma replacer_loop_serving:
  assumes "replacer_loop E v w = Some y" and "serving m0 A0 p r q v None s None"
  shows "\<exists>y'. replacer_loop_mem E p s w = Some y' \<and> follows (served m0 A0 p r q (md_impl v) None None) y y'"
  using assms
proof (induction arbitrary: s rule: replacer_loop.raw_induct [rotated, consumes 1, case_names 1])
  case (1 loop E v w y)
  note turn = round_serving [where body = "replacer_step E" and body' = "replacer_step_mem E p", OF 1(3) replacer_step_serving, of E w]
  note y = 1(2) [unfolded replacer_loop_rounds]
  show ?case
  proof (cases "loop_round (replacer_step E) E v w")
    case (Inl e)
    with turn y show ?thesis by (auto simp: replacer_loop_mem_rounds [of E p s w])
  next
    case (Inr x)
    obtain out v1 w1 where x: "x = (out, v1, w1)" by (metis prod.exhaust)
    with turn Inr obtain s1 where s1: "loop_round_mem (replacer_step_mem E p) E p s w = Inr (out, s1, w1)"
      "serving m0 A0 p r q v1 None s1 None" "md_impl v1 = md_impl v" by (auto simp: rounded_def served_def)
    show ?thesis
    proof (cases "out = Some False")
      case True
      with y Inr x have "loop E v1 w1 = Some y" by simp
      from 1(1) [OF this s1(2)] True s1(1,3) show ?thesis by (simp add: replacer_loop_mem_rounds [of E p s w])
    next
      case False
      with y Inr x s1 show ?thesis
        by (auto simp: replacer_loop_mem_rounds [of E p s w] served_def split: option.splits)
    qed
  qed
qed

section \<open>The run\<close>

definition ran :: "memory \<Rightarrow> ptr set \<Rightarrow> ptr \<Rightarrow> ptr \<Rightarrow> (mode_part \<Rightarrow> ptr) \<Rightarrow> int \<times> xargs_mode \<times> world
    \<Rightarrow> int \<times> machine \<times> world \<Rightarrow> bool" where
  "ran m0 A0 p r q = (\<lambda>(n, v, w) (n', s, w'). n' = n \<and> w' = w \<and> serving m0 A0 p r q v None s None)"

lemma drain_at_end:
  assumes "serving m0 A0 p r q v None s None"
  shows "follows (ran m0 A0 p r q)
    (rbind (xargs_mode_drain E v w) (\<lambda>(status, v, w). Inr (or EXIT_SUCCESS status, v, w)))
    (rbind (xargs_mode_drain_mem E p s w) (\<lambda>(status, s, w). Inr (or EXIT_SUCCESS status, s, w)))"
  by (rule follows_bind [OF drain_serving [OF assms]]) (auto simp: served_def ran_def)

lemma appender_finish_serving:
  assumes g: "serving m0 A0 p r q v None s None" and i: "md_impl v = Appender suppress"
  shows "follows (ran m0 A0 p r q) (appender_finish E suppress v b w) (appender_finish_mem E r p s b w)"
proof (cases "xargs_mode_tokenizer_errored v")
  case True
  with drain_and_exit_serving [OF g] show ?thesis
    by (simp add: appender_finish_def appender_finish_mem_def mode_reads(1) [OF g])
next
  case False
  have impl: "load_as to_appender r (mc_mem s) = Inr \<lparr>am_base = p, am_suppress_execution_on_empty_input = suppress\<rparr>"
    by (simp add: load_as_Some [OF serving_impl [OF g]] i mode_object_def to_appender_def)
  have rest: "follows (served m0 A0 p r q (md_impl v) None None)
    (if \<not> b then (if \<not> suppress then xargs_mode_execute_command E v w else Inr (v, w))
     else (if xargs_mode_input_args_remain v then xargs_mode_execute_command E v w else Inr (v, w)))
    (if \<not> b then rbind (lift w (load_as to_appender r (mc_mem s))) (\<lambda>mode.
       if \<not> am_suppress_execution_on_empty_input mode then xargs_mode_execute_command_mem E p s w else Inr (s, w))
     else rbind (lift w (xargs_mode_input_args_remain_mem p s)) (\<lambda>remain.
       if remain then xargs_mode_execute_command_mem E p s w else Inr (s, w)))"
    using execute_serving [OF g, of E w] g by (simp add: impl mode_reads(3) [OF g] served_def)
  have "follows (ran m0 A0 p r q)
    (rbind (if \<not> b then (if \<not> suppress then xargs_mode_execute_command E v w else Inr (v, w))
     else (if xargs_mode_input_args_remain v then xargs_mode_execute_command E v w else Inr (v, w))) (\<lambda>(v, w).
     rbind (xargs_mode_drain E v w) (\<lambda>(status, v, w). Inr (or EXIT_SUCCESS status, v, w))))
    (rbind (if \<not> b then rbind (lift w (load_as to_appender r (mc_mem s))) (\<lambda>mode.
       if \<not> am_suppress_execution_on_empty_input mode then xargs_mode_execute_command_mem E p s w else Inr (s, w))
     else rbind (lift w (xargs_mode_input_args_remain_mem p s)) (\<lambda>remain.
       if remain then xargs_mode_execute_command_mem E p s w else Inr (s, w))) (\<lambda>(s, w).
     rbind (xargs_mode_drain_mem E p s w) (\<lambda>(status, s, w). Inr (or EXIT_SUCCESS status, s, w))))"
    by (rule follows_bind [OF rest], unfold split_paired_all prod.case) (simp only: served_def prod.case, simp only: drain_at_end)
  with False show ?thesis
    unfolding appender_finish_def appender_finish_mem_def mode_reads(1) [OF g] by simp
qed

lemma impl_serving: "serving m0 A0 p r q v tok s tok' \<Longrightarrow> xargs_mode_impl p (mc_mem s) = Inr r"
  by (simp add: xargs_mode_impl_def serving_mode)

lemma appender_run_serving:
  assumes "appender_mode_run E suppress v w = Some y" and g: "serving m0 A0 p r q v None s None"
    and i: "md_impl v = Appender suppress"
  shows "\<exists>y'. appender_mode_run_mem E p s w = Some y' \<and> follows (ran m0 A0 p r q) y y'"
proof -
  from assms(1) obtain x where x: "appender_loop E v False w = Some x"
    "y = rbind x (\<lambda>(v, b, w). appender_finish E suppress v b w)" by (auto simp: appender_mode_run_def)
  from appender_loop_serving [OF x(1) g] obtain x' where x': "appender_loop_mem E p s False w = Some x'"
    "follows (looped m0 A0 p r q (md_impl v)) x x'" by blast
  have "follows (ran m0 A0 p r q) y (rbind x' (\<lambda>(s, b, w). appender_finish_mem E r p s b w))"
    unfolding x(2) by (rule follows_bind [OF x'(2)]) (auto simp: looped_def served_def i intro: appender_finish_serving)
  with x'(1) impl_serving [OF g] show ?thesis by (simp add: appender_mode_run_mem_def)
qed

lemma replacer_run_serving:
  assumes "replacer_mode_run E v w = Some y" and g: "serving m0 A0 p r q v None s None"
  shows "\<exists>y'. replacer_mode_run_mem E p s w = Some y' \<and> follows (ran m0 A0 p r q) y y'"
proof -
  from assms(1) obtain x where x: "replacer_loop E v w = Some x"
    "y = rbind x (\<lambda>(v, w). if xargs_mode_tokenizer_errored v then drain_and_exit E v Input_error w
       else rbind (xargs_mode_drain E v w) (\<lambda>(status, v, w). Inr (or EXIT_SUCCESS status, v, w)))"
    by (auto simp: replacer_mode_run_def)
  from replacer_loop_serving [OF x(1) g] obtain x' where x': "replacer_loop_mem E p s w = Some x'"
    "follows (served m0 A0 p r q (md_impl v) None None) x x'" by blast
  have "follows (ran m0 A0 p r q) y (rbind x' (\<lambda>(s, w).
      rbind (lift w (xargs_mode_tokenizer_errored_mem p s)) (\<lambda>errored.
      if errored then drain_and_exit_mem E p Input_error s w
      else rbind (xargs_mode_drain_mem E p s w) (\<lambda>(status, s, w). Inr (or EXIT_SUCCESS status, s, w)))))"
    unfolding x(2)
  proof (rule follows_bind [OF x'(2)], unfold split_paired_all prod.case)
    fix v1 w1 s1 w1'
    assume "served m0 A0 p r q (md_impl v) None None (v1, w1) (s1, w1')"
    then have g1: "serving m0 A0 p r q v1 None s1 None" and w: "w1' = w1" by (simp_all add: served_def)
    from drain_at_end [OF g1, of E w1] w
    show "follows (ran m0 A0 p r q)
      (if xargs_mode_tokenizer_errored v1 then drain_and_exit E v1 Input_error w1
       else rbind (xargs_mode_drain E v1 w1) (\<lambda>(status, v, w). Inr (or EXIT_SUCCESS status, v, w)))
      (rbind (lift w1' (xargs_mode_tokenizer_errored_mem p s1)) (\<lambda>errored.
       if errored then drain_and_exit_mem E p Input_error s1 w1'
       else rbind (xargs_mode_drain_mem E p s1 w1') (\<lambda>(status, s, w). Inr (or EXIT_SUCCESS status, s, w))))"
      by (simp add: mode_reads(1) [OF g1] drain_and_exit_serving [OF g1])
  qed
  with x'(1) show ?thesis by (simp add: replacer_mode_run_mem_def)
qed

lemma mode_run_serving:
  assumes "xargs_mode_run E v w = Some y" and g: "serving m0 A0 p r q v None s None"
  shows "\<exists>y'. xargs_mode_run_mem E p s w = Some y' \<and> follows (ran m0 A0 p r q) y y'"
proof (cases "md_impl v")
  case (Appender suppress)
  with assms(1) appender_run_serving [OF _ g Appender, of E w y] show ?thesis
    by (simp add: xargs_mode_run_def xargs_mode_run_mem_def serving_mode [OF g] impl_ops_def)
next
  case Replacer
  with assms(1) replacer_run_serving [OF _ g, of E w y] show ?thesis
    by (simp add: xargs_mode_run_def xargs_mode_run_mem_def serving_mode [OF g] impl_ops_def)
qed

section \<open>The program\<close>

lemma created_counts: "xargs_value E F argv = Inr v \<Longrightarrow> pool_counts (md_pool v) = no_signals"
  by (auto simp: xargs_value_def appender_mode_create_def replacer_mode_create_def xargs_mode_create_def
      process_pool_create_def Let_def rbind_Inr_iff pool_counts_def no_signals_def split: if_splits)

text \<open>The end of \<open>main\<close>: \<open>xargs\<close> is destroyed, and nothing is left.\<close>

lemma destroy_serving:
  assumes m: "moves m {} m1 (footprint p {r} L \<union> {x})" and d: "footprint p {r} L \<inter> {x} = {}"
    and x: "x \<noteq> stdin_ptr" "m_heap m1 x = Some (Xargs \<lparr>xs_mode = p\<rparr>)"
    and g: "serving m1 (footprint p {r} L) p r q v None s None"
  shows "\<exists>m'. xargs_destroy x (mc_mem s) = Inr m' \<and> m_heap m' = m_heap m"
proof -
  from g obtain L' where L': "moves m1 (footprint p {r} L) (mc_mem s) (footprint p {r} L')"
    "mode_parts (mc_src s) (mc_mem s) p r v q L'" by (auto simp: serving_def)
  note c = chain_part [OF m d L'(1)]
  have "owns_mode (mc_src s) (mc_mem s) p v (footprint p {r} L')" using L'(2) by (auto simp: owns_mode_def)
  then have o: "owns_xargs (mc_src s) (mc_mem s) x v (insert x (footprint p {r} L'))"
    using c(2) x agree_heap [OF c(3), of x] by (auto simp: owns_xargs_def)
  from xargs.releases [OF moves_ok(1) [OF c(1)] o] obtain m' where m': "xargs_destroy x (mc_mem s) = Inr m'"
    "moves (mc_mem s) (insert x (footprint p {r} L')) m' {}" by blast
  have "moves m {} (mc_mem s) (insert x (footprint p {r} L'))" using c(1) by simp
  from moves_restored [OF moves_trans [OF this m'(2)]] m'(1) show ?thesis by blast
qed

lemma main_serving:
  assumes ok: "mem_ok m" and argv: "\<forall>a \<in> set argv. arg_ok a" "argv \<noteq> []" and y: "main E F argv w = Some y"
  shows "\<exists>y'. main_mem E F argv m w = Some y' \<and> follows (\<lambda>(n, w') (n', w'', m'). n' = n \<and> w'' = w' \<and> m_heap m' = m_heap m) y y'"
proof -
  let ?w = "process_pool_install_signal_handlers w"
  note b = xargs_create_builds [OF ok argv, of F E]
  show ?thesis
  proof (cases "xargs_value E F argv")
    case (Inl e)
    with b y show ?thesis by (auto simp: main_def main_mem_def xargs_create_value Let_def)
  next
    case (Inr v)
    with b obtain x m1 A where x: "xargs_create_mem E F argv m = Inr (x, m1)" "moves m {} m1 A" "owns_xargs F m1 x v A" by auto
    obtain p r q L where o: "A = insert x (footprint p {r} L)" "x \<notin> footprint p {r} L" "x \<noteq> stdin_ptr"
      "m_heap m1 x = Some (Xargs \<lparr>xs_mode = p\<rparr>)" "mode_parts F m1 p r v q L" using x(3) by (auto simp: owns_xargs_def owns_mode_def)
    let ?s = "\<lparr>mc_mem = m1, mc_src = F, mc_counts = no_signals\<rparr>"
    have m1: "moves m {} m1 (footprint p {r} L \<union> {x})" "footprint p {r} L \<inter> {x} = {}" using x(2) o(1,2) by simp_all
    have "footprint p {r} L \<subseteq> dom (m_heap m1)" using moves_ok(2) [OF m1(1)] by simp
    from moves_refl [OF moves_ok(1) [OF m1(1)] this] have g: "serving m1 (footprint p {r} L) p r q v None ?s None"
      using o(5) created_counts [OF Inr] by (auto simp: serving_def)
    from y Inr obtain z where z: "xargs_mode_run E v ?w = Some z" "y = rbind z (\<lambda>(n, v, w). Inr (n, w))"
      by (auto simp: main_def xargs_create_value Let_def xargs_run_def)
    from mode_run_serving [OF z(1) g] obtain z' where z': "xargs_mode_run_mem E p ?s ?w = Some z'"
      "follows (ran m1 (footprint p {r} L) p r q) z z'" by blast
    have "follows (\<lambda>(n, w') (n', w'', m'). n' = n \<and> w'' = w' \<and> m_heap m' = m_heap m) y
      (rbind z' (\<lambda>(n, s, w). rbind (lift w (xargs_destroy x (mc_mem s))) (\<lambda>m. Inr (n, w, m))))"
      unfolding z(2)
    proof (rule follows_bind [OF z'(2)], unfold split_paired_all prod.case)
      fix n v' w' n' s' w''
      assume "ran m1 (footprint p {r} L) p r q (n, v', w') (n', s', w'')"
      then have "n' = n" "w'' = w'" "serving m1 (footprint p {r} L) p r q v' None s' None" by (simp_all add: ran_def)
      with destroy_serving [OF m1 o(3,4)] show "follows (\<lambda>(n, w') (n', w'', m'). n' = n \<and> w'' = w' \<and> m_heap m' = m_heap m)
        (Inr (n, w')) (rbind (lift w'' (xargs_destroy x (mc_mem s'))) (\<lambda>m. Inr (n', w'', m)))" by fastforce
    qed
    with x(1) o(4) z'(1) show ?thesis
      by (simp add: main_mem_def Let_def xargs_run_mem_def load_as_Some)
  qed
qed

end
