(* ===== verification/Memory_Properties.thy ===== *)
theory Memory_Properties
  imports Memory_Steps Memory_Running Program_Properties
begin

text \<open>
  The properties of the memory of the program, each with a run in which its hypotheses hold.
\<close>

section \<open>A sequence of operations\<close>

lemma ops_follow:
  assumes "moves m0 {} m A" and "owns_xargs F m x v A" and "\<forall>op \<in> set ops. \<not> is_Assign op"
  shows "follows (\<lambda>v' m'. run_from E x m m' \<and> (\<exists>A'. moves m0 {} m' A' \<and> owns_xargs F m' x v' A'))
    (put_all (\<lambda>v op. value_op E op v) v ops) (put_all (\<lambda>m op. exec_op E x op m) m ops)"
  using assms
proof (induction ops arbitrary: v m A)
  case Nil
  then show ?case by (auto intro: run_from.started)
next
  case (Cons op ops)
  have "follows (\<lambda>v' m'. \<exists>A'. moves m A m' A' \<and> owns_xargs F m' x v' A') (value_op E op v) (exec_op E x op m)"
    using op_updates [OF moves_ok(1) [OF Cons.prems(1)] Cons.prems(2)] Cons.prems(3)
    by (simp add: updates_follows)
  then show ?case
    unfolding put_all.simps
  proof (rule follows_bind)
    fix v1 m1
    assume m1: "exec_op E x op m = Inr m1" and "\<exists>A'. moves m A m1 A' \<and> owns_xargs F m1 x v1 A'"
    then obtain A1 where A1: "moves m0 {} m1 A1" "owns_xargs F m1 x v1 A1"
      using moves_trans [OF Cons.prems(1)] by blast
    have first: "run_from E x m m1" using run_from.stepped [OF run_from.started m1] .
    have "run_from E x m m'" if "run_from E x m1 m'" for m'
      using that first by induction (auto intro: run_from.stepped)
    with Cons.IH [OF A1] Cons.prems(3)
    show "follows (\<lambda>v' m'. run_from E x m m' \<and> (\<exists>A'. moves m0 {} m' A' \<and> owns_xargs F m' x v' A'))
        (put_all (\<lambda>v op. value_op E op v) v1 ops) (put_all (\<lambda>m op. exec_op E x op m) m1 ops)"
      by (auto elim!: follows_mono)
  qed
qed

section \<open>A concrete run\<close>

text \<open>
  \<open>phxargs -n2 ls\<close> in a process that has allocated nothing but the standard input; one batch is
  executed.
\<close>

definition fresh_memory :: memory where
  "fresh_memory = \<lparr>m_heap = (\<lambda>p. if p = stdin_ptr then Some (Stream None) else None), m_next = 2\<rparr>"

definition batch_ops :: "mem_op list" where
  "batch_ops = [Add_argument (bytes ''a''), Recycle, Submit 7]"

lemma fresh_memory_ok: "mem_ok fresh_memory"
  by (simp add: mem_ok_def fresh_memory_def stdin_ptr_def)

lemma pairs_argv_ok: "\<forall>a \<in> set pairs_argv. arg_ok a" "pairs_argv \<noteq> []"
  using pairs_bounds by (simp_all add: run_bounds_def)

lemma batch_ops_values: "\<forall>op \<in> set batch_ops. \<not> is_Assign op"
  by (simp add: batch_ops_def)

lemma batch_value:
  "\<exists>v. rbind (xargs_value plain_host (only_stdin pairs_input) pairs_argv)
     (\<lambda>v. put_all (\<lambda>v op. value_op plain_host op v) v batch_ops) = Inr v"
proof -
  let ?F = "only_stdin pairs_input" and ?w = "handling calm_world"
  have c: "copes plain_host {} n" if "n < 2 ^ 59" for n using copes_ample that by simp
  note b = run_boundsD [OF pairs_bounds pairs_create]
  have "yields {} (xargs_create plain_host ?F pairs_argv calm_world) (\<lambda>(x, w'). mode_ok x w'
      \<and> pool_pids (md_pool x) = [] \<and> cm_input (md_cmd x) = [])"
    using xargs_create_yields [OF pairs_create b(1,2) c, of ?F] pairs_setup [of pairs_input]
    by (auto simp: new_mode_def new_command_def fresh_command_def elim!: yields_conseq)
  then obtain v w' where v: "xargs_create plain_host ?F pairs_argv calm_world = Inr (v, w')"
    "mode_ok v w'" "pool_pids (md_pool v) = []" "cm_input (md_cmd v) = []" by (auto simp: yields_empty)
  then have "xargs_value plain_host ?F pairs_argv = Inr v"
    by (auto simp: xargs_create_value Let_def rbind_Inr_iff)
  moreover obtain v1 where v1: "xargs_mode_add_input_argument plain_host v (bytes ''a'') = Inr v1"
    "mode_core v1 w'" "md_pool v1 = md_pool v"
    using add_argument_yields [of v w' "bytes ''a''" plain_host "{}"] v(2,4) c
    by (auto simp: yields_empty mode_ok_def arg_ok_def bytes_def)
  moreover obtain c2 where "recycle_command plain_host (md_cmd v1) = Inr c2"
    using recycle_command_yields [of "md_cmd v1" plain_host "{}"] v1(2) c
    by (auto simp: yields_empty mode_core_def)
  moreover obtain p where "process_pool_submit plain_host (md_pool v) 7 = Inr p"
    using process_pool_submit_yields [of "md_pool v" plain_host "{}" 7] v(2,3) c
    by (auto simp: yields_empty mode_ok_def mode_core_def pool_ok_def)
  ultimately show ?thesis by (simp add: batch_ops_def)
qed

text \<open>Creation, then the operations.\<close>

lemma created_ops_follow:
  assumes "mem_ok m" and "\<forall>a \<in> set argv. arg_ok a" and "argv \<noteq> []" and "\<forall>op \<in> set ops. \<not> is_Assign op"
  shows "follows (\<lambda>v m2. \<exists>x m1 A. xargs_create_mem E F argv m = Inr (x, m1)
      \<and> put_all (\<lambda>m op. exec_op E x op m) m1 ops = Inr m2 \<and> run_from E x m1 m2
      \<and> moves m {} m2 A \<and> owns_xargs F m2 x v A)
    (rbind (xargs_value E F argv) (\<lambda>v. put_all (\<lambda>v op. value_op E op v) v ops))
    (rbind (xargs_create_mem E F argv m) (\<lambda>(x, m). put_all (\<lambda>m op. exec_op E x op m) m ops))"
proof (cases "xargs_value E F argv")
  case (Inl s)
  with xargs_create_builds [OF assms(1-3), of F E] show ?thesis by simp
next
  case (Inr v)
  with xargs_create_builds [OF assms(1-3), of F E] obtain x m1 A where x: "xargs_create_mem E F argv m = Inr (x, m1)"
    "moves m {} m1 A" "owns_xargs F m1 x v A" by auto
  from ops_follow [OF x(2,3) assms(4), of E] Inr x(1) show ?thesis
    by (cases "put_all (\<lambda>v op. value_op E op v) v ops") auto
qed

lemma batch_run:
  obtains x m1 m2 where
    "xargs_create_mem plain_host (only_stdin pairs_input) pairs_argv fresh_memory = Inr (x, m1)"
    "put_all (\<lambda>m op. exec_op plain_host x op m) m1 batch_ops = Inr m2" "run_from plain_host x m1 m2"
  using created_ops_follow [OF fresh_memory_ok pairs_argv_ok batch_ops_values, of plain_host "only_stdin pairs_input"]
    batch_value by auto

section \<open>The whole program on pointers\<close>

text \<open>
  C3. The program on pointers behaves as the program on values: with the same host, input,
  arguments and world it stops in the same way and does the same, or returns the same status
  after the same events, and then leaves the memory exactly as it was before \<open>main\<close>.
\<close>

theorem main_mem_refines_main:
  assumes "mem_ok m" and "\<forall>a \<in> set argv. arg_ok a" and "argv \<noteq> []" and "main E F argv w = Some r"
  shows "case r of Inl e \<Rightarrow> main_mem E F argv m w = Some (Inl e)
     | Inr (status, w') \<Rightarrow> \<exists>m'. main_mem E F argv m w = Some (Inr (status, w', m')) \<and> m_heap m' = m_heap m"
  using main_serving [OF assms] by (auto split: sum.split)

theorem main_mem_refines_main_witness:
  "\<exists>status w' m'. main_mem plain_host (only_stdin pairs_input) pairs_argv fresh_memory calm_world
       = Some (Inr (status, w', m')) \<and> m_heap m' = m_heap fresh_memory"
proof -
  obtain r where r: "main plain_host (only_stdin pairs_input) pairs_argv calm_world = Some r"
    "completed_run r" using ordinary_calm [OF pairs_ordinary pairs_specified] by blast
  with main_mem_refines_main [OF fresh_memory_ok pairs_argv_ok r(1)] show ?thesis
    by (cases r) (auto simp: completed_run_def)
qed

text \<open>
  C4. The whole program is memory safe and leaks nothing, on every host: whatever allocations and
  forks fail, whatever happens to its children and whenever signals arrive (at most
  \<open>2 ^ 31 - 1\<close> of each kind, as many as the counters hold), it ends, no signed arithmetic
  overflows, and it never reads or writes
  through a null, stale or mistyped pointer or outside an allocation, never reads what was not
  initialised and never frees twice, in the parent and in the children; it exits with a
  diagnostic, or returns after every child was reaped and every object it allocated was freed.
\<close>

theorem main_mem_safe:
  assumes "mem_ok m" and "\<forall>a \<in> set argv. arg_ok a" and "argv \<noteq> []"
    and "\<And>opts. options_create E argv = Inr opts \<Longrightarrow> run_bounds E F argv opts w"
  shows "\<exists>r. main_mem E F argv m w = Some r \<and> (case r of
     Inl (s, w') \<Rightarrow> s \<in> diagnosed
   | Inr (status, w', m') \<Rightarrow> all_reaped w' \<and> status \<in> {0, 123, 124, 125, 126, 127} \<and> m_heap m' = m_heap m)"
proof -
  from main_ends_well [OF assms(4)] obtain r where r: "main E F argv w = Some r"
    "case r of Inl (s, w') \<Rightarrow> s \<in> diagnosed | Inr (status, w') \<Rightarrow> all_reaped w' \<and> status \<in> {0, 123, 124, 125, 126, 127}"
    by blast
  from main_serving [OF assms(1-3) r(1)] r(2) show ?thesis by (cases r) auto
qed

theorem main_mem_safe_witness:
  "\<exists>r. main_mem plain_host (only_stdin pairs_input) pairs_argv fresh_memory calm_world = Some r \<and> (case r of
     Inl (s, w') \<Rightarrow> s \<in> diagnosed
   | Inr (status, w', m') \<Rightarrow> all_reaped w' \<and> status \<in> {0, 123, 124, 125, 126, 127} \<and> m_heap m' = m_heap fresh_memory)"
  by (rule main_mem_safe [OF fresh_memory_ok pairs_argv_ok]) (use pairs_bounds pairs_create in auto)

section \<open>Any sequence of operations\<close>

text \<open>
  The object graph in memory implements the values of the rest of the model: creating
  \<open>xargs\<close> and then any sequence of additions, replacements, recyclings, submissions and resizings
  stops exactly as on values, or leaves objects that hold the resulting value and own all
  that was allocated.
\<close>

theorem memory_follows_values:
  assumes "mem_ok m" and "\<forall>a \<in> set argv. arg_ok a" and "argv \<noteq> []" and "\<forall>op \<in> set ops. \<not> is_Assign op"
  shows "case rbind (xargs_value E F argv) (\<lambda>v. put_all (\<lambda>v op. value_op E op v) v ops) of
       Inl s \<Rightarrow> rbind (xargs_create_mem E F argv m) (\<lambda>(x, m). put_all (\<lambda>m op. exec_op E x op m) m ops) = Inl s
     | Inr v \<Rightarrow> \<exists>x m1 m2 A. xargs_create_mem E F argv m = Inr (x, m1)
         \<and> put_all (\<lambda>m op. exec_op E x op m) m1 ops = Inr m2 \<and> moves m {} m2 A \<and> owns_xargs F m2 x v A"
  using created_ops_follow [OF assms, of E F] by (fastforce split: sum.split)

theorem memory_follows_values_witness:
  "\<exists>x m1 m2 v A. xargs_create_mem plain_host (only_stdin pairs_input) pairs_argv fresh_memory = Inr (x, m1)
     \<and> put_all (\<lambda>m op. exec_op plain_host x op m) m1 batch_ops = Inr m2
     \<and> owns_xargs (only_stdin pairs_input) m2 x v A"
  using memory_follows_values [OF fresh_memory_ok pairs_argv_ok batch_ops_values, of plain_host "only_stdin pairs_input"]
    batch_value by force

text \<open>
  C14. Whatever the operations of a run, every object allocated since the start is well typed:
  each pointer leads to an allocated object of the type its structure names, the implementation
  behind a table of operations is the one the table casts it to, and no \<open>options\<close> object is left.
\<close>

theorem objects_stay_typed:
  assumes "mem_ok m" and "\<forall>a \<in> set argv. arg_ok a" and "argv \<noteq> []"
    and "xargs_create_mem E F argv m = Inr (x, m1)" and "run_from E x m1 m2"
    and "m_heap m p = None" and "m_heap m2 p = Some obj"
  shows "typed m2 obj"
proof -
  obtain v A where c: "moves m {} m1 A" "owns_xargs F m1 x v A" using created_owns [OF assms(1-4)] by blast
  obtain v' A' where r: "moves m {} m2 A'" "owns_xargs F m2 x v' A'" using run_keeps [OF assms(5) c] by blast
  have "p \<in> A'" using r(1) assms(6,7) by (auto simp: moves_def)
  with xargs_good [OF moves_ok(1) [OF r(1)] r(2)] assms(7) show ?thesis by (auto simp: good_def)
qed

theorem objects_stay_typed_witness:
  "\<exists>x m1 m2. xargs_create_mem plain_host (only_stdin pairs_input) pairs_argv fresh_memory = Inr (x, m1)
     \<and> put_all (\<lambda>m op. exec_op plain_host x op m) m1 batch_ops = Inr m2
     \<and> (\<forall>p. p \<noteq> stdin_ptr \<longrightarrow> (case m_heap m2 p of None \<Rightarrow> True | Some obj \<Rightarrow> typed m2 obj))"
  by (rule batch_run)
    (use objects_stay_typed [OF fresh_memory_ok pairs_argv_ok] in \<open>fastforce simp: fresh_memory_def split: option.split\<close>)

text \<open>
  C24. Nothing is lost during a run: every address allocated since the start can be reached
  from \<open>xargs\<close> along the pointers of the objects, and what was there before is as it was.
\<close>

theorem everything_reachable:
  assumes "mem_ok m" and "\<forall>a \<in> set argv. arg_ok a" and "argv \<noteq> []"
    and "xargs_create_mem E F argv m = Inr (x, m1)" and "run_from E x m1 m2"
  shows "if m_heap m p = None then m_heap m2 p = None \<or> reach m2 x p else m_heap m2 p = m_heap m p"
proof -
  obtain v A where c: "moves m {} m1 A" "owns_xargs F m1 x v A" using created_owns [OF assms(1-4)] by blast
  obtain v' A' where r: "moves m {} m2 A'" "owns_xargs F m2 x v' A'" using run_keeps [OF assms(5) c] by blast
  have "m_heap m p = None" if "p \<in> A'"
    using r(1) that mem_okD(3) [OF assms(1), of p] by (auto simp: moves_def)
  moreover have "m_heap m2 p = m_heap m p" if "p \<notin> A'" using r(1) that by (auto simp: moves_def)
  moreover have "reach m2 x p" if "p \<in> A'"
    using xargs_good [OF moves_ok(1) [OF r(1)] r(2)] that by (auto simp: good_def)
  ultimately show ?thesis by (cases "p \<in> A'") auto
qed

theorem everything_reachable_witness:
  "\<exists>x m1 m2. xargs_create_mem plain_host (only_stdin pairs_input) pairs_argv fresh_memory = Inr (x, m1)
     \<and> put_all (\<lambda>m op. exec_op plain_host x op m) m1 batch_ops = Inr m2
     \<and> (\<forall>p. p \<noteq> stdin_ptr \<longrightarrow> m_heap m2 p = None \<or> reach m2 x p)"
proof -
  obtain x m1 m2 where r: "xargs_create_mem plain_host (only_stdin pairs_input) pairs_argv fresh_memory = Inr (x, m1)"
    "put_all (\<lambda>m op. exec_op plain_host x op m) m1 batch_ops = Inr m2" "run_from plain_host x m1 m2"
    by (rule batch_run)
  from everything_reachable [OF fresh_memory_ok pairs_argv_ok r(1,3)]
  have "p \<noteq> stdin_ptr \<Longrightarrow> m_heap m2 p = None \<or> reach m2 x p" for p by (simp add: fresh_memory_def split: if_splits)
  with r show ?thesis by blast
qed

text \<open>
  C25. After any run \<open>xargs_destroy\<close> succeeds and releases everything that was allocated since
  the start, each address once, the input stream included unless it is the standard input:
  the memory is exactly as it was.
\<close>

theorem destroy_restores_memory:
  assumes "mem_ok m" and "\<forall>a \<in> set argv. arg_ok a" and "argv \<noteq> []"
    and "xargs_create_mem E F argv m = Inr (x, m1)" and "run_from E x m1 m2"
  shows "\<exists>m3. xargs_destroy x m2 = Inr m3 \<and> m_heap m3 = m_heap m"
proof -
  obtain v A where c: "moves m {} m1 A" "owns_xargs F m1 x v A" using created_owns [OF assms(1-4)] by blast
  obtain v' A' where r: "moves m {} m2 A'" "owns_xargs F m2 x v' A'" using run_keeps [OF assms(5) c] by blast
  from xargs.releases [OF moves_ok(1) [OF r(1)] r(2)] obtain m3 where
    "xargs_destroy x m2 = Inr m3" "moves m2 A' m3 {}" by blast
  with moves_restored [OF moves_trans [OF r(1)]] show ?thesis by blast
qed

theorem destroy_restores_memory_witness:
  "\<exists>x m1 m2 m3. xargs_create_mem plain_host (only_stdin pairs_input) pairs_argv fresh_memory = Inr (x, m1)
     \<and> put_all (\<lambda>m op. exec_op plain_host x op m) m1 batch_ops = Inr m2
     \<and> xargs_destroy x m2 = Inr m3 \<and> m_heap m3 = m_heap fresh_memory"
  by (rule batch_run) (use destroy_restores_memory [OF fresh_memory_ok pairs_argv_ok] in blast)

end
