(* ===== verification/Spec2Isabelle.thy ===== *)
theory Spec2Isabelle
  imports Command_Properties Pool_Properties Memory_Properties
begin

text \<open>
  A verification development for phxargs, an implementation of \<^verbatim>\<open>xargs\<close> in C.

  \<^bold>\<open>The program.\<close> \<^verbatim>\<open>src/options.c\<close> parses the command line with \<open>getopt\<close> and applies the
  implications between options. \<^verbatim>\<open>src/xargs.c\<close> chooses a mode: the appending mode
  (\<^verbatim>\<open>src/appender_mode.c\<close>) collects input arguments behind the words of the command and runs it
  when the next argument would not fit, when enough lines were read, and at the end; the
  replacing mode (\<^verbatim>\<open>src/replacer_mode.c\<close>, \<open>-I\<close>) runs one command per token. Both work on
  \<^verbatim>\<open>src/xargs_mode.c\<close>, which owns a tokenizer (\<^verbatim>\<open>src/space_tokenizer.c\<close> or
  \<^verbatim>\<open>src/delim_tokenizer.c\<close>, behind the table of \<^verbatim>\<open>src/tokenizer.c\<close>, over \<^verbatim>\<open>src/buffer.c\<close>), a
  command (\<^verbatim>\<open>src/command.c\<close> over \<^verbatim>\<open>src/command_args.c\<close> and \<^verbatim>\<open>src/str.c\<close>) and a pool of child
  processes (\<^verbatim>\<open>src/process_pool.c\<close>). The tokenizer calls back into the command at every line end.

  \<^bold>\<open>Conventions.\<close> A call that may end the process is a function into a sum: \<open>Inl\<close> holds how it
  ended (\<open>Exit\<close> with status and diagnostic, \<open>Abort\<close> for a failed assertion, \<open>Undefined\<close> for
  undefined behaviour, \<open>Terminated\<close> for the default action of a signal), \<open>Inr\<close> the value. \<open>size_t\<close> is \<open>64 word\<close>, \<open>char\<close> is \<open>8 word\<close> (its
  signedness a parameter of the host), a C string is the list of its bytes without the NUL.
  An allocation is a block of cells that may be indeterminate; every access is checked. A
  structure is a record with the fields of the C structure, updated and returned.
  \<open>yields S m Q\<close> says that \<open>m\<close> returns a value with \<open>Q\<close> or stops in one of the ways \<open>S\<close>;
  \<open>copes E S n\<close> lets one proof per operation give both safety on every host (\<open>S\<close> contains
  the stops of failed allocations) and success on one that never runs short (\<open>S = {}\<close>).

  \<^bold>\<open>The model\<close>, in the order of the theories:
  \<^item> \<open>Prelude\<close>: machine types, \<open>rbind\<close>, \<open>yields\<close>, generic lemmas on words and lists.
  \<^item> \<open>Util\<close> (\<^verbatim>\<open>src/util.c\<close>): how the process stops, the host, blocks, allocation wrappers.
  \<^item> \<open>Growable\<close>: the locale of an array that grows by doubling, interpreted in \<open>Buffer\<close> (\<open>gb\<close>),
    \<open>Command_Args\<close> (\<open>ga\<close>) and \<open>Pool_Correct\<close> (\<open>gp\<close>).
  \<^item> \<open>Buffer\<close>, \<open>Str\<close>, \<open>Command_Args\<close>: \<^verbatim>\<open>src/buffer.c\<close>, \<^verbatim>\<open>src/str.c\<close>, \<^verbatim>\<open>src/command_args.c\<close>.
  \<^item> \<open>Tokenizer\<close>: \<^verbatim>\<open>src/tokenizer.c\<close>, input streams, and the locale \<open>tokenizing\<close>: a call of the
    tokenizer is one step of a pure lexer, which consumes input and whose tokens fit in it.
  \<^item> \<open>Space_Tokenizer\<close>, \<open>Delim_Tokenizer\<close>: the two tokenizers, their loops as recursion over the
    rest of the stream, their reference lexers, and the interpretations \<open>space\<close> and \<open>delim\<close>.
  \<^item> \<open>Getopt\<close>, \<open>Options\<close>: POSIX \<open>getopt\<close> and \<open>strtol\<close>, and \<^verbatim>\<open>src/options.c\<close>.
  \<^item> \<open>Host\<close>: processes, terminal and signals as a \<open>world\<close> with a log of events; which fork fails,
    how each command ends, the order of the waits, their interruptions, the arrival of signals
    and the dispositions inherited from the parent are fields of the world, over which the
    theorems quantify.
  \<^item> \<open>Command\<close> (\<^verbatim>\<open>src/command.c\<close>), \<open>Process_Pool\<close> (\<^verbatim>\<open>src/process_pool.c\<close>).
  \<^item> \<open>Xargs_Mode\<close> (\<^verbatim>\<open>src/xargs_mode.c\<close>, \<^verbatim>\<open>src/arg_source.c\<close>), with \<open>any\<close>, the interpretation of
    \<open>tokenizing\<close> for the table of operations; \<open>Appender_Mode\<close>, \<open>Replacer_Mode\<close>, \<open>Xargs\<close> (with
    \<^verbatim>\<open>src/main.c\<close>).

  \<^bold>\<open>The program on pointers.\<close> In the theories above a structure that owns another contains it. The
  \<open>Memory\<close> theories translate the same functions once more as they work on pointers, and say what
  values leave out: aliasing, who owns which object, and that \<open>free\<close> is called for each of them
  once. \<open>Memory\<close> has the C structures with their pointers (\<open>command_s\<close>, \<open>tokenizer_s\<close>, ...), a heap
  of objects, and \<open>malloc\<close>, \<open>calloc\<close>, \<open>realloc\<close>, \<open>free\<close>; a use of a freed or foreign pointer, a pointer
  to an object of another type and a second \<open>free\<close> are \<open>Undefined\<close>. A name \<open>f_mem\<close> is the C function
  \<open>f\<close> on pointers, where \<open>f\<close> is its model on values; \<open>f_destroy\<close> exists only on pointers.
  \<^item> Construction, growth and release: \<open>Memory_Arrays\<close> (\<^verbatim>\<open>src/buffer.c\<close>, \<^verbatim>\<open>src/command_args.c\<close>),
    \<open>Memory_Tokenizer\<close>, \<open>Memory_Command\<close>, \<open>Memory_Mode\<close> (\<^verbatim>\<open>src/xargs_mode.c\<close>, the two modes,
    \<^verbatim>\<open>src/process_pool.c\<close>, \<^verbatim>\<open>src/arg_source.c\<close>), \<open>Memory_Xargs\<close> (\<^verbatim>\<open>src/xargs.c\<close>, \<^verbatim>\<open>src/options.c\<close>).
  \<^item> The run: \<open>Memory_Reader\<close> (the two \<open>next_token\<close> functions; a token is a block and an offset, a
    pointer into the buffer that each user reads anew), \<open>Memory_Child\<close> (the limits of the command,
    and the child with its vector, on a copy of the memory), \<open>Memory_Pool\<close> (reaping, signals; the
    static counters are a record), \<open>Memory_Run\<close> (the operations of the mode, both loops, \<open>main_mem\<close>;
    a \<open>machine\<close> is the memory, what is left of the input files, and the counters).
  \<^item> \<open>owns_command m p c A\<close> and its siblings relate a pointer to the value it stands for and to its
    footprint \<open>A\<close>, the addresses it owns. The locale \<open>owner\<close> states what a destructor promises, that it
    frees the footprint and nothing else, and is interpreted for strings, buffers, argument lists,
    tokenizers, commands, pools, streams, modes and \<open>xargs\<close> (\<open>string\<close>, \<open>buf\<close>, \<open>args\<close>, \<open>toker\<close>, \<open>cmd\<close>,
    \<open>pool\<close>, \<open>src\<close>, \<open>mode\<close>, \<open>xargs\<close>). \<open>builds\<close>, \<open>updates\<close> and \<open>follows\<close> say that an operation on pointers
    follows the one on values. \<open>Memory_Reading\<close> shows this for a call of the tokenizer,
    \<open>Memory_Running\<close> for the mode, the loops and \<open>main\<close> (relation \<open>serving\<close>): the theorems on values
    hold of the program on pointers.
  \<^item> \<open>Memory_Steps\<close>: the operations that change the object graph (\<open>exec_op\<close> in memory, \<open>value_op\<close> on
    values, with assignments to fields that are not pointers as one more operation), the step
    relation \<open>run_from\<close> of any sequence of them, and the types of all pointers.

  \<^bold>\<open>The specification\<close> is a pure function. \<open>Batching\<close> defines \<open>plan\<close>, which divides the tokens
  into batches under the limits of \<open>-n\<close>, \<open>-L\<close>, \<open>-s\<close> and \<open>-x\<close>, and \<open>run_plan\<close>, which adds the
  end of the input and \<open>-r\<close>. \<open>Program_Correct.verdict\<close> combines the lexer that the options
  select, the plan (or, with \<open>-I\<close>, the substitution) and the words of the command into the
  list of commands to start and the diagnostic to stop with. \<open>Child_Correct.courses\<close> says what
  becomes of the commands started, from the answers at the terminal and the way each command
  ends on the host: with which status every child ends, which commands are executed, what is
  traced and what is left of the terminal.

  \<^bold>\<open>The lemmas.\<close> \<open>Command_Correct\<close>: the length accounting, substitution, argument vector and
  trace. \<open>Child_Correct\<close>: a child, with or without trace and prompt, takes the course of the
  specification. \<open>Pool_Correct\<close>: the table agrees with the children of the world, the status is
  the worst outcome of the reaped ones, \<open>halt\<close> holds once one of them exited with 255.
  \<open>Mode_Correct\<close>: reading a token is a step of the lexer, the limit checks are those of the
  plan, running the command starts it once. \<open>Appender_Correct\<close> and \<open>Replacer_Correct\<close>: the
  loops end and follow their plans, by induction on the rest of the input.
  \<open>Command_Create\<close>: the strings in the options are parts of \<open>argv\<close>, the new command.
  \<open>Program_Correct.main_yields\<close> puts these together for \<open>main\<close>.

  \<^bold>\<open>The properties\<close> stand in the theories of their component and in \<open>Program_Properties\<close>,
  \<open>Pool_Properties\<close>, \<open>Command_Properties\<close> and \<open>Memory_Properties\<close>, numbered C1, C2, ... by importance: \<open>main\<close> refines
  its specification and is safe on every host; no argument is lost; \<open>-n\<close>, \<open>-L\<close>, \<open>-s\<close> and \<open>-I\<close>
  do what they promise; the tokenizers refine their lexers and round-trip; the exit status
  is the most severe outcome; the number of children is bounded; loops terminate; the program
  on pointers follows the one on values, its objects stay typed and reachable, and all are
  freed once at the end; and behaviours that contradict the documentation or the intent of the code.

  \<^bold>\<open>Bounds.\<close> Sizes are exact as long as they stay below \<open>2 ^ 57\<close> to \<open>2 ^ 62\<close>; \<open>run_bounds\<close> asks for
  an input below \<open>2 ^ 54\<close> bytes, arguments and environment below \<open>2 ^ 56\<close>, limits of the host
  below \<open>2 ^ 57\<close>, at most \<open>2 ^ 58\<close> processes, and with \<open>-I\<close> that the template times the input
  stays below \<open>2 ^ 57\<close>. The counters of the signal handlers are \<open>sig_atomic_t\<close>, 32 bits and signed:
  their increments, their differences and the sum of type \<open>long\<close> that follows are checked
  (\<open>sig_atomic\<close>, \<open>signed_long\<close>), an overflow is \<open>Undefined\<close>, and \<open>run_bounds\<close> admits at most
  \<open>2 ^ 31 - 1\<close> signals of each kind, the most that do not overflow. One byte of input pays for the four units of memory it may
  need (\<open>budget\<close>), so nothing the run builds can reach a bound first. No fuel is used: the
  two loops over the input are \<open>partial_function\<close>s, in which not returning is \<open>None\<close>, and are
  proved to return, on values and on pointers; all other loops are total functions with a
  measure.

  \<^bold>\<open>Not modelled.\<close> The text of messages on standard error (only the trace and which diagnostic);
  \<open>SA_RESTART\<close> (a wait may be interrupted in the model, which the code copes with); signals
  arrive at the reads of the counters. Between its
  allocation and the call of \<open>write\<close>, the buffer of the trace is filled as a value and stored back
  once. On values, the conversions between a tokenizer or mode and its base are constructors. A child is run at its fork, so that children interact only through the
  terminal in the order of the forks, and every command ends. A child that stops with
  undefined behaviour is reported as such, and shown not to exist. The tests, the build
  files and the man page are outside the model.
\<close>

end
